(* ===== verification/Prelude.thy ===== *)
theory Prelude
  imports Main "HOL-Library.Word" "HOL-Library.Sublist" "HOL-Library.Code_Target_Nat"
begin

text \<open>
  What the components share: the part of Go's standard library that the service uses
  (\<open>time\<close>, \<open>strings\<close>, \<open>strconv\<close>), the result type of a fallible Go function, and the
  collections of simplification rules that the component proofs call on.

  \<^item> A Go \<open>string\<close> is a byte sequence; here it is a \<^typ>\<open>string\<close>, whose characters are
    exactly the 256 bytes.
  \<^item> A Go \<open>time.Time\<close> is an instant: an integer number of nanoseconds since the Unix epoch.
    The zero value of \<open>time.Time\<close> is the first instant of year 1.
  \<^item> A Go \<open>time.Duration\<close> is a signed 64-bit number of nanoseconds; \<open>Time.Sub\<close> saturates.
  \<^item> A function returning \<open>(T, error)\<close> returns \<open>err + T\<close>: \<open>Inl\<close> is the error branch.
\<close>

named_theorems go_time \<open>unfolding of the time operations\<close>
named_theorems go_str \<open>facts on the string operations\<close>

section \<open>Instants and durations\<close>

type_synonym gotime = int
type_synonym duration = int

definition second_ns :: duration where "second_ns = 1000000000"
definition millisecond_ns :: duration where "millisecond_ns = 1000000"
definition minute_ns :: duration where "minute_ns = 60 * second_ns"
definition hour_ns :: duration where "hour_ns = 60 * minute_ns"

lemmas duration_units [go_time] = second_ns_def millisecond_ns_def minute_ns_def hour_ns_def

text \<open>\<open>math.MinInt64\<close> and \<open>math.MaxInt64\<close>, and two's complement wrap-around at 64 bits.\<close>

definition min_int64 :: int where "min_int64 = - (2 ^ 63)"
definition max_int64 :: int where "max_int64 = 2 ^ 63 - 1"
definition wrap64 :: "int \<Rightarrow> int" where
  "wrap64 i = (i + 2 ^ 63) mod 2 ^ 64 - 2 ^ 63"

lemma wrap64_id: "min_int64 \<le> i \<Longrightarrow> i \<le> max_int64 \<Longrightarrow> wrap64 i = i"
  by (simp add: wrap64_def min_int64_def max_int64_def)

lemma wrap64_range: "min_int64 \<le> wrap64 i \<and> wrap64 i \<le> max_int64"
proof -
  have "0 \<le> (i + 2 ^ 63) mod 2 ^ 64" "(i + 2 ^ 63) mod 2 ^ 64 < 2 ^ 64"
    by simp_all
  then show ?thesis
    by (simp add: wrap64_def min_int64_def max_int64_def)
qed

text \<open>\<open>time.Time{}\<close>, \<open>IsZero\<close>, \<open>Before\<close>, \<open>After\<close>, \<open>Add\<close>, \<open>Sub\<close> (saturating), \<open>UnixMilli\<close> and
  \<open>Truncate(time.Second)\<close>.\<close>

definition zero_time :: gotime where "zero_time = - 62135596800 * 1000000000"
definition time_IsZero :: "gotime \<Rightarrow> bool" where "time_IsZero t \<longleftrightarrow> t = zero_time"
definition time_Before :: "gotime \<Rightarrow> gotime \<Rightarrow> bool" where "time_Before a b \<longleftrightarrow> a < b"
definition time_After :: "gotime \<Rightarrow> gotime \<Rightarrow> bool" where "time_After a b \<longleftrightarrow> b < a"
definition time_Add :: "gotime \<Rightarrow> duration \<Rightarrow> gotime" where "time_Add t d = t + d"
definition time_Sub :: "gotime \<Rightarrow> gotime \<Rightarrow> duration" where
  "time_Sub a b = max min_int64 (min max_int64 (a - b))"
definition unix_milli :: "gotime \<Rightarrow> int" where "unix_milli t = t div millisecond_ns"
definition from_unix_milli :: "int \<Rightarrow> gotime" where "from_unix_milli m = m * millisecond_ns"
definition truncate_second :: "gotime \<Rightarrow> gotime" where
  "truncate_second t = t - t mod second_ns"

lemmas time_ops [go_time] =
  time_IsZero_def time_Before_def time_After_def time_Add_def

text \<open>Saturation does not matter for comparisons against a duration that fits.\<close>

lemma time_Sub_ge_iff:
  "min_int64 < d \<Longrightarrow> d \<le> max_int64 \<Longrightarrow> d \<le> time_Sub a b \<longleftrightarrow> d \<le> a - b"
  by (auto simp: time_Sub_def)

lemma time_Sub_less_iff:
  "min_int64 < d \<Longrightarrow> d \<le> max_int64 \<Longrightarrow> time_Sub a b < d \<longleftrightarrow> a - b < d"
  by (auto simp: time_Sub_def)

lemma time_Sub_gt_iff:
  "min_int64 \<le> d \<Longrightarrow> d < max_int64 \<Longrightarrow> d < time_Sub a b \<longleftrightarrow> d < a - b"
  by (auto simp: time_Sub_def)

lemma time_Sub_self [simp]: "time_Sub t t = 0"
  by (simp add: time_Sub_def min_int64_def max_int64_def)

lemma unix_milli_mono: "a \<le> b \<Longrightarrow> unix_milli a \<le> unix_milli b"
  by (simp add: unix_milli_def millisecond_ns_def zdiv_mono1)

section \<open>Results of fallible functions\<close>

type_synonym ('e, 'a) go_result = "'e + 'a"

fun res_bind :: "'e + 'a \<Rightarrow> ('a \<Rightarrow> 'e + 'b) \<Rightarrow> 'e + 'b" where
  "res_bind (Inl e) f = Inl e"
| "res_bind (Inr x) f = f x"

lemma res_bind_Inr_iff: "res_bind r f = Inr y \<longleftrightarrow> (\<exists>x. r = Inr x \<and> f x = Inr y)"
  by (cases r) auto

lemma res_bind_Inl_iff: "res_bind r f = Inl e \<longleftrightarrow> r = Inl e \<or> (\<exists>x. r = Inr x \<and> f x = Inl e)"
  by (cases r) auto

end
