(* ===== verification/Classifier.thy ===== *)
theory Classifier
  imports Prelude
begin

text \<open>
  \<open>internal/modem/connectivity/classifier.go\<close>: the connectivity state that the dashboard
  reads, with its transition hysteresis. The classifier's clock (\<open>c.now()\<close>) is the argument
  \<open>now\<close> of each operation.
\<close>

section \<open>States and constants\<close>

datatype conn_state =
  Unknown | Connected | Disconnected | Disabled | NoSIM | Denied | Failed

definition StatusConnected :: string where "StatusConnected = ''connected''"
definition SIMMissing :: string where "SIMMissing = ''missing''"
definition SIMInactive :: string where "SIMInactive = ''inactive''"
definition RegistrationDenied :: string where "RegistrationDenied = ''denied''"
definition RegistrationFailed :: string where "RegistrationFailed = ''failed''"

definition OnlineDebounce :: duration where "OnlineDebounce = 60 * second_ns"
definition OfflineDebounce :: duration where "OfflineDebounce = 3 * minute_ns"
definition DeniedDebounce :: duration where "DeniedDebounce = 60 * second_ns"

lemmas debounce_defs = OnlineDebounce_def OfflineDebounce_def DeniedDebounce_def
lemmas conn_string_defs = StatusConnected_def SIMMissing_def SIMInactive_def
  RegistrationDenied_def RegistrationFailed_def

record Inputs =
  inModemStatus :: string
  inSIMState :: string
  inRegistration :: string
  inEnabled :: bool
  inHardFailed :: bool

record classifier =
  cl_committed :: conn_state
  cl_pending :: conn_state
  cl_pendingSince :: gotime

definition classifier_New :: classifier where
  "classifier_New = \<lparr>cl_committed = Unknown, cl_pending = Unknown, cl_pendingSince = zero_time\<rparr>"

section \<open>Operations\<close>

definition rawState :: "Inputs \<Rightarrow> conn_state" where
  "rawState i =
     (if \<not> inEnabled i then Disabled
      else if inHardFailed i then Failed
      else if inSIMState i = SIMMissing \<or> inSIMState i = SIMInactive then NoSIM
      else if inRegistration i = RegistrationDenied \<or> inRegistration i = RegistrationFailed
        then Denied
      else if inModemStatus i = StatusConnected then Connected
      else Disconnected)"

fun commitDelay :: "conn_state \<Rightarrow> conn_state \<Rightarrow> duration" where
  "commitDelay from Disabled = 0"
| "commitDelay from NoSIM = 0"
| "commitDelay from Failed = 0"
| "commitDelay from Denied = DeniedDebounce"
| "commitDelay from Connected = OnlineDebounce"
| "commitDelay from Disconnected = (if from = Connected then OfflineDebounce else 0)"
| "commitDelay from Unknown = 0"

definition Classify :: "gotime \<Rightarrow> Inputs \<Rightarrow> classifier \<Rightarrow> conn_state \<times> classifier" where
  "Classify now i c =
     (let raw = rawState i in
      if cl_committed c = Unknown then
        (raw, c\<lparr>cl_committed := raw, cl_pending := raw, cl_pendingSince := now\<rparr>)
      else
        let c1 = (if raw \<noteq> cl_pending c then c\<lparr>cl_pending := raw, cl_pendingSince := now\<rparr> else c) in
        if raw = cl_committed c1 then (cl_committed c1, c1)
        else if time_Sub now (cl_pendingSince c1) \<ge> commitDelay (cl_committed c1) raw then
          (raw, c1\<lparr>cl_committed := raw\<rparr>)
        else (cl_committed c1, c1))"

definition Committed :: "classifier \<Rightarrow> conn_state" where
  "Committed c = cl_committed c"

definition IsConnected :: "classifier \<Rightarrow> bool" where
  "IsConnected c \<longleftrightarrow> cl_committed c = Connected"

definition Force :: "gotime \<Rightarrow> conn_state \<Rightarrow> classifier \<Rightarrow> classifier" where
  "Force now s c = c\<lparr>cl_committed := s, cl_pending := s, cl_pendingSince := now\<rparr>"


section \<open>Runs\<close>

text \<open>
  What happens to a classifier over its life: observations (\<open>Classify\<close>, one per monitor tick)
  and overrides (\<open>Force\<close>, when the service powers the modem off).
\<close>

datatype conn_event = Observe gotime Inputs | ForceTo gotime conn_state

fun event_time :: "conn_event \<Rightarrow> gotime" where
  "event_time (Observe t i) = t"
| "event_time (ForceTo t s) = t"

fun event_state :: "conn_event \<Rightarrow> conn_state" where
  "event_state (Observe t i) = rawState i"
| "event_state (ForceTo t s) = s"

fun conn_step :: "conn_event \<Rightarrow> classifier \<Rightarrow> classifier" where
  "conn_step (Observe t i) c = snd (Classify t i c)"
| "conn_step (ForceTo t s) c = Force t s c"

fun conn_run :: "conn_event list \<Rightarrow> classifier \<Rightarrow> classifier" where
  "conn_run [] c = c"
| "conn_run (e # es) c = conn_run es (conn_step e c)"

lemma conn_run_append [simp]: "conn_run (es @ fs) c = conn_run fs (conn_run es c)"
  by (induction es arbitrary: c) auto

lemma Classify_result: "fst (Classify t i c) = cl_committed (snd (Classify t i c))"
  by (simp add: Classify_def Let_def)

lemma rawState_known: "rawState i \<noteq> Unknown"
  by (simp add: rawState_def)

text \<open>After an observation the pending state is what was observed.\<close>

lemma Classify_pending: "cl_pending (snd (Classify t i c)) = rawState i"
  by (simp add: Classify_def Let_def)

lemma Classify_pendingSince:
  "cl_pendingSince (snd (Classify t i c)) =
     (if cl_committed c = Unknown \<or> rawState i \<noteq> cl_pending c then t else cl_pendingSince c)"
  by (simp add: Classify_def Let_def)

lemma Classify_committed:
  "cl_committed (snd (Classify t i c)) =
     (if cl_committed c = Unknown then rawState i
      else if rawState i = cl_committed c then cl_committed c
      else if time_Sub t (cl_pendingSince (snd (Classify t i c)))
                \<ge> commitDelay (cl_committed c) (rawState i) then rawState i
      else cl_committed c)"
  by (simp add: Classify_def Let_def)

lemmas Classify_fields = Classify_pending Classify_pendingSince Classify_committed

lemma conn_step_pending: "cl_pending (conn_step e c) = event_state e"
  by (cases e) (simp_all add: Classify_pending Force_def)

section \<open>Evidence: why a state is pending\<close>

text \<open>
  \<open>evidence es s t\<close>: the events of \<open>es\<close> end with an unbroken stretch that starts at instant \<open>t\<close>
  and throughout which the classifier saw only state \<open>s\<close>.
\<close>

definition evidence :: "conn_event list \<Rightarrow> conn_state \<Rightarrow> gotime \<Rightarrow> bool" where
  "evidence es s t \<longleftrightarrow>
     (\<exists>pre suf. es = pre @ suf \<and> suf \<noteq> [] \<and> event_time (hd suf) = t
        \<and> (\<forall>e \<in> set suf. event_state e = s))"

lemma evidence_single: "evidence (es @ [e]) (event_state e) (event_time e)"
  unfolding evidence_def by (rule exI [of _ es], rule exI [of _ "[e]"]) simp

lemma evidence_snoc:
  assumes "evidence es s t" and "event_state e = s"
  shows "evidence (es @ [e]) s t"
proof -
  from assms(1) obtain pre suf where
    "es = pre @ suf" "suf \<noteq> []" "event_time (hd suf) = t" "\<forall>e \<in> set suf. event_state e = s"
    unfolding evidence_def by blast
  with assms(2) show ?thesis
    unfolding evidence_def
    by (intro exI [of _ pre] exI [of _ "suf @ [e]"]) auto
qed

lemma conn_run_evidence:
  assumes "es \<noteq> []"
  shows "evidence es (cl_pending (conn_run es classifier_New))
           (cl_pendingSince (conn_run es classifier_New))"
  using assms
proof (induction es rule: rev_induct)
  case Nil
  then show ?case by simp
next
  case (snoc e es)
  let ?c = "conn_run es classifier_New"
  show ?case
  proof (cases e)
    case (ForceTo t s)
    then show ?thesis using evidence_single [of es e] by (simp add: Force_def)
  next
    case (Observe t i)
    show ?thesis
    proof (cases "cl_committed ?c = Unknown \<or> rawState i \<noteq> cl_pending ?c")
      case True
      then have "cl_pendingSince (conn_step e ?c) = t"
        using Observe by (auto simp: Classify_pendingSince)
      then show ?thesis
        using evidence_single [of es e] Observe by (simp add: Classify_pending)
    next
      case False
      then have "es \<noteq> []" by (auto simp: classifier_New_def)
      with snoc.IH False have "evidence es (rawState i) (cl_pendingSince ?c)" by auto
      with False Observe show ?thesis
        by (simp add: Classify_pending Classify_pendingSince evidence_snoc)
    qed
  qed
qed

lemma Classify_change:
  assumes "Classify t i c = (s, c')" and "cl_committed c \<noteq> Unknown" and "s \<noteq> cl_committed c"
  shows "s = rawState i \<and> commitDelay (cl_committed c) s \<le> time_Sub t (cl_pendingSince c')
         \<and> cl_committed c' = s"
proof -
  let ?c1 = "if rawState i \<noteq> cl_pending c
    then c\<lparr>cl_pending := rawState i, cl_pendingSince := t\<rparr> else c"
  have "Classify t i c =
    (if rawState i = cl_committed c then (cl_committed c, ?c1)
     else if commitDelay (cl_committed c) (rawState i) \<le> time_Sub t (cl_pendingSince ?c1)
       then (rawState i, ?c1\<lparr>cl_committed := rawState i\<rparr>)
     else (cl_committed c, ?c1))"
    using assms(2) by (simp add: Classify_def Let_def)
  with assms(1,3) show ?thesis by (auto split: if_split_asm)
qed

section \<open>Properties\<close>

lemma commitDelay_bounds:
  "min_int64 < commitDelay s s' \<and> commitDelay s s' \<le> max_int64 \<and> 0 \<le> commitDelay s s'"
  by (cases s') (auto simp: debounce_defs go_time min_int64_def max_int64_def)

text \<open>
  C9. The committed state never changes on a glitch. When an observation at instant \<open>now\<close> moves
  the committed state of a classifier with any history \<open>es\<close>, from a known state to \<open>s\<close>, then the
  history ends with an unbroken stretch of observations of \<open>s\<close> that is at least
  \<open>commitDelay\<close> long.
\<close>

theorem committed_change_needs_evidence:
  assumes "cl_committed (conn_run es classifier_New) \<noteq> Unknown"
    and "Classify now i (conn_run es classifier_New) = (s, c')"
    and "s \<noteq> cl_committed (conn_run es classifier_New)"
  shows "\<exists>since. evidence (es @ [Observe now i]) s since
           \<and> commitDelay (cl_committed (conn_run es classifier_New)) s \<le> now - since"
proof -
  let ?c = "conn_run es classifier_New"
  note step = Classify_change [OF assms(2,1,3)]
  have c': "c' = conn_run (es @ [Observe now i]) classifier_New"
    using assms(2) by simp
  have "commitDelay (cl_committed ?c) s \<le> now - cl_pendingSince c'"
    using step commitDelay_bounds time_Sub_ge_iff by blast
  moreover have "evidence (es @ [Observe now i]) s (cl_pendingSince c')"
    using conn_run_evidence [of "es @ [Observe now i]"] c' step assms(2)
    by (metis Classify_pending append_is_Nil_conv list.distinct(1) snd_conv)
  ultimately show ?thesis by blast
qed

definition sample_inputs :: "string \<Rightarrow> Inputs" where
  "sample_inputs st = \<lparr>inModemStatus = st, inSIMState = ''present'',
     inRegistration = ''home'', inEnabled = True, inHardFailed = False\<rparr>"

lemma committed_change_needs_evidence_witness:
  "\<exists>since. evidence ([Observe 0 (sample_inputs ''connected''),
                      Observe second_ns (sample_inputs ''disconnected'')]
                     @ [Observe (181 * second_ns) (sample_inputs ''disconnected'')])
             Disconnected since
           \<and> commitDelay Connected Disconnected \<le> 181 * second_ns - since"
proof -
  let ?es = "[Observe 0 (sample_inputs ''connected''),
              Observe second_ns (sample_inputs ''disconnected'')]"
  have c: "cl_committed (conn_run ?es classifier_New) = Connected"
    and p: "fst (Classify (181 * second_ns) (sample_inputs ''disconnected'')
              (conn_run ?es classifier_New)) = Disconnected"
    by (simp_all add: Classify_def classifier_New_def rawState_def sample_inputs_def Let_def
        conn_string_defs debounce_defs go_time time_Sub_def min_int64_def max_int64_def)
  obtain c' where cl: "Classify (181 * second_ns) (sample_inputs ''disconnected'')
      (conn_run ?es classifier_New) = (Disconnected, c')"
    using p by (metis prod.collapse)
  from committed_change_needs_evidence [OF _ cl, unfolded c] show ?thesis by simp
qed

lemma steady_run:
  assumes "cl_committed c \<in> {k, s}" and "cl_pending c = s" and "cl_pendingSince c \<le> t0"
    and "k \<noteq> Unknown" and "s \<noteq> Unknown" and "\<forall>(t, i) \<in> set obs. rawState i = s"
  shows "let c' = conn_run (map (\<lambda>(t, i). Observe t i) obs) c in
     cl_committed c' \<in> {k, s} \<and> cl_pending c' = s \<and> cl_pendingSince c' \<le> t0"
  using assms
proof (induction obs arbitrary: c)
  case Nil
  then show ?case by simp
next
  case (Cons o1 obs)
  obtain t i where o1: "o1 = (t, i)" by (cases o1)
  let ?c = "snd (Classify t i c)"
  have "cl_committed ?c \<in> {k, s}" "cl_pending ?c = s" "cl_pendingSince ?c \<le> t0"
    using Cons.prems o1 by (auto simp: Classify_pending Classify_pendingSince Classify_committed)
  with Cons.IH [of ?c] Cons.prems o1 show ?case by simp
qed

text \<open>
   A state that persists is committed: once the observations show only \<open>s\<close>, from an instant
  \<open>t0\<close> on that is not before the pending stretch began, then after \<open>commitDelay\<close> the committed state is \<open>s\<close>.
\<close>

theorem persistent_state_commits:
  assumes "cl_committed c \<noteq> Unknown"
    and "cl_pendingSince c \<le> t0"
    and "rawState i0 = s" and "rawState i1 = s"
    and "\<forall>(t, i) \<in> set obs. rawState i = s"
    and "commitDelay (cl_committed c) s \<le> t1 - t0"
  shows "cl_committed (conn_run (Observe t0 i0 # map (\<lambda>(t, i). Observe t i) obs
            @ [Observe t1 i1]) c) = s"
proof -
  let ?k = "cl_committed c" and ?c0 = "snd (Classify t0 i0 c)"
  let ?c1 = "conn_run (map (\<lambda>(t, i). Observe t i) obs) ?c0"
  have s: "s \<noteq> Unknown" using assms(3) rawState_known by blast
  have "cl_committed ?c0 \<in> {?k, s}" "cl_pending ?c0 = s" "cl_pendingSince ?c0 \<le> t0"
    using assms by (auto simp: Classify_pending Classify_pendingSince Classify_committed)
  from steady_run [OF this assms(1) s assms(5)]
  have c1: "cl_committed ?c1 \<in> {?k, s}" "cl_pending ?c1 = s" "cl_pendingSince ?c1 \<le> t0"
    by (simp_all add: Let_def)
  have "commitDelay ?k s \<le> t1 - cl_pendingSince ?c1" using assms(6) c1(3) by linarith
  then have "commitDelay ?k s \<le> time_Sub t1 (cl_pendingSince ?c1)"
    using commitDelay_bounds time_Sub_ge_iff by blast
  with c1 assms(1,4) s have "cl_committed (snd (Classify t1 i1 ?c1)) = s"
    by (auto simp: Classify_committed Classify_pendingSince)
  then show ?thesis by simp
qed

theorem persistent_state_commits_witness:
  "cl_committed (conn_run (Observe 0 (sample_inputs ''disconnected'')
      # map (\<lambda>(t, i). Observe t i) [(second_ns, sample_inputs ''disconnected'')]
      @ [Observe (180 * second_ns) (sample_inputs ''disconnected'')])
      (Force 0 Connected classifier_New)) = Disconnected"
  by (rule persistent_state_commits)
     (simp_all add: Force_def rawState_def sample_inputs_def conn_string_defs debounce_defs go_time)

end
