(* ===== verification/MM_Types.thy ===== *)
theory MM_Types
  imports Prelude
begin

unbundle bit_operations_syntax

text \<open>
  \<open>internal/mm/types.go\<close>: ModemManager's enumerations and their text forms. A \<open>uint32\<close> or \<open>int32\<close>
  is a \<^typ>\<open>32 word\<close>; the signed constants are written in two's complement (\<open>-1\<close> is the word
  of all ones).
\<close>

type_synonym u32 = "32 word"
type_synonym u64 = "64 word"
type_synonym i32 = "32 word"

section \<open>Enumerations\<close>

definition MMModemStateFailed :: i32 where "MMModemStateFailed = - 1"
definition MMModemStateUnknown :: i32 where "MMModemStateUnknown = 0"
definition MMModemStateInitializing :: i32 where "MMModemStateInitializing = 1"
definition MMModemStateLocked :: i32 where "MMModemStateLocked = 2"
definition MMModemStateDisabled :: i32 where "MMModemStateDisabled = 3"
definition MMModemStateDisabling :: i32 where "MMModemStateDisabling = 4"
definition MMModemStateEnabling :: i32 where "MMModemStateEnabling = 5"
definition MMModemStateEnabled :: i32 where "MMModemStateEnabled = 6"
definition MMModemStateSearching :: i32 where "MMModemStateSearching = 7"
definition MMModemStateRegistered :: i32 where "MMModemStateRegistered = 8"
definition MMModemStateDisconnecting :: i32 where "MMModemStateDisconnecting = 9"
definition MMModemStateConnecting :: i32 where "MMModemStateConnecting = 10"
definition MMModemStateConnected :: i32 where "MMModemStateConnected = 11"

lemmas modem_state_defs =
  MMModemStateFailed_def MMModemStateUnknown_def MMModemStateInitializing_def
  MMModemStateLocked_def MMModemStateDisabled_def MMModemStateDisabling_def
  MMModemStateEnabling_def MMModemStateEnabled_def MMModemStateSearching_def
  MMModemStateRegistered_def MMModemStateDisconnecting_def MMModemStateConnecting_def
  MMModemStateConnected_def

definition MMModemPowerStateUnknown :: i32 where "MMModemPowerStateUnknown = 0"
definition MMModemPowerStateOff :: i32 where "MMModemPowerStateOff = 1"
definition MMModemPowerStateLow :: i32 where "MMModemPowerStateLow = 2"
definition MMModemPowerStateOn :: i32 where "MMModemPowerStateOn = 3"

lemmas power_state_defs = MMModemPowerStateUnknown_def MMModemPowerStateOff_def
  MMModemPowerStateLow_def MMModemPowerStateOn_def

definition RegistrationStateIdle :: u32 where "RegistrationStateIdle = 0"
definition RegistrationStateHome :: u32 where "RegistrationStateHome = 1"
definition RegistrationStateSearching :: u32 where "RegistrationStateSearching = 2"
definition RegistrationStateDenied :: u32 where "RegistrationStateDenied = 3"
definition RegistrationStateUnknown :: u32 where "RegistrationStateUnknown = 4"
definition RegistrationStateRoaming :: u32 where "RegistrationStateRoaming = 5"

lemmas registration_state_defs = RegistrationStateIdle_def RegistrationStateHome_def
  RegistrationStateSearching_def RegistrationStateDenied_def RegistrationStateUnknown_def
  RegistrationStateRoaming_def

definition AccessTechnologyUnknown :: u32 where "AccessTechnologyUnknown = 0"
definition AccessTechnologyGsm :: u32 where "AccessTechnologyGsm = push_bit 1 1"
definition AccessTechnologyGprs :: u32 where "AccessTechnologyGprs = push_bit 3 1"
definition AccessTechnologyEdge :: u32 where "AccessTechnologyEdge = push_bit 4 1"
definition AccessTechnologyUmts :: u32 where "AccessTechnologyUmts = push_bit 5 1"
definition AccessTechnologyHsdpa :: u32 where "AccessTechnologyHsdpa = push_bit 6 1"
definition AccessTechnologyHsupa :: u32 where "AccessTechnologyHsupa = push_bit 7 1"
definition AccessTechnologyHspa :: u32 where "AccessTechnologyHspa = push_bit 8 1"
definition AccessTechnologyHspaPlus :: u32 where "AccessTechnologyHspaPlus = push_bit 9 1"
definition AccessTechnologyLte :: u32 where "AccessTechnologyLte = push_bit 14 1"
definition AccessTechnology5gnr :: u32 where "AccessTechnology5gnr = push_bit 15 1"

lemmas access_technology_defs = AccessTechnologyUnknown_def AccessTechnologyGsm_def
  AccessTechnologyGprs_def AccessTechnologyEdge_def AccessTechnologyUmts_def
  AccessTechnologyHsdpa_def AccessTechnologyHsupa_def AccessTechnologyHspa_def
  AccessTechnologyHspaPlus_def AccessTechnologyLte_def AccessTechnology5gnr_def

definition LocationSource3gppLacCi :: u32 where "LocationSource3gppLacCi = push_bit 0 1"
definition LocationSourceGpsRaw :: u32 where "LocationSourceGpsRaw = push_bit 1 1"
definition LocationSourceGpsNmea :: u32 where "LocationSourceGpsNmea = push_bit 2 1"
definition LocationSourceGpsUnmanaged :: u32 where "LocationSourceGpsUnmanaged = push_bit 4 1"

lemmas location_source_defs = LocationSource3gppLacCi_def LocationSourceGpsRaw_def
  LocationSourceGpsNmea_def LocationSourceGpsUnmanaged_def

definition FacilitySim :: u32 where "FacilitySim = push_bit 0 1"

definition LockUnknown :: u32 where "LockUnknown = 0"
definition LockNone :: u32 where "LockNone = 1"
definition LockSimPin :: u32 where "LockSimPin = 2"
definition LockSimPin2 :: u32 where "LockSimPin2 = 3"
definition LockSimPuk :: u32 where "LockSimPuk = 4"
definition LockSimPuk2 :: u32 where "LockSimPuk2 = 5"
definition LockPhSimPin :: u32 where "LockPhSimPin = 6"
definition LockPhFsimPin :: u32 where "LockPhFsimPin = 7"
definition LockPhNetPin :: u32 where "LockPhNetPin = 9"
definition LockPhSpPin :: u32 where "LockPhSpPin = 11"
definition LockPhCorpPin :: u32 where "LockPhCorpPin = 13"

lemmas lock_defs = LockUnknown_def LockNone_def LockSimPin_def LockSimPin2_def LockSimPuk_def
  LockSimPuk2_def LockPhSimPin_def LockPhFsimPin_def LockPhNetPin_def LockPhSpPin_def
  LockPhCorpPin_def

definition SmsStateUnknown :: u32 where "SmsStateUnknown = 0"
definition SmsStateStored :: u32 where "SmsStateStored = 1"
definition SmsStateReceiving :: u32 where "SmsStateReceiving = 2"
definition SmsStateReceived :: u32 where "SmsStateReceived = 3"
definition SmsStateSending :: u32 where "SmsStateSending = 4"
definition SmsStateSent :: u32 where "SmsStateSent = 5"

definition SmsPduTypeUnknown :: u32 where "SmsPduTypeUnknown = 0"
definition SmsPduTypeDeliver :: u32 where "SmsPduTypeDeliver = 1"
definition SmsPduTypeSubmit :: u32 where "SmsPduTypeSubmit = 2"
definition SmsPduTypeStatusReport :: u32 where "SmsPduTypeStatusReport = 3"

lemmas sms_enum_defs = SmsStateUnknown_def SmsStateStored_def SmsStateReceiving_def
  SmsStateReceived_def SmsStateSending_def SmsStateSent_def SmsPduTypeUnknown_def
  SmsPduTypeDeliver_def SmsPduTypeSubmit_def SmsPduTypeStatusReport_def

section \<open>Text forms\<close>

definition ModemStateToString :: "i32 \<Rightarrow> string" where
  "ModemStateToString state =
     (if state = MMModemStateFailed then ''failed''
      else if state = MMModemStateUnknown then ''unknown''
      else if state = MMModemStateInitializing then ''initializing''
      else if state = MMModemStateLocked then ''locked''
      else if state = MMModemStateDisabled then ''disabled''
      else if state = MMModemStateDisabling then ''disabling''
      else if state = MMModemStateEnabling then ''enabling''
      else if state = MMModemStateEnabled then ''enabled''
      else if state = MMModemStateSearching then ''searching''
      else if state = MMModemStateRegistered then ''registered''
      else if state = MMModemStateDisconnecting then ''disconnecting''
      else if state = MMModemStateConnecting then ''connecting''
      else if state = MMModemStateConnected then ''connected''
      else ''unknown'')"

definition PowerStateToString :: "i32 \<Rightarrow> string" where
  "PowerStateToString state =
     (if state = MMModemPowerStateOff then ''off''
      else if state = MMModemPowerStateLow then ''low-power''
      else if state = MMModemPowerStateOn then ''on''
      else ''unknown'')"

definition RegistrationStateToString :: "u32 \<Rightarrow> string" where
  "RegistrationStateToString state =
     (if state = RegistrationStateIdle then ''idle''
      else if state = RegistrationStateHome then ''home''
      else if state = RegistrationStateSearching then ''searching''
      else if state = RegistrationStateDenied then ''denied''
      else if state = RegistrationStateUnknown then ''unknown''
      else if state = RegistrationStateRoaming then ''roaming''
      else ''unknown'')"

definition AccessTechnologyToString :: "u32 \<Rightarrow> string" where
  "AccessTechnologyToString tech =
     (if tech = AccessTechnologyUnknown then ''UNKNOWN''
      else if tech AND AccessTechnology5gnr \<noteq> 0 then ''5G''
      else if tech AND AccessTechnologyLte \<noteq> 0 then ''4G''
      else if tech AND AccessTechnologyHspaPlus \<noteq> 0 then ''HSPA+''
      else if tech AND AccessTechnologyHspa \<noteq> 0 then ''HSPA''
      else if tech AND (AccessTechnologyHsdpa OR AccessTechnologyHsupa) \<noteq> 0 then ''3G''
      else if tech AND AccessTechnologyUmts \<noteq> 0 then ''UMTS''
      else if tech AND (AccessTechnologyEdge OR AccessTechnologyGprs) \<noteq> 0 then ''EDGE''
      else if tech AND AccessTechnologyGsm \<noteq> 0 then ''GSM''
      else ''UNKNOWN'')"

definition LockReasonToString :: "u32 \<Rightarrow> string" where
  "LockReasonToString lock =
     (if lock = LockNone then ''none''
      else if lock = LockSimPin then ''sim-pin''
      else if lock = LockSimPin2 then ''sim-pin2''
      else if lock = LockSimPuk then ''sim-puk''
      else if lock = LockSimPuk2 then ''sim-puk2''
      else if lock = LockPhSimPin then ''ph-sim-pin''
      else if lock = LockPhFsimPin then ''ph-fsim-pin''
      else if lock = LockPhNetPin then ''ph-net-pin''
      else if lock = LockPhSpPin then ''ph-sp-pin''
      else if lock = LockPhCorpPin then ''ph-corp-pin''
      else ''unknown'')"

definition SmsStateToString :: "u32 \<Rightarrow> string" where
  "SmsStateToString state =
     (if state = SmsStateStored then ''stored''
      else if state = SmsStateReceiving then ''receiving''
      else if state = SmsStateReceived then ''received''
      else if state = SmsStateSending then ''sending''
      else if state = SmsStateSent then ''sent''
      else ''unknown'')"

definition SmsPduTypeIsIncoming :: "u32 \<Rightarrow> bool" where
  "SmsPduTypeIsIncoming pduType \<longleftrightarrow> pduType = SmsPduTypeDeliver"

definition SmsPduTypeToString :: "u32 \<Rightarrow> string" where
  "SmsPduTypeToString pduType =
     (if pduType = SmsPduTypeDeliver then ''deliver''
      else if pduType = SmsPduTypeSubmit then ''submit''
      else if pduType = SmsPduTypeStatusReport then ''status-report''
      else ''unknown'')"

section \<open>Facts the clients use\<close>

text \<open>The values each text form can take.\<close>

lemma RegistrationStateToString_values:
  "RegistrationStateToString r \<in>
     {''idle'', ''home'', ''searching'', ''denied'', ''unknown'', ''roaming''}"
  by (simp add: RegistrationStateToString_def)

lemma PowerStateToString_values:
  "PowerStateToString p \<in> {''off'', ''low-power'', ''on'', ''unknown''}"
  by (simp add: PowerStateToString_def)

lemma LockReasonToString_not_empty: "LockReasonToString l \<noteq> ''''"
  by (simp add: LockReasonToString_def)

lemma LockReasonToString_none_iff: "LockReasonToString l = ''none'' \<longleftrightarrow> l = LockNone"
  by (simp add: LockReasonToString_def)

lemma PowerStateToString_on_iff: "PowerStateToString p = ''on'' \<longleftrightarrow> p = MMModemPowerStateOn"
  by (auto simp: PowerStateToString_def power_state_defs)

lemma RegistrationStateToString_home_iff:
  "RegistrationStateToString r = ''home'' \<longleftrightarrow> r = RegistrationStateHome"
  by (auto simp: RegistrationStateToString_def registration_state_defs)

lemma RegistrationStateToString_roaming_iff:
  "RegistrationStateToString r = ''roaming'' \<longleftrightarrow> r = RegistrationStateRoaming"
  by (auto simp: RegistrationStateToString_def registration_state_defs)

end
