(* ===== verification/MM_Bearer.thy ===== *)
theory MM_Bearer
  imports MM_Types
begin

text \<open>
  \<open>internal/mm/bearer.go\<close>: reading the data bearer out of ModemManager's property values.
  A D-Bus variant is a \<open>variant\<close>; a dictionary \<open>map[string]dbus.Variant\<close> is an association list
  read with \<^const>\<open>map_of\<close>. The D-Bus connection is the parameter \<open>prop\<close>: the value of a property
  of an object, or \<open>None\<close> when the call fails.
\<close>

type_synonym object_path = string

datatype variant =
    VString string
  | VBool bool
  | VUInt64 u64
  | VUInt32 u32
  | VUInt16 "16 word"
  | VInt64 u64
  | VInt32 i32
  | VPath object_path
  | VPaths "object_path list"
  | VBytes "8 word list"
  | VStrings "string list"
  | VUInts "u32 list"
  | VU32Map "(u32 \<times> u32) list"
  | VSlice "variant list"
  | VIfaces "(string \<times> (string \<times> variant) list) list"
  | VDict "(string \<times> variant) list"
  | VOther

type_synonym dict = "(string \<times> variant) list"
type_synonym prop_reader = "object_path \<Rightarrow> string \<Rightarrow> string \<Rightarrow> variant option"

definition ModemInterface :: string where
  "ModemInterface = ''org.freedesktop.ModemManager1.Modem''"
definition Modem3gppInterface :: string where
  "Modem3gppInterface = ''org.freedesktop.ModemManager1.Modem.Modem3gpp''"
definition ModemMessagingInterface :: string where
  "ModemMessagingInterface = ''org.freedesktop.ModemManager1.Modem.Messaging''"
definition SimInterface :: string where
  "SimInterface = ''org.freedesktop.ModemManager1.Sim''"
definition BearerInterface :: string where
  "BearerInterface = ''org.freedesktop.ModemManager1.Bearer''"

lemmas iface_defs = ModemInterface_def Modem3gppInterface_def ModemMessagingInterface_def
  SimInterface_def BearerInterface_def

datatype bearer_err = ErrNoDataBearer | ErrBearerObservationUnavailable | ErrGetProperty | ErrType

section \<open>Unsigned numbers of any width\<close>

text \<open>A missing key gives Go's zero variant, which no numeric case matches.\<close>

fun variantUintOK :: "variant \<Rightarrow> u64 \<times> bool" where
  "variantUintOK (VUInt64 n) = (n, True)"
| "variantUintOK (VUInt32 n) = (ucast n, True)"
| "variantUintOK (VUInt16 n) = (ucast n, True)"
| "variantUintOK (VInt64 n) = (if 0 \<le> sint n then (n, True) else (0, False))"
| "variantUintOK (VInt32 n) = (if 0 \<le> sint n then (ucast n, True) else (0, False))"
| "variantUintOK _ = (0, False)"

definition variantUint :: "variant \<Rightarrow> u64" where
  "variantUint v = fst (variantUintOK v)"

definition dict_get :: "dict \<Rightarrow> string \<Rightarrow> variant" where
  "dict_get m k = (case map_of m k of Some v \<Rightarrow> v | None \<Rightarrow> VOther)"

definition uint_known :: "dict \<Rightarrow> string \<Rightarrow> bool" where
  "uint_known m k = snd (variantUintOK (dict_get m k))"

fun as_string :: "variant \<Rightarrow> string" where
  "as_string (VString s) = s"
| "as_string _ = ''''"

section \<open>Bearer records\<close>

record IP4Config =
  ip4_Address :: string
  ip4_Prefix :: u32
  ip4_Gateway :: string
  ip4_DNS :: "string list"
  ip4_MTU :: u32

record BearerStats =
  st_RxBytes :: u64
  st_TxBytes :: u64
  st_TotalRxBytes :: u64
  st_TotalTxBytes :: u64
  st_HaveTotals :: bool
  st_Duration :: u64
  st_Attempts :: u32

record BearerInfo =
  bi_Path :: object_path
  bi_Connected :: bool
  bi_ConnectedKnown :: bool
  bi_Suspended :: bool
  bi_SuspendedKnown :: bool
  bi_Interface :: string
  bi_InterfaceKnown :: bool
  bi_IP4 :: IP4Config
  bi_IP4Known :: bool
  bi_Stats :: BearerStats
  bi_StatsKnown :: bool
  bi_SessionStatsKnown :: bool

definition zero_IP4 :: IP4Config where
  "zero_IP4 = \<lparr>ip4_Address = '''', ip4_Prefix = 0, ip4_Gateway = '''', ip4_DNS = [], ip4_MTU = 0\<rparr>"

definition zero_Stats :: BearerStats where
  "zero_Stats = \<lparr>st_RxBytes = 0, st_TxBytes = 0, st_TotalRxBytes = 0, st_TotalTxBytes = 0,
     st_HaveTotals = False, st_Duration = 0, st_Attempts = 0\<rparr>"

definition zero_Bearer :: "object_path \<Rightarrow> BearerInfo" where
  "zero_Bearer p = \<lparr>bi_Path = p, bi_Connected = False, bi_ConnectedKnown = False,
     bi_Suspended = False, bi_SuspendedKnown = False, bi_Interface = '''',
     bi_InterfaceKnown = False, bi_IP4 = zero_IP4, bi_IP4Known = False,
     bi_Stats = zero_Stats, bi_StatsKnown = False, bi_SessionStatsKnown = False\<rparr>"

section \<open>Parsing\<close>

definition parseIP4Config :: "dict \<Rightarrow> IP4Config" where
  "parseIP4Config m =
     \<lparr>ip4_Address = as_string (dict_get m ''address''),
      ip4_Prefix = ucast (variantUint (dict_get m ''prefix'')),
      ip4_Gateway = as_string (dict_get m ''gateway''),
      ip4_DNS = filter (\<lambda>s. s \<noteq> '''')
        (map (\<lambda>k. as_string (dict_get m k)) [''dns1'', ''dns2'', ''dns3'']),
      ip4_MTU = ucast (variantUint (dict_get m ''mtu''))\<rparr>"

definition bearerStatsKnown :: "dict \<Rightarrow> bool" where
  "bearerStatsKnown m \<longleftrightarrow>
     (uint_known m ''rx-bytes'' \<and> uint_known m ''tx-bytes'')
     \<or> (uint_known m ''total-rx-bytes'' \<and> uint_known m ''total-tx-bytes'')"

definition parseBearerStats :: "dict \<Rightarrow> BearerStats" where
  "parseBearerStats m =
     (let s = zero_Stats\<lparr>st_RxBytes := variantUint (dict_get m ''rx-bytes''),
                         st_TxBytes := variantUint (dict_get m ''tx-bytes'')\<rparr>;
          s = (case (map_of m ''total-rx-bytes'', map_of m ''total-tx-bytes'') of
                 (Some rx, Some tx) \<Rightarrow>
                   s\<lparr>st_TotalRxBytes := variantUint rx, st_TotalTxBytes := variantUint tx,
                     st_HaveTotals := True\<rparr>
               | _ \<Rightarrow> s)
      in s\<lparr>st_Duration := variantUint (dict_get m ''duration''),
           st_Attempts := ucast (variantUint (dict_get m ''attempts''))\<rparr>)"

section \<open>Reading bearers\<close>

definition ListBearers :: "prop_reader \<Rightarrow> object_path \<Rightarrow> bearer_err + object_path list" where
  "ListBearers prop modemPath =
     (case prop modemPath ModemInterface ''Bearers'' of
        None \<Rightarrow> Inl ErrGetProperty
      | Some (VPaths ps) \<Rightarrow> Inr ps
      | Some _ \<Rightarrow> Inl ErrType)"

text \<open>
  Go's two-value type assertion on the result of a property read: the value and whether it was
  there. A read that failed leaves both zero, as an assertion that fails does.
\<close>

fun assert_bool :: "variant option \<Rightarrow> bool \<times> bool" where
  "assert_bool (Some (VBool b)) = (b, True)"
| "assert_bool _ = (False, False)"

fun assert_string :: "variant option \<Rightarrow> string \<times> bool" where
  "assert_string (Some (VString s)) = (s, True)"
| "assert_string _ = ('''', False)"

fun assert_dict :: "variant option \<Rightarrow> dict option" where
  "assert_dict (Some (VDict m)) = Some m"
| "assert_dict _ = None"

lemma assert_string_known: "snd (assert_string v) \<longleftrightarrow> (\<exists>s. v = Some (VString s))"
  by (cases v rule: assert_string.cases) auto

lemma assert_string_unknown: "\<not> snd (assert_string v) \<Longrightarrow> fst (assert_string v) = ''''"
  by (cases v rule: assert_string.cases) auto

definition GetBearerInfo :: "prop_reader \<Rightarrow> object_path \<Rightarrow> bearer_err + BearerInfo" where
  "GetBearerInfo prop p =
     (let connected = assert_bool (prop p BearerInterface ''Connected'');
          suspended = assert_bool (prop p BearerInterface ''Suspended'');
          iface = assert_string (prop p BearerInterface ''Interface'');
          ip4 = assert_dict (prop p BearerInterface ''Ip4Config'');
          stats = assert_dict (prop p BearerInterface ''Stats'')
      in Inr \<lparr>bi_Path = p,
              bi_Connected = fst connected, bi_ConnectedKnown = snd connected,
              bi_Suspended = fst suspended, bi_SuspendedKnown = snd suspended,
              bi_Interface = fst iface, bi_InterfaceKnown = snd iface,
              bi_IP4 = (case ip4 of Some m \<Rightarrow> parseIP4Config m | None \<Rightarrow> zero_IP4),
              bi_IP4Known = (ip4 \<noteq> None),
              bi_Stats = (case stats of Some m \<Rightarrow> parseBearerStats m | None \<Rightarrow> zero_Stats),
              bi_StatsKnown = (case stats of Some m \<Rightarrow> bearerStatsKnown m | None \<Rightarrow> False),
              bi_SessionStatsKnown = (case stats of
                  Some m \<Rightarrow> uint_known m ''attempts'' \<and> uint_known m ''duration''
                | None \<Rightarrow> False)\<rparr>)"

fun selectDataBearer :: "BearerInfo list \<Rightarrow> BearerInfo option" where
  "selectDataBearer [] = None"
| "selectDataBearer (i # is) = (if bi_Interface i \<noteq> '''' then Some i else selectDataBearer is)"

text \<open>The loop of \<open>DataBearer\<close>: the bearers read so far and whether every read was complete.\<close>

fun read_bearers :: "prop_reader \<Rightarrow> object_path list \<Rightarrow> BearerInfo list \<times> bool" where
  "read_bearers prop [] = ([], True)"
| "read_bearers prop (p # ps) =
     (let (infos, complete) = read_bearers prop ps in
      case GetBearerInfo prop p of
        Inl e \<Rightarrow> (infos, False)
      | Inr i \<Rightarrow> (i # infos, complete \<and> bi_InterfaceKnown i))"

definition DataBearer :: "prop_reader \<Rightarrow> object_path \<Rightarrow> bearer_err + BearerInfo" where
  "DataBearer prop modemPath =
     (case ListBearers prop modemPath of
        Inl e \<Rightarrow> Inl e
      | Inr paths \<Rightarrow>
          let (infos, observationComplete) = read_bearers prop paths in
          case selectDataBearer infos of
            Some got \<Rightarrow> Inr got
          | None \<Rightarrow> if \<not> observationComplete then Inl ErrBearerObservationUnavailable
                    else Inl ErrNoDataBearer)"

section \<open>Facts\<close>

lemma GetBearerInfo_total: "\<exists>i. GetBearerInfo prop p = Inr i"
  by (simp add: GetBearerInfo_def Let_def)

text \<open>The interface field is what was read, and it is empty unless it was read.\<close>

lemma GetBearerInfo_Interface:
  assumes "GetBearerInfo prop p = Inr i"
  shows "bi_Interface i = fst (assert_string (prop p BearerInterface ''Interface''))"
    and "bi_InterfaceKnown i \<longleftrightarrow> (\<exists>s. prop p BearerInterface ''Interface'' = Some (VString s))"
    and "bi_Path i = p"
  using assms by (auto simp: GetBearerInfo_def Let_def assert_string_known)

lemma selectDataBearer_None: "selectDataBearer is = None \<longleftrightarrow> (\<forall>i \<in> set is. bi_Interface i = '''')"
  by (induction "is") auto

lemma selectDataBearer_Some: "selectDataBearer is = Some i \<Longrightarrow> i \<in> set is \<and> bi_Interface i \<noteq> ''''"
  by (induction "is") (auto split: if_splits)

lemma read_bearers_complete:
  "snd (read_bearers prop ps) \<longleftrightarrow>
     (\<forall>p \<in> set ps. \<exists>s. prop p BearerInterface ''Interface'' = Some (VString s))"
proof (induction ps)
  case (Cons p ps)
  obtain i where "GetBearerInfo prop p = Inr i" using GetBearerInfo_total by blast
  with Cons GetBearerInfo_Interface(2) [OF this] show ?case
    by (cases "read_bearers prop ps") auto
qed simp

lemma read_bearers_infos:
  "i \<in> set (fst (read_bearers prop ps)) \<longleftrightarrow> (\<exists>p \<in> set ps. GetBearerInfo prop p = Inr i)"
proof (induction ps)
  case (Cons p ps)
  obtain j where "GetBearerInfo prop p = Inr j" using GetBearerInfo_total by blast
  with Cons show ?case by (cases "read_bearers prop ps") auto
qed simp

lemma DataBearer_none_iff:
  "DataBearer prop modemPath = Inl ErrNoDataBearer \<longleftrightarrow>
     (\<exists>ps. prop modemPath ModemInterface ''Bearers'' = Some (VPaths ps)
        \<and> list_all (\<lambda>p. prop p BearerInterface ''Interface'' = Some (VString '''')) ps)"
proof (cases "ListBearers prop modemPath")
  case (Inl e)
  then show ?thesis
    by (auto simp: DataBearer_def ListBearers_def split: option.splits variant.splits)
next
  case (Inr ps)
  then have ps: "prop modemPath ModemInterface ''Bearers'' = Some (VPaths ps)"
    by (auto simp: ListBearers_def split: option.splits variant.splits)
  let ?r = "read_bearers prop ps"
  have empty: "selectDataBearer (fst ?r) = None \<longleftrightarrow>
      (\<forall>p \<in> set ps. \<forall>i. GetBearerInfo prop p = Inr i \<longrightarrow> bi_Interface i = '''')"
    using selectDataBearer_None read_bearers_infos by metis
  have "DataBearer prop modemPath = Inl ErrNoDataBearer \<longleftrightarrow>
      selectDataBearer (fst ?r) = None \<and> snd ?r"
    using Inr by (cases ?r) (auto simp: DataBearer_def split: option.splits)
  also have "\<dots> \<longleftrightarrow> (\<forall>p \<in> set ps. prop p BearerInterface ''Interface'' = Some (VString ''''))"
  proof (intro iffI conjI)
    assume a: "selectDataBearer (fst ?r) = None \<and> snd ?r"
    show "\<forall>p \<in> set ps. prop p BearerInterface ''Interface'' = Some (VString '''')"
    proof
      fix p assume p: "p \<in> set ps"
      with a obtain s where s: "prop p BearerInterface ''Interface'' = Some (VString s)"
        using read_bearers_complete by blast
      obtain i where i: "GetBearerInfo prop p = Inr i" using GetBearerInfo_total by blast
      with a empty p have "bi_Interface i = ''''" by blast
      with s GetBearerInfo_Interface(1) [OF i]
      show "prop p BearerInterface ''Interface'' = Some (VString '''')" by simp
    qed
  next
    assume a: "\<forall>p \<in> set ps. prop p BearerInterface ''Interface'' = Some (VString '''')"
    then show "selectDataBearer (fst ?r) = None"
      unfolding empty using GetBearerInfo_Interface(1) by fastforce
    from a show "snd ?r" unfolding read_bearers_complete by blast
  qed
  finally show ?thesis using ps by (simp add: list_all_iff)
qed

section \<open>Readers that miss some properties\<close>

definition less_read :: "'a option \<Rightarrow> 'a option \<Rightarrow> bool" where
  "less_read v w \<longleftrightarrow> v = None \<or> v = w"

definition less_reader :: "prop_reader \<Rightarrow> prop_reader \<Rightarrow> bool" where
  "less_reader f g \<longleftrightarrow> (\<forall>p i n. less_read (f p i n) (g p i n))"

lemma less_readerD: "less_reader f g \<Longrightarrow> f p i n = None \<or> f p i n = g p i n"
  by (simp add: less_reader_def less_read_def)

text \<open>A bearer read with missing properties against the same bearer read in full.\<close>

lemma GetBearerInfo_less:
  assumes "less_reader f g" and "GetBearerInfo f p = Inr b" and "GetBearerInfo g p = Inr c"
  shows "bi_ConnectedKnown b \<longrightarrow> bi_ConnectedKnown c \<and> bi_Connected b = bi_Connected c"
    and "bi_Connected b \<longrightarrow> bi_Connected c"
    and "bi_SuspendedKnown b \<longrightarrow> bi_SuspendedKnown c \<and> bi_Suspended b = bi_Suspended c"
    and "bi_IP4Known b \<longrightarrow> bi_IP4Known c \<and> bi_IP4 b = bi_IP4 c"
    and "bi_Interface b \<in> {'''', bi_Interface c}"
proof -
  note less = less_readerD [OF assms(1), of p BearerInterface]
  show "bi_ConnectedKnown b \<longrightarrow> bi_ConnectedKnown c \<and> bi_Connected b = bi_Connected c"
    "bi_Connected b \<longrightarrow> bi_Connected c"
    using assms(2,3) less [of "''Connected''"] by (auto simp: GetBearerInfo_def Let_def)
  show "bi_SuspendedKnown b \<longrightarrow> bi_SuspendedKnown c \<and> bi_Suspended b = bi_Suspended c"
    using assms(2,3) less [of "''Suspended''"] by (auto simp: GetBearerInfo_def Let_def)
  show "bi_IP4Known b \<longrightarrow> bi_IP4Known c \<and> bi_IP4 b = bi_IP4 c"
    using assms(2,3) less [of "''Ip4Config''"] by (auto simp: GetBearerInfo_def Let_def)
  show "bi_Interface b \<in> {'''', bi_Interface c}"
    using assms(2,3) less [of "''Interface''"] by (auto simp: GetBearerInfo_def Let_def)
qed

text \<open>The bearers that have an interface, as far as the reader shows.\<close>

definition data_paths :: "prop_reader \<Rightarrow> object_path \<Rightarrow> object_path set" where
  "data_paths prop modemPath = {p. \<exists>ps. prop modemPath ModemInterface ''Bearers'' = Some (VPaths ps)
     \<and> p \<in> set ps \<and> fst (assert_string (prop p BearerInterface ''Interface'')) \<noteq> ''''}"

lemma DataBearer_Inr:
  assumes "DataBearer prop modemPath = Inr b"
  shows "bi_Path b \<in> data_paths prop modemPath" and "GetBearerInfo prop (bi_Path b) = Inr b"
proof -
  from assms obtain ps where ps: "ListBearers prop modemPath = Inr ps"
    and sel: "selectDataBearer (fst (read_bearers prop ps)) = Some b"
    by (auto simp: DataBearer_def Let_def split: sum.splits option.splits prod.splits if_splits)
  then have "b \<in> set (fst (read_bearers prop ps))" and ne: "bi_Interface b \<noteq> ''''"
    using selectDataBearer_Some by blast+
  then obtain p where p: "p \<in> set ps" "GetBearerInfo prop p = Inr b"
    using read_bearers_infos by blast
  from ps have "prop modemPath ModemInterface ''Bearers'' = Some (VPaths ps)"
    by (auto simp: ListBearers_def split: option.splits variant.splits)
  with p ne GetBearerInfo_Interface [OF p(2)] show "bi_Path b \<in> data_paths prop modemPath"
    "GetBearerInfo prop (bi_Path b) = Inr b"
    by (auto simp: data_paths_def)
qed

lemma DataBearer_found:
  assumes "p \<in> data_paths prop modemPath" shows "\<exists>b. DataBearer prop modemPath = Inr b"
proof -
  from assms obtain ps where ps: "ListBearers prop modemPath = Inr ps" "p \<in> set ps"
    and ne: "fst (assert_string (prop p BearerInterface ''Interface'')) \<noteq> ''''"
    by (auto simp: data_paths_def ListBearers_def)
  obtain i where i: "GetBearerInfo prop p = Inr i" using GetBearerInfo_total by blast
  with ps have "i \<in> set (fst (read_bearers prop ps))" using read_bearers_infos by blast
  moreover have "bi_Interface i \<noteq> ''''" using GetBearerInfo_Interface(1) [OF i] ne by simp
  ultimately have "selectDataBearer (fst (read_bearers prop ps)) \<noteq> None"
    using selectDataBearer_None by blast
  with ps show ?thesis
    by (cases "read_bearers prop ps") (auto simp: DataBearer_def)
qed

text \<open>
  With at most one data bearer, a reader that misses properties finds the same bearer with missing
  fields, or reports that it could not tell, or agrees that there is none.
\<close>

lemma DataBearer_less:
  assumes less: "less_reader f g" and single: "\<And>p q. p \<in> data_paths g m \<Longrightarrow> q \<in> data_paths g m \<Longrightarrow> p = q"
  shows "DataBearer f m = Inr b \<Longrightarrow>
           \<exists>c. DataBearer g m = Inr c \<and> GetBearerInfo f (bi_Path b) = Inr b \<and> GetBearerInfo g (bi_Path b) = Inr c"
    and "DataBearer f m = Inl ErrNoDataBearer \<Longrightarrow> DataBearer g m = Inl ErrNoDataBearer"
proof -
  assume b: "DataBearer f m = Inr b"
  note f = DataBearer_Inr [OF b]
  from f(1) less_readerD [OF less] have "bi_Path b \<in> data_paths g m"
    unfolding data_paths_def mem_Collect_eq by (metis assert_string.simps(2) fst_conv option.distinct(1))
  moreover from DataBearer_found [OF this] obtain c where c: "DataBearer g m = Inr c" by blast
  ultimately have "bi_Path c = bi_Path b" using single DataBearer_Inr(1) by blast
  with DataBearer_Inr(2) [OF c] f(2) c show "\<exists>c. DataBearer g m = Inr c
      \<and> GetBearerInfo f (bi_Path b) = Inr b \<and> GetBearerInfo g (bi_Path b) = Inr c" by auto
next
  assume "DataBearer f m = Inl ErrNoDataBearer"
  then show "DataBearer g m = Inl ErrNoDataBearer"
    unfolding DataBearer_none_iff list_all_iff using less_readerD [OF less]
    by (metis option.distinct(1))
qed

text \<open>
   The verdict "no data bearer", which the link assessor turns into a bearer bounce, is reached
  only when the bearer list was read and every bearer on it had its interface property read as the
  empty string. A property read that failed can never produce it.
\<close>

theorem no_data_bearer_iff:
  "DataBearer prop modemPath = Inl ErrNoDataBearer \<longleftrightarrow>
     (\<exists>ps. prop modemPath ModemInterface ''Bearers'' = Some (VPaths ps)
        \<and> list_all (\<lambda>p. prop p BearerInterface ''Interface'' = Some (VString '''')) ps)"
  by (rule DataBearer_none_iff)

end
