(* ===== verification/Go_Strings.thy ===== *)
theory Go_Strings
  imports Prelude "HOL-Library.Char_ord"
begin

text \<open>
  The functions of Go's \<open>strings\<close>, \<open>strconv\<close> and \<open>unicode\<close> packages that the service calls, on
  byte strings. \<open>TrimSpace\<close> and \<open>Fields\<close> know every Unicode space by its UTF-8 bytes: no such
  sequence starts with a continuation byte, so matching bytes and decoding runes agree, also on
  ill-formed UTF-8. \<open>ToUpper\<close> and \<open>EqualFold\<close> are only ever compared with ASCII text by the
  service, and are modelled for that use.
\<close>

section \<open>White space\<close>

definition space_seqs :: "string list" where
  "space_seqs =
     [[CHR 0x20], [CHR 0x09], [CHR 0x0A], [CHR 0x0B], [CHR 0x0C], [CHR 0x0D],
      [CHR 0xC2, CHR 0x85], [CHR 0xC2, CHR 0xA0],
      [CHR 0xE1, CHR 0x9A, CHR 0x80],
      [CHR 0xE2, CHR 0x80, CHR 0x80], [CHR 0xE2, CHR 0x80, CHR 0x81],
      [CHR 0xE2, CHR 0x80, CHR 0x82], [CHR 0xE2, CHR 0x80, CHR 0x83],
      [CHR 0xE2, CHR 0x80, CHR 0x84], [CHR 0xE2, CHR 0x80, CHR 0x85],
      [CHR 0xE2, CHR 0x80, CHR 0x86], [CHR 0xE2, CHR 0x80, CHR 0x87],
      [CHR 0xE2, CHR 0x80, CHR 0x88], [CHR 0xE2, CHR 0x80, CHR 0x89],
      [CHR 0xE2, CHR 0x80, CHR 0x8A],
      [CHR 0xE2, CHR 0x80, CHR 0xA8], [CHR 0xE2, CHR 0x80, CHR 0xA9],
      [CHR 0xE2, CHR 0x80, CHR 0xAF], [CHR 0xE2, CHR 0x81, CHR 0x9F],
      [CHR 0xE3, CHR 0x80, CHR 0x80]]"

text \<open>The number of bytes after the first of a sequence of \<open>seqs\<close> at the start of the string.\<close>

fun lead_seq :: "string list \<Rightarrow> string \<Rightarrow> nat option" where
  "lead_seq [] s = None"
| "lead_seq (q # qs) s = (if prefix q s then Some (length q - 1) else lead_seq qs s)"

function trim_lead :: "string list \<Rightarrow> string \<Rightarrow> string" where
  "trim_lead seqs [] = []"
| "trim_lead seqs (c # s) =
     (case lead_seq seqs (c # s) of Some n \<Rightarrow> trim_lead seqs (drop n s) | None \<Rightarrow> c # s)"
  by pat_completeness auto
termination by (relation "measure (\<lambda>(q, s). length s)") auto

definition TrimSpaceLeft :: "string \<Rightarrow> string" where
  "TrimSpaceLeft s = trim_lead space_seqs s"

definition TrimSpaceRight :: "string \<Rightarrow> string" where
  "TrimSpaceRight s = rev (trim_lead (map rev space_seqs) (rev s))"

definition TrimSpace :: "string \<Rightarrow> string" where
  "TrimSpace s = TrimSpaceRight (TrimSpaceLeft s)"

text \<open>\<open>strings.Fields\<close>: \<open>w\<close> is the word read so far, reversed.\<close>

function fields_from :: "string \<Rightarrow> string \<Rightarrow> string list" where
  "fields_from w [] = (if w = [] then [] else [rev w])"
| "fields_from w (c # s) =
     (case lead_seq space_seqs (c # s) of
        Some n \<Rightarrow> (if w = [] then [] else [rev w]) @ fields_from [] (drop n s)
      | None \<Rightarrow> fields_from (c # w) s)"
  by pat_completeness auto
termination by (relation "measure (\<lambda>(w, s). length s)") auto

definition Fields :: "string \<Rightarrow> string list" where
  "Fields s = fields_from [] s"

section \<open>Searching and splitting\<close>

definition HasPrefix :: "string \<Rightarrow> string \<Rightarrow> bool" where "HasPrefix s p = prefix p s"
definition TrimPrefix :: "string \<Rightarrow> string \<Rightarrow> string" where
  "TrimPrefix s p = (if prefix p s then drop (length p) s else s)"
definition Contains :: "string \<Rightarrow> string \<Rightarrow> bool" where "Contains s sub = sublist sub s"

text \<open>\<open>strings.Cut\<close>: what is before and after the first occurrence of the separator.\<close>

fun Cut :: "string \<Rightarrow> string \<Rightarrow> (string \<times> string) option" where
  "Cut [] sep = (if sep = [] then Some ([], []) else None)"
| "Cut (c # s) sep =
     (if prefix sep (c # s) then Some ([], drop (length sep) (c # s))
      else map_option (\<lambda>(a, b). (c # a, b)) (Cut s sep))"

text \<open>\<open>strings.Split\<close> on a one-byte separator.\<close>

fun split_char :: "char \<Rightarrow> string \<Rightarrow> string list" where
  "split_char d [] = [[]]"
| "split_char d (c # s) =
     (if c = d then [] # split_char d s
      else (case split_char d s of w # ws \<Rightarrow> (c # w) # ws | [] \<Rightarrow> [[c]]))"

text \<open>\<open>strings.FieldsFunc\<close> for a predicate on ASCII characters.\<close>

fun fields_func :: "(char \<Rightarrow> bool) \<Rightarrow> string \<Rightarrow> string \<Rightarrow> string list" where
  "fields_func P w [] = (if w = [] then [] else [rev w])"
| "fields_func P w (c # s) =
     (if P c then (if w = [] then [] else [rev w]) @ fields_func P [] s
      else fields_func P (c # w) s)"

definition FieldsFunc :: "(char \<Rightarrow> bool) \<Rightarrow> string \<Rightarrow> string list" where
  "FieldsFunc P s = fields_func P [] s"

text \<open>\<open>strings.Trim\<close> with a one-byte cutset.\<close>

definition trim_char :: "char \<Rightarrow> string \<Rightarrow> string" where
  "trim_char d s = rev (dropWhile (\<lambda>c. c = d) (rev (dropWhile (\<lambda>c. c = d) s)))"

definition join_with :: "string \<Rightarrow> string list \<Rightarrow> string" where
  "join_with sep ss = (case ss of [] \<Rightarrow> '''' | s # rest \<Rightarrow> s @ concat (map (\<lambda>t. sep @ t) rest))"

section \<open>Case\<close>

definition upper_char :: "char \<Rightarrow> char" where
  "upper_char c = (if CHR ''a'' \<le> c \<and> c \<le> CHR ''z'' then char_of ((of_char c :: nat) - 32) else c)"

definition lower_char :: "char \<Rightarrow> char" where
  "lower_char c = (if CHR ''A'' \<le> c \<and> c \<le> CHR ''Z'' then char_of ((of_char c :: nat) + 32) else c)"

text \<open>
  Besides the ASCII letters, U+0131 (dotless i) has the upper case \<open>I\<close> and U+017F (long s) has \<open>S\<close>;
  no other rune has an upper case in ASCII.
\<close>

fun ToUpper :: "string \<Rightarrow> string" where
  "ToUpper (a # b # s) =
     (if a = CHR 0xC4 \<and> b = CHR 0xB1 then CHR ''I'' # ToUpper s
      else if a = CHR 0xC5 \<and> b = CHR 0xBF then CHR ''S'' # ToUpper s
      else upper_char a # ToUpper (b # s))"
| "ToUpper [a] = [upper_char a]"
| "ToUpper [] = []"

text \<open>
  Simple folding onto lower-case ASCII: besides the letters, U+212A (Kelvin) folds to \<open>k\<close> and
  U+017F (long s) to \<open>s\<close>.
\<close>

fun fold_case :: "string \<Rightarrow> string" where
  "fold_case (a # b # c # s) =
     (if a = CHR 0xE2 \<and> b = CHR 0x84 \<and> c = CHR 0xAA then CHR ''k'' # fold_case s
      else if a = CHR 0xC5 \<and> b = CHR 0xBF then CHR ''s'' # fold_case (c # s)
      else lower_char a # fold_case (b # c # s))"
| "fold_case [a, b] =
     (if a = CHR 0xC5 \<and> b = CHR 0xBF then [CHR ''s''] else [lower_char a, lower_char b])"
| "fold_case [a] = [lower_char a]"
| "fold_case [] = []"

definition EqualFold :: "string \<Rightarrow> string \<Rightarrow> bool" where
  "EqualFold s t \<longleftrightarrow> fold_case s = fold_case t"

section \<open>Numbers\<close>

definition is_digit :: "char \<Rightarrow> bool" where
  "is_digit c \<longleftrightarrow> CHR ''0'' \<le> c \<and> c \<le> CHR ''9''"

definition digit_val :: "char \<Rightarrow> nat" where "digit_val c = of_char c - 48"
definition digit_char :: "nat \<Rightarrow> char" where "digit_char n = char_of (48 + n)"

text \<open>Decimal text of a natural number (\<open>%d\<close>).\<close>

fun dec_str :: "nat \<Rightarrow> string" where
  "dec_str n = (if n < 10 then [digit_char n] else dec_str (n div 10) @ [digit_char (n mod 10)])"

declare dec_str.simps [simp del]

definition dec_int :: "int \<Rightarrow> string" where
  "dec_int i = (if i < 0 then CHR ''-'' # dec_str (nat (- i)) else dec_str (nat i))"

definition digits_val :: "string \<Rightarrow> nat" where
  "digits_val s = foldl (\<lambda>n c. 10 * n + digit_val c) 0 s"

text \<open>\<open>strconv.ParseUint(s, 10, w)\<close> and \<open>strconv.Atoi\<close> / \<open>ParseInt(s, 10, 64)\<close>; \<open>None\<close> is the error.\<close>

definition parse_uint :: "nat \<Rightarrow> string \<Rightarrow> nat option" where
  "parse_uint w s =
     (if s \<noteq> [] \<and> list_all is_digit s \<and> digits_val s < 2 ^ w then Some (digits_val s) else None)"

definition Atoi :: "string \<Rightarrow> int option" where
  "Atoi s =
     (case s of
        [] \<Rightarrow> None
      | c # r \<Rightarrow>
          let neg = (c = CHR ''-'');
              ds = (if c = CHR ''-'' \<or> c = CHR ''+'' then r else s) in
          if ds = [] \<or> \<not> list_all is_digit ds then None
          else let v = (if neg then - int (digits_val ds) else int (digits_val ds)) in
            if min_int64 \<le> v \<and> v \<le> max_int64 then Some v else None)"

section \<open>Facts\<close>

lemma trim_lead_length: "length (trim_lead seqs s) \<le> length s"
proof (induction seqs s rule: trim_lead.induct)
  case (2 seqs c s)
  then show ?case by (auto split: option.splits intro: le_trans [OF _ le_SucI])
qed simp

lemma split_char_ne [simp]: "split_char d s \<noteq> []"
  by (induction s) (auto split: list.splits)

lemma split_char_join: "join_with [d] (split_char d s) = s"
proof (induction s)
  case (Cons c s)
  obtain w ws where "split_char d s = w # ws" by (cases "split_char d s") auto
  with Cons show ?case by (auto simp: join_with_def)
qed (simp add: join_with_def)

lemma split_char_no_sep: "w \<in> set (split_char d s) \<Longrightarrow> d \<notin> set w"
proof (induction s arbitrary: w)
  case (Cons c s)
  obtain v vs where "split_char d s = v # vs" by (cases "split_char d s") auto
  with Cons show ?case by (auto split: if_splits)
qed simp

lemma split_char_append:
  "d \<notin> set a \<Longrightarrow> split_char d (a @ d # b) = a # split_char d b"
  by (induction a) auto

lemma split_char_single: "d \<notin> set a \<Longrightarrow> split_char d a = [a]"
  by (induction a) auto

lemma Cut_append:
  "Cut s sep = Some (a, b) \<Longrightarrow> s = a @ sep @ b"
proof (induction s arbitrary: a)
  case (Cons c s)
  show ?case
  proof (cases "prefix sep (c # s)")
    case True
    with Cons.prems show ?thesis by (auto simp: prefix_def)
  next
    case False
    with Cons.prems obtain a' where "Cut s sep = Some (a', b)" "a = c # a'" by auto
    with Cons.IH show ?thesis by simp
  qed
qed (auto split: if_splits)

lemma Cut_None: "sep \<noteq> [] \<Longrightarrow> Cut s sep = None \<longleftrightarrow> \<not> sublist sep s"
proof (induction s)
  case (Cons c s)
  have "sublist sep (c # s) \<longleftrightarrow> prefix sep (c # s) \<or> sublist sep s"
    by (auto simp: sublist_Cons_right)
  with Cons show ?case by auto
qed auto

lemma digit_char_val: "n < 10 \<Longrightarrow> digit_val (digit_char n) = n \<and> is_digit (digit_char n)"
proof -
  assume "n < 10"
  then have "n \<in> {0,1,2,3,4,5,6,7,8,9}" by auto
  then show ?thesis by (auto simp: digit_val_def digit_char_def is_digit_def less_eq_char_def)
qed

lemma digits_val_snoc: "digits_val (s @ [c]) = 10 * digits_val s + digit_val c"
  by (simp add: digits_val_def)

lemma dec_str_ne [simp]: "dec_str n \<noteq> []"
  by (subst dec_str.simps) auto

lemma dec_str_digits: "list_all is_digit (dec_str n)"
proof (induction n rule: dec_str.induct)
  case (1 n)
  then show ?case by (subst dec_str.simps) (auto simp: digit_char_val)
qed

lemma digits_val_dec_str: "digits_val (dec_str n) = n"
proof (induction n rule: dec_str.induct)
  case (1 n)
  then show ?case
    by (subst dec_str.simps) (auto simp: digits_val_snoc digit_char_val, simp add: digits_val_def digit_char_val)
qed

lemma parse_uint_dec_str: "n < 2 ^ w \<Longrightarrow> parse_uint w (dec_str n) = Some n"
  by (simp add: parse_uint_def dec_str_digits digits_val_dec_str)

lemma dec_str_inj: "dec_str m = dec_str n \<Longrightarrow> m = n"
  by (metis digits_val_dec_str)

end
