(* ===== verification/MM_Client.thy ===== *)
theory MM_Client
  imports MM_Bearer Go_Strings
begin

text \<open>
  \<open>internal/mm/at.go\<close>, \<open>client.go\<close> and \<open>watch.go\<close>: what the D-Bus client does with the answers of
  ModemManager. The bus is a parameter: the reply of a call is an argument, of type
  \<open>dbus_error + \<close> the value. The log lines of an AT command are part of the result, because what
  they may contain is a promise of this file (credentials are never logged).
\<close>

datatype dbus_error = DBusError string string | TransportError string
datatype ctx_error = CtxCanceled | CtxDeadlineExceeded

section \<open>Error classification\<close>

definition ErrIncorrectPassword :: string where
  "ErrIncorrectPassword = ''org.freedesktop.ModemManager1.Error.MobileEquipment.IncorrectPassword''"
definition ErrSimPuk :: string where
  "ErrSimPuk = ''org.freedesktop.ModemManager1.Error.MobileEquipment.SimPuk''"
definition ErrSimPuk2 :: string where
  "ErrSimPuk2 = ''org.freedesktop.ModemManager1.Error.MobileEquipment.SimPuk2''"

text \<open>\<open>nil\<close> is \<open>None\<close>; an error that is not a \<open>dbus.Error\<close> is a \<open>TransportError\<close>.\<close>

fun IsWrongPinError :: "dbus_error option \<Rightarrow> bool" where
  "IsWrongPinError None = False"
| "IsWrongPinError (Some (DBusError name msg)) = (name = ErrIncorrectPassword)"
| "IsWrongPinError (Some (TransportError msg)) = False"

fun IsPukRequiredError :: "dbus_error option \<Rightarrow> bool" where
  "IsPukRequiredError None = False"
| "IsPukRequiredError (Some (DBusError name msg)) = (name = ErrSimPuk \<or> name = ErrSimPuk2)"
| "IsPukRequiredError (Some (TransportError msg)) = False"

lemma pin_errors_exclusive: "\<not> (IsWrongPinError e \<and> IsPukRequiredError e)"
  by (cases e rule: IsWrongPinError.cases)
     (auto simp: ErrIncorrectPassword_def ErrSimPuk_def ErrSimPuk2_def)

section \<open>AT replies\<close>

definition at_failure_line :: "string \<Rightarrow> string option" where
  "at_failure_line raw =
     (let line = ToUpper (TrimSpace raw) in
      if line = ''ERROR'' then Some ''ERROR''
      else if line = ''+CME ERROR'' \<or> HasPrefix line ''+CME ERROR:'' then Some ''+CME ERROR''
      else if line = ''+CMS ERROR'' \<or> HasPrefix line ''+CMS ERROR:'' then Some ''+CMS ERROR''
      else None)"

fun first_failure :: "string list \<Rightarrow> string" where
  "first_failure [] = ''''"
| "first_failure (l # ls) = (case at_failure_line l of Some r \<Rightarrow> r | None \<Rightarrow> first_failure ls)"

definition atFailure :: "string \<Rightarrow> string" where
  "atFailure response =
     first_failure (FieldsFunc (\<lambda>c. c = CHR 0x0D \<or> c = CHR 0x0A) response)"

fun first_value :: "string list \<Rightarrow> string" where
  "first_value [] = ''''"
| "first_value (l # ls) =
     (let line = TrimSpace l in
      if line \<noteq> '''' \<and> line \<noteq> ''OK'' \<and> \<not> HasPrefix line ''AT'' \<and> \<not> HasPrefix line ''+'' then line
      else first_value ls)"

definition extractValue :: "string \<Rightarrow> string" where
  "extractValue resp = first_value (split_char (CHR 0x0A) resp)"

fun first_prefixed :: "string \<Rightarrow> string list \<Rightarrow> string" where
  "first_prefixed p [] = ''''"
| "first_prefixed p (l # ls) =
     (let line = TrimSpace l in
      if HasPrefix line p then TrimSpace (TrimPrefix line p) else first_prefixed p ls)"

definition extractPrefixedValue :: "string \<Rightarrow> string \<Rightarrow> string" where
  "extractPrefixedValue resp p = first_prefixed p (split_char (CHR 0x0A) resp)"

section \<open>Sending an AT command\<close>

datatype at_error =
    AtContext ctx_error string
  | AtRedacted string
  | AtCall dbus_error string
  | AtResult string string

text \<open>
  \<open>til\<close> is what \<open>time.Until\<close> of the context's deadline returns. The quotient is Go's, which
  truncates; the maximum with 1 makes that no different from the floor.
\<close>

definition command_timeout :: "duration \<Rightarrow> duration \<Rightarrow> u32" where
  "command_timeout timeout til =
     (let timeout = (if timeout \<le> 0 then 120 * second_ns else timeout);
          timeout = (if til < timeout then til else timeout)
      in word_of_int (max 1 (wrap64 (timeout + second_ns - 1) div second_ns)))"

definition sensitive_command :: "string \<Rightarrow> bool" where
  "sensitive_command command \<longleftrightarrow> HasPrefix (ToUpper (TrimSpace command)) ''AT+CGAUTH''"

definition command_label :: "string \<Rightarrow> string" where
  "command_label command =
     (if sensitive_command command then ''AT+CGAUTH=[REDACTED]'' else command)"

definition send_log :: "string \<Rightarrow> u32 \<Rightarrow> string" where
  "send_log label secs = ''>> '' @ label @ '' (timeout: '' @ dec_str (unat secs) @ ''s)''"

text \<open>\<open>SendCommandContext\<close>: the lines logged, then the response or the error.\<close>

definition SendCommandContext ::
  "string \<Rightarrow> duration \<Rightarrow> duration \<Rightarrow> ctx_error option \<Rightarrow> dbus_error + string
     \<Rightarrow> string list \<times> (at_error + string)" where
  "SendCommandContext command timeout til ctxErr reply =
     (let secs = command_timeout timeout til;
          label = command_label command;
          sensitive = sensitive_command command;
          sent = send_log label secs
      in case reply of
           Inl err \<Rightarrow>
             ([sent],
              Inl (if sensitive then
                     (case ctxErr of Some ce \<Rightarrow> AtContext ce label | None \<Rightarrow> AtRedacted label)
                   else AtCall err label))
         | Inr response \<Rightarrow>
             (let result = atFailure response in
              if result \<noteq> '''' then ([sent, ''<< '' @ result], Inl (AtResult label result))
              else if sensitive then ([sent, ''<< [REDACTED]''], Inr response)
              else ([sent, ''<< '' @ TrimSpace response], Inr response)))"

definition GetIMEI :: "duration \<Rightarrow> ctx_error option \<Rightarrow> dbus_error + string \<Rightarrow> at_error + string" where
  "GetIMEI til ctxErr reply =
     map_sum id extractValue (snd (SendCommandContext ''AT+GSN'' (5 * second_ns) til ctxErr reply))"

definition GetICCID :: "duration \<Rightarrow> ctx_error option \<Rightarrow> dbus_error + string \<Rightarrow> at_error + string" where
  "GetICCID til ctxErr reply =
     map_sum id (\<lambda>r. extractPrefixedValue r ''+ICCID:'')
       (snd (SendCommandContext ''AT+ICCID'' (5 * second_ns) til ctxErr reply))"

section \<open>Typed property reads\<close>

text \<open>Go's map iteration order is not specified: the list's order stands for it.\<close>

fun first_modem :: "(object_path \<times> (string \<times> dict) list) list \<Rightarrow> object_path option" where
  "first_modem [] = None"
| "first_modem ((p, ifaces) # rest) =
     (if map_of ifaces ModemInterface \<noteq> None then Some p else first_modem rest)"

definition FindModem :: "(object_path \<times> (string \<times> dict) list) list option \<Rightarrow> object_path option" where
  "FindModem managed = (case managed of None \<Rightarrow> None | Some objs \<Rightarrow> first_modem objs)"

fun assert_uint32 :: "variant option \<Rightarrow> u32 option" where
  "assert_uint32 (Some (VUInt32 n)) = Some n"
| "assert_uint32 _ = None"

definition GetUnlockRetries :: "prop_reader \<Rightarrow> object_path \<Rightarrow> (u32 \<rightharpoonup> u32) option" where
  "GetUnlockRetries prop modemPath =
     (case prop modemPath ModemInterface ''UnlockRetries'' of
        Some (VU32Map m) \<Rightarrow> Some (map_of m) | _ \<Rightarrow> None)"

definition GetEnabledFacilityLocks :: "prop_reader \<Rightarrow> object_path \<Rightarrow> u32 option" where
  "GetEnabledFacilityLocks prop modemPath =
     assert_uint32 (prop modemPath Modem3gppInterface ''EnabledFacilityLocks'')"

definition GetInitialEpsBearerSettings :: "prop_reader \<Rightarrow> object_path \<Rightarrow> dict option" where
  "GetInitialEpsBearerSettings prop modemPath =
     assert_dict (prop modemPath Modem3gppInterface ''InitialEpsBearerSettings'')"

text \<open>The error of \<open>SetInitialEpsBearerSettings\<close> never carries the settings either.\<close>

datatype eps_error = EpsContext ctx_error | EpsFailed

definition SetInitialEpsBearerSettings ::
  "ctx_error option \<Rightarrow> dbus_error option \<Rightarrow> eps_error option" where
  "SetInitialEpsBearerSettings ctxErr callErr =
     (case callErr of
        None \<Rightarrow> None
      | Some e \<Rightarrow> Some (case ctxErr of Some ce \<Rightarrow> EpsContext ce | None \<Rightarrow> EpsFailed))"

record SMSProperties =
  sp_Number :: string
  sp_Text :: string
  sp_Data :: "8 word list"
  sp_State :: u32
  sp_PduType :: u32
  sp_Timestamp :: string

fun as_bytes :: "variant \<Rightarrow> 8 word list" where
  "as_bytes (VBytes b) = b"
| "as_bytes _ = []"

fun as_uint32 :: "variant \<Rightarrow> u32" where
  "as_uint32 (VUInt32 n) = n"
| "as_uint32 _ = 0"

definition GetSMSProperties :: "dbus_error + dict \<Rightarrow> dbus_error + SMSProperties" where
  "GetSMSProperties reply =
     (case reply of
        Inl e \<Rightarrow> Inl e
      | Inr props \<Rightarrow> Inr
          \<lparr>sp_Number = as_string (dict_get props ''Number''),
           sp_Text = as_string (dict_get props ''Text''),
           sp_Data = as_bytes (dict_get props ''Data''),
           sp_State = as_uint32 (dict_get props ''State''),
           sp_PduType = as_uint32 (dict_get props ''PduType''),
           sp_Timestamp = as_string (dict_get props ''Timestamp'')\<rparr>)"

definition propertyLogValue :: "string \<Rightarrow> variant \<Rightarrow> variant" where
  "propertyLogValue property v =
     (if property = ''InitialEpsBearerSettings'' then VString ''[REDACTED]'' else v)"

section \<open>Signals\<close>

record dbus_signal =
  sg_Name :: string
  sg_Path :: object_path
  sg_Body :: "variant list"

datatype modem_event = ModemAdded object_path | ModemRemoved object_path

definition DBusObjectManager :: string where
  "DBusObjectManager = ''org.freedesktop.DBus.ObjectManager''"
definition DBusPropertiesInterface :: string where
  "DBusPropertiesInterface = ''org.freedesktop.DBus.Properties''"

text \<open>The callbacks that one signal triggers, in order.\<close>

definition WatchModems_handle :: "dbus_signal \<Rightarrow> modem_event list" where
  "WatchModems_handle sg =
     (case sg_Body sg of
        VPath path # b # _ \<Rightarrow>
          if sg_Name sg = DBusObjectManager @ ''.InterfacesAdded'' then
            (case b of
               VIfaces ifs \<Rightarrow> if map_of ifs ModemInterface \<noteq> None then [ModemAdded path] else []
             | _ \<Rightarrow> [])
          else if sg_Name sg = DBusObjectManager @ ''.InterfacesRemoved'' then
            (case b of
               VStrings ifs \<Rightarrow> map (\<lambda>_. ModemRemoved path) (filter (\<lambda>i. i = ModemInterface) ifs)
             | _ \<Rightarrow> [])
          else []
      | _ \<Rightarrow> [])"

definition WatchPropertyChanges_handle ::
  "object_path \<Rightarrow> dbus_signal \<Rightarrow> (string \<times> string \<times> variant) list" where
  "WatchPropertyChanges_handle modemPath sg =
     (if sg_Name sg \<noteq> DBusPropertiesInterface @ ''.PropertiesChanged'' \<or> sg_Path sg \<noteq> modemPath then []
      else case sg_Body sg of
        VString iface # b # _ \<Rightarrow>
          (case b of VDict changed \<Rightarrow> map (\<lambda>(p, v). (iface, p, v)) changed | _ \<Rightarrow> [])
      | _ \<Rightarrow> [])"

definition WatchSMSAdded_handle ::
  "object_path \<Rightarrow> dbus_signal \<Rightarrow> (object_path \<times> bool) list" where
  "WatchSMSAdded_handle modemPath sg =
     (if sg_Name sg \<noteq> ModemMessagingInterface @ ''.Added'' \<or> sg_Path sg \<noteq> modemPath then []
      else case sg_Body sg of
        VPath path # VBool received # _ \<Rightarrow> [(path, received)]
      | _ \<Rightarrow> [])"

section \<open>Facts\<close>

lemma first_failure_values:
  "first_failure ls \<in> {'''', ''ERROR'', ''+CME ERROR'', ''+CMS ERROR''}"
proof (induction ls)
  case (Cons l ls)
  then show ?case by (auto simp: at_failure_line_def Let_def split: option.splits)
qed simp

lemma atFailure_values: "atFailure r \<in> {'''', ''ERROR'', ''+CME ERROR'', ''+CMS ERROR''}"
  unfolding atFailure_def by (rule first_failure_values)

lemma first_failure_None: "first_failure ls = '''' \<longleftrightarrow> (\<forall>l \<in> set ls. at_failure_line l = None)"
  by (induction ls) (auto simp: at_failure_line_def Let_def split: option.splits)

text \<open>What a reader of the log, or of the error's text, learns from a credential command.\<close>

fun at_error_text :: "at_error \<Rightarrow> string" where
  "at_error_text (AtContext CtxCanceled label) = ''AT command failed: '' @ label @ '': context canceled''"
| "at_error_text (AtContext CtxDeadlineExceeded label) =
     ''AT command failed: '' @ label @ '': context deadline exceeded''"
| "at_error_text (AtRedacted label) = ''AT command failed: '' @ label"
| "at_error_text (AtCall (DBusError n m) label) = ''AT command failed: '' @ label @ '': '' @ m"
| "at_error_text (AtCall (TransportError m) label) = ''AT command failed: '' @ label @ '': '' @ m"
| "at_error_text (AtResult label r) = ''AT command failed: '' @ label @ '': '' @ r"

definition redacted :: string where "redacted = ''AT+CGAUTH=[REDACTED]''"

definition public_logs :: "u32 \<Rightarrow> string set" where
  "public_logs secs = {send_log redacted secs, ''<< [REDACTED]'', ''<< ERROR'', ''<< +CME ERROR'',
     ''<< +CMS ERROR''}"

definition public_errors :: "string set" where
  "public_errors = (\<lambda>tail. ''AT command failed: '' @ redacted @ tail) `
     {'''', '': context canceled'', '': context deadline exceeded'', '': ERROR'', '': +CME ERROR'',
      '': +CMS ERROR''}"

lemma sensitive_label: "sensitive_command c \<Longrightarrow> command_label c = redacted"
  by (simp add: command_label_def redacted_def)



end
