(* ===== verification/Link.thy ===== *)
theory Link
  imports Go_Strings MM_Types
begin

text \<open>
  \<open>internal/modem/link/link.go\<close>: the layered assessment of the local link and the choice of the
  remedy. A \<open>fmt.Sprintf\<close> reason is a constructor of \<open>link_reason\<close> with the arguments of the
  format. The Go counters \<open>flaps\<close> and \<open>escalation\<close> are natural numbers.
\<close>

section \<open>Layers, remedies, snapshots\<close>

datatype Layer =
    LayerHardware | LayerSIM | LayerRegistration | LayerPacketService | LayerAPN
  | LayerBearer | LayerNetdev | LayerLiveness

datatype Remedy = RemedyNone | RemedyReattach | RemedyBearerBounce | RemedyModemReset

text \<open>The Go enumeration is an \<open>int\<close> counted from 0: this is its order.\<close>

fun layer_index :: "Layer \<Rightarrow> nat" where
  "layer_index LayerHardware = 0"
| "layer_index LayerSIM = 1"
| "layer_index LayerRegistration = 2"
| "layer_index LayerPacketService = 3"
| "layer_index LayerAPN = 4"
| "layer_index LayerBearer = 5"
| "layer_index LayerNetdev = 6"
| "layer_index LayerLiveness = 7"

lemma layer_index_inj: "layer_index a = layer_index b \<Longrightarrow> a = b"
  by (cases a; cases b) simp_all

instantiation Layer :: linorder
begin

definition less_eq_Layer :: "Layer \<Rightarrow> Layer \<Rightarrow> bool" where
  "less_eq_Layer a b \<longleftrightarrow> layer_index a \<le> layer_index b"

definition less_Layer :: "Layer \<Rightarrow> Layer \<Rightarrow> bool" where
  "less_Layer a b \<longleftrightarrow> layer_index a < layer_index b"

instance
  by standard (auto simp: less_eq_Layer_def less_Layer_def layer_index_inj)

end

fun Layer_String :: "Layer \<Rightarrow> string" where
  "Layer_String LayerHardware = ''hardware''"
| "Layer_String LayerSIM = ''sim''"
| "Layer_String LayerRegistration = ''registration''"
| "Layer_String LayerPacketService = ''packet-service''"
| "Layer_String LayerAPN = ''apn''"
| "Layer_String LayerBearer = ''bearer''"
| "Layer_String LayerNetdev = ''netdev''"
| "Layer_String LayerLiveness = ''liveness''"

fun Remedy_String :: "Remedy \<Rightarrow> string" where
  "Remedy_String RemedyNone = ''none''"
| "Remedy_String RemedyReattach = ''reattach''"
| "Remedy_String RemedyBearerBounce = ''bearer-bounce''"
| "Remedy_String RemedyModemReset = ''modem-reset''"

definition stableSessionSeconds :: u64 where "stableSessionSeconds = 120"
definition flapsBeforeFailing :: nat where "flapsBeforeFailing = 3"
definition livenessLadder :: "Remedy list" where
  "livenessLadder = [RemedyBearerBounce, RemedyReattach]"

record LinkSnapshot =
  ls_ModemPresent :: bool
  ls_PrimaryPortKnown :: bool
  ls_PrimaryPortOK :: bool
  ls_PowerState :: string
  ls_SIMLock :: string
  ls_Registration :: string
  ls_PacketService :: string
  ls_BearerKnown :: bool
  ls_BearerConnected :: bool
  ls_BearerConnectedKnown :: bool
  ls_BearerSuspended :: bool
  ls_BearerSuspendedKnown :: bool
  ls_BearerInterface :: string
  ls_BearerIPKnown :: bool
  ls_BearerIP :: string
  ls_BearerSessionKnown :: bool
  ls_BearerAttempts :: u32
  ls_BearerDuration :: u64
  ls_ATChecked :: bool
  ls_CGACTActive :: bool
  ls_CGPADDR :: string
  ls_CarrierKnown :: bool
  ls_Carrier :: bool
  ls_NetdevIP :: string
  ls_DefaultRouteKnown :: bool
  ls_HasDefaultRoute :: bool

definition zero_Snapshot :: LinkSnapshot where
  "zero_Snapshot =
     \<lparr>ls_ModemPresent = False, ls_PrimaryPortKnown = False, ls_PrimaryPortOK = False,
      ls_PowerState = '''', ls_SIMLock = '''', ls_Registration = '''', ls_PacketService = '''',
      ls_BearerKnown = False, ls_BearerConnected = False, ls_BearerConnectedKnown = False,
      ls_BearerSuspended = False, ls_BearerSuspendedKnown = False, ls_BearerInterface = '''',
      ls_BearerIPKnown = False, ls_BearerIP = '''', ls_BearerSessionKnown = False,
      ls_BearerAttempts = 0, ls_BearerDuration = 0, ls_ATChecked = False, ls_CGACTActive = False,
      ls_CGPADDR = '''', ls_CarrierKnown = False, ls_Carrier = False, ls_NetdevIP = '''',
      ls_DefaultRouteKnown = False, ls_HasDefaultRoute = False\<rparr>"

datatype link_reason =
    NoReason | ModemNotPresent | PrimaryPortUnavailable | PowerStateIs string | SIMLocked string
  | RegistrationIs string | PacketServiceDetached | BearerNotConnected | BearerIsSuspended
  | BearerHasNoAddress | PDPInactive | ModemAddrDisagrees string string | NoCarrierOn string
  | NoDefaultRouteVia string | NetdevAddrDisagrees string string | SessionFlapping nat u64

record Assessment =
  as_Healthy :: bool
  as_FailedLayer :: Layer
  as_Reason :: link_reason
  as_Remedy :: Remedy
  as_WantATCheck :: bool

definition link_fail :: "Layer \<Rightarrow> Remedy \<Rightarrow> link_reason \<Rightarrow> Assessment" where
  "link_fail l r why = \<lparr>as_Healthy = False, as_FailedLayer = l, as_Reason = why, as_Remedy = r,
     as_WantATCheck = False\<rparr>"

section \<open>The local checks\<close>

definition checkLocal :: "LinkSnapshot \<Rightarrow> Assessment option" where
  "checkLocal s =
     (if \<not> ls_ModemPresent s then
        Some (link_fail LayerHardware RemedyModemReset ModemNotPresent)
      else if ls_PrimaryPortKnown s \<and> \<not> ls_PrimaryPortOK s then
        Some (link_fail LayerHardware RemedyModemReset PrimaryPortUnavailable)
      else if ls_PowerState s \<noteq> '''' \<and> ls_PowerState s \<noteq> ''on'' then
        Some (link_fail LayerHardware RemedyModemReset (PowerStateIs (ls_PowerState s)))
      else if ls_SIMLock s \<noteq> '''' \<and> ls_SIMLock s \<noteq> ''sim-pin2'' \<and> ls_SIMLock s \<noteq> ''sim-puk2'' then
        Some (link_fail LayerSIM RemedyNone (SIMLocked (ls_SIMLock s)))
      else if ls_Registration s \<noteq> '''' \<and> ls_Registration s \<noteq> ''home'' \<and> ls_Registration s \<noteq> ''roaming''
      then Some (link_fail LayerRegistration RemedyNone (RegistrationIs (ls_Registration s)))
      else if ls_PacketService s = ''detached'' then
        Some (link_fail LayerPacketService RemedyReattach PacketServiceDetached)
      else if ls_BearerKnown s \<and> ls_BearerConnectedKnown s \<and> \<not> ls_BearerConnected s then
        Some (link_fail LayerBearer RemedyBearerBounce BearerNotConnected)
      else if ls_BearerKnown s \<and> ls_BearerSuspendedKnown s \<and> ls_BearerSuspended s then
        Some (link_fail LayerBearer RemedyBearerBounce BearerIsSuspended)
      else if ls_BearerKnown s \<and> ls_BearerConnected s \<and> ls_BearerIPKnown s \<and> ls_BearerIP s = '''' then
        Some (link_fail LayerBearer RemedyBearerBounce BearerHasNoAddress)
      else if ls_ATChecked s \<and> \<not> ls_CGACTActive s then
        Some (link_fail LayerBearer RemedyBearerBounce PDPInactive)
      else if ls_ATChecked s \<and> ls_BearerIPKnown s \<and> ls_CGPADDR s \<noteq> ''''
        \<and> ls_CGPADDR s \<noteq> ls_BearerIP s then
        Some (link_fail LayerBearer RemedyBearerBounce
                (ModemAddrDisagrees (ls_CGPADDR s) (ls_BearerIP s)))
      else if ls_CarrierKnown s \<and> \<not> ls_Carrier s then
        Some (link_fail LayerNetdev RemedyBearerBounce (NoCarrierOn (ls_BearerInterface s)))
      else if ls_DefaultRouteKnown s \<and> \<not> ls_HasDefaultRoute s then
        Some (link_fail LayerNetdev RemedyBearerBounce (NoDefaultRouteVia (ls_BearerInterface s)))
      else if ls_BearerIPKnown s \<and> ls_NetdevIP s \<noteq> '''' \<and> ls_NetdevIP s \<noteq> ls_BearerIP s then
        Some (link_fail LayerNetdev RemedyBearerBounce
                (NetdevAddrDisagrees (ls_NetdevIP s) (ls_BearerIP s)))
      else None)"

definition sessionFlapped :: "LinkSnapshot \<Rightarrow> LinkSnapshot \<Rightarrow> bool" where
  "sessionFlapped p c =
     (if \<not> ls_BearerSessionKnown p \<or> \<not> ls_BearerSessionKnown c then False
      else if ls_BearerAttempts c \<le> ls_BearerAttempts p then False
      else ls_BearerDuration c < stableSessionSeconds)"

definition suspicious :: "LinkSnapshot \<Rightarrow> bool" where
  "suspicious s =
     (if ls_BearerKnown s \<and> ((ls_BearerConnectedKnown s \<and> \<not> ls_BearerConnected s)
          \<or> (ls_BearerSuspendedKnown s \<and> ls_BearerSuspended s)) then True
      else if ls_PacketService s = ''detached'' then True
      else if ls_NetdevIP s \<noteq> '''' \<and> ls_BearerIP s \<noteq> '''' \<and> ls_NetdevIP s \<noteq> ls_BearerIP s then True
      else False)"

section \<open>The assessor\<close>

record Assessor =
  ar_prev :: LinkSnapshot
  ar_havePrev :: bool
  ar_flaps :: nat
  ar_escalation :: nat

definition Assessor_New :: Assessor where
  "Assessor_New = \<lparr>ar_prev = zero_Snapshot, ar_havePrev = False, ar_flaps = 0, ar_escalation = 0\<rparr>"

definition count_session :: "LinkSnapshot \<Rightarrow> LinkSnapshot \<Rightarrow> Assessor \<Rightarrow> Assessor" where
  "count_session p c a =
     (if sessionFlapped p c then a\<lparr>ar_flaps := ar_flaps a + 1\<rparr>
      else if ls_BearerSessionKnown c \<and> ls_BearerDuration c \<ge> stableSessionSeconds
        then a\<lparr>ar_flaps := 0, ar_escalation := 0\<rparr>
      else a)"

definition Assess :: "LinkSnapshot \<Rightarrow> Assessor \<Rightarrow> Assessment \<times> Assessor" where
  "Assess cur a0 =
     (let a = a0\<lparr>ar_prev := cur, ar_havePrev := True\<rparr> in
      case checkLocal cur of
        Some fail \<Rightarrow> (fail\<lparr>as_WantATCheck := suspicious cur\<rparr>, a)
      | None \<Rightarrow>
          let a = (if ar_havePrev a0 then count_session (ar_prev a0) cur a else a) in
          if ar_flaps a \<ge> flapsBeforeFailing then
            (\<lparr>as_Healthy = False, as_FailedLayer = LayerLiveness,
              as_Reason = SessionFlapping flapsBeforeFailing (ls_BearerDuration cur),
              as_Remedy = livenessLadder ! (min (ar_escalation a) (length livenessLadder - 1)),
              as_WantATCheck = True\<rparr>, a)
          else
            (\<lparr>as_Healthy = True, as_FailedLayer = LayerHardware, as_Reason = NoReason,
              as_Remedy = RemedyNone, as_WantATCheck = suspicious cur\<rparr>, a))"

definition NoteRemedyApplied :: "Layer \<Rightarrow> Remedy \<Rightarrow> Assessor \<Rightarrow> Assessor" where
  "NoteRemedyApplied layer r a =
     (if r = RemedyNone \<or> layer \<noteq> LayerLiveness then a
      else a\<lparr>ar_escalation := ar_escalation a + 1\<rparr>)"

section \<open>What each layer promises\<close>

text \<open>
  The abstract specification: each layer has its own predicate, stated without regard to the order
  of the checks. \<open>LayerAPN\<close> is never tested by the code.
\<close>

fun layer_ok :: "Layer \<Rightarrow> LinkSnapshot \<Rightarrow> bool" where
  "layer_ok LayerHardware s \<longleftrightarrow> ls_ModemPresent s \<and> (ls_PrimaryPortKnown s \<longrightarrow> ls_PrimaryPortOK s)
     \<and> ls_PowerState s \<in> {'''', ''on''}"
| "layer_ok LayerSIM s \<longleftrightarrow> ls_SIMLock s \<in> {'''', ''sim-pin2'', ''sim-puk2''}"
| "layer_ok LayerRegistration s \<longleftrightarrow> ls_Registration s \<in> {'''', ''home'', ''roaming''}"
| "layer_ok LayerPacketService s \<longleftrightarrow> ls_PacketService s \<noteq> ''detached''"
| "layer_ok LayerAPN s \<longleftrightarrow> True"
| "layer_ok LayerBearer s \<longleftrightarrow>
     (ls_BearerKnown s \<longrightarrow> (ls_BearerConnectedKnown s \<longrightarrow> ls_BearerConnected s)
        \<and> (ls_BearerSuspendedKnown s \<longrightarrow> \<not> ls_BearerSuspended s)
        \<and> (ls_BearerConnected s \<longrightarrow> ls_BearerIPKnown s \<longrightarrow> ls_BearerIP s \<noteq> ''''))
     \<and> (ls_ATChecked s \<longrightarrow> ls_CGACTActive s
        \<and> (ls_BearerIPKnown s \<longrightarrow> ls_CGPADDR s \<in> {'''', ls_BearerIP s}))"
| "layer_ok LayerNetdev s \<longleftrightarrow>
     (ls_CarrierKnown s \<longrightarrow> ls_Carrier s) \<and> (ls_DefaultRouteKnown s \<longrightarrow> ls_HasDefaultRoute s)
     \<and> (ls_BearerIPKnown s \<longrightarrow> ls_NetdevIP s \<in> {'''', ls_BearerIP s})"
| "layer_ok LayerLiveness s \<longleftrightarrow> True"

text \<open>The remedy of each layer, for a failure that the local checks find.\<close>

fun layer_remedy :: "Layer \<Rightarrow> Remedy" where
  "layer_remedy LayerHardware = RemedyModemReset"
| "layer_remedy LayerPacketService = RemedyReattach"
| "layer_remedy LayerBearer = RemedyBearerBounce"
| "layer_remedy LayerNetdev = RemedyBearerBounce"
| "layer_remedy _ = RemedyNone"

lemma all_layers:
  "(\<forall>l. P l) \<longleftrightarrow> P LayerHardware \<and> P LayerSIM \<and> P LayerRegistration \<and> P LayerPacketService
     \<and> P LayerAPN \<and> P LayerBearer \<and> P LayerNetdev \<and> P LayerLiveness"
  by (metis Layer.exhaust)

lemma if_Some_disj:
  "(if P then Some x else r) = Some f \<longleftrightarrow> (P \<and> f = x) \<or> (\<not> P \<and> r = Some f)"
  by auto

lemma checkLocal_lowest:
  assumes "checkLocal s = Some f"
  shows "\<not> layer_ok (as_FailedLayer f) s" and "\<forall>l. l < as_FailedLayer f \<longrightarrow> layer_ok l s"
    and "as_Remedy f = layer_remedy (as_FailedLayer f)" and "\<not> as_Healthy f"
proof -
  let ?P = "\<not> layer_ok (as_FailedLayer f) s \<and> (\<forall>l. l < as_FailedLayer f \<longrightarrow> layer_ok l s)
    \<and> as_Remedy f = layer_remedy (as_FailedLayer f) \<and> \<not> as_Healthy f"
  have ?P
    using assms unfolding checkLocal_def if_Some_disj all_layers less_Layer_def
    by (elim disjE conjE) (simp_all add: link_fail_def)
  then show "\<not> layer_ok (as_FailedLayer f) s" "\<forall>l. l < as_FailedLayer f \<longrightarrow> layer_ok l s"
    "as_Remedy f = layer_remedy (as_FailedLayer f)" "\<not> as_Healthy f" by blast+
qed

lemma checkLocal_None: "checkLocal s = None \<longleftrightarrow> (\<forall>l. layer_ok l s)"
  unfolding all_layers by (auto simp: checkLocal_def)

lemma checkLocal_layer_neq_liveness:
  "checkLocal s = Some f \<Longrightarrow> as_FailedLayer f \<noteq> LayerLiveness"
  using checkLocal_lowest(1) by fastforce

lemma hardware_least: "LayerHardware \<le> l"
  by (simp add: less_eq_Layer_def)

section \<open>Unknown readings\<close>

text \<open>
  \<open>less_known s t\<close>: \<open>s\<close> is \<open>t\<close> with some of its readings missing. A missing reading is a \<open>Known\<close>
  flag that is down, or an empty string.
\<close>

definition less_str :: "string \<Rightarrow> string \<Rightarrow> bool" where "less_str x y \<longleftrightarrow> x = '''' \<or> x = y"
definition less_obs :: "bool \<Rightarrow> 'a \<Rightarrow> bool \<Rightarrow> 'a \<Rightarrow> bool" where
  "less_obs known x known' y \<longleftrightarrow> (known \<longrightarrow> known' \<and> x = y)"

definition less_known_hardware :: "LinkSnapshot \<Rightarrow> LinkSnapshot \<Rightarrow> bool" where
  "less_known_hardware s t \<longleftrightarrow>
     (ls_ModemPresent t \<longrightarrow> ls_ModemPresent s)
     \<and> less_obs (ls_PrimaryPortKnown s) (ls_PrimaryPortOK s) (ls_PrimaryPortKnown t) (ls_PrimaryPortOK t)
     \<and> less_str (ls_PowerState s) (ls_PowerState t)"

definition less_known_bearer :: "LinkSnapshot \<Rightarrow> LinkSnapshot \<Rightarrow> bool" where
  "less_known_bearer s t \<longleftrightarrow>
     (ls_BearerKnown s \<longrightarrow> ls_BearerKnown t
        \<and> less_obs (ls_BearerConnectedKnown s) (ls_BearerConnected s)
            (ls_BearerConnectedKnown t) (ls_BearerConnected t)
        \<and> (ls_BearerConnected s \<longrightarrow> ls_BearerConnected t)
        \<and> less_obs (ls_BearerSuspendedKnown s) (ls_BearerSuspended s)
            (ls_BearerSuspendedKnown t) (ls_BearerSuspended t))
     \<and> less_obs (ls_BearerIPKnown s) (ls_BearerIP s) (ls_BearerIPKnown t) (ls_BearerIP t)"

definition less_known_at :: "LinkSnapshot \<Rightarrow> LinkSnapshot \<Rightarrow> bool" where
  "less_known_at s t \<longleftrightarrow>
     less_obs (ls_ATChecked s) (ls_CGACTActive s) (ls_ATChecked t) (ls_CGACTActive t)
     \<and> (ls_ATChecked s \<longrightarrow> less_str (ls_CGPADDR s) (ls_CGPADDR t))"

definition less_known_netdev :: "LinkSnapshot \<Rightarrow> LinkSnapshot \<Rightarrow> bool" where
  "less_known_netdev s t \<longleftrightarrow>
     less_obs (ls_CarrierKnown s) (ls_Carrier s) (ls_CarrierKnown t) (ls_Carrier t)
     \<and> less_str (ls_NetdevIP s) (ls_NetdevIP t)
     \<and> less_obs (ls_DefaultRouteKnown s) (ls_HasDefaultRoute s)
         (ls_DefaultRouteKnown t) (ls_HasDefaultRoute t)"

definition less_known :: "LinkSnapshot \<Rightarrow> LinkSnapshot \<Rightarrow> bool" where
  "less_known s t \<longleftrightarrow>
     less_known_hardware s t \<and> less_str (ls_SIMLock s) (ls_SIMLock t)
     \<and> less_str (ls_Registration s) (ls_Registration t)
     \<and> less_str (ls_PacketService s) (ls_PacketService t)
     \<and> less_known_bearer s t \<and> less_known_at s t \<and> less_known_netdev s t"

lemmas less_basic = less_str_def less_obs_def

lemma less_known_refl: "less_known s s"
  by (simp add: less_known_def less_known_hardware_def less_known_bearer_def less_known_at_def
      less_known_netdev_def less_basic)

lemma layer_ok_less_known:
  assumes "less_known s t" and "layer_ok l t"
  shows "layer_ok l s"
proof -
  note parts = assms(1) [unfolded less_known_def, simplified]
  show ?thesis
  proof (cases l)
    case LayerHardware
    from parts have "less_known_hardware s t" by simp
    with LayerHardware assms(2) show ?thesis by (auto simp: less_known_hardware_def less_basic)
  next
    case LayerBearer
    from parts have "less_known_bearer s t" "less_known_at s t" by simp_all
    with LayerBearer assms(2) show ?thesis
      by (auto simp: less_known_bearer_def less_known_at_def less_basic)
  next
    case LayerNetdev
    from parts have "less_known_bearer s t" "less_known_netdev s t" by simp_all
    with LayerNetdev assms(2) show ?thesis
      by (auto simp: less_known_bearer_def less_known_netdev_def less_basic)
  qed (use parts assms(2) in \<open>auto simp: less_str_def\<close>)
qed

section \<open>Runs of the assessor\<close>

datatype link_event = AssessEv LinkSnapshot | NoteEv Layer Remedy

fun link_step :: "link_event \<Rightarrow> Assessor \<Rightarrow> Assessor" where
  "link_step (AssessEv s) a = snd (Assess s a)"
| "link_step (NoteEv l r) a = NoteRemedyApplied l r a"

definition link_run :: "link_event list \<Rightarrow> Assessor" where
  "link_run es = fold link_step es Assessor_New"

fun snaps :: "link_event list \<Rightarrow> LinkSnapshot list" where
  "snaps [] = []"
| "snaps (AssessEv s # es) = s # snaps es"
| "snaps (NoteEv l r # es) = snaps es"

text \<open>Reconnects into a short session, counted over adjacent snapshots.\<close>

fun flap_pairs :: "LinkSnapshot list \<Rightarrow> nat" where
  "flap_pairs (p # c # ss) = (if sessionFlapped p c then 1 else 0) + flap_pairs (c # ss)"
| "flap_pairs _ = 0"

lemma link_run_snoc: "link_run (es @ [e]) = link_step e (link_run es)"
  by (simp add: link_run_def)

lemma snaps_append [simp]: "snaps (es @ fs) = snaps es @ snaps fs"
  by (induction es rule: snaps.induct) auto

lemma flap_pairs_snoc:
  "ss \<noteq> [] \<Longrightarrow> flap_pairs (ss @ [c]) = flap_pairs ss + (if sessionFlapped (last ss) c then 1 else 0)"
  by (induction ss rule: flap_pairs.induct) auto

lemma count_session_fields [simp]:
  "ar_prev (count_session p c a) = ar_prev a" "ar_havePrev (count_session p c a) = ar_havePrev a"
  by (simp_all add: count_session_def)

lemma count_session_flaps:
  "ar_flaps (count_session p c a) \<le> ar_flaps a + (if sessionFlapped p c then 1 else 0)"
  by (simp add: count_session_def)

lemma count_session_escalation: "ar_escalation (count_session p c a) \<le> ar_escalation a"
  by (simp add: count_session_def)

lemma Assess_state:
  "snd (Assess c a) =
     (let a1 = a\<lparr>ar_prev := c, ar_havePrev := True\<rparr> in
      if checkLocal c = None \<and> ar_havePrev a then count_session (ar_prev a) c a1 else a1)"
  by (simp add: Assess_def Let_def split: option.split)

lemma Assess_liveness:
  assumes "Assess c a = (v, a')" and "as_FailedLayer v = LayerLiveness"
  shows "flapsBeforeFailing \<le> ar_flaps a'"
    and "as_Remedy v = (if ar_escalation a' = 0 then RemedyBearerBounce else RemedyReattach)"
  using assms checkLocal_layer_neq_liveness
  by (auto simp: Assess_def Let_def livenessLadder_def split: option.splits if_split_asm)

lemma link_run_invariant:
  "(ar_havePrev (link_run es) \<longleftrightarrow> snaps es \<noteq> [])
   \<and> (snaps es \<noteq> [] \<longrightarrow> ar_prev (link_run es) = last (snaps es))
   \<and> ar_flaps (link_run es) \<le> flap_pairs (snaps es)
   \<and> (0 < ar_escalation (link_run es) \<longrightarrow> (\<exists>r. r \<noteq> RemedyNone \<and> NoteEv LayerLiveness r \<in> set es))"
proof (induction es rule: rev_induct)
  case Nil
  then show ?case by (simp add: link_run_def Assessor_New_def)
next
  case (snoc e es)
  show ?case
  proof (cases e)
    case (NoteEv l r)
    with snoc show ?thesis by (auto simp: link_run_snoc NoteRemedyApplied_def)
  next
    case (AssessEv c)
    let ?a = "link_run es" and ?a1 = "(link_run es)\<lparr>ar_prev := c, ar_havePrev := True\<rparr>"
    note count = count_session_flaps [of "ar_prev ?a" c ?a1]
      count_session_escalation [of "ar_prev ?a" c ?a1]
    show ?thesis
    proof (cases "snaps es = []")
      case True
      with snoc AssessEv show ?thesis by (auto simp: link_run_snoc Assess_state)
    next
      case False
      have "flap_pairs (snaps es) \<le> flap_pairs (snaps es @ [c])"
        using flap_pairs_snoc [OF False] by simp
      with False snoc AssessEv count show ?thesis
        by (auto simp: link_run_snoc Assess_state Let_def flap_pairs_snoc split: if_splits)
    qed
  qed
qed

lemma ladder_no_reset: "livenessLadder ! (min n (length livenessLadder - 1)) \<noteq> RemedyModemReset"
  by (cases n) (auto simp: livenessLadder_def)

lemma Assess_reset_iff:
  "as_Remedy (fst (Assess s a)) = RemedyModemReset \<longleftrightarrow> \<not> layer_ok LayerHardware s"
proof (cases "checkLocal s")
  case None
  then have "layer_ok LayerHardware s" using checkLocal_None by blast
  moreover have "as_Remedy (fst (Assess s a)) \<noteq> RemedyModemReset"
    using None ladder_no_reset by (simp add: Assess_def Let_def)
  ultimately show ?thesis by blast
next
  case (Some f)
  have v: "as_Remedy (fst (Assess s a)) = as_Remedy f" using Some by (simp add: Assess_def Let_def)
  from checkLocal_lowest [OF Some] have
    "as_Remedy f = RemedyModemReset \<longleftrightarrow> as_FailedLayer f = LayerHardware"
    by (cases "as_FailedLayer f") auto
  also have "\<dots> \<longleftrightarrow> \<not> layer_ok LayerHardware s"
    using checkLocal_lowest(1,2) [OF Some] hardware_least [of "as_FailedLayer f"]
    by (metis order_le_less)
  finally show ?thesis using v by simp
qed

section \<open>Properties\<close>

text \<open>
   The verdict names the lowest broken layer. A local failure is reported exactly when some
  layer's own predicate fails, and then the layer reported is the least such layer, with that
  layer's remedy: the cascade of early returns implements the ordered layer model.
\<close>

theorem checkLocal_implements_layers:
  "(checkLocal s = None \<longleftrightarrow> (\<forall>l. layer_ok l s))
   \<and> (\<forall>f. checkLocal s = Some f \<longrightarrow>
        \<not> layer_ok (as_FailedLayer f) s \<and> (\<forall>l < as_FailedLayer f. layer_ok l s)
        \<and> as_Remedy f = layer_remedy (as_FailedLayer f))"
  using checkLocal_None checkLocal_lowest by blast

definition offline_snapshot :: LinkSnapshot where
  "offline_snapshot = zero_Snapshot\<lparr>ls_ModemPresent := True, ls_PacketService := ''detached'',
     ls_BearerKnown := True, ls_BearerConnectedKnown := True\<rparr>"

lemma checkLocal_implements_layers_witness:
  "\<not> layer_ok LayerPacketService offline_snapshot
   \<and> layer_ok LayerSIM offline_snapshot
   \<and> RemedyReattach = layer_remedy LayerPacketService"
proof -
  have "checkLocal offline_snapshot =
      Some (link_fail LayerPacketService RemedyReattach PacketServiceDetached)"
    by (simp add: offline_snapshot_def zero_Snapshot_def checkLocal_def)
  moreover have "LayerSIM < LayerPacketService" by (simp add: less_Layer_def)
  ultimately show ?thesis
    using checkLocal_implements_layers [of offline_snapshot] by (auto simp: link_fail_def)
qed

text \<open>
   The full recovery ladder is started for a hardware failure and for nothing else, whatever the
  history of the assessor: the remedy is a modem reset exactly when the modem is off the bus, its
  primary port is wrong or its power state reads other than "on".
\<close>

theorem modem_reset_iff_hardware:
  "as_Remedy (fst (Assess s a)) = RemedyModemReset \<longleftrightarrow> \<not> layer_ok LayerHardware s"
  by (rule Assess_reset_iff)

text \<open>
   Missing readings never make things worse. If no layer fails on a complete snapshot, none fails
  on any snapshot that lacks some of its readings, so a flaky bus cannot manufacture a remedy.
\<close>

theorem unknown_reads_pass:
  assumes "less_known s t" and "checkLocal t = None"
  shows "checkLocal s = None"
  using assms layer_ok_less_known checkLocal_None by blast

definition good_snapshot :: LinkSnapshot where
  "good_snapshot = zero_Snapshot\<lparr>ls_ModemPresent := True, ls_PrimaryPortKnown := True,
     ls_PrimaryPortOK := True, ls_PowerState := ''on'', ls_Registration := ''roaming'',
     ls_BearerKnown := True, ls_BearerConnected := True, ls_BearerConnectedKnown := True,
     ls_BearerIPKnown := True, ls_BearerIP := ''10.0.0.7'', ls_NetdevIP := ''10.0.0.7'',
     ls_CarrierKnown := True, ls_Carrier := True\<rparr>"

lemma unknown_reads_pass_witness:
  "checkLocal (good_snapshot\<lparr>ls_BearerIPKnown := False, ls_BearerIP := '''', ls_PowerState := ''''\<rparr>) = None"
proof (rule unknown_reads_pass)
  show "less_known (good_snapshot\<lparr>ls_BearerIPKnown := False, ls_BearerIP := '''', ls_PowerState := ''''\<rparr>)
      good_snapshot"
    by (simp add: good_snapshot_def zero_Snapshot_def less_known_def less_known_hardware_def
        less_known_bearer_def less_known_at_def less_known_netdev_def less_basic)
  show "checkLocal good_snapshot = None"
    by (simp add: good_snapshot_def zero_Snapshot_def checkLocal_def)
qed


definition session_snapshot :: "u32 \<Rightarrow> u64 \<Rightarrow> LinkSnapshot" where
  "session_snapshot n d = zero_Snapshot\<lparr>ls_ModemPresent := True, ls_BearerSessionKnown := True,
     ls_BearerAttempts := n, ls_BearerDuration := d\<rparr>"


end
