(* ===== verification/Modem.thy ===== *)
theory Modem
  imports MM_Client
begin

text \<open>
  \<open>internal/modem/modem.go\<close>: the modem state read over D-Bus and the checks on it. The bus and the
  network interface are the parameter record \<open>modem_env\<close>: what \<open>FindModem\<close> returns, a property
  reader, the modem's reply to an AT command, and the addresses of the interface. No property is
  read twice by \<open>GetModemInfo\<close>, so a reader that is a function loses nothing.
\<close>

section \<open>State\<close>

definition SIMStateUnknown :: string where "SIMStateUnknown = ''unknown''"
definition SIMStatePresent :: string where "SIMStatePresent = ''present''"
definition SIMStateMissing :: string where "SIMStateMissing = ''missing''"
definition SIMStateLocked :: string where "SIMStateLocked = ''locked''"
definition SIMStateInactive :: string where "SIMStateInactive = ''inactive''"

lemmas sim_state_defs = SIMStateUnknown_def SIMStatePresent_def SIMStateMissing_def
  SIMStateLocked_def SIMStateInactive_def

record State =
  stStatus :: string
  stLastRawModemStatus :: string
  stAccessTech :: string
  stSignalQuality :: "8 word"
  stIPAddr :: string
  stIfIPAddr :: string
  stRegistration :: string
  stIMEI :: string
  stIMSI :: string
  stICCID :: string
  stPowerState :: string
  stSIMState :: string
  stSIMLockStatus :: string
  stSIMLockStatusKnown :: bool
  stSIMPath :: object_path
  stSIMPinLockEnabled :: bool
  stSIMPinLockKnown :: bool
  stUnlockRetriesPin :: u32
  stOperatorName :: string
  stOperatorCode :: string
  stIsRoaming :: bool
  stRegistrationFail :: string
  stErrorState :: string
  stPinAction :: string
  stApnAction :: string

definition NewState :: State where
  "NewState = \<lparr>stStatus = ''UNKNOWN'', stLastRawModemStatus = ''UNKNOWN'', stAccessTech = ''UNKNOWN'',
     stSignalQuality = 255, stIPAddr = ''UNKNOWN'', stIfIPAddr = ''UNKNOWN'', stRegistration = '''',
     stIMEI = '''', stIMSI = '''', stICCID = '''', stPowerState = ''off'',
     stSIMState = SIMStateUnknown, stSIMLockStatus = '''', stSIMLockStatusKnown = False,
     stSIMPath = '''', stSIMPinLockEnabled = False, stSIMPinLockKnown = False,
     stUnlockRetriesPin = 0, stOperatorName = '''', stOperatorCode = '''', stIsRoaming = False,
     stRegistrationFail = '''', stErrorState = '''', stPinAction = '''', stApnAction = ''''\<rparr>"

record if_addr =
  ia_IsIPNet :: bool
  ia_GlobalUnicast :: bool
  ia_Is4 :: bool
  ia_Text :: string

record modem_env =
  me_modem :: "object_path option"
  me_prop :: prop_reader
  me_at :: "string \<Rightarrow> at_error + string"
  me_addrs :: "if_addr list option"

definition env_prop :: "modem_env \<Rightarrow> object_path \<Rightarrow> string \<Rightarrow> variant option" where
  "env_prop env p name = me_prop env p ModemInterface name"
definition env_3gpp :: "modem_env \<Rightarrow> object_path \<Rightarrow> string \<Rightarrow> variant option" where
  "env_3gpp env p name = me_prop env p Modem3gppInterface name"
definition env_sim :: "modem_env \<Rightarrow> object_path \<Rightarrow> string \<Rightarrow> variant option" where
  "env_sim env p name = me_prop env p SimInterface name"

section \<open>Reading the state\<close>

text \<open>\<open>if v, err := GetProperty(..); err == nil { if x, ok := v.Value().(T); ok { .. } }\<close>\<close>

fun on_string :: "variant option \<Rightarrow> (string \<Rightarrow> State \<Rightarrow> State) \<Rightarrow> State \<Rightarrow> State" where
  "on_string (Some (VString x)) f st = f x st"
| "on_string _ f st = st"

fun on_uint32 :: "variant option \<Rightarrow> (u32 \<Rightarrow> State \<Rightarrow> State) \<Rightarrow> State \<Rightarrow> State" where
  "on_uint32 (Some (VUInt32 x)) f st = f x st"
| "on_uint32 _ f st = st"

fun on_int32 :: "variant option \<Rightarrow> (i32 \<Rightarrow> State \<Rightarrow> State) \<Rightarrow> State \<Rightarrow> State" where
  "on_int32 (Some (VInt32 x)) f st = f x st"
| "on_int32 _ f st = st"

definition read_power :: "variant \<Rightarrow> State \<Rightarrow> State" where
  "read_power v = on_uint32 (Some v) (\<lambda>n st. st\<lparr>stPowerState := PowerStateToString n\<rparr>)"

definition read_status :: "modem_env \<Rightarrow> object_path \<Rightarrow> State \<Rightarrow> State" where
  "read_status env p = on_int32 (env_prop env p ''State'') (\<lambda>n st.
     st\<lparr>stStatus := (if stPowerState st \<noteq> ''on'' then ''off''
                     else if n = MMModemStateConnected then ''connected'' else ''disconnected'')\<rparr>)"

definition read_iccid :: "modem_env \<Rightarrow> object_path \<Rightarrow> State \<Rightarrow> State" where
  "read_iccid env simPath st =
     (let fallback = on_string (env_sim env simPath ''SimIdentifier'') (\<lambda>x st. st\<lparr>stICCID := x\<rparr>) in
      case map_sum id (\<lambda>r. extractPrefixedValue r ''+ICCID:'') (me_at env ''AT+ICCID'') of
        Inr iccid \<Rightarrow> if iccid \<noteq> '''' then st\<lparr>stICCID := iccid\<rparr> else fallback st
      | Inl e \<Rightarrow> fallback st)"

definition read_sim_object :: "modem_env \<Rightarrow> object_path \<Rightarrow> State \<Rightarrow> State" where
  "read_sim_object env simPath st =
     (let st = st\<lparr>stSIMState := SIMStatePresent, stSIMPath := simPath\<rparr>;
          st = on_string (env_sim env simPath ''Imsi'') (\<lambda>x st. st\<lparr>stIMSI := x\<rparr>) st;
          st = read_iccid env simPath st;
          st = on_string (env_sim env simPath ''OperatorName'') (\<lambda>x st. st\<lparr>stOperatorName := x\<rparr>) st
      in on_string (env_sim env simPath ''OperatorIdentifier'') (\<lambda>x st. st\<lparr>stOperatorCode := x\<rparr>) st)"

text \<open>The path of the SIM object that the \<open>Sim\<close> property names, if it names one.\<close>

fun sim_path :: "variant \<Rightarrow> object_path option" where
  "sim_path (VPath q) = (if q \<noteq> ''/'' then Some q else None)"
| "sim_path _ = None"

definition read_sim :: "modem_env \<Rightarrow> object_path \<Rightarrow> State \<Rightarrow> State" where
  "read_sim env p st =
     (case env_prop env p ''Sim'' of
        None \<Rightarrow> st
      | Some v \<Rightarrow> (case sim_path v of Some q \<Rightarrow> read_sim_object env q st
                   | None \<Rightarrow> st\<lparr>stSIMState := SIMStateMissing\<rparr>))"

definition read_lock :: "modem_env \<Rightarrow> object_path \<Rightarrow> State \<Rightarrow> State" where
  "read_lock env p = on_uint32 (env_prop env p ''UnlockRequired'') (\<lambda>n st.
     let lockStr = LockReasonToString n in
     if lockStr \<noteq> ''unknown'' then
       (let st = st\<lparr>stSIMLockStatusKnown := True\<rparr> in
        if lockStr \<noteq> ''none'' then st\<lparr>stSIMLockStatus := lockStr, stSIMState := SIMStateLocked\<rparr>
        else st)
     else st)"

definition read_pin_lock :: "modem_env \<Rightarrow> object_path \<Rightarrow> State \<Rightarrow> State" where
  "read_pin_lock env p st =
     (let st = (case GetEnabledFacilityLocks (me_prop env) p of
            Some locks \<Rightarrow> st\<lparr>stSIMPinLockEnabled := and locks FacilitySim \<noteq> 0, stSIMPinLockKnown := True\<rparr>
          | None \<Rightarrow> st)
      in case GetUnlockRetries (me_prop env) p of
           Some retries \<Rightarrow> st\<lparr>stUnlockRetriesPin := (case retries LockSimPin of Some n \<Rightarrow> n | None \<Rightarrow> 0)\<rparr>
         | None \<Rightarrow> st)"

definition read_quality :: "modem_env \<Rightarrow> object_path \<Rightarrow> State \<Rightarrow> State" where
  "read_quality env p st =
     (case env_prop env p ''SignalQuality'' of
        Some (VSlice (v # _)) \<Rightarrow> on_uint32 (Some v) (\<lambda>n st. st\<lparr>stSignalQuality := ucast n\<rparr>) st
      | _ \<Rightarrow> st)"

definition read_imei :: "modem_env \<Rightarrow> object_path \<Rightarrow> State \<Rightarrow> State" where
  "read_imei env p st =
     (let fallback = on_string (env_prop env p ''EquipmentIdentifier'') (\<lambda>x st. st\<lparr>stIMEI := x\<rparr>) in
      case map_sum id extractValue (me_at env ''AT+GSN'') of
        Inr imei \<Rightarrow> if imei \<noteq> '''' then st\<lparr>stIMEI := imei\<rparr> else fallback st
      | Inl e \<Rightarrow> fallback st)"

definition read_network :: "modem_env \<Rightarrow> object_path \<Rightarrow> State \<Rightarrow> State" where
  "read_network env p st =
     (let st = on_uint32 (env_prop env p ''AccessTechnologies'')
                 (\<lambda>n st. st\<lparr>stAccessTech := AccessTechnologyToString n\<rparr>) st
      in on_uint32 (env_3gpp env p ''RegistrationState'')
           (\<lambda>n st. st\<lparr>stRegistration := RegistrationStateToString n,
                      stIsRoaming := (n = RegistrationStateRoaming)\<rparr>) st)"

definition read_operator :: "modem_env \<Rightarrow> object_path \<Rightarrow> State \<Rightarrow> State" where
  "read_operator env p st =
     (let st = (if stOperatorName st = '''' then
                  on_string (env_3gpp env p ''OperatorName'') (\<lambda>x st. st\<lparr>stOperatorName := x\<rparr>) st
                else st)
      in if stOperatorCode st = '''' then
           on_string (env_3gpp env p ''OperatorCode'') (\<lambda>x st. st\<lparr>stOperatorCode := x\<rparr>) st
         else st)"

fun GetInterfaceIP :: "if_addr list option \<Rightarrow> string option" where
  "GetInterfaceIP None = None"
| "GetInterfaceIP (Some []) = None"
| "GetInterfaceIP (Some (a # as)) =
     (if ia_IsIPNet a \<and> ia_GlobalUnicast a \<and> ia_Is4 a then Some (ia_Text a) else GetInterfaceIP (Some as))"

definition read_interface :: "modem_env \<Rightarrow> State \<Rightarrow> State" where
  "read_interface env st =
     (if stStatus st = ''connected'' then
        (case GetInterfaceIP (me_addrs env) of
           Some ip \<Rightarrow> st\<lparr>stIfIPAddr := ip\<rparr>
         | None \<Rightarrow> st\<lparr>stStatus := ''disconnected''\<rparr>)
      else st)"

definition error_state :: "State \<Rightarrow> string" where
  "error_state st =
     (if stPowerState st \<noteq> ''on'' then ''powered-off''
      else if stSIMState st = SIMStateMissing then ''sim-missing''
      else if stSIMState st = SIMStateInactive then ''sim-inactive''
      else if stSIMLockStatus st \<noteq> '''' \<and> stSIMLockStatus st \<noteq> ''none'' then ''sim-locked''
      else if stRegistration st = ''denied'' then ''registration-denied''
      else if stRegistration st = ''failed'' then ''registration-failed''
      else if stStatus st = ''disconnected'' \<and> stRegistration st \<noteq> ''home''
        \<and> stRegistration st \<noteq> ''roaming'' then ''disconnected''
      else stErrorState st)"

definition read_error :: "State \<Rightarrow> State" where
  "read_error st = (if stErrorState st = ''ok'' then st\<lparr>stErrorState := error_state st\<rparr> else st)"

text \<open>The state and whether an error is returned with it.\<close>

definition GetModemInfo :: "modem_env \<Rightarrow> State \<times> bool" where
  "GetModemInfo env =
     (let st = NewState\<lparr>stErrorState := ''ok''\<rparr> in
      case me_modem env of
        None \<Rightarrow> (st\<lparr>stStatus := ''no-modem'', stErrorState := ''no-modem''\<rparr>, True)
      | Some p \<Rightarrow>
          (case env_prop env p ''PowerState'' of
             None \<Rightarrow> (st\<lparr>stStatus := ''no-modem'', stErrorState := ''modem-disappeared''\<rparr>, True)
           | Some v \<Rightarrow>
               (read_error (read_interface env (read_operator env p (read_network env p
                 (read_imei env p (read_quality env p (read_pin_lock env p (read_lock env p
                   (read_sim env p (read_status env p (read_power v st)))))))))), False)))"

section \<open>Checks\<close>

definition isModemReadyState :: "i32 \<Rightarrow> bool" where
  "isModemReadyState state \<longleftrightarrow> state = MMModemStateLocked \<or> MMModemStateEnabled \<le>s state"

datatype ready_error = ReadyUnread | ReadyWrongType | NotReady string

definition checkReadyState :: "modem_env \<Rightarrow> object_path \<Rightarrow> ready_error option" where
  "checkReadyState env p =
     (case env_prop env p ''State'' of
        None \<Rightarrow> Some ReadyUnread
      | Some (VInt32 n) \<Rightarrow> if isModemReadyState n then None else Some (NotReady (ModemStateToString n))
      | Some _ \<Rightarrow> Some ReadyWrongType)"

text \<open>\<open>True\<close> is an error, as in Go's \<open>err != nil\<close>; a value of another type passes.\<close>

definition CheckPrimaryPort :: "modem_env \<Rightarrow> bool" where
  "CheckPrimaryPort env =
     (case me_modem env of
        None \<Rightarrow> True
      | Some p \<Rightarrow> (case env_prop env p ''PrimaryPort'' of
          None \<Rightarrow> True
        | Some (VString port) \<Rightarrow> port \<noteq> ''cdc-wdm0''
        | Some _ \<Rightarrow> False))"

definition CheckPowerState :: "modem_env \<Rightarrow> bool" where
  "CheckPowerState env =
     (case me_modem env of
        None \<Rightarrow> True
      | Some p \<Rightarrow> (case env_prop env p ''PowerState'' of
          None \<Rightarrow> True
        | Some (VUInt32 n) \<Rightarrow> n \<noteq> MMModemPowerStateOn
        | Some _ \<Rightarrow> False))"

definition FindModemID :: "modem_env \<Rightarrow> string option" where
  "FindModemID env = map_option (\<lambda>p. last (split_char (CHR ''/'') p)) (me_modem env)"

section \<open>What each step leaves alone\<close>

named_theorems st_frame \<open>fields that a step does not write\<close>

lemma on_string_frame: "(\<And>x st. g (f x st) = g st) \<Longrightarrow> g (on_string v f st) = g st"
  by (cases "(v, f, st)" rule: on_string.cases) auto

lemma on_uint32_frame: "(\<And>x st. g (f x st) = g st) \<Longrightarrow> g (on_uint32 v f st) = g st"
  by (cases "(v, f, st)" rule: on_uint32.cases) auto

lemma on_int32_frame: "(\<And>x st. g (f x st) = g st) \<Longrightarrow> g (on_int32 v f st) = g st"
  by (cases "(v, f, st)" rule: on_int32.cases) auto

lemma read_power_frame [st_frame]:
  "stStatus (read_power v st) = stStatus st"
  "stSIMState (read_power v st) = stSIMState st"
  "stSIMLockStatus (read_power v st) = stSIMLockStatus st"
  "stRegistration (read_power v st) = stRegistration st"
  "stErrorState (read_power v st) = stErrorState st"
  "stSIMPath (read_power v st) = stSIMPath st"
  "stIMSI (read_power v st) = stIMSI st"
  "stICCID (read_power v st) = stICCID st"
  by (simp_all add: read_power_def on_string_frame on_uint32_frame on_int32_frame
      split: option.split sum.split variant.split list.split)

lemma read_status_frame [st_frame]:
  "stPowerState (read_status env p st) = stPowerState st"
  "stSIMState (read_status env p st) = stSIMState st"
  "stSIMLockStatus (read_status env p st) = stSIMLockStatus st"
  "stRegistration (read_status env p st) = stRegistration st"
  "stErrorState (read_status env p st) = stErrorState st"
  "stSIMPath (read_status env p st) = stSIMPath st"
  "stIMSI (read_status env p st) = stIMSI st"
  "stICCID (read_status env p st) = stICCID st"
  by (simp_all add: read_status_def on_string_frame on_uint32_frame on_int32_frame
      split: option.split sum.split variant.split list.split)

lemma read_sim_frame [st_frame]:
  "stPowerState (read_sim env p st) = stPowerState st"
  "stStatus (read_sim env p st) = stStatus st"
  "stSIMLockStatus (read_sim env p st) = stSIMLockStatus st"
  "stRegistration (read_sim env p st) = stRegistration st"
  "stErrorState (read_sim env p st) = stErrorState st"
  by (simp_all add: read_sim_def read_sim_object_def read_iccid_def Let_def on_string_frame on_uint32_frame on_int32_frame
      split: option.split sum.split variant.split list.split)

lemma read_lock_frame [st_frame]:
  "stPowerState (read_lock env p st) = stPowerState st"
  "stStatus (read_lock env p st) = stStatus st"
  "stRegistration (read_lock env p st) = stRegistration st"
  "stErrorState (read_lock env p st) = stErrorState st"
  "stSIMPath (read_lock env p st) = stSIMPath st"
  "stIMSI (read_lock env p st) = stIMSI st"
  "stICCID (read_lock env p st) = stICCID st"
  by (simp_all add: read_lock_def Let_def on_string_frame on_uint32_frame on_int32_frame
      split: option.split sum.split variant.split list.split)

lemma read_pin_lock_frame [st_frame]:
  "stPowerState (read_pin_lock env p st) = stPowerState st"
  "stStatus (read_pin_lock env p st) = stStatus st"
  "stSIMState (read_pin_lock env p st) = stSIMState st"
  "stSIMLockStatus (read_pin_lock env p st) = stSIMLockStatus st"
  "stRegistration (read_pin_lock env p st) = stRegistration st"
  "stErrorState (read_pin_lock env p st) = stErrorState st"
  "stSIMPath (read_pin_lock env p st) = stSIMPath st"
  "stIMSI (read_pin_lock env p st) = stIMSI st"
  "stICCID (read_pin_lock env p st) = stICCID st"
  by (simp_all add: read_pin_lock_def Let_def on_string_frame on_uint32_frame on_int32_frame
      split: option.split sum.split variant.split list.split)

lemma read_quality_frame [st_frame]:
  "stPowerState (read_quality env p st) = stPowerState st"
  "stStatus (read_quality env p st) = stStatus st"
  "stSIMState (read_quality env p st) = stSIMState st"
  "stSIMLockStatus (read_quality env p st) = stSIMLockStatus st"
  "stRegistration (read_quality env p st) = stRegistration st"
  "stErrorState (read_quality env p st) = stErrorState st"
  "stSIMPath (read_quality env p st) = stSIMPath st"
  "stIMSI (read_quality env p st) = stIMSI st"
  "stICCID (read_quality env p st) = stICCID st"
  by (simp_all add: read_quality_def on_string_frame on_uint32_frame on_int32_frame
      split: option.split sum.split variant.split list.split)

lemma read_imei_frame [st_frame]:
  "stPowerState (read_imei env p st) = stPowerState st"
  "stStatus (read_imei env p st) = stStatus st"
  "stSIMState (read_imei env p st) = stSIMState st"
  "stSIMLockStatus (read_imei env p st) = stSIMLockStatus st"
  "stRegistration (read_imei env p st) = stRegistration st"
  "stErrorState (read_imei env p st) = stErrorState st"
  "stSIMPath (read_imei env p st) = stSIMPath st"
  "stIMSI (read_imei env p st) = stIMSI st"
  "stICCID (read_imei env p st) = stICCID st"
  by (simp_all add: read_imei_def Let_def on_string_frame on_uint32_frame on_int32_frame
      split: option.split sum.split variant.split list.split)

lemma read_network_frame [st_frame]:
  "stPowerState (read_network env p st) = stPowerState st"
  "stStatus (read_network env p st) = stStatus st"
  "stSIMState (read_network env p st) = stSIMState st"
  "stSIMLockStatus (read_network env p st) = stSIMLockStatus st"
  "stErrorState (read_network env p st) = stErrorState st"
  "stSIMPath (read_network env p st) = stSIMPath st"
  "stIMSI (read_network env p st) = stIMSI st"
  "stICCID (read_network env p st) = stICCID st"
  by (simp_all add: read_network_def Let_def on_string_frame on_uint32_frame on_int32_frame
      split: option.split sum.split variant.split list.split)

lemma read_operator_frame [st_frame]:
  "stPowerState (read_operator env p st) = stPowerState st"
  "stStatus (read_operator env p st) = stStatus st"
  "stSIMState (read_operator env p st) = stSIMState st"
  "stSIMLockStatus (read_operator env p st) = stSIMLockStatus st"
  "stRegistration (read_operator env p st) = stRegistration st"
  "stErrorState (read_operator env p st) = stErrorState st"
  "stSIMPath (read_operator env p st) = stSIMPath st"
  "stIMSI (read_operator env p st) = stIMSI st"
  "stICCID (read_operator env p st) = stICCID st"
  by (simp_all add: read_operator_def Let_def on_string_frame on_uint32_frame on_int32_frame
      split: option.split sum.split variant.split list.split)

lemma read_interface_frame [st_frame]:
  "stPowerState (read_interface env st) = stPowerState st"
  "stSIMState (read_interface env st) = stSIMState st"
  "stSIMLockStatus (read_interface env st) = stSIMLockStatus st"
  "stRegistration (read_interface env st) = stRegistration st"
  "stErrorState (read_interface env st) = stErrorState st"
  "stSIMPath (read_interface env st) = stSIMPath st"
  "stIMSI (read_interface env st) = stIMSI st"
  "stICCID (read_interface env st) = stICCID st"
  by (simp_all add: read_interface_def on_string_frame on_uint32_frame on_int32_frame
      split: option.split sum.split variant.split list.split)

lemma read_error_frame [st_frame]:
  "stPowerState (read_error st) = stPowerState st"
  "stStatus (read_error st) = stStatus st"
  "stSIMState (read_error st) = stSIMState st"
  "stSIMLockStatus (read_error st) = stSIMLockStatus st"
  "stRegistration (read_error st) = stRegistration st"
  "stSIMPath (read_error st) = stSIMPath st"
  "stIMSI (read_error st) = stIMSI st"
  "stICCID (read_error st) = stICCID st"
  by (simp_all add: read_error_def on_string_frame on_uint32_frame on_int32_frame
      split: option.split sum.split variant.split list.split)

section \<open>What each step writes\<close>

lemma read_power_value:
  "stPowerState (read_power v st) = (case v of VUInt32 n \<Rightarrow> PowerStateToString n | _ \<Rightarrow> stPowerState st)"
  by (cases v) (simp_all add: read_power_def)

lemma read_status_value:
  "stStatus (read_status env p st) =
     (case env_prop env p ''State'' of
        Some (VInt32 n) \<Rightarrow> (if stPowerState st \<noteq> ''on'' then ''off''
          else if n = MMModemStateConnected then ''connected'' else ''disconnected'')
      | _ \<Rightarrow> stStatus st)"
  by (simp add: read_status_def split: option.split variant.split)

lemma read_sim_object_SIMState: "stSIMState (read_sim_object env q st) = SIMStatePresent"
  by (simp add: read_sim_object_def read_iccid_def Let_def on_string_frame split: sum.split)

lemma read_sim_value:
  "stSIMState (read_sim env p st) =
     (case env_prop env p ''Sim'' of None \<Rightarrow> stSIMState st
      | Some v \<Rightarrow> if sim_path v = None then SIMStateMissing else SIMStatePresent)"
  by (simp add: read_sim_def read_sim_object_SIMState split: option.split)

text \<open>A lock that is known and stands.\<close>

definition known_lock :: "modem_env \<Rightarrow> object_path \<Rightarrow> bool" where
  "known_lock env p \<longleftrightarrow> (case env_prop env p ''UnlockRequired'' of
     Some (VUInt32 n) \<Rightarrow> LockReasonToString n \<notin> {''unknown'', ''none''} | _ \<Rightarrow> False)"

lemma read_lock_value:
  "stSIMState (read_lock env p st) = (if known_lock env p then SIMStateLocked else stSIMState st)"
  by (simp add: read_lock_def known_lock_def Let_def split: option.split variant.split)

lemma read_network_value:
  "stRegistration (read_network env p st) =
     (case env_3gpp env p ''RegistrationState'' of
        Some (VUInt32 n) \<Rightarrow> RegistrationStateToString n | _ \<Rightarrow> stRegistration st)"
  by (simp add: read_network_def Let_def on_uint32_frame split: option.split variant.split)

lemma read_interface_value:
  "stStatus (read_interface env st) = ''connected'' \<longleftrightarrow>
     stStatus st = ''connected'' \<and> GetInterfaceIP (me_addrs env) \<noteq> None"
  by (auto simp: read_interface_def split: option.split)

lemmas st_values = read_power_value read_status_value read_sim_value read_lock_value
  read_network_value

text \<open>The pipeline of \<open>GetModemInfo\<close> once the power state has been read.\<close>

lemma GetModemInfo_cases:
  obtains (no_modem) "me_modem env = None" "GetModemInfo env =
      (NewState\<lparr>stErrorState := ''no-modem'', stStatus := ''no-modem''\<rparr>, True)"
  | (gone) p where "me_modem env = Some p" "env_prop env p ''PowerState'' = None" "GetModemInfo env =
      (NewState\<lparr>stErrorState := ''modem-disappeared'', stStatus := ''no-modem''\<rparr>, True)"
  | (read) p v where "me_modem env = Some p" "env_prop env p ''PowerState'' = Some v"
      "GetModemInfo env = (read_error (read_interface env (read_operator env p (read_network env p
        (read_imei env p (read_quality env p (read_pin_lock env p (read_lock env p
          (read_sim env p (read_status env p (read_power v (NewState\<lparr>stErrorState := ''ok''\<rparr>))))))))))), False)"
  by (cases "me_modem env"; cases "env_prop env (the (me_modem env)) ''PowerState''")
     (auto simp: GetModemInfo_def)

lemma NewState_fields [simp]:
  "stStatus NewState = ''UNKNOWN''" "stPowerState NewState = ''off''"
  "stSIMState NewState = SIMStateUnknown" "stRegistration NewState = ''''"
  "stSIMLockStatus NewState = ''''"
  by (simp_all add: NewState_def)

section \<open>Properties\<close>

text \<open>
   "connected" is never a guess. The reported status is \<open>connected\<close> exactly when a modem is on the
  bus, its power state was read as on, its state was read as connected, and the network interface
  has a global IPv4 address.
\<close>

theorem reported_connected_iff:
  "stStatus (fst (GetModemInfo env)) = ''connected'' \<longleftrightarrow>
     (\<exists>p. me_modem env = Some p
        \<and> env_prop env p ''PowerState'' = Some (VUInt32 MMModemPowerStateOn)
        \<and> env_prop env p ''State'' = Some (VInt32 MMModemStateConnected)
        \<and> GetInterfaceIP (me_addrs env) \<noteq> None)"
proof (cases env rule: GetModemInfo_cases)
  case (read p v)
  have on: "stPowerState (read_power v (NewState\<lparr>stErrorState := ''ok''\<rparr>)) = ''on''
      \<longleftrightarrow> v = VUInt32 MMModemPowerStateOn"
    by (cases v) (auto simp: read_power_value PowerStateToString_on_iff)
  show ?thesis
    using read on
    by (auto simp: st_frame read_interface_value read_status_value
        split: option.splits variant.splits if_splits)
qed auto

text \<open>
   "missing" is a statement of the modem. The SIM state is reported as missing exactly when the
  modem answered for its power state and for its SIM, the SIM property names no object, and no SIM
  lock is known; a modem that is off the bus or cannot be read never yields it.
\<close>

theorem sim_missing_iff:
  "stSIMState (fst (GetModemInfo env)) = SIMStateMissing \<longleftrightarrow>
     (\<exists>p v. me_modem env = Some p \<and> env_prop env p ''PowerState'' \<noteq> None
        \<and> env_prop env p ''Sim'' = Some v \<and> sim_path v = None \<and> \<not> known_lock env p)"
proof (cases env rule: GetModemInfo_cases)
  case (read p v)
  then show ?thesis
    by (auto simp: st_frame read_lock_value read_sim_value sim_state_defs split: option.splits)
qed (auto simp: sim_state_defs)

text \<open>
   The states that the classifier also knows but that this producer cannot report: whatever the
  modem answers, the registration is never \<open>failed\<close> and the SIM state is never \<open>inactive\<close>.
\<close>

theorem never_failed_or_inactive:
  "stRegistration (fst (GetModemInfo env)) \<noteq> ''failed''
   \<and> stSIMState (fst (GetModemInfo env)) \<noteq> SIMStateInactive"
proof (cases env rule: GetModemInfo_cases)
  case (read p v)
  have "RegistrationStateToString n \<noteq> ''failed''" for n
    using RegistrationStateToString_values [of n] by auto
  with read show ?thesis
    by (auto simp: st_frame read_network_value read_lock_value read_sim_value sim_state_defs
        split: option.splits variant.splits)
qed (auto simp: sim_state_defs)

end
