(* ===== verification/Snapshot.thy ===== *)
theory Snapshot
  imports Modem Link
begin

text \<open>
  \<open>internal/modem/snapshot.go\<close>: gathering the observation that \<open>Link\<close> assesses. The environment of
  \<open>Modem\<close> is extended by the contents of the two kernel files that are read, \<open>None\<close> when the read
  fails. \<open>sysfsNetRoot\<close> and \<open>procNetRoute\<close> are not needed.
\<close>

record link_env = modem_env +
  le_carrier :: "string option"
  le_routes :: "string option"

record BearerUsage =
  bu_Valid :: bool
  bu_Path :: string
  bu_RxBytes :: u64
  bu_TxBytes :: u64

definition zero_Usage :: BearerUsage where
  "zero_Usage = \<lparr>bu_Valid = False, bu_Path = '''', bu_RxBytes = 0, bu_TxBytes = 0\<rparr>"

definition bearerUsage :: "BearerInfo \<Rightarrow> BearerUsage" where
  "bearerUsage b =
     (if st_HaveTotals (bi_Stats b) then
        \<lparr>bu_Valid = bi_StatsKnown b, bu_Path = bi_Path b,
         bu_RxBytes = st_TotalRxBytes (bi_Stats b), bu_TxBytes = st_TotalTxBytes (bi_Stats b)\<rparr>
      else
        \<lparr>bu_Valid = bi_StatsKnown b, bu_Path = bi_Path b,
         bu_RxBytes = st_RxBytes (bi_Stats b), bu_TxBytes = st_TxBytes (bi_Stats b)\<rparr>)"

section \<open>Parsing\<close>

definition normalizeAddr :: "string \<Rightarrow> string" where
  "normalizeAddr s0 =
     (let s = TrimSpace s0 in
      if s = '''' then '''' else if EqualFold s ''UNKNOWN'' then ''''
      else if s = ''0.0.0.0'' then '''' else s)"

text \<open>What follows the prefix and the first comma after it, on one line.\<close>

definition after_comma :: "string \<Rightarrow> string \<Rightarrow> string option" where
  "after_comma p line =
     (case Cut line p of None \<Rightarrow> None
      | Some (_, rest) \<Rightarrow> (case Cut rest '','' of None \<Rightarrow> None | Some (_, v) \<Rightarrow> Some v))"

fun cgact_lines :: "string list \<Rightarrow> bool \<Rightarrow> bool \<times> bool" where
  "cgact_lines [] parsed = (False, parsed)"
| "cgact_lines (l # ls) parsed =
     (case after_comma ''+CGACT:'' l of
        None \<Rightarrow> cgact_lines ls parsed
      | Some st \<Rightarrow> if TrimSpace st = ''1'' then (True, True) else cgact_lines ls True)"

definition ParseCGACT :: "string \<Rightarrow> bool \<times> bool" where
  "ParseCGACT out = cgact_lines (split_char (CHR 0x0A) out) False"

fun cgpaddr_lines :: "string list \<Rightarrow> string" where
  "cgpaddr_lines [] = ''''"
| "cgpaddr_lines (l # ls) =
     (case after_comma ''+CGPADDR:'' l of
        None \<Rightarrow> cgpaddr_lines ls
      | Some addr \<Rightarrow> normalizeAddr (trim_char (CHR 0x22) (TrimSpace addr)))"

definition ParseCGPADDR :: "string \<Rightarrow> string" where
  "ParseCGPADDR out = cgpaddr_lines (split_char (CHR 0x0A) out)"

definition readCarrierObservation :: "string option \<Rightarrow> bool \<times> bool" where
  "readCarrierObservation data =
     (case data of None \<Rightarrow> (False, False) | Some d \<Rightarrow> (TrimSpace d = ''1'', True))"

fun route_lines :: "string \<Rightarrow> string list \<Rightarrow> bool" where
  "route_lines iface [] = False"
| "route_lines iface (l # ls) =
     (case Fields l of
        f0 # f1 # _ \<Rightarrow> (if f0 = iface \<and> f1 = ''00000000'' then True else route_lines iface ls)
      | _ \<Rightarrow> route_lines iface ls)"

definition parseDefaultRoute :: "string \<Rightarrow> string \<Rightarrow> bool" where
  "parseDefaultRoute data iface =
     (let lines = split_char (CHR 0x0A) data in
      if length lines < 2 then False else route_lines iface (tl lines))"

definition defaultRouteObservation :: "string option \<Rightarrow> string \<Rightarrow> bool \<times> bool" where
  "defaultRouteObservation data iface =
     (case data of None \<Rightarrow> (False, False) | Some d \<Rightarrow> (parseDefaultRoute d iface, True))"

definition packet_service_of :: "u32 \<Rightarrow> string" where
  "packet_service_of n = (if n = 1 then ''detached'' else if n = 2 then ''attached'' else '''')"

fun packetServiceString :: "variant \<Rightarrow> string" where
  "packetServiceString (VUInt32 t) = packet_service_of t"
| "packetServiceString (VInt32 t) = (if sint t < 0 then '''' else packet_service_of t)"
| "packetServiceString _ = ''''"

section \<open>The snapshot\<close>

definition snap_port :: "link_env \<Rightarrow> object_path \<Rightarrow> LinkSnapshot \<Rightarrow> LinkSnapshot" where
  "snap_port env p s =
     (let port = assert_string (me_prop env p ModemInterface ''PrimaryPort'') in
      if snd port then s\<lparr>ls_PrimaryPortKnown := True, ls_PrimaryPortOK := (fst port = ''cdc-wdm0'')\<rparr>
      else s)"

definition snap_power :: "link_env \<Rightarrow> object_path \<Rightarrow> LinkSnapshot \<Rightarrow> LinkSnapshot" where
  "snap_power env p s =
     (case assert_uint32 (me_prop env p ModemInterface ''PowerState'') of
        Some n \<Rightarrow> s\<lparr>ls_PowerState := PowerStateToString n\<rparr>
      | None \<Rightarrow> s)"

definition snap_hardware :: "link_env \<Rightarrow> object_path \<Rightarrow> LinkSnapshot \<Rightarrow> LinkSnapshot" where
  "snap_hardware env p s = snap_power env p (snap_port env p (s\<lparr>ls_ModemPresent := True\<rparr>))"

definition snap_state :: "State option \<Rightarrow> LinkSnapshot \<Rightarrow> LinkSnapshot" where
  "snap_state state s =
     (case state of None \<Rightarrow> s
      | Some st \<Rightarrow> s\<lparr>ls_SIMLock := stSIMLockStatus st, ls_Registration := stRegistration st,
                     ls_NetdevIP := normalizeAddr (stIfIPAddr st)\<rparr>)"

definition snap_packet_service :: "link_env \<Rightarrow> object_path \<Rightarrow> LinkSnapshot \<Rightarrow> LinkSnapshot" where
  "snap_packet_service env p s =
     (case me_prop env p Modem3gppInterface ''PacketServiceState'' of
        Some v \<Rightarrow> s\<lparr>ls_PacketService := packetServiceString v\<rparr> | None \<Rightarrow> s)"

definition snap_bearer :: "bearer_err + BearerInfo \<Rightarrow> LinkSnapshot \<Rightarrow> LinkSnapshot" where
  "snap_bearer res s =
     (case res of
        Inr b \<Rightarrow> s\<lparr>ls_BearerKnown := True,
          ls_BearerConnected := bi_Connected b, ls_BearerConnectedKnown := bi_ConnectedKnown b,
          ls_BearerSuspended := bi_Suspended b, ls_BearerSuspendedKnown := bi_SuspendedKnown b,
          ls_BearerInterface := bi_Interface b, ls_BearerIPKnown := bi_IP4Known b,
          ls_BearerIP := normalizeAddr (ip4_Address (bi_IP4 b)),
          ls_BearerSessionKnown := bi_SessionStatsKnown b,
          ls_BearerAttempts := st_Attempts (bi_Stats b),
          ls_BearerDuration := st_Duration (bi_Stats b)\<rparr>
      | Inl ErrNoDataBearer \<Rightarrow> s\<lparr>ls_BearerKnown := True, ls_BearerConnectedKnown := True\<rparr>
      | Inl _ \<Rightarrow> s)"

definition readATCrossCheck :: "link_env \<Rightarrow> LinkSnapshot \<Rightarrow> LinkSnapshot" where
  "readATCrossCheck env s =
     (case me_at env ''AT+CGACT?'' of
        Inl e \<Rightarrow> s
      | Inr out \<Rightarrow>
          (let (active, parsed) = ParseCGACT out in
           if \<not> parsed then s
           else case me_at env ''AT+CGPADDR'' of
             Inl e \<Rightarrow> s
           | Inr addrOut \<Rightarrow> s\<lparr>ls_ATChecked := True, ls_CGACTActive := active,
                              ls_CGPADDR := ParseCGPADDR addrOut\<rparr>))"

definition snap_files :: "link_env \<Rightarrow> string \<Rightarrow> LinkSnapshot \<Rightarrow> LinkSnapshot" where
  "snap_files env iface s =
     (let c = readCarrierObservation (le_carrier env);
          r = defaultRouteObservation (le_routes env) iface
      in s\<lparr>ls_Carrier := fst c, ls_CarrierKnown := snd c,
           ls_HasDefaultRoute := fst r, ls_DefaultRouteKnown := snd r\<rparr>)"

definition take_snapshot ::
  "link_env \<Rightarrow> State option \<Rightarrow> string \<Rightarrow> bool \<Rightarrow> LinkSnapshot \<times> BearerUsage" where
  "take_snapshot env state iface withAT =
     (case me_modem env of
        None \<Rightarrow> (zero_Snapshot, zero_Usage)
      | Some p \<Rightarrow>
          let s = snap_packet_service env p (snap_state state (snap_hardware env p zero_Snapshot));
              res = DataBearer (me_prop env) p;
              s = snap_bearer res s;
              usage = (case res of Inr b \<Rightarrow> bearerUsage b | Inl _ \<Rightarrow> zero_Usage);
              s = (if withAT then readATCrossCheck env s else s)
          in (snap_files env iface s, usage))"

section \<open>Field facts\<close>

text \<open>What each step leaves alone.\<close>

named_theorems ls_frame \<open>fields of the snapshot that a step does not write\<close>

lemma snap_hardware_frame [ls_frame]:
  "ls_SIMLock (snap_hardware env p s) = ls_SIMLock s"
  "ls_Registration (snap_hardware env p s) = ls_Registration s"
  "ls_NetdevIP (snap_hardware env p s) = ls_NetdevIP s"
  "ls_PacketService (snap_hardware env p s) = ls_PacketService s"
  "ls_BearerKnown (snap_hardware env p s) = ls_BearerKnown s"
  "ls_BearerConnected (snap_hardware env p s) = ls_BearerConnected s"
  "ls_BearerConnectedKnown (snap_hardware env p s) = ls_BearerConnectedKnown s"
  "ls_BearerSuspended (snap_hardware env p s) = ls_BearerSuspended s"
  "ls_BearerSuspendedKnown (snap_hardware env p s) = ls_BearerSuspendedKnown s"
  "ls_BearerIPKnown (snap_hardware env p s) = ls_BearerIPKnown s"
  "ls_BearerIP (snap_hardware env p s) = ls_BearerIP s"
  "ls_ATChecked (snap_hardware env p s) = ls_ATChecked s"
  "ls_CGACTActive (snap_hardware env p s) = ls_CGACTActive s"
  "ls_CGPADDR (snap_hardware env p s) = ls_CGPADDR s"
  "ls_CarrierKnown (snap_hardware env p s) = ls_CarrierKnown s"
  "ls_Carrier (snap_hardware env p s) = ls_Carrier s"
  "ls_DefaultRouteKnown (snap_hardware env p s) = ls_DefaultRouteKnown s"
  "ls_HasDefaultRoute (snap_hardware env p s) = ls_HasDefaultRoute s"
  by (simp_all add: snap_hardware_def snap_power_def snap_port_def Let_def split: option.split)

lemma snap_state_frame [ls_frame]:
  "ls_ModemPresent (snap_state state s) = ls_ModemPresent s"
  "ls_PrimaryPortKnown (snap_state state s) = ls_PrimaryPortKnown s"
  "ls_PrimaryPortOK (snap_state state s) = ls_PrimaryPortOK s"
  "ls_PowerState (snap_state state s) = ls_PowerState s"
  "ls_PacketService (snap_state state s) = ls_PacketService s"
  "ls_BearerKnown (snap_state state s) = ls_BearerKnown s"
  "ls_BearerConnected (snap_state state s) = ls_BearerConnected s"
  "ls_BearerConnectedKnown (snap_state state s) = ls_BearerConnectedKnown s"
  "ls_BearerSuspended (snap_state state s) = ls_BearerSuspended s"
  "ls_BearerSuspendedKnown (snap_state state s) = ls_BearerSuspendedKnown s"
  "ls_BearerIPKnown (snap_state state s) = ls_BearerIPKnown s"
  "ls_BearerIP (snap_state state s) = ls_BearerIP s"
  "ls_ATChecked (snap_state state s) = ls_ATChecked s"
  "ls_CGACTActive (snap_state state s) = ls_CGACTActive s"
  "ls_CGPADDR (snap_state state s) = ls_CGPADDR s"
  "ls_CarrierKnown (snap_state state s) = ls_CarrierKnown s"
  "ls_Carrier (snap_state state s) = ls_Carrier s"
  "ls_DefaultRouteKnown (snap_state state s) = ls_DefaultRouteKnown s"
  "ls_HasDefaultRoute (snap_state state s) = ls_HasDefaultRoute s"
  by (simp_all add: snap_state_def split: option.split)

lemma snap_packet_service_frame [ls_frame]:
  "ls_ModemPresent (snap_packet_service env p s) = ls_ModemPresent s"
  "ls_PrimaryPortKnown (snap_packet_service env p s) = ls_PrimaryPortKnown s"
  "ls_PrimaryPortOK (snap_packet_service env p s) = ls_PrimaryPortOK s"
  "ls_PowerState (snap_packet_service env p s) = ls_PowerState s"
  "ls_SIMLock (snap_packet_service env p s) = ls_SIMLock s"
  "ls_Registration (snap_packet_service env p s) = ls_Registration s"
  "ls_NetdevIP (snap_packet_service env p s) = ls_NetdevIP s"
  "ls_BearerKnown (snap_packet_service env p s) = ls_BearerKnown s"
  "ls_BearerConnected (snap_packet_service env p s) = ls_BearerConnected s"
  "ls_BearerConnectedKnown (snap_packet_service env p s) = ls_BearerConnectedKnown s"
  "ls_BearerSuspended (snap_packet_service env p s) = ls_BearerSuspended s"
  "ls_BearerSuspendedKnown (snap_packet_service env p s) = ls_BearerSuspendedKnown s"
  "ls_BearerIPKnown (snap_packet_service env p s) = ls_BearerIPKnown s"
  "ls_BearerIP (snap_packet_service env p s) = ls_BearerIP s"
  "ls_ATChecked (snap_packet_service env p s) = ls_ATChecked s"
  "ls_CGACTActive (snap_packet_service env p s) = ls_CGACTActive s"
  "ls_CGPADDR (snap_packet_service env p s) = ls_CGPADDR s"
  "ls_CarrierKnown (snap_packet_service env p s) = ls_CarrierKnown s"
  "ls_Carrier (snap_packet_service env p s) = ls_Carrier s"
  "ls_DefaultRouteKnown (snap_packet_service env p s) = ls_DefaultRouteKnown s"
  "ls_HasDefaultRoute (snap_packet_service env p s) = ls_HasDefaultRoute s"
  by (simp_all add: snap_packet_service_def split: option.split)

lemma snap_bearer_frame [ls_frame]:
  "ls_ModemPresent (snap_bearer res s) = ls_ModemPresent s"
  "ls_PrimaryPortKnown (snap_bearer res s) = ls_PrimaryPortKnown s"
  "ls_PrimaryPortOK (snap_bearer res s) = ls_PrimaryPortOK s"
  "ls_PowerState (snap_bearer res s) = ls_PowerState s"
  "ls_SIMLock (snap_bearer res s) = ls_SIMLock s"
  "ls_Registration (snap_bearer res s) = ls_Registration s"
  "ls_NetdevIP (snap_bearer res s) = ls_NetdevIP s"
  "ls_PacketService (snap_bearer res s) = ls_PacketService s"
  "ls_ATChecked (snap_bearer res s) = ls_ATChecked s"
  "ls_CGACTActive (snap_bearer res s) = ls_CGACTActive s"
  "ls_CGPADDR (snap_bearer res s) = ls_CGPADDR s"
  "ls_CarrierKnown (snap_bearer res s) = ls_CarrierKnown s"
  "ls_Carrier (snap_bearer res s) = ls_Carrier s"
  "ls_DefaultRouteKnown (snap_bearer res s) = ls_DefaultRouteKnown s"
  "ls_HasDefaultRoute (snap_bearer res s) = ls_HasDefaultRoute s"
  by (simp_all add: snap_bearer_def split: sum.split bearer_err.split)

lemma readATCrossCheck_frame [ls_frame]:
  "ls_ModemPresent (readATCrossCheck env s) = ls_ModemPresent s"
  "ls_PrimaryPortKnown (readATCrossCheck env s) = ls_PrimaryPortKnown s"
  "ls_PrimaryPortOK (readATCrossCheck env s) = ls_PrimaryPortOK s"
  "ls_PowerState (readATCrossCheck env s) = ls_PowerState s"
  "ls_SIMLock (readATCrossCheck env s) = ls_SIMLock s"
  "ls_Registration (readATCrossCheck env s) = ls_Registration s"
  "ls_NetdevIP (readATCrossCheck env s) = ls_NetdevIP s"
  "ls_PacketService (readATCrossCheck env s) = ls_PacketService s"
  "ls_BearerKnown (readATCrossCheck env s) = ls_BearerKnown s"
  "ls_BearerConnected (readATCrossCheck env s) = ls_BearerConnected s"
  "ls_BearerConnectedKnown (readATCrossCheck env s) = ls_BearerConnectedKnown s"
  "ls_BearerSuspended (readATCrossCheck env s) = ls_BearerSuspended s"
  "ls_BearerSuspendedKnown (readATCrossCheck env s) = ls_BearerSuspendedKnown s"
  "ls_BearerIPKnown (readATCrossCheck env s) = ls_BearerIPKnown s"
  "ls_BearerIP (readATCrossCheck env s) = ls_BearerIP s"
  "ls_CarrierKnown (readATCrossCheck env s) = ls_CarrierKnown s"
  "ls_Carrier (readATCrossCheck env s) = ls_Carrier s"
  "ls_DefaultRouteKnown (readATCrossCheck env s) = ls_DefaultRouteKnown s"
  "ls_HasDefaultRoute (readATCrossCheck env s) = ls_HasDefaultRoute s"
  by (simp_all add: readATCrossCheck_def split: sum.split prod.split)

lemma snap_files_frame [ls_frame]:
  "ls_ModemPresent (snap_files env iface s) = ls_ModemPresent s"
  "ls_PrimaryPortKnown (snap_files env iface s) = ls_PrimaryPortKnown s"
  "ls_PrimaryPortOK (snap_files env iface s) = ls_PrimaryPortOK s"
  "ls_PowerState (snap_files env iface s) = ls_PowerState s"
  "ls_SIMLock (snap_files env iface s) = ls_SIMLock s"
  "ls_Registration (snap_files env iface s) = ls_Registration s"
  "ls_NetdevIP (snap_files env iface s) = ls_NetdevIP s"
  "ls_PacketService (snap_files env iface s) = ls_PacketService s"
  "ls_BearerKnown (snap_files env iface s) = ls_BearerKnown s"
  "ls_BearerConnected (snap_files env iface s) = ls_BearerConnected s"
  "ls_BearerConnectedKnown (snap_files env iface s) = ls_BearerConnectedKnown s"
  "ls_BearerSuspended (snap_files env iface s) = ls_BearerSuspended s"
  "ls_BearerSuspendedKnown (snap_files env iface s) = ls_BearerSuspendedKnown s"
  "ls_BearerIPKnown (snap_files env iface s) = ls_BearerIPKnown s"
  "ls_BearerIP (snap_files env iface s) = ls_BearerIP s"
  "ls_ATChecked (snap_files env iface s) = ls_ATChecked s"
  "ls_CGACTActive (snap_files env iface s) = ls_CGACTActive s"
  "ls_CGPADDR (snap_files env iface s) = ls_CGPADDR s"
  by (simp_all add: snap_files_def Let_def)

lemma snap_hardware_fields:
  "ls_ModemPresent (snap_hardware env p zero_Snapshot)"
  "ls_PrimaryPortKnown (snap_hardware env p zero_Snapshot) \<longleftrightarrow>
     snd (assert_string (me_prop env p ModemInterface ''PrimaryPort''))"
  "ls_PrimaryPortOK (snap_hardware env p zero_Snapshot) \<longleftrightarrow>
     fst (assert_string (me_prop env p ModemInterface ''PrimaryPort'')) = ''cdc-wdm0''"
  "ls_PowerState (snap_hardware env p zero_Snapshot) =
     (case assert_uint32 (me_prop env p ModemInterface ''PowerState'') of
        Some n \<Rightarrow> PowerStateToString n | None \<Rightarrow> '''')"
  using assert_string_unknown [of "me_prop env p ModemInterface ''PrimaryPort''"]
  by (simp_all add: snap_hardware_def snap_power_def snap_port_def Let_def zero_Snapshot_def
      split: option.split)

lemma snap_bearer_fields:
  "ls_BearerKnown (snap_bearer res s) \<longleftrightarrow>
     ls_BearerKnown s \<or> \<not> isl res \<or> res = Inl ErrNoDataBearer"
  "ls_BearerConnected (snap_bearer res s) =
     (case res of Inr b \<Rightarrow> bi_Connected b | Inl e \<Rightarrow> ls_BearerConnected s)"
  "ls_BearerConnectedKnown (snap_bearer res s) =
     (case res of Inr b \<Rightarrow> bi_ConnectedKnown b
      | Inl e \<Rightarrow> ls_BearerConnectedKnown s \<or> e = ErrNoDataBearer)"
  "ls_BearerSuspended (snap_bearer res s) =
     (case res of Inr b \<Rightarrow> bi_Suspended b | Inl e \<Rightarrow> ls_BearerSuspended s)"
  "ls_BearerSuspendedKnown (snap_bearer res s) =
     (case res of Inr b \<Rightarrow> bi_SuspendedKnown b | Inl e \<Rightarrow> ls_BearerSuspendedKnown s)"
  "ls_BearerIPKnown (snap_bearer res s) =
     (case res of Inr b \<Rightarrow> bi_IP4Known b | Inl e \<Rightarrow> ls_BearerIPKnown s)"
  "ls_BearerIP (snap_bearer res s) =
     (case res of Inr b \<Rightarrow> normalizeAddr (ip4_Address (bi_IP4 b)) | Inl e \<Rightarrow> ls_BearerIP s)"
  by (auto simp: snap_bearer_def split: sum.split bearer_err.split)

lemma snap_files_fields:
  "ls_Carrier (snap_files env iface s) = fst (readCarrierObservation (le_carrier env))"
  "ls_CarrierKnown (snap_files env iface s) = snd (readCarrierObservation (le_carrier env))"
  "ls_HasDefaultRoute (snap_files env iface s) = fst (defaultRouteObservation (le_routes env) iface)"
  "ls_DefaultRouteKnown (snap_files env iface s) = snd (defaultRouteObservation (le_routes env) iface)"
  by (simp_all add: snap_files_def Let_def)

lemma zero_Snapshot_fields [simp]:
  "\<not> ls_BearerKnown zero_Snapshot" "\<not> ls_BearerConnected zero_Snapshot"
  "\<not> ls_BearerConnectedKnown zero_Snapshot" "\<not> ls_BearerSuspendedKnown zero_Snapshot"
  "\<not> ls_BearerIPKnown zero_Snapshot" "\<not> ls_ATChecked zero_Snapshot"
  "ls_PacketService zero_Snapshot = ''''" "ls_NetdevIP zero_Snapshot = ''''"
  "ls_SIMLock zero_Snapshot = ''''" "ls_Registration zero_Snapshot = ''''"
  by (simp_all add: zero_Snapshot_def)

section \<open>Missing reads\<close>

text \<open>
  The environment with some of its reads failing: properties that are not answered, AT commands
  that fail, kernel files that cannot be read. The modem is still found.
\<close>

definition less_env :: "link_env \<Rightarrow> link_env \<Rightarrow> bool" where
  "less_env e f \<longleftrightarrow> me_modem e = me_modem f \<and> less_reader (me_prop e) (me_prop f)
     \<and> (\<forall>c. isl (me_at e c) \<or> me_at e c = me_at f c)
     \<and> less_read (le_carrier e) (le_carrier f) \<and> less_read (le_routes e) (le_routes f)"

text \<open>The snapshot before the AT cross-check and the kernel files.\<close>

definition base_snapshot :: "link_env \<Rightarrow> State option \<Rightarrow> object_path \<Rightarrow> LinkSnapshot" where
  "base_snapshot env state p =
     snap_bearer (DataBearer (me_prop env) p)
       (snap_packet_service env p (snap_state state (snap_hardware env p zero_Snapshot)))"

lemma take_snapshot_Some:
  "me_modem env = Some p \<Longrightarrow> fst (take_snapshot env state iface withAT) =
     snap_files env iface
       (if withAT then readATCrossCheck env (base_snapshot env state p) else base_snapshot env state p)"
  by (simp add: take_snapshot_def base_snapshot_def Let_def)

lemma less_hardware:
  assumes "less_reader (me_prop e) (me_prop f)"
  shows "less_known_hardware (snap_hardware e p zero_Snapshot) (snap_hardware f p zero_Snapshot)"
proof -
  note less = less_readerD [OF assms, of p ModemInterface]
  show ?thesis
    using less [of "''PrimaryPort''"] less [of "''PowerState''"]
    by (auto simp: less_known_hardware_def less_basic snap_hardware_fields)
qed

lemma less_bearer:
  assumes "less_reader (me_prop e) (me_prop f)"
    and single: "\<And>q r. q \<in> data_paths (me_prop f) p \<Longrightarrow> r \<in> data_paths (me_prop f) p \<Longrightarrow> q = r"
  shows "less_known_bearer (base_snapshot e state p) (base_snapshot f state p)"
proof (cases "DataBearer (me_prop e) p")
  case (Inr b)
  from DataBearer_less(1) [OF assms Inr] obtain c where c: "DataBearer (me_prop f) p = Inr c"
    "GetBearerInfo (me_prop e) (bi_Path b) = Inr b" "GetBearerInfo (me_prop f) (bi_Path b) = Inr c"
    by blast
  from GetBearerInfo_less [OF assms(1) c(2,3)] Inr c(1) show ?thesis
    by (auto simp: less_known_bearer_def base_snapshot_def snap_bearer_fields less_basic)
next
  case (Inl err)
  show ?thesis
  proof (cases "err = ErrNoDataBearer")
    case True
    with Inl have "DataBearer (me_prop f) p = Inl ErrNoDataBearer"
      using DataBearer_less(2) [OF assms] by blast
    with Inl True show ?thesis
      by (simp add: less_known_bearer_def base_snapshot_def snap_bearer_fields less_basic ls_frame)
  next
    case False
    with Inl show ?thesis
      by (simp add: less_known_bearer_def base_snapshot_def snap_bearer_fields less_basic ls_frame)
  qed
qed

lemma less_at:
  assumes "\<And>c. isl (me_at e c) \<or> me_at e c = me_at f c"
    and "\<not> ls_ATChecked s" and "\<not> ls_ATChecked t"
  shows "less_known_at (readATCrossCheck e s) (readATCrossCheck f t)"
proof (cases "me_at e ''AT+CGACT?''")
  case (Inl err)
  with assms(2) show ?thesis by (simp add: less_known_at_def readATCrossCheck_def less_basic)
next
  case (Inr out)
  with assms(1) [of "''AT+CGACT?''"] have f: "me_at f ''AT+CGACT?'' = Inr out" by simp
  show ?thesis
  proof (cases "me_at e ''AT+CGPADDR''")
    case (Inl err)
    with Inr assms(2) show ?thesis
      by (simp add: less_known_at_def readATCrossCheck_def less_basic split: prod.split)
  next
    case (Inr addrOut)
    with assms(1) [of "''AT+CGPADDR''"] have "me_at f ''AT+CGPADDR'' = Inr addrOut" by simp
    with Inr \<open>me_at e ''AT+CGACT?'' = Inr out\<close> f assms(2,3) show ?thesis
      by (simp add: less_known_at_def readATCrossCheck_def less_basic split: prod.split)
  qed
qed

lemma packet_service_less:
  assumes "less_reader (me_prop e) (me_prop f)"
  shows "less_str (ls_PacketService (base_snapshot e state p)) (ls_PacketService (base_snapshot f state p))"
  using less_readerD [OF assms, of p Modem3gppInterface "''PacketServiceState''"]
  by (auto simp: base_snapshot_def ls_frame snap_packet_service_def less_str_def split: option.split)

lemma take_snapshot_less:
  assumes less: "less_env e f" and m: "me_modem f = Some p"
    and single: "\<And>q r. q \<in> data_paths (me_prop f) p \<Longrightarrow> r \<in> data_paths (me_prop f) p \<Longrightarrow> q = r"
  shows "less_known (fst (take_snapshot e state iface withAT)) (fst (take_snapshot f state iface withAT))"
proof -
  let ?b = "\<lambda>env. base_snapshot env state p"
  let ?a = "\<lambda>env. if withAT then readATCrossCheck env (?b env) else ?b env"
  from less m have em: "me_modem e = Some p" and rd: "less_reader (me_prop e) (me_prop f)"
    and at: "\<And>c. isl (me_at e c) \<or> me_at e c = me_at f c"
    and files: "less_read (le_carrier e) (le_carrier f)" "less_read (le_routes e) (le_routes f)"
    by (auto simp: less_env_def)
  have hw: "less_known_hardware (snap_files e iface (?a e)) (snap_files f iface (?a f))"
    using less_hardware [OF rd, where p = p] by (simp add: less_known_hardware_def ls_frame base_snapshot_def)
  have bearer: "less_known_bearer (snap_files e iface (?a e)) (snap_files f iface (?a f))"
    using less_bearer [OF rd single, where state = state] by (simp add: less_known_bearer_def ls_frame)
  have "less_known_at (?a e) (?a f)"
    using less_at [OF at, of "?b e" "?b f"]
    by (auto simp: less_known_at_def less_basic base_snapshot_def ls_frame)
  then have atc: "less_known_at (snap_files e iface (?a e)) (snap_files f iface (?a f))"
    by (simp add: less_known_at_def ls_frame)
  have net: "less_known_netdev (snap_files e iface (?a e)) (snap_files f iface (?a f))"
    using files
    by (auto simp: less_known_netdev_def less_basic less_read_def snap_files_fields ls_frame
        base_snapshot_def snap_state_def readCarrierObservation_def defaultRouteObservation_def
        split: option.split)
  have strs: "less_str (ls_SIMLock (snap_files e iface (?a e))) (ls_SIMLock (snap_files f iface (?a f)))"
    "less_str (ls_Registration (snap_files e iface (?a e))) (ls_Registration (snap_files f iface (?a f)))"
    by (simp_all add: ls_frame base_snapshot_def less_basic snap_state_def split: option.split)
  have ps: "less_str (ls_PacketService (snap_files e iface (?a e))) (ls_PacketService (snap_files f iface (?a f)))"
    using packet_service_less [OF rd, where state = state and p = p] by (simp add: ls_frame)
  show ?thesis
    unfolding take_snapshot_Some [OF em] take_snapshot_Some [OF m] less_known_def
    using hw bearer atc net strs ps by blast
qed

section \<open>Properties\<close>

lemma cgact_lines_spec:
  "cgact_lines ls parsed =
     (\<exists>l \<in> set ls. \<exists>st. after_comma ''+CGACT:'' l = Some st \<and> TrimSpace st = ''1'',
      parsed \<or> (\<exists>l \<in> set ls. after_comma ''+CGACT:'' l \<noteq> None))"
  by (induction ls arbitrary: parsed) (auto split: option.splits)

text \<open>
   The PDP context is called inactive only on an answer. \<open>ParseCGACT\<close> reports activity exactly when
  some line of the reply carries the state 1 after the +CGACT: prefix, and reports success exactly
  when some line carries a state at all; an ERROR reply, an empty or a truncated one is neither.
\<close>

theorem ParseCGACT_spec:
  "ParseCGACT out =
     (\<exists>l \<in> set (split_char (CHR 0x0A) out). \<exists>st.
        after_comma ''+CGACT:'' l = Some st \<and> TrimSpace st = ''1'',
      \<exists>l \<in> set (split_char (CHR 0x0A) out). after_comma ''+CGACT:'' l \<noteq> None)"
  by (simp add: ParseCGACT_def cgact_lines_spec)

text \<open>
  C19. Failed reads cannot manufacture a remedy, end to end. Take an environment in which a modem with
  at most one data bearer is found and in which the snapshot passes every layer. Whatever subset
  of the property reads, of the AT commands and of the kernel file reads fails, the snapshot still
  passes every layer.
\<close>

theorem failed_reads_make_no_remedy:
  assumes "less_env e f" and "me_modem f = Some p"
    and "\<And>q r. q \<in> data_paths (me_prop f) p \<Longrightarrow> r \<in> data_paths (me_prop f) p \<Longrightarrow> q = r"
    and "checkLocal (fst (take_snapshot f state iface withAT)) = None"
  shows "checkLocal (fst (take_snapshot e state iface withAT)) = None"
  using take_snapshot_less [OF assms(1-3)] assms(4) layer_ok_less_known
  unfolding checkLocal_None by blast

definition sample_prop :: prop_reader where
  "sample_prop p i n =
     (if n = ''Bearers'' then Some (VPaths [''/b/0'', ''/b/7''])
      else if n = ''Interface'' then Some (VString (if p = ''/b/7'' then ''wwan0'' else ''''))
      else if n = ''Connected'' then Some (VBool True)
      else if n = ''PowerState'' then Some (VUInt32 3)
      else if n = ''PrimaryPort'' then Some (VString ''cdc-wdm0'')
      else if n = ''PacketServiceState'' then Some (VUInt32 2)
      else if n = ''Ip4Config'' then Some (VDict [(''address'', VString ''10.9.8.7'')])
      else None)"

definition sample_link_env :: "prop_reader \<Rightarrow> string option \<Rightarrow> link_env" where
  "sample_link_env prop carrier =
     \<lparr>me_modem = Some ''/m/3'', me_prop = prop,
      me_at = (\<lambda>c. if c = ''AT+CGACT?'' then Inr ''+CGACT: 1,1'' else Inr ''+CGPADDR: 1,10.9.8.7''),
      me_addrs = None, le_carrier = carrier, le_routes = None\<rparr>"

definition deaf_prop :: prop_reader where
  "deaf_prop p i n = (if n = ''Bearers'' then sample_prop p i n else None)"

lemma failed_reads_make_no_remedy_witness:
  "checkLocal (fst (take_snapshot (sample_link_env deaf_prop None) None ''wwan0'' True)) = None"
proof (rule failed_reads_make_no_remedy)
  show "less_env (sample_link_env deaf_prop None) (sample_link_env sample_prop (Some ''1''))"
    by (auto simp: less_env_def sample_link_env_def less_reader_def less_read_def deaf_prop_def)
  show "me_modem (sample_link_env sample_prop (Some ''1'')) = Some ''/m/3''"
    by (simp add: sample_link_env_def)
  have "data_paths sample_prop ''/m/3'' \<subseteq> {''/b/7''}"
    by (auto simp: data_paths_def sample_prop_def)
  then show "\<And>q r. q \<in> data_paths (me_prop (sample_link_env sample_prop (Some ''1''))) ''/m/3'' \<Longrightarrow>
      r \<in> data_paths (me_prop (sample_link_env sample_prop (Some ''1''))) ''/m/3'' \<Longrightarrow> q = r"
    by (auto simp: sample_link_env_def)
  show "checkLocal (fst (take_snapshot (sample_link_env sample_prop (Some ''1'')) None ''wwan0'' True)) = None"
    by code_simp
qed

text \<open>
   One reading is not like the others: ModemManager's power state 0 means that it does not know,
  but it is turned into the text "unknown" and fails the hardware layer, so the assessor answers
  an unknown power state with a modem reset.
\<close>

theorem unknown_power_state_resets:
  assumes "me_modem env = Some p"
    and "me_prop env p ModemInterface ''PowerState'' = Some (VUInt32 MMModemPowerStateUnknown)"
  shows "as_Remedy (fst (Assess (fst (take_snapshot env state iface withAT)) a)) = RemedyModemReset"
proof -
  let ?s = "fst (take_snapshot env state iface withAT)"
  have "ls_PowerState ?s = ''unknown''"
    unfolding take_snapshot_Some [OF assms(1)]
    using assms(2) by (simp add: ls_frame base_snapshot_def snap_hardware_fields
        PowerStateToString_def power_state_defs)
  then have hw: "\<not> layer_ok LayerHardware ?s" by simp
  then obtain v where v: "checkLocal ?s = Some v" using checkLocal_None by blast
  with hw checkLocal_lowest(2) [OF v] hardware_least [of "as_FailedLayer v"]
  have "as_FailedLayer v = LayerHardware" by (metis order_le_less)
  with checkLocal_lowest(3) [OF v] have "as_Remedy v = RemedyModemReset" by simp
  with v show ?thesis by (simp add: Assess_def Let_def)
qed

lemma unknown_power_state_resets_witness:
  "as_Remedy (fst (Assess (fst (take_snapshot (sample_link_env (\<lambda>p i n.
     if n = ''PowerState'' then Some (VUInt32 0) else sample_prop p i n) (Some ''1'')) None ''wwan0'' False))
     Assessor_New)) = RemedyModemReset"
  by (rule unknown_power_state_resets)
     (simp_all add: sample_link_env_def MMModemPowerStateUnknown_def)

end
