(* ===== verification/Go_Time.thy ===== *)
theory Go_Time
  imports Go_Strings
begin

text \<open>
  Calendar text of an instant: \<open>time.Format\<close> and \<open>time.Parse\<close> with \<open>time.RFC3339\<close>. The proleptic
  Gregorian date is computed from the 400-year cycle, with the year starting on 1 March. A time
  that is formatted carries the offset of its location, in seconds east of UTC.
\<close>

type_synonym zoned = "gotime \<times> int"

section \<open>Formatting\<close>

definition civil_from_days :: "int \<Rightarrow> int \<times> int \<times> int" where
  "civil_from_days d =
     (let z = d + 719468;
          era = z div 146097;
          doe = z mod 146097;
          yoe = (doe - doe div 1460 + doe div 36524 - doe div 146096) div 365;
          doy = doe - (365 * yoe + yoe div 4 - yoe div 100);
          mp = (5 * doy + 2) div 153;
          day = doy - (153 * mp + 2) div 5 + 1;
          month = (if mp < 10 then mp + 3 else mp - 9)
      in (yoe + era * 400 + (if month \<le> 2 then 1 else 0), month, day))"

definition days_from_civil :: "int \<Rightarrow> int \<Rightarrow> int \<Rightarrow> int" where
  "days_from_civil y m d =
     (let y = (if m \<le> 2 then y - 1 else y);
          era = y div 400;
          yoe = y mod 400;
          doy = (153 * (if m > 2 then m - 3 else m + 9) + 2) div 5 + d - 1;
          doe = yoe * 365 + yoe div 4 - yoe div 100 + doy
      in era * 146097 + doe - 719468)"

definition pad_left :: "nat \<Rightarrow> char \<Rightarrow> string \<Rightarrow> string" where
  "pad_left n c s = replicate (n - length s) c @ s"

definition two_digits :: "int \<Rightarrow> string" where
  "two_digits n = pad_left 2 (CHR ''0'') (dec_str (nat n))"

text \<open>\<open>Format("2006-01-02")\<close> of an instant in UTC.\<close>

definition date_str :: "gotime \<Rightarrow> string" where
  "date_str t = (let (y, m, d) = civil_from_days ((t div second_ns) div 86400) in
     pad_left 4 (CHR ''0'') (dec_str (nat y)) @ ''-'' @ two_digits m @ ''-'' @ two_digits d)"

definition zone_str :: "int \<Rightarrow> string" where
  "zone_str off =
     (if off = 0 then ''Z''
      else let z = \<bar>off\<bar> div 60 in
        (if off < 0 then ''-'' else ''+'') @ two_digits (z div 60) @ '':'' @ two_digits (z mod 60))"

definition rfc3339_zoned :: "zoned \<Rightarrow> string" where
  "rfc3339_zoned z =
     (let t = fst z + snd z * second_ns; s = (t div second_ns) mod 86400 in
      date_str t @ ''T'' @ two_digits (s div 3600) @ '':'' @ two_digits (s div 60 mod 60)
        @ '':'' @ two_digits (s mod 60) @ zone_str (snd z))"

definition rfc3339 :: "gotime \<Rightarrow> string" where "rfc3339 t = rfc3339_zoned (t, 0)"

section \<open>Parsing\<close>

definition is_leap :: "int \<Rightarrow> bool" where
  "is_leap y \<longleftrightarrow> y mod 4 = 0 \<and> (y mod 100 \<noteq> 0 \<or> y mod 400 = 0)"

definition days_in :: "int \<Rightarrow> int \<Rightarrow> int" where
  "days_in m y = (if m = 2 then (if is_leap y then 29 else 28)
     else if m = 4 \<or> m = 6 \<or> m = 9 \<or> m = 11 then 30 else 31)"

text \<open>\<open>getnum\<close>: two digits, or one if that is all there is and \<open>fixed\<close> does not forbid it.\<close>

definition getnum :: "bool \<Rightarrow> string \<Rightarrow> (nat \<times> string) option" where
  "getnum fixed s =
     (case s of
        [] \<Rightarrow> None
      | a # r \<Rightarrow>
          if \<not> is_digit a then None
          else case r of
            b # r' \<Rightarrow> if is_digit b then Some (10 * digit_val a + digit_val b, r')
                      else if fixed then None else Some (digit_val a, r)
          | [] \<Rightarrow> if fixed then None else Some (digit_val a, r))"

definition expect :: "char \<Rightarrow> string \<Rightarrow> string option" where
  "expect c s = (case s of a # r \<Rightarrow> if a = c then Some r else None | [] \<Rightarrow> None)"

definition get_year :: "string \<Rightarrow> (nat \<times> string) option" where
  "get_year s = (if 4 \<le> length s \<and> list_all is_digit (take 4 s)
     then Some (digits_val (take 4 s), drop 4 s) else None)"

text \<open>A fractional second of any length, of which the first nine digits count.\<close>

definition get_fraction :: "string \<Rightarrow> nat \<times> string" where
  "get_fraction s =
     (case s of
        p # d # r \<Rightarrow>
          if (p = CHR ''.'' \<or> p = CHR '','') \<and> is_digit d then
            (let ds = take 9 (takeWhile is_digit (d # r)) in
             (digits_val ds * 10 ^ (9 - length ds), dropWhile is_digit (d # r)))
          else (0, s)
      | _ \<Rightarrow> (0, s))"

definition get_zone :: "string \<Rightarrow> (int \<times> string) option" where
  "get_zone s =
     (case s of
        [] \<Rightarrow> None
      | z # r \<Rightarrow>
          if z = CHR ''Z'' then Some (0, r)
          else if length s < 6 \<or> s ! 3 \<noteq> CHR '':'' then None
          else case (getnum True (take 2 (drop 1 s)), getnum True (take 2 (drop 4 s))) of
            (Some (hr, _), Some (mi, _)) \<Rightarrow>
              (let off = int ((hr * 60 + mi) * 60) in
               if 24 < hr \<or> 60 < mi then None
               else if z = CHR ''+'' then Some (off, drop 6 s)
               else if z = CHR ''-'' then Some (- off, drop 6 s) else None)
          | _ \<Rightarrow> None)"

definition parse_rfc3339 :: "string \<Rightarrow> zoned option" where
  "parse_rfc3339 s =
     Option.bind (get_year s) (\<lambda>(y, s).
     Option.bind (expect (CHR ''-'') s) (\<lambda>s.
     Option.bind (getnum True s) (\<lambda>(mo, s).
     Option.bind (expect (CHR ''-'') s) (\<lambda>s.
     Option.bind (getnum True s) (\<lambda>(d, s).
     Option.bind (expect (CHR ''T'') s) (\<lambda>s.
     Option.bind (getnum False s) (\<lambda>(h, s).
     Option.bind (expect (CHR '':'') s) (\<lambda>s.
     Option.bind (getnum True s) (\<lambda>(mi, s).
     Option.bind (expect (CHR '':'') s) (\<lambda>s.
     Option.bind (getnum True s) (\<lambda>(sec, s).
     let (ns, s) = get_fraction s in
     Option.bind (get_zone s) (\<lambda>(off, s).
       if s \<noteq> [] \<or> mo = 0 \<or> 12 < mo \<or> 24 \<le> h \<or> 60 \<le> mi \<or> 60 \<le> sec
          \<or> d = 0 \<or> days_in (int mo) (int y) < int d then None
       else Some ((days_from_civil (int y) (int mo) (int d) * 86400
             + int h * 3600 + int mi * 60 + int sec - off) * second_ns + int ns, off)))))))))))))"

section \<open>Facts\<close>

lemma rfc3339_ne [simp]: "rfc3339 t \<noteq> ''''"
  by (simp add: rfc3339_def rfc3339_zoned_def Let_def)

lemma rfc3339_samples:
  "rfc3339 0 = ''1970-01-01T00:00:00Z''"
  "rfc3339 (951782399 * second_ns) = ''2000-02-28T23:59:59Z''"
  "rfc3339 (951782400 * second_ns) = ''2000-02-29T00:00:00Z''"
  "rfc3339_zoned (4107542400 * second_ns, - 5400) = ''2100-02-28T22:30:00-01:30''"
  by code_simp+

lemma parse_rfc3339_samples:
  "parse_rfc3339 ''2000-02-29T00:00:00Z'' = Some (951782400 * second_ns, 0)"
  "parse_rfc3339 ''2100-02-28T22:30:00.5-01:30'' = Some (4107542400 * second_ns + 500 * millisecond_ns, - 5400)"
  "parse_rfc3339 ''2100-02-29T22:30:00Z'' = None"
  by code_simp+

end
