(* ===== verification/Usage.thy ===== *)
theory Usage
  imports Go_Time MM_Types
begin

text \<open>
  \<open>internal/datausage/counter.go\<close>: totals that never decrease, accumulated from per-bearer byte
  counters and persisted with the live baseline. Byte counts are \<^typ>\<open>u64\<close> and wrap. The file holds
  a \<open>persisted\<close> record, or nothing readable: the JSON text itself is not modelled, and an
  encoding of the record always succeeds. The instants \<open>c.now()\<close> are arguments.
\<close>

section \<open>State\<close>

definition backstopInterval :: duration where "backstopInterval = 6 * hour_ns"

record Totals =
  tt_RxBytes :: u64
  tt_TxBytes :: u64
  tt_RxBytesRoaming :: u64
  tt_TxBytesRoaming :: u64
  tt_Since :: string

record persisted =
  ps_Totals :: Totals
  ps_LastBearer :: string
  ps_LastRx :: u64
  ps_LastTx :: u64

text \<open>What \<open>os.ReadFile\<close> and \<open>json.Unmarshal\<close> find: no file, an I/O error, garbage, or a record.\<close>

datatype stored = Absent | IOError | Garbled | Stored persisted

record Sample =
  sm_BearerPath :: string
  sm_RxBytes :: u64
  sm_TxBytes :: u64
  sm_Roaming :: bool

record Counter =
  cn_path :: string
  cn_totals :: Totals
  cn_haveLast :: bool
  cn_lastPath :: string
  cn_lastRx :: u64
  cn_lastTx :: u64
  cn_dirty :: bool
  cn_lastFlush :: gotime

definition fresh_totals :: "gotime \<Rightarrow> Totals" where
  "fresh_totals now = \<lparr>tt_RxBytes = 0, tt_TxBytes = 0, tt_RxBytesRoaming = 0, tt_TxBytesRoaming = 0,
     tt_Since = rfc3339 now\<rparr>"

section \<open>Operations\<close>

definition load :: "gotime \<Rightarrow> stored \<Rightarrow> Counter \<Rightarrow> Counter" where
  "load now file c0 =
     (let c = c0\<lparr>cn_lastFlush := now\<rparr>;
          fresh = c\<lparr>cn_totals := fresh_totals now\<rparr>
      in if cn_path c = '''' then fresh
         else case file of
           Absent \<Rightarrow> fresh
         | IOError \<Rightarrow> fresh
         | Garbled \<Rightarrow> fresh
         | Stored p \<Rightarrow>
             (let t = (if tt_Since (ps_Totals p) = '''' then (ps_Totals p)\<lparr>tt_Since := rfc3339 now\<rparr>
                       else ps_Totals p);
                  c = c\<lparr>cn_totals := t\<rparr>
              in if ps_LastBearer p \<noteq> '''' then
                   c\<lparr>cn_haveLast := True, cn_lastPath := ps_LastBearer p,
                     cn_lastRx := ps_LastRx p, cn_lastTx := ps_LastTx p\<rparr>
                 else c))"

definition Counter_New :: "string \<Rightarrow> gotime \<Rightarrow> stored \<Rightarrow> Counter" where
  "Counter_New path now file = load now file
     \<lparr>cn_path = path, cn_totals = \<lparr>tt_RxBytes = 0, tt_TxBytes = 0, tt_RxBytesRoaming = 0,
        tt_TxBytesRoaming = 0, tt_Since = ''''\<rparr>, cn_haveLast = False, cn_lastPath = '''',
      cn_lastRx = 0, cn_lastTx = 0, cn_dirty = False, cn_lastFlush = zero_time\<rparr>"

definition continuing :: "Sample \<Rightarrow> Counter \<Rightarrow> bool" where
  "continuing s c \<longleftrightarrow> cn_haveLast c \<and> sm_BearerPath s = cn_lastPath c
     \<and> sm_RxBytes s \<ge> cn_lastRx c \<and> sm_TxBytes s \<ge> cn_lastTx c"

definition add_totals :: "u64 \<Rightarrow> u64 \<Rightarrow> bool \<Rightarrow> Totals \<Rightarrow> Totals" where
  "add_totals rx tx roaming t =
     (let t = t\<lparr>tt_RxBytes := tt_RxBytes t + rx, tt_TxBytes := tt_TxBytes t + tx\<rparr> in
      if roaming then t\<lparr>tt_RxBytesRoaming := tt_RxBytesRoaming t + rx,
                        tt_TxBytesRoaming := tt_TxBytesRoaming t + tx\<rparr>
      else t)"

definition Usage_Observe :: "Sample \<Rightarrow> Counter \<Rightarrow> Counter" where
  "Usage_Observe s c =
     (let cont = continuing s c;
          rx = (if cont then sm_RxBytes s - cn_lastRx c else sm_RxBytes s);
          tx = (if cont then sm_TxBytes s - cn_lastTx c else sm_TxBytes s);
          c1 = (if \<not> cn_haveLast c \<or> cn_lastPath c \<noteq> sm_BearerPath s
                  \<or> cn_lastRx c \<noteq> sm_RxBytes s \<or> cn_lastTx c \<noteq> sm_TxBytes s
                then c\<lparr>cn_dirty := True\<rparr> else c);
          c2 = c1\<lparr>cn_haveLast := True, cn_lastPath := sm_BearerPath s,
                  cn_lastRx := sm_RxBytes s, cn_lastTx := sm_TxBytes s\<rparr>
      in if rx = 0 \<and> tx = 0 then c2
         else c2\<lparr>cn_totals := add_totals rx tx (sm_Roaming s) (cn_totals c2)\<rparr>)"

section \<open>Persistence\<close>

text \<open>
  The directory as far as \<open>writeAtomic\<close> touches it: the target, and the temporary file with what has
  been written to it. Each step of the write may fail; \<open>fails n\<close> says whether the \<open>n\<close>-th does.
\<close>

record usage_fs =
  uf_target :: stored
  uf_temp :: "stored option"

definition to_persist :: "Counter \<Rightarrow> persisted" where
  "to_persist c = \<lparr>ps_Totals = cn_totals c, ps_LastBearer = cn_lastPath c,
     ps_LastRx = cn_lastRx c, ps_LastTx = cn_lastTx c\<rparr>"

text \<open>\<open>MkdirAll\<close>, \<open>CreateTemp\<close>, \<open>Write\<close>, \<open>Sync\<close>, \<open>Close\<close>, \<open>Chmod\<close>, \<open>Rename\<close>, in order.\<close>

fun fs_step :: "persisted \<Rightarrow> nat \<Rightarrow> usage_fs \<Rightarrow> usage_fs" where
  "fs_step p n fs =
     (if n = 1 then fs\<lparr>uf_temp := Some Garbled\<rparr>
      else if n = 2 then fs\<lparr>uf_temp := Some (Stored p)\<rparr>
      else if n = 6 then (case uf_temp fs of Some d \<Rightarrow> fs\<lparr>uf_target := d, uf_temp := None\<rparr> | None \<Rightarrow> fs)
      else fs)"

text \<open>Run the steps \<open>n, n+1, .., 6\<close>; the first failure ends the run with an error.\<close>

function write_from :: "persisted \<Rightarrow> (nat \<Rightarrow> bool) \<Rightarrow> nat \<Rightarrow> usage_fs \<Rightarrow> usage_fs \<times> bool" where
  "write_from p fails n fs =
     (if 6 < n then (fs, False)
      else if fails n then (fs, True)
      else write_from p fails (n + 1) (fs_step p n fs))"
  by pat_completeness auto
termination by (relation "measure (\<lambda>(p, f, n, fs). 7 - n)") auto

text \<open>The result and whether there was an error. The deferred \<open>os.Remove\<close> clears the temporary file.\<close>

definition writeAtomic :: "(nat \<Rightarrow> bool) \<Rightarrow> Counter \<Rightarrow> usage_fs \<Rightarrow> usage_fs \<times> bool" where
  "writeAtomic fails c fs =
     (let (fs', err) = write_from (to_persist c) fails 0 fs in (fs'\<lparr>uf_temp := None\<rparr>, err))"

definition flushLocked ::
  "(nat \<Rightarrow> bool) \<Rightarrow> gotime \<Rightarrow> Counter \<Rightarrow> usage_fs \<Rightarrow> Counter \<times> usage_fs \<times> bool" where
  "flushLocked fails now c fs =
     (if cn_path c = '''' \<or> \<not> cn_dirty c then (c, fs, False)
      else let (fs', err) = writeAtomic fails c fs in
        if err then (c, fs', True)
        else (c\<lparr>cn_dirty := False, cn_lastFlush := now\<rparr>, fs', False))"

definition Usage_Flush ::
  "(nat \<Rightarrow> bool) \<Rightarrow> gotime \<Rightarrow> Counter \<Rightarrow> usage_fs \<Rightarrow> Counter \<times> usage_fs \<times> bool" where
  "Usage_Flush fails now c fs = flushLocked fails now c fs"

definition Backstop ::
  "(nat \<Rightarrow> bool) \<Rightarrow> gotime \<Rightarrow> Counter \<Rightarrow> usage_fs \<Rightarrow> Counter \<times> usage_fs" where
  "Backstop fails now c fs =
     (if \<not> cn_dirty c \<or> time_Sub now (cn_lastFlush c) < backstopInterval then (c, fs)
      else let (c', fs', err) = flushLocked fails now c fs in (c', fs'))"

declare write_from.simps [simp del]

section \<open>Counting\<close>

lemma Observe_baseline [simp]:
  "cn_haveLast (Usage_Observe s c)" "cn_lastPath (Usage_Observe s c) = sm_BearerPath s"
  "cn_lastRx (Usage_Observe s c) = sm_RxBytes s" "cn_lastTx (Usage_Observe s c) = sm_TxBytes s"
  "cn_path (Usage_Observe s c) = cn_path c" "cn_lastFlush (Usage_Observe s c) = cn_lastFlush c"
  by (simp_all add: Usage_Observe_def Let_def)

lemma add_totals_fields [simp]:
  "tt_RxBytes (add_totals rx tx ro t) = tt_RxBytes t + rx"
  "tt_TxBytes (add_totals rx tx ro t) = tt_TxBytes t + tx"
  "tt_RxBytesRoaming (add_totals rx tx ro t) = tt_RxBytesRoaming t + (if ro then rx else 0)"
  "tt_TxBytesRoaming (add_totals rx tx ro t) = tt_TxBytesRoaming t + (if ro then tx else 0)"
  "tt_Since (add_totals rx tx ro t) = tt_Since t"
  by (simp_all add: add_totals_def Let_def)

text \<open>What one reading adds.\<close>

definition delta_rx :: "Sample \<Rightarrow> Counter \<Rightarrow> u64" where
  "delta_rx s c = (if continuing s c then sm_RxBytes s - cn_lastRx c else sm_RxBytes s)"
definition delta_tx :: "Sample \<Rightarrow> Counter \<Rightarrow> u64" where
  "delta_tx s c = (if continuing s c then sm_TxBytes s - cn_lastTx c else sm_TxBytes s)"

lemma Observe_totals:
  "tt_RxBytes (cn_totals (Usage_Observe s c)) = tt_RxBytes (cn_totals c) + delta_rx s c"
  "tt_TxBytes (cn_totals (Usage_Observe s c)) = tt_TxBytes (cn_totals c) + delta_tx s c"
  "tt_RxBytesRoaming (cn_totals (Usage_Observe s c)) =
     tt_RxBytesRoaming (cn_totals c) + (if sm_Roaming s then delta_rx s c else 0)"
  "tt_TxBytesRoaming (cn_totals (Usage_Observe s c)) =
     tt_TxBytesRoaming (cn_totals c) + (if sm_Roaming s then delta_tx s c else 0)"
  "tt_Since (cn_totals (Usage_Observe s c)) = tt_Since (cn_totals c)"
  by (simp_all add: Usage_Observe_def delta_rx_def delta_tx_def Let_def)

text \<open>A session: a bearer path and its readings \<open>(rx, tx, roaming)\<close>, which do not decrease.\<close>

type_synonym reading = "u64 \<times> u64 \<times> bool"

fun rising :: "reading list \<Rightarrow> bool" where
  "rising ((rx, tx, ro) # (rx', tx', ro') # rs) \<longleftrightarrow>
     rx \<le> rx' \<and> tx \<le> tx' \<and> rising ((rx', tx', ro') # rs)"
| "rising _ \<longleftrightarrow> True"

fun sessions_ok :: "string option \<Rightarrow> (string \<times> reading list) list \<Rightarrow> bool" where
  "sessions_ok before [] \<longleftrightarrow> True"
| "sessions_ok before ((p, rs) # ss) \<longleftrightarrow>
     before \<noteq> Some p \<and> rs \<noteq> [] \<and> rising rs \<and> sessions_ok (Some p) ss"

fun observe_readings :: "string \<Rightarrow> reading list \<Rightarrow> Counter \<Rightarrow> Counter" where
  "observe_readings p [] c = c"
| "observe_readings p ((rx, tx, ro) # rs) c = observe_readings p rs
     (Usage_Observe \<lparr>sm_BearerPath = p, sm_RxBytes = rx, sm_TxBytes = tx, sm_Roaming = ro\<rparr> c)"

fun observe_sessions :: "(string \<times> reading list) list \<Rightarrow> Counter \<Rightarrow> Counter" where
  "observe_sessions [] c = c"
| "observe_sessions ((p, rs) # ss) c = observe_sessions ss (observe_readings p rs c)"

definition final_rx :: "string \<times> reading list \<Rightarrow> u64" where
  "final_rx session = fst (last (snd session))"
definition final_tx :: "string \<times> reading list \<Rightarrow> u64" where
  "final_tx session = fst (snd (last (snd session)))"

lemma observe_rising_all:
  "rising ((cn_lastRx c, cn_lastTx c, ro) # rs) \<Longrightarrow> cn_haveLast c \<Longrightarrow> cn_lastPath c = p \<Longrightarrow>
     tt_RxBytes (cn_totals (observe_readings p rs c)) =
       tt_RxBytes (cn_totals c) + (final_rx (p, (cn_lastRx c, cn_lastTx c, ro) # rs) - cn_lastRx c)
     \<and> tt_TxBytes (cn_totals (observe_readings p rs c)) =
       tt_TxBytes (cn_totals c) + (final_tx (p, (cn_lastRx c, cn_lastTx c, ro) # rs) - cn_lastTx c)
     \<and> cn_haveLast (observe_readings p rs c) \<and> cn_lastPath (observe_readings p rs c) = p"
proof (induction p rs c arbitrary: ro rule: observe_readings.induct)
  case (2 p rx tx ro' rs c)
  let ?s = "\<lparr>sm_BearerPath = p, sm_RxBytes = rx, sm_TxBytes = tx, sm_Roaming = ro'\<rparr>"
  have cont: "continuing ?s c" using 2(2-4) by (simp add: continuing_def)
  from 2(1) [of ro'] 2(2-4) cont show ?case
    by (simp add: Observe_totals delta_rx_def delta_tx_def final_rx_def final_tx_def)
qed (simp add: final_rx_def final_tx_def)

lemma observe_session:
  assumes "rs \<noteq> []" and "rising rs" and "\<not> (cn_haveLast c \<and> cn_lastPath c = p)"
  shows "tt_RxBytes (cn_totals (observe_readings p rs c)) = tt_RxBytes (cn_totals c) + final_rx (p, rs)"
    and "tt_TxBytes (cn_totals (observe_readings p rs c)) = tt_TxBytes (cn_totals c) + final_tx (p, rs)"
    and "cn_haveLast (observe_readings p rs c)" and "cn_lastPath (observe_readings p rs c) = p"
proof -
  obtain rx tx ro rest where rs: "rs = (rx, tx, ro) # rest"
    using assms(1) by (cases rs) auto
  let ?s = "\<lparr>sm_BearerPath = p, sm_RxBytes = rx, sm_TxBytes = tx, sm_Roaming = ro\<rparr>"
  have new: "\<not> continuing ?s c" using assms(3) by (auto simp: continuing_def)
  note run = observe_rising_all [of "Usage_Observe ?s c" ro rest p, simplified, OF assms(2) [unfolded rs]]
  from run new show "tt_RxBytes (cn_totals (observe_readings p rs c)) = tt_RxBytes (cn_totals c) + final_rx (p, rs)"
    "tt_TxBytes (cn_totals (observe_readings p rs c)) = tt_TxBytes (cn_totals c) + final_tx (p, rs)"
    "cn_haveLast (observe_readings p rs c)" "cn_lastPath (observe_readings p rs c) = p"
    by (simp_all add: rs Observe_totals delta_rx_def delta_tx_def)
qed

definition last_session :: "Counter \<Rightarrow> string option" where
  "last_session c = (if cn_haveLast c then Some (cn_lastPath c) else None)"

lemma observe_sessions_totals:
  "sessions_ok (last_session c) ss \<Longrightarrow>
     tt_RxBytes (cn_totals (observe_sessions ss c)) = tt_RxBytes (cn_totals c) + sum_list (map final_rx ss)
     \<and> tt_TxBytes (cn_totals (observe_sessions ss c)) = tt_TxBytes (cn_totals c) + sum_list (map final_tx ss)"
proof (induction ss c rule: observe_sessions.induct)
  case (2 p rs ss c)
  from 2(2) have "rs \<noteq> []" "rising rs" "\<not> (cn_haveLast c \<and> cn_lastPath c = p)"
    by (auto simp: last_session_def split: if_splits)
  note one = observe_session [OF this]
  with 2(2) have "sessions_ok (last_session (observe_readings p rs c)) ss"
    by (simp add: last_session_def)
  from 2(1) [OF this] one show ?case by (simp add: add.assoc)
qed simp

section \<open>Persistence\<close>

lemma write_from_steps:
  "write_from p fails 0 fs =
     (if fails 0 then (fs, True) else if fails 1 then (fs, True)
      else if fails 2 then (fs\<lparr>uf_temp := Some Garbled\<rparr>, True)
      else if fails 3 \<or> fails 4 \<or> fails 5 \<or> fails 6 then (fs\<lparr>uf_temp := Some (Stored p)\<rparr>, True)
      else (fs\<lparr>uf_target := Stored p, uf_temp := None\<rparr>, False))"
  by (simp add: write_from.simps eval_nat_numeral)

lemma writeAtomic_target:
  "writeAtomic fails c fs = (fs', err) \<Longrightarrow>
     uf_temp fs' = None \<and> uf_target fs' = (if err then uf_target fs else Stored (to_persist c))"
  by (auto simp: writeAtomic_def write_from_steps split: if_splits)

type_synonym counters = "(u64 \<times> u64 \<times> u64 \<times> u64) \<times> (string \<times> u64 \<times> u64) option"

text \<open>What is counted, without the text of the start date and the bookkeeping of writes.\<close>

definition totals_view :: "Totals \<Rightarrow> u64 \<times> u64 \<times> u64 \<times> u64" where
  "totals_view t = (tt_RxBytes t, tt_TxBytes t, tt_RxBytesRoaming t, tt_TxBytesRoaming t)"

definition counter_view :: "Counter \<Rightarrow> counters" where
  "counter_view c = (totals_view (cn_totals c),
     if cn_haveLast c then Some (cn_lastPath c, cn_lastRx c, cn_lastTx c) else None)"

definition stored_view :: "persisted \<Rightarrow> counters" where
  "stored_view p = (totals_view (ps_Totals p),
     if ps_LastBearer p \<noteq> '''' then Some (ps_LastBearer p, ps_LastRx p, ps_LastTx p) else None)"

lemma Observe_view_cong:
  assumes "counter_view c = counter_view d"
  shows "counter_view (Usage_Observe s c) = counter_view (Usage_Observe s d)"
proof -
  from assms have t: "totals_view (cn_totals c) = totals_view (cn_totals d)"
    and l: "cn_haveLast c = cn_haveLast d"
    "cn_haveLast c \<Longrightarrow> cn_lastPath c = cn_lastPath d \<and> cn_lastRx c = cn_lastRx d \<and> cn_lastTx c = cn_lastTx d"
    by (auto simp: counter_view_def split: if_splits)
  have "continuing s c = continuing s d" using l by (auto simp: continuing_def)
  then have "delta_rx s c = delta_rx s d" "delta_tx s c = delta_tx s d"
    using l by (auto simp: delta_rx_def delta_tx_def continuing_def)
  with t show ?thesis by (simp add: counter_view_def totals_view_def Observe_totals)
qed

lemma fold_Observe_view_cong:
  "counter_view c = counter_view d \<Longrightarrow>
     counter_view (fold Usage_Observe ss c) = counter_view (fold Usage_Observe ss d)"
proof (induction ss arbitrary: c d)
  case (Cons s ss)
  from Cons.IH [OF Observe_view_cong [OF Cons.prems]] show ?case by simp
qed simp

lemma New_view:
  "path \<noteq> '''' \<Longrightarrow> counter_view (Counter_New path now (Stored p)) = stored_view p"
  by (simp add: Counter_New_def load_def counter_view_def stored_view_def totals_view_def Let_def)

lemma New_not_dirty: "\<not> cn_dirty (Counter_New path now file)"
  "cn_path (Counter_New path now file) = path"
  by (simp_all add: Counter_New_def load_def Let_def split: stored.split)

lemma New_haveLast:
  "cn_haveLast (Counter_New path now file) \<Longrightarrow>
     \<exists>p. file = Stored p \<and> cn_lastPath (Counter_New path now file) \<noteq> ''''"
  by (auto simp: Counter_New_def load_def Let_def split: stored.splits if_splits)

text \<open>The life of the counter: readings, writes at the intended points, backstops, restarts.\<close>

datatype usage_event =
    Reading Sample
  | FlushEv "nat \<Rightarrow> bool" gotime
  | BackstopEv "nat \<Rightarrow> bool" gotime
  | RestartEv gotime

fun usage_step :: "usage_event \<Rightarrow> Counter \<times> usage_fs \<Rightarrow> Counter \<times> usage_fs" where
  "usage_step (Reading s) (c, fs) = (Usage_Observe s c, fs)"
| "usage_step (FlushEv fails now) (c, fs) = (let (c', fs', e) = Usage_Flush fails now c fs in (c', fs'))"
| "usage_step (BackstopEv fails now) (c, fs) = Backstop fails now c fs"
| "usage_step (RestartEv now) (c, fs) = (Counter_New (cn_path c) now (uf_target fs), fs)"

fun named_reading :: "usage_event \<Rightarrow> bool" where
  "named_reading (Reading s) \<longleftrightarrow> sm_BearerPath s \<noteq> ''''"
| "named_reading _ \<longleftrightarrow> True"

definition usage_start :: "string \<Rightarrow> gotime \<Rightarrow> stored \<Rightarrow> Counter \<times> usage_fs" where
  "usage_start path now file = (Counter_New path now file, \<lparr>uf_target = file, uf_temp = None\<rparr>)"

text \<open>The file agrees with the counter unless the counter says that it is dirty.\<close>

definition usage_inv :: "Counter \<times> usage_fs \<Rightarrow> bool" where
  "usage_inv st \<longleftrightarrow>
     (let (c, fs) = st in
      cn_path c \<noteq> '''' \<and> (cn_dirty c \<longrightarrow> cn_haveLast c) \<and> (cn_haveLast c \<longrightarrow> cn_lastPath c \<noteq> '''')
      \<and> (cn_haveLast c \<and> \<not> cn_dirty c \<longrightarrow>
           (\<exists>p. uf_target fs = Stored p \<and> stored_view p = counter_view c)))"

lemma usage_inv_New:
  "path \<noteq> '''' \<Longrightarrow> usage_inv (Counter_New path now (uf_target fs), fs)"
  using New_haveLast [of path now "uf_target fs"]
  by (auto simp: usage_inv_def New_not_dirty New_view)

lemma to_persist_view:
  "cn_haveLast c \<Longrightarrow> cn_lastPath c \<noteq> '''' \<Longrightarrow> stored_view (to_persist c) = counter_view c"
  by (simp add: stored_view_def to_persist_def counter_view_def)

lemma flushLocked_inv:
  assumes "usage_inv (c, fs)" and "flushLocked fails now c fs = (c', fs', err)"
  shows "usage_inv (c', fs')" and "counter_view c' = counter_view c"
    and "\<not> err \<and> cn_haveLast c \<longrightarrow> (\<exists>p. uf_target fs' = Stored p \<and> stored_view p = counter_view c)"
proof -
  obtain fs1 e where w: "writeAtomic fails c fs = (fs1, e)" by fastforce
  have view: "counter_view (c\<lparr>cn_dirty := False, cn_lastFlush := now\<rparr>) = counter_view c"
    by (simp add: counter_view_def)
  show "usage_inv (c', fs')" and "counter_view c' = counter_view c"
    and "\<not> err \<and> cn_haveLast c \<longrightarrow> (\<exists>p. uf_target fs' = Stored p \<and> stored_view p = counter_view c)"
    using assms writeAtomic_target [OF w] to_persist_view [of c] view
    by (auto simp: flushLocked_def w usage_inv_def split: if_splits)
qed

lemma Reading_inv:
  assumes "usage_inv (c, fs)" and "sm_BearerPath s \<noteq> ''''"
  shows "usage_inv (Usage_Observe s c, fs)"
proof (cases "cn_dirty (Usage_Observe s c)")
  case True
  with assms show ?thesis by (simp add: usage_inv_def)
next
  case False
  then have same: "cn_haveLast c" "cn_lastPath c = sm_BearerPath s" "cn_lastRx c = sm_RxBytes s"
    "cn_lastTx c = sm_TxBytes s" "\<not> cn_dirty c"
    by (auto simp: Usage_Observe_def Let_def split: if_splits)
  then have "counter_view (Usage_Observe s c) = counter_view c"
    by (simp add: counter_view_def totals_view_def Observe_totals delta_rx_def delta_tx_def
        continuing_def)
  with assms same show ?thesis by (simp add: usage_inv_def)
qed

lemma usage_step_inv: "usage_inv st \<Longrightarrow> named_reading e \<Longrightarrow> usage_inv (usage_step e st)"
proof (cases "(e, st)" rule: usage_step.cases)
  case (2 fails now c fs)
  assume "usage_inv st"
  with 2 flushLocked_inv(1) show ?thesis by (auto simp: Usage_Flush_def split: prod.splits)
next
  case (3 fails now c fs)
  assume "usage_inv st"
  with 3 flushLocked_inv(1) show ?thesis by (auto simp: Backstop_def split: prod.splits)
next
  case (4 now c fs)
  assume "usage_inv st"
  with 4 usage_inv_New [of "cn_path c" now fs] show ?thesis by (simp add: usage_inv_def)
qed (auto intro: Reading_inv)

lemma usage_run_inv:
  "\<forall>e \<in> set es. named_reading e \<Longrightarrow> usage_inv st \<Longrightarrow> usage_inv (fold usage_step es st)"
proof (induction es arbitrary: st)
  case (Cons e es)
  then show ?case using usage_step_inv [of st e] by simp
qed simp

text \<open>The file after the first \<open>k\<close> steps of a write, for a power cut there.\<close>

lemma fs_steps:
  "k \<le> 6 \<Longrightarrow> uf_target (fold (fs_step p) [0..<k] fs) = uf_target fs
     \<and> (2 < k \<longrightarrow> uf_temp (fold (fs_step p) [0..<k] fs) = Some (Stored p))"
  by (induction k) auto

lemma fs_steps_target:
  "k \<le> 7 \<Longrightarrow> uf_target (fold (fs_step p) [0..<k] fs) \<in> {uf_target fs, Stored p}"
proof (cases "k = 7")
  case True
  have "fold (fs_step p) [0..<7] fs = fs_step p 6 (fold (fs_step p) [0..<6] fs)"
    using upt_Suc_append [of 0 6] by simp
  with True fs_steps [of 6 p fs] show ?thesis by simp
next
  case False
  assume "k \<le> 7"
  with False fs_steps [of k p fs] show ?thesis by simp
qed

section \<open>Properties\<close>

text \<open>
   Sessions are counted exactly. When the readings come from consecutive bearer sessions, each on
  a path other than the one before and with counters that do not decrease, the totals grow by the
  sum of the last readings of the sessions, whatever the number and the spacing of the polls
  (modulo the 64-bit width of the counters).
\<close>

theorem sessions_counted_exactly:
  assumes "sessions_ok (last_session c) ss"
  shows "tt_RxBytes (cn_totals (observe_sessions ss c)) = tt_RxBytes (cn_totals c) + sum_list (map final_rx ss)
       \<and> tt_TxBytes (cn_totals (observe_sessions ss c)) = tt_TxBytes (cn_totals c) + sum_list (map final_tx ss)"
  using observe_sessions_totals [OF assms] .

lemma sessions_counted_exactly_witness:
  "tt_RxBytes (cn_totals (observe_sessions
      [(''/b/1'', [(5, 1, False), (9, 1, False)]), (''/b/2'', [(20, 4, True)])]
      (Counter_New ''/u'' 0 Absent))) = 29"
proof -
  let ?c = "Counter_New ''/u'' 0 Absent"
  let ?ss = "[(''/b/1'', [(5, 1, False), (9, 1, False)]), (''/b/2'', [(20, 4, True)])]"
  have ok: "sessions_ok (last_session ?c) ?ss" by code_simp
  have "tt_RxBytes (cn_totals ?c) = 0" by code_simp
  with sessions_counted_exactly [OF ok] show ?thesis by (simp add: final_rx_def)
qed

text \<open>
   Totals never decrease, and roaming traffic stays a part of the whole: as long as a reading does
  not carry a counter past 64 bits, it leaves every total at least as large, and the roaming
  totals at most as large as the totals they are part of.
\<close>

theorem totals_monotone:
  assumes "unat (tt_RxBytes (cn_totals c)) + unat (sm_RxBytes s) < 2 ^ 64"
    and "tt_RxBytesRoaming (cn_totals c) \<le> tt_RxBytes (cn_totals c)"
  shows "tt_RxBytes (cn_totals c) \<le> tt_RxBytes (cn_totals (Usage_Observe s c))
    \<and> tt_RxBytesRoaming (cn_totals c) \<le> tt_RxBytesRoaming (cn_totals (Usage_Observe s c))
    \<and> tt_RxBytesRoaming (cn_totals (Usage_Observe s c)) \<le> tt_RxBytes (cn_totals (Usage_Observe s c))"
proof -
  let ?t = "tt_RxBytes (cn_totals c)" and ?r = "tt_RxBytesRoaming (cn_totals c)"
  let ?d = "delta_rx s c"
  have "unat ?d \<le> unat (sm_RxBytes s)"
    by (auto simp: delta_rx_def continuing_def unat_sub word_le_nat_alt)
  then have t: "unat (?t + ?d) = unat ?t + unat ?d"
    using assms(1) by (simp add: unat_word_ariths)
  have rt: "unat ?r \<le> unat ?t" using assms(2) by (simp add: word_le_nat_alt)
  then have r: "unat (?r + ?d) = unat ?r + unat ?d"
    using assms(1) \<open>unat ?d \<le> unat (sm_RxBytes s)\<close> by (simp add: unat_word_ariths)
  show ?thesis using t r rt by (simp add: Observe_totals word_le_nat_alt)
qed

lemma totals_monotone_witness:
  "tt_RxBytes (cn_totals (Counter_New ''/u'' 0 Absent)) \<le> tt_RxBytes (cn_totals (Usage_Observe
     \<lparr>sm_BearerPath = ''/b'', sm_RxBytes = 7, sm_TxBytes = 2, sm_Roaming = True\<rparr>
     (Counter_New ''/u'' 0 Absent)))"
proof -
  have z: "cn_totals (Counter_New ''/u'' 0 Absent) = fresh_totals 0"
    by (simp add: Counter_New_def load_def)
  show ?thesis
    by (rule totals_monotone [THEN conjunct1]) (simp_all add: z fresh_totals_def)
qed

text \<open>
  C10. A restart after a successful flush loses nothing and counts nothing twice. Whatever happened
  before (readings, failed and successful writes, backstops, earlier restarts, any file to start
  from), once a flush succeeds a new process that loads the file answers every later series of
  readings with the same totals as the old process would have.
\<close>

theorem restart_is_transparent:
  assumes "path \<noteq> ''''" and "\<forall>e \<in> set es. named_reading e"
    and "fold usage_step es (usage_start path now file) = (c, fs)"
    and "cn_path c = path" and "cn_haveLast c"
    and "Usage_Flush fails t c fs = (c', fs', False)"
  shows "counter_view (fold Usage_Observe ss (Counter_New path t' (uf_target fs')))
       = counter_view (fold Usage_Observe ss c)"
proof -
  have "usage_inv (usage_start path now file)"
    using usage_inv_New [OF assms(1), of now "\<lparr>uf_target = file, uf_temp = None\<rparr>"]
    by (simp add: usage_start_def)
  from usage_run_inv [OF assms(2) this] have inv: "usage_inv (c, fs)" using assms(3) by simp
  from flushLocked_inv(3) [OF inv assms(6) [unfolded Usage_Flush_def]] assms(5)
  obtain p where "uf_target fs' = Stored p" "stored_view p = counter_view c" by auto
  then have "counter_view (Counter_New path t' (uf_target fs')) = counter_view c"
    using New_view [OF assms(1)] by simp
  then show ?thesis by (rule fold_Observe_view_cong)
qed

definition sample_reading :: Sample where
  "sample_reading = \<lparr>sm_BearerPath = ''/b'', sm_RxBytes = 7, sm_TxBytes = 2, sm_Roaming = True\<rparr>"

lemma restart_is_transparent_witness:
  "counter_view (fold Usage_Observe [sample_reading] (Counter_New ''/u'' 9 (uf_target
      (fst (snd (Usage_Flush (\<lambda>n. False) 5 (Usage_Observe sample_reading (Counter_New ''/u'' 0 Garbled))
         \<lparr>uf_target = Garbled, uf_temp = None\<rparr>))))))
   = counter_view (fold Usage_Observe [sample_reading]
       (Usage_Observe sample_reading (Counter_New ''/u'' 0 Garbled)))"
proof -
  let ?c = "Usage_Observe sample_reading (Counter_New ''/u'' 0 Garbled)"
  let ?fs = "\<lparr>uf_target = Garbled, uf_temp = None\<rparr>"
  obtain c' fs' err where f: "Usage_Flush (\<lambda>n. False) 5 ?c ?fs = (c', fs', err)"
    by (cases "Usage_Flush (\<lambda>n. False) 5 ?c ?fs") auto
  have "\<not> snd (snd (Usage_Flush (\<lambda>n. False) 5 ?c ?fs))" by code_simp
  with f have "Usage_Flush (\<lambda>n. False) 5 ?c ?fs = (c', fs', False)" by simp
  from restart_is_transparent [OF _ _ _ _ _ this, of "''/u''" "[Reading sample_reading]" 0 Garbled "[sample_reading]" 9]
  show ?thesis using f by (simp add: usage_start_def sample_reading_def New_not_dirty)
qed


end
