(* ===== verification/Sim.thy ===== *)
theory Sim
  imports MM_Client
begin

text \<open>
  \<open>internal/sim/manager.go\<close>: the PIN reconciliation. The D-Bus surface \<open>SimDBus\<close> is the parameter
  \<open>answer\<close>: the error of a call, \<open>None\<close> for success. \<open>Reconcile\<close> returns the outcome, the manager
  and the D-Bus calls it made, in order. Log lines are not modelled, except for the flag that says
  whether the observation changed, which decides about them. A SIM card, for the statements about
  its retry counter, is a parameter too.
\<close>

section \<open>Data\<close>

datatype Outcome =
    OutcomeUnconfigured | OutcomeOK | OutcomeUnlocked | OutcomeLockEnabled | OutcomeWrongPin
  | OutcomeLowRetriesBail | OutcomePukRequired | OutcomeError

fun Outcome_String :: "Outcome \<Rightarrow> string" where
  "Outcome_String OutcomeUnconfigured = ''unconfigured''"
| "Outcome_String OutcomeOK = ''ok''"
| "Outcome_String OutcomeUnlocked = ''unlocked''"
| "Outcome_String OutcomeLockEnabled = ''lock-enabled''"
| "Outcome_String OutcomeWrongPin = ''wrong-pin''"
| "Outcome_String OutcomeLowRetriesBail = ''low-retries-bail''"
| "Outcome_String OutcomePukRequired = ''puk-required''"
| "Outcome_String OutcomeError = ''error''"

definition minRetriesBeforeAttempt :: u32 where "minRetriesBeforeAttempt = 3"

datatype sim_call = SendPin object_path string | EnablePin object_path string bool

record SimInput =
  si_SIMPath :: object_path
  si_LockStatus :: string
  si_LockStatusKnown :: bool
  si_SIMPinLockEnabled :: bool
  si_SIMPinLockKnown :: bool
  si_UnlockRetriesPin :: u32
  si_ConfiguredPIN :: string

record reconcileObservation =
  ro_lockStatus :: string
  ro_lockStatusKnown :: bool
  ro_pinConfigured :: bool
  ro_pinLockEnabled :: bool
  ro_pinLockKnown :: bool
  ro_unlockRetriesPin :: u32

text \<open>\<open>lastObservation\<close> and \<open>hasLastObservation\<close> together are an option.\<close>

record SimManager =
  sm_triedThisRun :: bool
  sm_lastObservation :: "reconcileObservation option"

definition Sim_New :: SimManager where
  "Sim_New = \<lparr>sm_triedThisRun = False, sm_lastObservation = None\<rparr>"

section \<open>Operations\<close>

definition observation_of :: "SimInput \<Rightarrow> reconcileObservation" where
  "observation_of i =
     \<lparr>ro_lockStatus = si_LockStatus i, ro_lockStatusKnown = si_LockStatusKnown i,
      ro_pinConfigured = (si_ConfiguredPIN i \<noteq> ''''), ro_pinLockEnabled = si_SIMPinLockEnabled i,
      ro_pinLockKnown = si_SIMPinLockKnown i, ro_unlockRetriesPin = si_UnlockRetriesPin i\<rparr>"

definition logObservation :: "SimInput \<Rightarrow> SimManager \<Rightarrow> bool \<times> SimManager" where
  "logObservation i m =
     (if sm_lastObservation m = Some (observation_of i) then (False, m)
      else (True, m\<lparr>sm_lastObservation := Some (observation_of i)\<rparr>))"

type_synonym sim_result = "Outcome \<times> SimManager \<times> sim_call list"

text \<open>The outcome of an attempt, from the error of the call.\<close>

definition attempt ::
  "(sim_call \<Rightarrow> dbus_error option) \<Rightarrow> sim_call \<Rightarrow> Outcome \<Rightarrow> SimManager \<Rightarrow> sim_result" where
  "attempt answer call success m =
     (let err = answer call in
      if err = None then (success, m, [call])
      else if IsPukRequiredError err then (OutcomePukRequired, m, [call])
      else if IsWrongPinError err then (OutcomeWrongPin, m\<lparr>sm_triedThisRun := True\<rparr>, [call])
      else (OutcomeError, m, [call]))"

definition actUnlock ::
  "(sim_call \<Rightarrow> dbus_error option) \<Rightarrow> SimInput \<Rightarrow> SimManager \<Rightarrow> sim_result" where
  "actUnlock answer i m =
     (if si_SIMPath i = '''' then (OutcomeError, m, [])
      else if sm_triedThisRun m then (OutcomeWrongPin, m, [])
      else if si_UnlockRetriesPin i < minRetriesBeforeAttempt then (OutcomeLowRetriesBail, m, [])
      else attempt answer (SendPin (si_SIMPath i) (si_ConfiguredPIN i)) OutcomeUnlocked m)"

definition actEnableLock ::
  "(sim_call \<Rightarrow> dbus_error option) \<Rightarrow> SimInput \<Rightarrow> SimManager \<Rightarrow> sim_result" where
  "actEnableLock answer i m =
     (if si_SIMPath i = '''' then (OutcomeError, m, [])
      else if sm_triedThisRun m then (OutcomeWrongPin, m, [])
      else if si_UnlockRetriesPin i < minRetriesBeforeAttempt then (OutcomeLowRetriesBail, m, [])
      else attempt answer (EnablePin (si_SIMPath i) (si_ConfiguredPIN i) True) OutcomeLockEnabled m)"

definition Sim_Reconcile ::
  "(sim_call \<Rightarrow> dbus_error option) \<Rightarrow> SimInput \<Rightarrow> SimManager \<Rightarrow> sim_result" where
  "Sim_Reconcile answer i m0 =
     (let m = snd (logObservation i m0) in
      if si_ConfiguredPIN i = '''' then (OutcomeUnconfigured, m, [])
      else if si_LockStatus i = ''sim-puk'' \<or> si_LockStatus i = ''sim-puk2''
        then (OutcomePukRequired, m, [])
      else if si_LockStatus i = ''sim-pin2'' then (OutcomeOK, m, [])
      else if si_LockStatus i = ''sim-pin'' then actUnlock answer i m
      else if si_LockStatus i = '''' then
        (if \<not> si_LockStatusKnown i \<or> \<not> si_SIMPinLockKnown i then (OutcomeError, m, [])
         else if si_SIMPinLockEnabled i then (OutcomeOK, m, [])
         else actEnableLock answer i m)
      else (OutcomeOK, m, []))"

section \<open>When a call is made\<close>

text \<open>The guard that every attempt has passed.\<close>

definition may_attempt :: "SimInput \<Rightarrow> SimManager \<Rightarrow> bool" where
  "may_attempt i m \<longleftrightarrow> si_ConfiguredPIN i \<noteq> '''' \<and> si_SIMPath i \<noteq> '''' \<and> \<not> sm_triedThisRun m
     \<and> 3 \<le> unat (si_UnlockRetriesPin i)"

definition call_for :: "SimInput \<Rightarrow> sim_call option" where
  "call_for i =
     (if si_LockStatus i = ''sim-pin'' then Some (SendPin (si_SIMPath i) (si_ConfiguredPIN i))
      else if si_LockStatus i = '''' \<and> si_LockStatusKnown i \<and> si_SIMPinLockKnown i
        \<and> \<not> si_SIMPinLockEnabled i then Some (EnablePin (si_SIMPath i) (si_ConfiguredPIN i) True)
      else None)"

lemma retries_guard: "\<not> n < minRetriesBeforeAttempt \<longleftrightarrow> 3 \<le> unat n"
  by (simp add: minRetriesBeforeAttempt_def word_less_nat_alt not_less)

lemma logObservation_tried [simp]: "sm_triedThisRun (snd (logObservation i m)) = sm_triedThisRun m"
  by (simp add: logObservation_def)

lemma attempt_result:
  "attempt answer c succ m = (out, m', cs) \<Longrightarrow>
     cs = [c] \<and> sm_triedThisRun m' = (sm_triedThisRun m \<or> out = OutcomeWrongPin)
     \<and> (out = OutcomeWrongPin \<longrightarrow> IsWrongPinError (answer c))"
  if "succ \<noteq> OutcomeWrongPin"
  using that by (auto simp: attempt_def Let_def split: if_splits)

lemma Reconcile_calls:
  "snd (snd (Sim_Reconcile answer i m)) =
     (if may_attempt i m then (case call_for i of Some c \<Rightarrow> [c] | None \<Rightarrow> []) else [])"
  using retries_guard [of "si_UnlockRetriesPin i"]
  by (auto simp: Sim_Reconcile_def actUnlock_def actEnableLock_def attempt_def may_attempt_def
      call_for_def Let_def)

lemma Reconcile_tried:
  "sm_triedThisRun (fst (snd (Sim_Reconcile answer i m))) \<longleftrightarrow>
     sm_triedThisRun m \<or> (\<exists>c \<in> set (snd (snd (Sim_Reconcile answer i m))). IsWrongPinError (answer c))"
proof -
  have "IsPukRequiredError e \<Longrightarrow> \<not> IsWrongPinError e" for e using pin_errors_exclusive by blast
  moreover have "\<not> IsWrongPinError None" by simp
  ultimately show ?thesis
    by (auto simp: Sim_Reconcile_def actUnlock_def actEnableLock_def attempt_def Let_def)
qed

section \<open>Runs of one process\<close>

text \<open>
  A run: the inputs of successive monitor ticks, each with the answers that the bus would give at
  that time. The trace is the list of the calls made with their answers.
\<close>

type_synonym sim_tick = "SimInput \<times> (sim_call \<Rightarrow> dbus_error option)"

fun sim_run :: "sim_tick list \<Rightarrow> SimManager \<Rightarrow> SimManager \<times> (sim_call \<times> dbus_error option) list" where
  "sim_run [] m = (m, [])"
| "sim_run ((i, answer) # ticks) m =
     (let (out, m1, calls) = Sim_Reconcile answer i m;
          (m2, trace) = sim_run ticks m1
      in (m2, map (\<lambda>c. (c, answer c)) calls @ trace))"

lemma sim_run_tried: "sm_triedThisRun m \<Longrightarrow> snd (sim_run ticks m) = []"
proof (induction ticks arbitrary: m)
  case (Cons tick ticks)
  obtain i answer where t: "tick = (i, answer)" by (cases tick)
  obtain out m1 calls where r: "Sim_Reconcile answer i m = (out, m1, calls)" by (metis prod_cases3)
  from Cons.prems have "calls = []" and "sm_triedThisRun m1"
    using Reconcile_calls [of answer i m] Reconcile_tried [of answer i m] r
    by (auto simp: may_attempt_def)
  with Cons.IH [of m1] t r show ?case by (cases "sim_run ticks m1") simp
qed simp

definition wrong_answers :: "(sim_call \<times> dbus_error option) list \<Rightarrow> nat" where
  "wrong_answers trace = length (filter (\<lambda>(c, e). IsWrongPinError e) trace)"

lemma Reconcile_calls_length: "length (snd (snd (Sim_Reconcile answer i m))) \<le> 1"
  by (simp add: Reconcile_calls split: option.split)

lemma sim_run_wrong: "wrong_answers (snd (sim_run ticks m)) \<le> 1"
proof (induction ticks arbitrary: m)
  case (Cons tick ticks)
  obtain i answer where t: "tick = (i, answer)" by (cases tick)
  obtain out m1 calls where r: "Sim_Reconcile answer i m = (out, m1, calls)" by (metis prod_cases3)
  obtain m2 trace where rest: "sim_run ticks m1 = (m2, trace)" by fastforce
  have trace: "snd (sim_run (tick # ticks) m) = map (\<lambda>c. (c, answer c)) calls @ trace"
    using t r rest by simp
  have len: "length calls \<le> 1" using Reconcile_calls_length [of answer i m] r by simp
  show ?case
  proof (cases "\<exists>c \<in> set calls. IsWrongPinError (answer c)")
    case True
    then have "sm_triedThisRun m1" using Reconcile_tried [of answer i m] r by simp
    then have "trace = []" using sim_run_tried rest by (metis snd_conv)
    with trace len show ?thesis
      by (simp add: wrong_answers_def) (metis (no_types, lifting) le_trans length_filter_le length_map)
  next
    case False
    then have "filter (\<lambda>(c, e). IsWrongPinError e) (map (\<lambda>c. (c, answer c)) calls) = []"
      by (auto simp: filter_empty_conv)
    with Cons.IH [of m1] trace rest show ?thesis by (simp add: wrong_answers_def)
  qed
qed (simp add: wrong_answers_def)

section \<open>The card's retry counter\<close>

text \<open>
  A card is any state with a retry counter, and any reaction to a call that costs at most one try
  (3GPP TS 31.101: one verification, one decrement). The manager sees the counter through a
  snapshot that is not above the truth; the process may restart at any time.
\<close>

definition one_try_per_call :: "(sim_call \<Rightarrow> 's \<Rightarrow> dbus_error option \<times> 's) \<Rightarrow> ('s \<Rightarrow> nat) \<Rightarrow> bool" where
  "one_try_per_call react retries \<longleftrightarrow> (\<forall>c s. retries s \<le> Suc (retries (snd (react c s))))"

inductive card_step ::
  "(sim_call \<Rightarrow> 's \<Rightarrow> dbus_error option \<times> 's) \<Rightarrow> ('s \<Rightarrow> nat)
     \<Rightarrow> SimManager \<times> 's \<Rightarrow> SimManager \<times> 's \<Rightarrow> bool"
  for react retries where
  card_tick: "unat (si_UnlockRetriesPin i) \<le> retries s \<Longrightarrow>
     Sim_Reconcile (\<lambda>c. fst (react c s)) i m = (out, m', cs) \<Longrightarrow>
     card_step react retries (m, s) (m', fold (\<lambda>c s. snd (react c s)) cs s)"
| card_restart: "card_step react retries (m, s) (Sim_New, s)"

inductive_cases card_stepE: "card_step react retries ms (m', s')"

lemma card_step_retries:
  assumes "one_try_per_call react retries" and "card_step react retries ms ms'"
  shows "min 2 (retries (snd ms)) \<le> retries (snd ms')"
  using assms(2)
proof (cases rule: card_step.cases)
  case (card_tick i s m out m' cs)
  have cs: "cs = (if may_attempt i m then (case call_for i of Some c \<Rightarrow> [c] | None \<Rightarrow> []) else [])"
    using Reconcile_calls [of "\<lambda>c. fst (react c s)" i m] card_tick(4) by simp
  show ?thesis
  proof (cases "may_attempt i m \<and> call_for i \<noteq> None")
    case True
    then obtain c where "cs = [c]" using cs by auto
    moreover from True card_tick(3) have "3 \<le> retries s" by (auto simp: may_attempt_def)
    moreover have "retries s \<le> Suc (retries (snd (react c s)))"
      using assms(1) by (simp add: one_try_per_call_def)
    ultimately show ?thesis using card_tick(1,2) by simp
  next
    case False
    then have "cs = []" using cs by auto
    with card_tick(1,2) show ?thesis by simp
  qed
qed simp

lemma card_reach_retries:
  assumes "one_try_per_call react retries" and "(card_step react retries)\<^sup>*\<^sup>* ms ms'"
  shows "min 2 (retries (snd ms)) \<le> retries (snd ms')"
  using assms(2)
proof (induction rule: rtranclp_induct)
  case (step ms1 ms2)
  from card_step_retries [OF assms(1) step.hyps(2)] step.IH show ?case by simp
qed simp

section \<open>Properties\<close>

text \<open>
   An attempt is made exactly when it is safe and wanted. \<open>Reconcile\<close> makes at most one D-Bus call;
  it makes one exactly when a PIN is configured, a SIM object is known, no attempt of this process
  was refused, at least three tries are left, and the SIM is either waiting for its PIN or known
  to be unlocked with the lock known to be off; and the call carries the configured PIN.
\<close>

theorem Reconcile_attempt_iff:
  "snd (snd (Sim_Reconcile answer i m)) =
     (if may_attempt i m then (case call_for i of Some c \<Rightarrow> [c] | None \<Rightarrow> []) else [])"
  by (rule Reconcile_calls)

text \<open>
   One wrong PIN per process. Whatever the inputs and the answers of the bus over the life of a
  process, the modem answers "incorrect password" at most once, and no further call follows it.
\<close>

theorem one_wrong_pin_per_run:
  "wrong_answers (snd (sim_run ticks Sim_New)) \<le> 1
   \<and> (\<forall>m. sm_triedThisRun m \<longrightarrow> snd (sim_run later m) = [])"
  using sim_run_wrong sim_run_tried by blast

definition locked_input :: SimInput where
  "locked_input = \<lparr>si_SIMPath = ''/SIM/0'', si_LockStatus = ''sim-pin'', si_LockStatusKnown = True,
     si_SIMPinLockEnabled = True, si_SIMPinLockKnown = True, si_UnlockRetriesPin = 3,
     si_ConfiguredPIN = ''1234''\<rparr>"

definition refusing :: "sim_call \<Rightarrow> dbus_error option" where
  "refusing c = Some (DBusError ErrIncorrectPassword '''')"

lemma one_wrong_pin_per_run_witness:
  "snd (sim_run [(locked_input, refusing)] (Sim_New\<lparr>sm_triedThisRun := True\<rparr>)) = []"
  using one_wrong_pin_per_run [of "[]" "[(locked_input, refusing)]"] by simp

text \<open>
  C1. The service never drives a SIM into PUK lock. For every card on which one call costs at most one
  try, over any sequence of monitor ticks that see a retry count not above the true one, and of
  process restarts, in which nothing else touches the card, the card keeps at least two tries, or as many as
  it had.
\<close>

theorem never_exhausts_pin_retries:
  assumes "one_try_per_call react retries"
    and "(card_step react retries)\<^sup>*\<^sup>* (Sim_New, s) (m', s')"
  shows "min 2 (retries s) \<le> retries s'"
  using card_reach_retries [OF assms] by simp

definition toy_card :: "sim_call \<Rightarrow> nat \<Rightarrow> dbus_error option \<times> nat" where
  "toy_card c n = (if c = SendPin ''/SIM/0'' ''0000'' then (None, max 3 n)
     else (Some (DBusError ErrIncorrectPassword ''''), n - 1))"

lemma never_exhausts_pin_retries_witness: "min 2 (3::nat) \<le> 2"
proof -
  let ?r = "Sim_Reconcile (\<lambda>c. fst (toy_card c 3)) locked_input Sim_New"
  have law: "one_try_per_call toy_card id" by (auto simp: one_try_per_call_def toy_card_def)
  have cs: "snd (snd ?r) = [SendPin ''/SIM/0'' ''1234'']"
    by (simp add: Reconcile_calls may_attempt_def call_for_def locked_input_def Sim_New_def)
  have "unat (si_UnlockRetriesPin locked_input) \<le> id 3" by (simp add: locked_input_def)
  then have step: "card_step toy_card id (Sim_New, 3)
      (fst (snd ?r), fold (\<lambda>c s. snd (toy_card c s)) (snd (snd ?r)) 3)"
    by (rule card_tick [where out = "fst ?r"]) simp
  have "fold (\<lambda>c s. snd (toy_card c s)) (snd (snd ?r)) 3 = 2"
    unfolding cs by (simp add: toy_card_def)
  with step have "card_step toy_card id (Sim_New, 3) (fst (snd ?r), 2)" by simp
  then have "(card_step toy_card id)\<^sup>*\<^sup>* (Sim_New, 3) (fst (snd ?r), 2)" by blast
  from never_exhausts_pin_retries [OF law this] show ?thesis by simp
qed

end
