(* ===== verification/Sms_Text.thy ===== *)
theory Sms_Text
  imports Go_Time
begin

text \<open>
  \<open>internal/sms/forward.go\<close>: which messages may be forwarded, the forwarded text, and its length in
  SMS parts. The third-party phone number library is the parameter \<open>number_type\<close>: the type of a
  number that parses and is valid, \<open>None\<close> otherwise.
\<close>

section \<open>Runes\<close>

text \<open>
  Go's \<open>range\<close> over a string: the code point and the width of the first rune; an ill-formed byte is
  U+FFFD of width 1.
\<close>

definition is_cont :: "nat \<Rightarrow> bool" where "is_cont b \<longleftrightarrow> 128 \<le> b \<and> b \<le> 191"
definition runeError :: nat where "runeError = 65533"

definition decode_rune :: "nat list \<Rightarrow> nat \<times> nat" where
  "decode_rune bs =
     (case bs of
        [] \<Rightarrow> (runeError, 1)
      | b0 # r \<Rightarrow>
          if b0 < 128 then (b0, 1)
          else if 194 \<le> b0 \<and> b0 \<le> 223 then
            (case r of
               b1 # _ \<Rightarrow> if is_cont b1 then ((b0 - 192) * 64 + (b1 - 128), 2) else (runeError, 1)
             | [] \<Rightarrow> (runeError, 1))
          else if 224 \<le> b0 \<and> b0 \<le> 239 then
            (case r of
               b1 # b2 # _ \<Rightarrow>
                 if (if b0 = 224 then 160 else 128) \<le> b1 \<and> b1 \<le> (if b0 = 237 then 159 else 191) \<and> is_cont b2
                 then ((b0 - 224) * 4096 + (b1 - 128) * 64 + (b2 - 128), 3) else (runeError, 1)
             | _ \<Rightarrow> (runeError, 1))
          else if 240 \<le> b0 \<and> b0 \<le> 244 then
            (case r of
               b1 # b2 # b3 # _ \<Rightarrow>
                 if (if b0 = 240 then 144 else 128) \<le> b1 \<and> b1 \<le> (if b0 = 244 then 143 else 191)
                    \<and> is_cont b2 \<and> is_cont b3
                 then ((b0 - 240) * 262144 + (b1 - 128) * 4096 + (b2 - 128) * 64 + (b3 - 128), 4)
                 else (runeError, 1)
             | _ \<Rightarrow> (runeError, 1))
          else (runeError, 1))"

function runes_of :: "nat list \<Rightarrow> nat list" where
  "runes_of [] = []"
| "runes_of (b # bs) = (let (r, w) = decode_rune (b # bs) in r # runes_of (drop (w - 1) bs))"
  by pat_completeness auto
termination by (relation "measure length") auto

definition runes :: "string \<Rightarrow> nat list" where
  "runes s = runes_of (map of_char s)"

section \<open>Length in SMS parts\<close>

definition gsm_basic :: "nat list" where
  "gsm_basic =
     [
      64, 163, 36, 165, 232, 233, 249, 236, 242, 199, 10, 216, 248, 13, 197, 229, 916, 95,
      934, 915, 923, 937, 928, 936, 931, 920, 926, 198, 230, 223, 201, 32, 33, 34, 35, 164,
      37, 38, 39, 40, 41, 42, 43, 44, 45, 46, 47, 48, 49, 50, 51, 52, 53, 54,
      55, 56, 57, 58, 59, 60, 61, 62, 63, 161, 65, 66, 67, 68, 69, 70, 71, 72,
      73, 74, 75, 76, 77, 78, 79, 80, 81, 82, 83, 84, 85, 86, 87, 88, 89, 90,
      196, 214, 209, 220, 167, 191, 97, 98, 99, 100, 101, 102, 103, 104, 105, 106, 107, 108,
      109, 110, 111, 112, 113, 114, 115, 116, 117, 118, 119, 120, 121, 122, 228, 246, 241, 252,
      224]"

definition gsm_extension :: "nat list" where
  "gsm_extension = [12, 94, 123, 125, 92, 91, 126, 93, 124, 8364]"

text \<open>The loop over the runes: the septets so far and whether all runes were in the alphabet.\<close>

fun gsm_units :: "nat list \<Rightarrow> nat \<Rightarrow> bool \<Rightarrow> nat \<times> bool" where
  "gsm_units [] units gsm = (units, gsm)"
| "gsm_units (r # rs) units gsm =
     (if r \<in> set gsm_basic then gsm_units rs (units + 1) gsm
      else if r \<in> set gsm_extension then gsm_units rs (units + 2) gsm
      else gsm_units rs units False)"

text \<open>\<open>len(utf16.Encode(..))\<close>.\<close>

definition utf16_units :: "nat list \<Rightarrow> nat" where
  "utf16_units rs = sum_list (map (\<lambda>r. if 65536 \<le> r then 2 else 1) rs)"

definition SMSSegments :: "string \<Rightarrow> nat" where
  "SMSSegments text =
     (let (units, gsm) = gsm_units (runes text) 0 True in
      if gsm then (if units \<le> 160 then 1 else (units + 152) div 153)
      else let units = utf16_units (runes text) in
        if units \<le> 70 then 1 else (units + 66) div 67)"

section \<open>Forwarding\<close>

datatype number_type = MOBILE | FIXED_LINE | FIXED_LINE_OR_MOBILE | OTHER_TYPE

record Message =
  ms_Number :: string
  ms_Text :: string
  ms_Timestamp :: zoned
  ms_SourcePath :: string
  ms_SourceTimestamp :: string

definition forwardMarker :: string where "forwardMarker = ''[Librescoot SMS]''"

text \<open>The regular expression \<open>^\+[1-9][0-9]{7,14}$\<close>.\<close>

definition e164 :: "string \<Rightarrow> bool" where
  "e164 s =
     (case s of
        p # d # r \<Rightarrow> p = CHR ''+'' \<and> is_digit d \<and> d \<noteq> CHR ''0'' \<and> list_all is_digit r
          \<and> 7 \<le> length r \<and> length r \<le> 14
      | _ \<Rightarrow> False)"

definition ValidForwardDestination :: "(string \<Rightarrow> number_type option) \<Rightarrow> string \<Rightarrow> bool" where
  "ValidForwardDestination number_type value =
     (if value = ''off'' then True
      else if \<not> e164 value then False
      else case number_type value of
        Some MOBILE \<Rightarrow> True | Some FIXED_LINE \<Rightarrow> True | Some FIXED_LINE_OR_MOBILE \<Rightarrow> True | _ \<Rightarrow> False)"

definition forward_body :: "Message \<Rightarrow> string" where
  "forward_body m =
     forwardMarker @ '' From: '' @ ms_Number m @ [CHR 0x0A] @ rfc3339_zoned (ms_Timestamp m)
       @ [CHR 0x0A] @ ms_Text m"

definition ForwardText ::
  "(string \<Rightarrow> number_type option) \<Rightarrow> Message \<Rightarrow> string \<Rightarrow> (string \<times> nat) option" where
  "ForwardText number_type message destination =
     (if \<not> ValidForwardDestination number_type destination \<or> destination = ''off''
         \<or> ms_Number message = destination \<or> Contains (ms_Text message) forwardMarker then None
      else let body = forward_body message; segments = SMSSegments body in
        if segments > 10 then None else Some (body, segments))"

section \<open>Facts\<close>

text \<open>The septets of a rune in the GSM alphabet, \<open>None\<close> outside it.\<close>

definition septets :: "nat \<Rightarrow> nat option" where
  "septets r = (if r \<in> set gsm_basic then Some 1 else if r \<in> set gsm_extension then Some 2 else None)"

lemma gsm_units_ok: "snd (gsm_units rs n g) \<longleftrightarrow> g \<and> (\<forall>r \<in> set rs. septets r \<noteq> None)"
  by (induction rs arbitrary: n g) (simp_all add: septets_def)

lemma gsm_units_sum:
  "\<forall>r \<in> set rs. septets r \<noteq> None \<Longrightarrow>
     fst (gsm_units rs n g) = n + sum_list (map (\<lambda>r. the (septets r)) rs)"
proof (induction rs arbitrary: n g)
  case (Cons r rs)
  then have "septets r \<noteq> None" by simp
  with Cons show ?case by (simp add: septets_def split: if_splits)
qed simp

text \<open>A message of \<open>u\<close> units fits in \<open>n\<close> parts, one part holding \<open>single\<close> and each of several \<open>multi\<close>.\<close>

definition fits :: "nat \<Rightarrow> nat \<Rightarrow> nat \<Rightarrow> nat \<Rightarrow> bool" where
  "fits single multi u n \<longleftrightarrow> 1 \<le> n \<and> (if n = 1 then u \<le> single else u \<le> multi * n)"

definition parts :: "nat \<Rightarrow> nat \<Rightarrow> nat \<Rightarrow> nat" where
  "parts single multi u = (if u \<le> single then 1 else (u + (multi - 1)) div multi)"

lemma parts_least:
  assumes "0 < multi" and "multi \<le> single"
  shows "fits single multi u (parts single multi u)"
    and "fits single multi u n \<Longrightarrow> parts single multi u \<le> n"
proof -
  let ?q = "(u + (multi - 1)) div multi"
  have eq: "multi * ?q + (u + (multi - 1)) mod multi = u + (multi - 1)" by simp
  have lt: "(u + (multi - 1)) mod multi < multi" using assms(1) by simp
  have lower: "u \<le> multi * ?q" using eq lt by linarith
  show "fits single multi u (parts single multi u)"
  proof (cases "u \<le> single")
    case True
    then show ?thesis by (simp add: fits_def parts_def)
  next
    case False
    with assms lower have "1 < ?q"
      by (metis le_less_trans less_one linorder_not_less mult_0_right mult.right_neutral nat_less_le not_less_iff_gr_or_eq)
    with False lower show ?thesis by (simp add: fits_def parts_def)
  qed
  assume n: "fits single multi u n"
  show "parts single multi u \<le> n"
  proof (cases "u \<le> single")
    case True
    with n show ?thesis by (simp add: fits_def parts_def)
  next
    case False
    with n have "u \<le> multi * n" by (auto simp: fits_def split: if_splits)
    moreover have "multi * ?q \<le> u + (multi - 1)" using eq by linarith
    ultimately have "multi * ?q < multi * n + multi" using assms(1) by linarith
    then have "multi * ?q < multi * (n + 1)" by (simp only: distrib_left mult_1_right)
    then have "?q < n + 1" using assms(1) mult_less_cancel1 by blast
    with False show ?thesis by (simp add: parts_def)
  qed
qed

lemma SMSSegments_parts:
  "SMSSegments text =
     (let rs = runes text in
      if \<forall>r \<in> set rs. septets r \<noteq> None
      then parts 160 153 (sum_list (map (\<lambda>r. the (septets r)) rs))
      else parts 70 67 (utf16_units rs))"
  using gsm_units_ok [of "runes text" 0 True] gsm_units_sum [of "runes text" 0 True]
  by (cases "gsm_units (runes text) 0 True")
     (auto simp: SMSSegments_def parts_def Let_def)

lemma Contains_marker: "Contains (pre @ forwardMarker @ post) forwardMarker"
  by (simp add: Contains_def sublist_appendI)

section \<open>Properties\<close>

text \<open>
   The segment count is exact. A text whose runes all belong to the GSM alphabet is measured in
  septets, two for an extension character, any other in UTF-16 units; and the number returned is
  the least number of SMS parts that hold it, a single part being longer than one of several
  because of the concatenation header.
\<close>

theorem SMSSegments_exact:
  "(let rs = runes text; gsm = (\<forall>r \<in> set rs. septets r \<noteq> None);
        units = (if gsm then sum_list (map (\<lambda>r. the (septets r)) rs) else utf16_units rs);
        ok = fits (if gsm then 160 else 70) (if gsm then 153 else 67) units
    in ok (SMSSegments text) \<and> (\<forall>n. ok n \<longrightarrow> SMSSegments text \<le> n))"
proof (cases "\<forall>r \<in> set (runes text). septets r \<noteq> None")
  case True
  show ?thesis
    unfolding SMSSegments_parts Let_def iffD2 [OF eq_True True] if_True
    using parts_least [of 153 160] by simp
next
  case False
  show ?thesis
    unfolding SMSSegments_parts Let_def iffD2 [OF eq_False False] if_False
    using parts_least [of 67 70] by simp
qed

lemma SMSSegments_exact_witness: "SMSSegments (replicate 161 (CHR ''a'')) \<le> 2"
proof -
  let ?t = "replicate 161 (CHR ''a'')"
  have r: "runes ?t = replicate 161 97" by code_simp
  have a: "septets 97 = Some 1" by code_simp
  have "fits 160 153 161 2" by (simp add: fits_def)
  moreover have "sum_list (map (\<lambda>r. the (septets r)) (replicate 161 (97::nat))) = 161"
    by (simp add: a sum_list_replicate)
  ultimately show ?thesis
    using SMSSegments_exact [of ?t] unfolding r Let_def by (simp add: a)
qed

text \<open>
   Forwarding is bounded and does not loop. A forwarded text is accepted only for a real
  destination other than the sender and other than "off", takes at most ten parts, and no message
  that carries a forwarded text anywhere in it is ever forwarded again, to whatever destination.
\<close>

theorem forwarding_is_safe:
  assumes "ForwardText number_type m destination = Some (body, segments)"
  shows "segments \<le> 10 \<and> segments = SMSSegments body \<and> destination \<noteq> ''off'' \<and> destination \<noteq> ms_Number m
    \<and> e164 destination \<and> number_type destination \<noteq> None
    \<and> (\<forall>m' d pre post. ms_Text m' = pre @ body @ post \<longrightarrow> ForwardText number_type m' d = None)"
proof -
  have body: "body = forward_body m"
    and rest: "segments \<le> 10" "segments = SMSSegments body" "destination \<noteq> ''off''"
    "destination \<noteq> ms_Number m" "ValidForwardDestination number_type destination"
    using assms by (auto simp: ForwardText_def Let_def split: if_splits)
  have "Contains (pre @ body @ post) forwardMarker" for pre post
    using Contains_marker [of pre] by (simp add: body forward_body_def)
  then have "ms_Text m' = pre @ body @ post \<longrightarrow> ForwardText number_type m' d = None" for m' d pre post
    by (simp add: ForwardText_def)
  moreover have "e164 destination \<and> number_type destination \<noteq> None"
    using rest by (auto simp: ValidForwardDestination_def split: if_splits option.splits)
  ultimately show ?thesis using rest by blast
qed

definition sample_message :: Message where
  "sample_message = \<lparr>ms_Number = ''+4915112345678'', ms_Text = ''hello'', ms_Timestamp = (0, 3600),
     ms_SourcePath = ''/SMS/1'', ms_SourceTimestamp = ''1970-01-01T01:00:00+01:00''\<rparr>"

lemma forwarding_is_safe_witness:
  "ForwardText (\<lambda>n. Some MOBILE) (sample_message\<lparr>ms_Text := ''Fwd: '' @ forward_body sample_message @ ''''\<rparr>)
     ''+4915187654321'' = None"
proof -
  have "ForwardText (\<lambda>n. Some MOBILE) sample_message ''+4915198765432'' = Some (forward_body sample_message, 1)"
    by code_simp
  note safe = forwarding_is_safe [OF this]
  have "ms_Text (sample_message\<lparr>ms_Text := ''Fwd: '' @ forward_body sample_message @ ''''\<rparr>)
      = ''Fwd: '' @ forward_body sample_message @ ''''" by simp
  with safe show ?thesis by blast
qed

end
