(* ===== verification/Delivery_Log.thy ===== *)
theory Delivery_Log
  imports Prelude
begin

text \<open>
  The interface between the SMS manager and its durable inbox, and what a client may conclude from
  it. A log takes a message identity under a key (the modem's object path), tells whether it was
  new, and remembers it until the key is released. Every operation may fail.
\<close>

datatype ('k, 'f, 'e, 's) log_event =
    LogRecord 'k 'f 'e
  | LogForget bool 'k
  | LogOther "'s \<Rightarrow> 's"

text \<open>The results of the records of a run: \<open>None\<close> is an error, \<open>Some True\<close> a new entry.\<close>

fun log_run ::
  "('k \<Rightarrow> 'f \<Rightarrow> 'e \<Rightarrow> 's \<Rightarrow> bool option \<times> 's) \<Rightarrow> (bool \<Rightarrow> 'k \<Rightarrow> 's \<Rightarrow> 's)
     \<Rightarrow> ('k, 'f, 'e, 's) log_event list \<Rightarrow> 's \<Rightarrow> ('k \<times> 'f \<times> bool option) list" where
  "log_run rec forget [] s = []"
| "log_run rec forget (LogRecord k f e # es) s =
     (k, f, fst (rec k f e s)) # log_run rec forget es (snd (rec k f e s))"
| "log_run rec forget (LogForget ok k # es) s = log_run rec forget es (forget ok k s)"
| "log_run rec forget (LogOther g # es) s = log_run rec forget es (g s)"

definition created_count :: "'k \<Rightarrow> 'f \<Rightarrow> ('k \<times> 'f \<times> bool option) list \<Rightarrow> nat" where
  "created_count k f results = length (filter (\<lambda>r. r = (k, f, Some True)) results)"

text \<open>
  The message \<open>f\<close> stays under its key \<open>k\<close>: nothing else is recorded under \<open>k\<close>, and \<open>k\<close> is not released.
\<close>

fun stays :: "('s \<Rightarrow> 'k \<Rightarrow> 'f \<Rightarrow> bool) \<Rightarrow> 'k \<Rightarrow> 'f \<Rightarrow> ('k, 'f, 'e, 's) log_event \<Rightarrow> bool" where
  "stays holds k f (LogRecord k' f' e) \<longleftrightarrow> k' = k \<longrightarrow> f' = f"
| "stays holds k f (LogForget ok k') \<longleftrightarrow> k' \<noteq> k"
| "stays holds k f (LogOther g) \<longleftrightarrow> (\<forall>s. holds (g s) k f = holds s k f)"

locale delivery_log =
  fixes rec :: "'k \<Rightarrow> 'f \<Rightarrow> 'e \<Rightarrow> 's \<Rightarrow> bool option \<times> 's"
    and forget :: "bool \<Rightarrow> 'k \<Rightarrow> 's \<Rightarrow> 's"
    and holds :: "'s \<Rightarrow> 'k \<Rightarrow> 'f \<Rightarrow> bool"
    and named :: "'k \<Rightarrow> bool"
  assumes record_error: "fst (rec k f e s) = None \<Longrightarrow> snd (rec k f e s) = s"
    and record_known: "holds s k f \<Longrightarrow> fst (rec k f e s) \<noteq> Some True \<and> snd (rec k f e s) = s"
    and record_holds: "named k \<Longrightarrow> fst (rec k f e s) = Some b \<Longrightarrow> holds (snd (rec k f e s)) k f"
    and record_other: "k' \<noteq> k \<Longrightarrow> holds (snd (rec k f e s)) k' f' = holds s k' f'"
    and forget_other: "k' \<noteq> k \<Longrightarrow> holds (forget ok k s) k' f' = holds s k' f'"
begin

lemma held_message_is_not_recorded_again:
  "holds s k f \<Longrightarrow> \<forall>ev \<in> set es. stays holds k f ev \<Longrightarrow> created_count k f (log_run rec forget es s) = 0"
proof (induction es arbitrary: s)
  case (Cons ev es)
  show ?case
  proof (cases ev)
    case (LogRecord k' f' e)
    have "holds (snd (rec k' f' e s)) k f"
      using LogRecord Cons.prems record_known [of s k f e] record_other [of k k' f' e s f]
      by (cases "k' = k") auto
    moreover have "(k', f', fst (rec k' f' e s)) \<noteq> (k, f, Some True)"
      using Cons.prems(1) record_known by blast
    ultimately show ?thesis
      using Cons.IH [of "snd (rec k' f' e s)"] Cons.prems(2) LogRecord by (simp add: created_count_def)
  next
    case (LogForget ok k')
    then show ?thesis using Cons forget_other [of k k' ok s f] by (auto simp: created_count_def)
  next
    case (LogOther g)
    then show ?thesis using Cons by (simp add: created_count_def)
  qed
qed (simp add: created_count_def)

theorem recorded_at_most_once:
  "named k \<Longrightarrow> \<forall>ev \<in> set es. stays holds k f ev \<Longrightarrow> created_count k f (log_run rec forget es s) \<le> 1"
proof (induction es arbitrary: s)
  case (Cons ev es)
  show ?case
  proof (cases ev)
    case (LogRecord k' f' e)
    let ?s = "snd (rec k' f' e s)"
    show ?thesis
    proof (cases "(k', f', fst (rec k' f' e s)) = (k, f, Some True)")
      case True
      then have "holds ?s k f" using record_holds [OF Cons.prems(1), of f e s True] by auto
      then have "created_count k f (log_run rec forget es ?s) = 0"
        using held_message_is_not_recorded_again Cons.prems(2) by simp
      with True LogRecord show ?thesis by (simp add: created_count_def)
    next
      case False
      then show ?thesis using Cons.IH [OF Cons.prems(1), of ?s] Cons.prems(2) LogRecord
        by (auto simp: created_count_def)
    qed
  next
    case (LogForget ok k')
    then show ?thesis using Cons by (simp add: created_count_def)
  next
    case (LogOther g)
    then show ?thesis using Cons by (simp add: created_count_def)
  qed
qed (simp add: created_count_def)

end

end
