(* ===== verification/Sms_Store.thy ===== *)
theory Sms_Store
  imports Sms_Text Delivery_Log "HOL-Library.List_Lexorder" "HOL-Library.Multiset"
begin

text \<open>
  \<open>internal/sms/store.go\<close> and \<open>store_forward.go\<close>: the durable inbox and the forwarding queue. The
  SQLite database is a record of its tables, a table being the list of its rows in the order of
  their row ids (a new row gets a larger id than all there are) or, where it is read by key only, a
  map. Every statement of a transaction may fail: \<open>ok n\<close> says whether the \<open>n\<close>-th succeeds. A
  transaction that fails is rolled back, so the database is unchanged.

  The digest of a message is the parameter \<open>fingerprint\<close>, the random id the argument \<open>newid\<close>.
\<close>

section \<open>Tables\<close>

definition inboxLimit :: nat where "inboxLimit = 100"
definition inboxMaxAge :: duration where "inboxMaxAge = 30 * 24 * hour_ns"

record inbox_row =
  in_id :: string
  in_sender :: string
  in_body :: string
  in_timestamp :: string
  in_received :: int
  in_read :: bool

datatype job_state = JQueued | JSending | JSent | JUnknown | JCancelled | JExpired

record forward_job =
  fj_id :: string
  fj_sender :: string
  fj_destination :: string
  fj_body :: string
  fj_segments :: nat
  fj_state :: job_state
  fj_created :: int
  fj_expires :: int
  fj_day :: string

record store =
  db_inbox :: "inbox_row list"
  db_pending :: "string \<rightharpoonup> string \<times> string"
  db_jobs :: "forward_job list"
  db_budget :: "string \<rightharpoonup> nat"
  db_config :: "string \<times> int"

record StoredMessage =
  sd_ID :: string
  sd_From :: string
  sd_Text :: string
  sd_Timestamp :: string
  sd_ReceivedAt :: int
  sd_Read :: bool
  sd_ForwardStatus :: "job_state option"

text \<open>The tables that \<open>OpenStore\<close> creates.\<close>

definition OpenStore :: store where
  "OpenStore = \<lparr>db_inbox = [], db_pending = Map.empty, db_jobs = [], db_budget = Map.empty,
     db_config = (''off'', 0)\<rparr>"

section \<open>Statements\<close>

definition age_limit :: "gotime \<Rightarrow> int" where
  "age_limit now = unix_milli (time_Add now (- inboxMaxAge))"

text \<open>\<open>SELECT .. ORDER BY received_at DESC, rowid DESC\<close>.\<close>

definition newest_first :: "inbox_row list \<Rightarrow> inbox_row list" where
  "newest_first rows = rev (sort_key in_received rows)"

definition prune_inbox :: "gotime \<Rightarrow> inbox_row list \<Rightarrow> inbox_row list" where
  "prune_inbox now rows =
     (let dropped = map in_id (drop inboxLimit (newest_first rows)) in
      filter (\<lambda>r. \<not> (in_received r < age_limit now \<or> in_id r \<in> set dropped)) rows)"

definition expire_inbox :: "gotime \<Rightarrow> inbox_row list \<Rightarrow> inbox_row list" where
  "expire_inbox now rows = filter (\<lambda>r. \<not> in_received r < age_limit now) rows"

text \<open>\<open>DELETE FROM forward_jobs WHERE id NOT IN (SELECT id FROM inbox) AND state <> 'sending'\<close>.\<close>

definition drop_orphans :: "inbox_row list \<Rightarrow> forward_job list \<Rightarrow> forward_job list" where
  "drop_orphans rows jobs =
     filter (\<lambda>j. \<not> (fj_id j \<notin> in_id ` set rows \<and> fj_state j \<noteq> JSending)) jobs"

text \<open>\<open>UPDATE forward_jobs SET state=? WHERE ..\<close>.\<close>

definition set_state :: "(forward_job \<Rightarrow> bool) \<Rightarrow> job_state \<Rightarrow> forward_job list \<Rightarrow> forward_job list" where
  "set_state P st jobs = map (\<lambda>j. if P j then j\<lparr>fj_state := st\<rparr> else j) jobs"

section \<open>Inbox operations\<close>

definition entry_of :: "string \<Rightarrow> Message \<Rightarrow> gotime \<Rightarrow> StoredMessage" where
  "entry_of newid msg now = \<lparr>sd_ID = newid, sd_From = ms_Number msg, sd_Text = ms_Text msg,
     sd_Timestamp = rfc3339_zoned (ms_Timestamp msg), sd_ReceivedAt = unix_milli now, sd_Read = False,
     sd_ForwardStatus = None\<rparr>"

definition row_of :: "StoredMessage \<Rightarrow> inbox_row" where
  "row_of e = \<lparr>in_id = sd_ID e, in_sender = sd_From e, in_body = sd_Text e,
     in_timestamp = sd_Timestamp e, in_received = sd_ReceivedAt e, in_read = False\<rparr>"

definition message_fingerprint :: "(string list \<Rightarrow> string) \<Rightarrow> Message \<Rightarrow> string" where
  "message_fingerprint fingerprint msg =
     fingerprint [ms_Number msg, ms_Text msg, ms_SourceTimestamp msg]"

definition eligible :: "Message \<Rightarrow> int \<Rightarrow> bool" where
  "eligible msg activatedAt \<longleftrightarrow> activatedAt = 0
     \<or> (case parse_rfc3339 (ms_SourceTimestamp msg) of
          Some z \<Rightarrow> \<not> time_Before (fst z) (from_unix_milli activatedAt) | None \<Rightarrow> False)"

definition new_job :: "StoredMessage \<Rightarrow> Message \<Rightarrow> string \<Rightarrow> string \<Rightarrow> nat \<Rightarrow> gotime \<Rightarrow> forward_job" where
  "new_job e msg destination body segments now =
     \<lparr>fj_id = sd_ID e, fj_sender = ms_Number msg, fj_destination = destination, fj_body = body,
      fj_segments = segments, fj_state = JQueued, fj_created = unix_milli now,
      fj_expires = unix_milli (time_Add now (24 * hour_ns)), fj_day = ''''\<rparr>"

text \<open>
  \<open>RecordWithForwardSince\<close>: the entry and whether it was created; \<open>None\<close> is an error. An insert with
  an id that is taken violates the primary key and fails.
\<close>

definition RecordWithForwardSince ::
  "(string list \<Rightarrow> string) \<Rightarrow> (string \<Rightarrow> number_type option) \<Rightarrow> (nat \<Rightarrow> bool) \<Rightarrow> string
     \<Rightarrow> Message \<Rightarrow> gotime \<Rightarrow> string \<Rightarrow> int \<Rightarrow> store \<Rightarrow> (StoredMessage \<times> bool) option \<times> store" where
  "RecordWithForwardSince fingerprint number_type ok newid msg now destination activatedAt db =
     (let fp = message_fingerprint fingerprint msg;
          entry = entry_of newid msg now
      in if \<not> ok 0 \<or> \<not> ok 1 then (None, db)
         else if ms_SourcePath msg \<noteq> '''' \<and> \<not> ok 2 then (None, db)
         else
           let known = (if ms_SourcePath msg \<noteq> '''' then
                  (case db_pending db (ms_SourcePath msg) of
                     Some (previous, i) \<Rightarrow> if previous = fp then Some i else None
                   | None \<Rightarrow> None) else None)
           in case known of
             Some i \<Rightarrow> (Some (entry\<lparr>sd_ID := i\<rparr>, False), db)
           | None \<Rightarrow>
               if \<not> ok 3 \<or> newid \<in> in_id ` set (db_inbox db) then (None, db)
               else
                 let db1 = db\<lparr>db_inbox := db_inbox db @ [row_of entry]\<rparr> in
                 if ms_SourcePath msg \<noteq> '''' \<and> \<not> ok 4 then (None, db)
                 else
                   let db2 = (if ms_SourcePath msg \<noteq> ''''
                         then db1\<lparr>db_pending := (db_pending db1)(ms_SourcePath msg \<mapsto> (fp, newid))\<rparr>
                         else db1);
                       fwd = (if eligible msg activatedAt then ForwardText number_type msg destination else None)
                   in if fwd \<noteq> None \<and> (\<not> ok 5 \<or> newid \<in> fj_id ` set (db_jobs db2)) then (None, db)
                      else
                        let db3 = (case fwd of
                              Some (body, segments) \<Rightarrow> db2\<lparr>db_jobs := db_jobs db2
                                @ [new_job entry msg destination body segments now]\<rparr>
                            | None \<Rightarrow> db2);
                            db4 = db3\<lparr>db_inbox := prune_inbox now (db_inbox db3)\<rparr>;
                            db5 = db4\<lparr>db_jobs := drop_orphans (db_inbox db4) (db_jobs db4)\<rparr>
                        in if \<not> ok 6 \<or> \<not> ok 7 \<or> \<not> ok 8 then (None, db)
                           else (Some (entry, True), db5))"

definition ForgetModem :: "bool \<Rightarrow> string \<Rightarrow> store \<Rightarrow> bool \<times> store" where
  "ForgetModem ok path db =
     (if ok then (True, db\<lparr>db_pending := (db_pending db)(path := None)\<rparr>) else (False, db))"

definition forward_status :: "store \<Rightarrow> string \<Rightarrow> job_state option" where
  "forward_status db i = map_option fj_state (find (\<lambda>j. fj_id j = i) (db_jobs db))"

definition List_inbox :: "(nat \<Rightarrow> bool) \<Rightarrow> gotime \<Rightarrow> store \<Rightarrow> StoredMessage list option \<times> store" where
  "List_inbox ok now db =
     (let db1 = db\<lparr>db_inbox := expire_inbox now (db_inbox db)\<rparr>;
          db2 = db1\<lparr>db_jobs := drop_orphans (db_inbox db1) (db_jobs db1)\<rparr>
      in if \<not> ok 0 \<or> \<not> ok 1 \<or> \<not> ok 2 \<or> \<not> ok 3 then (None, db)
         else if \<not> ok 4 then (None, db2)
         else (Some (map (\<lambda>r. \<lparr>sd_ID = in_id r, sd_From = in_sender r, sd_Text = in_body r,
                      sd_Timestamp = in_timestamp r, sd_ReceivedAt = in_received r, sd_Read = in_read r,
                      sd_ForwardStatus = forward_status db2 (in_id r)\<rparr>)
                    (take inboxLimit (newest_first (db_inbox db2)))), db2))"

definition MarkRead :: "bool \<Rightarrow> string \<Rightarrow> store \<Rightarrow> bool option \<times> store" where
  "MarkRead ok i db =
     (if \<not> ok then (None, db)
      else (Some (i \<in> in_id ` set (db_inbox db)),
            db\<lparr>db_inbox := map (\<lambda>r. if in_id r = i then r\<lparr>in_read := True\<rparr> else r) (db_inbox db)\<rparr>))"

definition Delete_inbox :: "(nat \<Rightarrow> bool) \<Rightarrow> string \<Rightarrow> store \<Rightarrow> bool option \<times> store" where
  "Delete_inbox ok i db =
     (if \<not> ok 0 \<or> \<not> ok 1 \<or> \<not> ok 2 \<or> \<not> ok 3 then (None, db)
      else (Some (i \<in> in_id ` set (db_inbox db)),
            db\<lparr>db_inbox := filter (\<lambda>r. in_id r \<noteq> i) (db_inbox db),
              db_jobs := filter (\<lambda>j. fj_id j \<noteq> i) (db_jobs db)\<rparr>))"

section \<open>The forwarding queue\<close>

definition RecoverForward :: "bool \<Rightarrow> store \<Rightarrow> bool \<times> store" where
  "RecoverForward ok db =
     (if ok then (True, db\<lparr>db_jobs := set_state (\<lambda>j. fj_state j = JSending) JUnknown (db_jobs db)\<rparr>)
      else (False, db))"

definition ConfigureForward :: "(nat \<Rightarrow> bool) \<Rightarrow> string \<Rightarrow> gotime \<Rightarrow> store \<Rightarrow> int option \<times> store" where
  "ConfigureForward ok destination now db =
     (let (previous, since) = db_config db;
          changed = (previous \<noteq> destination);
          activatedAt = (if changed then unix_milli (truncate_second now) else since);
          db1 = (if changed then db\<lparr>db_config := (destination, activatedAt)\<rparr> else db);
          db2 = db1\<lparr>db_jobs := set_state (\<lambda>j. fj_state j = JQueued \<and> fj_destination j \<noteq> destination)
                                 JCancelled (db_jobs db1)\<rparr>
      in if \<not> ok 0 \<or> \<not> ok 1 \<or> (changed \<and> \<not> ok 2) \<or> \<not> ok 3 \<or> \<not> ok 4 then (None, db)
         else (Some activatedAt, db2))"

text \<open>The deletes and updates at the start of \<open>ReserveForward\<close>.\<close>

definition reserve_cleanup :: "gotime \<Rightarrow> string \<Rightarrow> forward_job list \<Rightarrow> forward_job list" where
  "reserve_cleanup now destination jobs =
     (let jobs = filter (\<lambda>j. \<not> (fj_created j < age_limit now \<and> fj_state j \<noteq> JSending)) jobs;
          jobs = set_state (\<lambda>j. fj_state j = JQueued \<and> fj_expires j \<le> unix_milli now) JExpired jobs
      in set_state (\<lambda>j. fj_state j = JQueued \<and> fj_destination j \<noteq> destination) JCancelled jobs)"

definition cancel_own :: "string \<Rightarrow> forward_job list \<Rightarrow> forward_job list" where
  "cancel_own own jobs =
     (if own \<noteq> '''' then set_state (\<lambda>j. fj_state j = JQueued \<and> fj_sender j = own) JCancelled jobs
      else jobs)"

definition first_queued :: "forward_job list \<Rightarrow> forward_job option" where
  "first_queued jobs =
     (case sort_key fj_created (sort_key fj_id (filter (\<lambda>j. fj_state j = JQueued) jobs)) of
        j # _ \<Rightarrow> Some j | [] \<Rightarrow> None)"

text \<open>\<open>UPDATE forward_jobs SET state='sending',budget_day=? WHERE id=? AND state='queued'\<close>.\<close>

definition start_sending :: "string \<Rightarrow> string \<Rightarrow> forward_job list \<Rightarrow> forward_job list" where
  "start_sending i day jobs =
     map (\<lambda>j. if fj_id j = i \<and> fj_state j = JQueued then j\<lparr>fj_state := JSending, fj_day := day\<rparr> else j) jobs"

definition budget_spent :: "store \<Rightarrow> string \<Rightarrow> nat" where
  "budget_spent db day = (case db_budget db day of Some n \<Rightarrow> n | None \<Rightarrow> 0)"

text \<open>\<open>Inl ()\<close> is an error, \<open>Inr None\<close> the nil job.\<close>

definition ReserveForward ::
  "(string \<Rightarrow> number_type option) \<Rightarrow> (nat \<Rightarrow> bool) \<Rightarrow> gotime \<Rightarrow> string \<Rightarrow> string \<Rightarrow> store
     \<Rightarrow> (unit + forward_job option) \<times> store" where
  "ReserveForward number_type ok now destination own db =
     (if \<not> ok 0 \<or> \<not> ok 1 \<or> \<not> ok 2 \<or> \<not> ok 3 then (Inl (), db)
      else
        let db1 = db\<lparr>db_jobs := reserve_cleanup now destination (db_jobs db)\<rparr> in
        if destination = ''off'' \<or> \<not> ValidForwardDestination number_type destination
           \<or> (own \<noteq> '''' \<and> own = destination) then
          (if ok 4 then (Inr None, db1) else (Inl (), db))
        else if own \<noteq> '''' \<and> \<not> ok 5 then (Inl (), db)
        else
          let db2 = db1\<lparr>db_jobs := cancel_own own (db_jobs db1)\<rparr>;
              day = date_str now;
              spent = budget_spent db2 day
          in if \<not> ok 6 then (Inl (), db)
             else case first_queued (db_jobs db2) of
               None \<Rightarrow> if ok 7 then (Inr None, db2) else (Inl (), db)
             | Some job \<Rightarrow>
                 if \<not> ok 8 then (Inl (), db)
                 else if spent + fj_segments job > 10 then
                   (if ok 9 then (Inr None, db2) else (Inl (), db))
                 else
                   let db3 = db2\<lparr>db_jobs := start_sending (fj_id job) day (db_jobs db2)\<rparr>;
                       db4 = db3\<lparr>db_budget := (db_budget db3)(day \<mapsto> spent + fj_segments job)\<rparr>
                   in if \<not> ok 10 \<or> \<not> ok 11 \<or> \<not> ok 12 then (Inl (), db) else (Inr (Some job), db4))"

definition FinishForward :: "bool \<Rightarrow> string \<Rightarrow> bool \<Rightarrow> store \<Rightarrow> bool \<times> store" where
  "FinishForward ok i sent db =
     (if ok then (True, db\<lparr>db_jobs := set_state (\<lambda>j. fj_id j = i \<and> fj_state j = JSending)
        (if sent then JSent else JUnknown) (db_jobs db)\<rparr>)
      else (False, db))"

section \<open>The inbox stays small and keeps what it records\<close>

lemma newest_first_mset: "mset (newest_first rows) = mset rows"
  by (simp add: newest_first_def)

lemma newest_first_set [simp]: "set (newest_first rows) = set rows"
  by (simp add: newest_first_def)

lemma prune_inbox_alt:
  "prune_inbox now rows = filter (\<lambda>r. \<not> in_received r < age_limit now)
     (filter (\<lambda>r. in_id r \<notin> in_id ` set (drop inboxLimit (newest_first rows))) rows)"
  by (auto simp: prune_inbox_def intro: filter_cong)

lemma prune_inbox_length: "length (prune_inbox now rows) \<le> inboxLimit"
proof -
  let ?new = "newest_first rows" and ?n = inboxLimit
  let ?keep = "\<lambda>r. in_id r \<notin> in_id ` set (drop inboxLimit (newest_first rows))"
  have "length (prune_inbox now rows) \<le> length (filter ?keep rows)"
    unfolding prune_inbox_alt by (rule length_filter_le)
  also have "\<dots> = length (filter ?keep ?new)"
    using newest_first_mset [of rows] by (metis mset_filter size_mset)
  also have "filter ?keep ?new = filter ?keep (take ?n ?new) @ filter ?keep (drop ?n ?new)"
    by (metis append_take_drop_id filter_append)
  also have "filter ?keep (drop ?n ?new) = []" by (simp add: filter_empty_conv)
  also have "length (filter ?keep (take ?n ?new) @ []) \<le> length (take ?n ?new)"
    by (simp only: append_Nil2 length_filter_le)
  finally show ?thesis by simp
qed

lemma prune_inbox_subset: "set (prune_inbox now rows) \<subseteq> set rows"
  by (auto simp: prune_inbox_def)

lemma prune_inbox_distinct: "distinct (map in_id rows) \<Longrightarrow> distinct (map in_id (prune_inbox now rows))"
  by (simp add: prune_inbox_def distinct_map_filter)

text \<open>A row that is at least as young as all others is first, and so is never dropped.\<close>

lemma insort_key_snoc: "f a \<le> f e \<Longrightarrow> insort_key f a (xs @ [e]) = insort_key f a xs @ [e]"
  by (induction xs) auto

lemma sort_key_snoc: "\<forall>r \<in> set rows. f r \<le> f e \<Longrightarrow> sort_key f (rows @ [e]) = sort_key f rows @ [e]"
  by (induction rows) (auto simp: insort_key_snoc)

lemma sort_key_cons_last:
  "\<forall>r \<in> set rows. f e < f r \<Longrightarrow> sort_key f (rows @ [e]) = e # sort_key f rows"
  by (induction rows) auto

lemma newest_first_last:
  "\<forall>r \<in> set rows. in_received r \<le> in_received e \<Longrightarrow> newest_first (rows @ [e]) = e # newest_first rows"
  by (simp add: newest_first_def sort_key_snoc)

lemma prune_inbox_keeps:
  assumes "\<forall>r \<in> set rows. in_received r \<le> in_received e" and "in_id e \<notin> in_id ` set rows"
    and "age_limit now \<le> in_received e"
  shows "e \<in> set (prune_inbox now (rows @ [e]))"
proof -
  have "set (drop inboxLimit (newest_first (rows @ [e]))) \<subseteq> set rows"
    using newest_first_last [OF assms(1)] set_drop_subset [of 99 "newest_first rows"]
    by (simp add: inboxLimit_def drop_Cons')
  then have "in_id e \<notin> in_id ` set (drop inboxLimit (newest_first (rows @ [e])))"
    using assms(2) by blast
  with assms(3) show ?thesis by (simp add: prune_inbox_alt)
qed

section \<open>What \<open>RecordWithForwardSince\<close> does\<close>

text \<open>The message is already held under its path.\<close>

definition store_holds :: "store \<Rightarrow> string \<Rightarrow> string \<Rightarrow> bool" where
  "store_holds db path fp \<longleftrightarrow> path \<noteq> '''' \<and> (\<exists>i. db_pending db path = Some (fp, i))"

text \<open>The database after a creation, from the jobs before the clean-up.\<close>

definition created_store ::
  "string \<Rightarrow> string \<Rightarrow> StoredMessage \<Rightarrow> gotime \<Rightarrow> forward_job list \<Rightarrow> store \<Rightarrow> store" where
  "created_store path fp entry now jobs db =
     (let rows = prune_inbox now (db_inbox db @ [row_of entry]) in
      db\<lparr>db_inbox := rows,
        db_pending := (if path \<noteq> '''' then (db_pending db)(path \<mapsto> (fp, sd_ID entry)) else db_pending db),
        db_jobs := drop_orphans rows jobs\<rparr>)"

definition record_jobs ::
  "(string \<Rightarrow> number_type option) \<Rightarrow> StoredMessage \<Rightarrow> Message \<Rightarrow> gotime \<Rightarrow> string \<Rightarrow> int
     \<Rightarrow> forward_job list \<Rightarrow> forward_job list" where
  "record_jobs number_type entry msg now destination activatedAt jobs =
     (case (if eligible msg activatedAt then ForwardText number_type msg destination else None) of
        Some (body, segments) \<Rightarrow> jobs @ [new_job entry msg destination body segments now]
      | None \<Rightarrow> jobs)"

lemma Record_eq:
  "RecordWithForwardSince fingerprint number_type ok newid msg now destination activatedAt db =
     (let path = ms_SourcePath msg; fp = message_fingerprint fingerprint msg;
          entry = entry_of newid msg now;
          fwd = (if eligible msg activatedAt then ForwardText number_type msg destination else None)
      in if \<not> ok 0 \<or> \<not> ok 1 \<or> (path \<noteq> '''' \<and> \<not> ok 2) then (None, db)
         else if store_holds db path fp
           then (Some (entry\<lparr>sd_ID := snd (the (db_pending db path))\<rparr>, False), db)
         else if \<not> ok 3 \<or> newid \<in> in_id ` set (db_inbox db) \<or> (path \<noteq> '''' \<and> \<not> ok 4)
           \<or> (fwd \<noteq> None \<and> (\<not> ok 5 \<or> newid \<in> fj_id ` set (db_jobs db)))
           \<or> \<not> ok 6 \<or> \<not> ok 7 \<or> \<not> ok 8 then (None, db)
         else (Some (entry, True), created_store path fp entry now
                 (record_jobs number_type entry msg now destination activatedAt (db_jobs db)) db))"
proof (cases "store_holds db (ms_SourcePath msg) (message_fingerprint fingerprint msg)")
  case True
  then show ?thesis
    by (auto simp: RecordWithForwardSince_def Let_def store_holds_def)
next
  case False
  then have none: "(if ms_SourcePath msg \<noteq> '''' then
      (case db_pending db (ms_SourcePath msg) of
         Some (previous, i) \<Rightarrow> if previous = message_fingerprint fingerprint msg then Some i else None
       | None \<Rightarrow> None) else None) = None"
    by (auto simp: store_holds_def split: option.splits)
  let ?F = "if eligible msg activatedAt then ForwardText number_type msg destination else None"
  show ?thesis
  proof (cases ?F)
    case None
    show ?thesis
      unfolding RecordWithForwardSince_def Let_def none None option.case
      using False by (auto simp: created_store_def record_jobs_def None entry_of_def Let_def)
  next
    case (Some a)
    obtain b n where a: "a = (b, n)" by (cases a)
    show ?thesis
      unfolding RecordWithForwardSince_def Let_def none Some option.case a
      using False by (auto simp: created_store_def record_jobs_def Some a entry_of_def Let_def)
  qed
qed

lemma Record_cases:
  fixes fingerprint newid msg now destination db
  defines "path \<equiv> ms_SourcePath msg" and "fp \<equiv> message_fingerprint fingerprint msg"
    and "entry \<equiv> entry_of newid msg now"
  obtains (failed) "RecordWithForwardSince fingerprint number_type ok newid msg now destination act db = (None, db)"
  | (known) "store_holds db path fp"
      "RecordWithForwardSince fingerprint number_type ok newid msg now destination act db =
        (Some (entry\<lparr>sd_ID := snd (the (db_pending db path))\<rparr>, False), db)"
  | (created) "\<not> store_holds db path fp" "newid \<notin> in_id ` set (db_inbox db)"
      "RecordWithForwardSince fingerprint number_type ok newid msg now destination act db =
        (Some (entry, True), created_store path fp entry now
           (record_jobs number_type entry msg now destination act (db_jobs db)) db)"
proof -
  let ?fwd = "if eligible msg act then ForwardText number_type msg destination else None"
  let ?early = "\<not> ok 0 \<or> \<not> ok 1 \<or> (path \<noteq> '''' \<and> \<not> ok 2)"
  let ?late = "\<not> ok 3 \<or> newid \<in> in_id ` set (db_inbox db) \<or> (path \<noteq> '''' \<and> \<not> ok 4)
    \<or> (?fwd \<noteq> None \<and> (\<not> ok 5 \<or> newid \<in> fj_id ` set (db_jobs db))) \<or> \<not> ok 6 \<or> \<not> ok 7 \<or> \<not> ok 8"
  note eq = Record_eq [of fingerprint number_type ok newid msg now destination act db,
      unfolded Let_def, folded path_def fp_def entry_def]
  show thesis
  proof (cases ?early)
    case True
    from failed eq [unfolded if_P [OF True]] show thesis .
  next
    case False
    note eq1 = eq [unfolded if_not_P [OF False]]
    show thesis
    proof (cases "store_holds db path fp")
      case True
      from known [OF True] eq1 [unfolded if_P [OF True]] show thesis .
    next
      case held: False
      note eq2 = eq1 [unfolded if_not_P [OF held]]
      show thesis
      proof (cases ?late)
        case True
        from failed eq2 [unfolded if_P [OF True]] show thesis .
      next
        case late: False
        then have "newid \<notin> in_id ` set (db_inbox db)" by simp
        from created [OF held this] eq2 [unfolded if_not_P [OF late]] show thesis .
      qed
    qed
  qed
qed

section \<open>The store as a delivery log\<close>

text \<open>The arguments of a record other than the message's identity and its path.\<close>

record record_env =
  re_ok :: "nat \<Rightarrow> bool"
  re_newid :: string
  re_timestamp :: zoned
  re_now :: gotime
  re_destination :: string
  re_activatedAt :: int

definition message_of :: "string \<Rightarrow> string list \<Rightarrow> record_env \<Rightarrow> Message" where
  "message_of path ident e = \<lparr>ms_Number = ident ! 0, ms_Text = ident ! 1, ms_Timestamp = re_timestamp e,
     ms_SourcePath = path, ms_SourceTimestamp = ident ! 2\<rparr>"

definition store_record ::
  "(string list \<Rightarrow> string) \<Rightarrow> (string \<Rightarrow> number_type option) \<Rightarrow> string \<Rightarrow> string list \<Rightarrow> record_env
     \<Rightarrow> store \<Rightarrow> bool option \<times> store" where
  "store_record fingerprint number_type path ident e db =
     (let (r, db') = RecordWithForwardSince fingerprint number_type (re_ok e) (re_newid e)
            (message_of path ident e) (re_now e) (re_destination e) (re_activatedAt e) db
      in (map_option snd r, db'))"

definition store_forget :: "bool \<Rightarrow> string \<Rightarrow> store \<Rightarrow> store" where
  "store_forget ok path db = snd (ForgetModem ok path db)"

definition holds_ident :: "(string list \<Rightarrow> string) \<Rightarrow> store \<Rightarrow> string \<Rightarrow> string list \<Rightarrow> bool" where
  "holds_ident fingerprint db path ident \<longleftrightarrow>
     store_holds db path (fingerprint [ident ! 0, ident ! 1, ident ! 2])"

lemma message_fingerprint_of:
  "message_fingerprint fingerprint (message_of path ident e) = fingerprint [ident ! 0, ident ! 1, ident ! 2]"
  "ms_SourcePath (message_of path ident e) = path"
  by (simp_all add: message_fingerprint_def message_of_def)

lemma store_record_cases:
  obtains (failed) "store_record fingerprint number_type path ident e db = (None, db)"
  | (known) "holds_ident fingerprint db path ident"
      "store_record fingerprint number_type path ident e db = (Some False, db)"
  | (created) db' where "\<not> holds_ident fingerprint db path ident"
      "store_record fingerprint number_type path ident e db = (Some True, db')"
      "db_pending db' = (if path \<noteq> '''' then (db_pending db)
         (path \<mapsto> (fingerprint [ident ! 0, ident ! 1, ident ! 2], re_newid e)) else db_pending db)"
proof (cases rule: Record_cases [of fingerprint number_type "re_ok e" "re_newid e"
      "message_of path ident e" "re_now e" "re_destination e" "re_activatedAt e" db])
  case f: failed
  then show thesis using failed by (simp add: store_record_def)
next
  case k: known
  then show thesis using known by (simp add: store_record_def message_fingerprint_of holds_ident_def)
next
  case c: created
  then show thesis using created
    by (simp add: store_record_def message_fingerprint_of holds_ident_def created_store_def
        entry_of_def Let_def)
qed

interpretation inbox: delivery_log "store_record fingerprint number_type" store_forget
  "holds_ident fingerprint" "\<lambda>path. path \<noteq> ''''" for fingerprint number_type
proof
  fix path k' ident f' e db b
  show "fst (store_record fingerprint number_type path ident e db) = None \<Longrightarrow>
      snd (store_record fingerprint number_type path ident e db) = db"
    by (rule store_record_cases [of fingerprint number_type path ident e db]) simp_all
  show "holds_ident fingerprint db path ident \<Longrightarrow>
      fst (store_record fingerprint number_type path ident e db) \<noteq> Some True
      \<and> snd (store_record fingerprint number_type path ident e db) = db"
    by (rule store_record_cases [of fingerprint number_type path ident e db]) simp_all
  show "path \<noteq> '''' \<Longrightarrow> fst (store_record fingerprint number_type path ident e db) = Some b \<Longrightarrow>
      holds_ident fingerprint (snd (store_record fingerprint number_type path ident e db)) path ident"
    by (rule store_record_cases [of fingerprint number_type path ident e db])
       (auto simp: holds_ident_def store_holds_def)
  show "k' \<noteq> path \<Longrightarrow> holds_ident fingerprint (snd (store_record fingerprint number_type path ident e db)) k' f'
      = holds_ident fingerprint db k' f'"
    by (rule store_record_cases [of fingerprint number_type path ident e db])
       (auto simp: holds_ident_def store_holds_def)
  fix ok
  show "k' \<noteq> path \<Longrightarrow> holds_ident fingerprint (store_forget ok path db) k' f' = holds_ident fingerprint db k' f'"
    by (simp add: store_forget_def ForgetModem_def holds_ident_def store_holds_def)
qed

section \<open>Runs of the store\<close>

text \<open>
  The operations that the service calls over the life of the database file, across restarts: a
  restart is a \<open>RecoverEv\<close> among them. A reservation yields the job handed to the modem, with its day.
\<close>

datatype store_event =
    RecordEv "nat \<Rightarrow> bool" string Message gotime string int
  | ForgetEv bool string
  | ListEv "nat \<Rightarrow> bool" gotime
  | MarkReadEv bool string
  | DeleteEv "nat \<Rightarrow> bool" string
  | RecoverEv bool
  | ConfigureEv "nat \<Rightarrow> bool" string gotime
  | ReserveEv "nat \<Rightarrow> bool" gotime string string
  | FinishEv bool string bool

fun store_step ::
  "(string list \<Rightarrow> string) \<Rightarrow> (string \<Rightarrow> number_type option) \<Rightarrow> store_event \<Rightarrow> store
     \<Rightarrow> (string \<times> forward_job) list \<times> store" where
  "store_step fp nt (RecordEv ok i msg now dest act) db =
     ([], snd (RecordWithForwardSince fp nt ok i msg now dest act db))"
| "store_step fp nt (ForgetEv ok path) db = ([], snd (ForgetModem ok path db))"
| "store_step fp nt (ListEv ok now) db = ([], snd (List_inbox ok now db))"
| "store_step fp nt (MarkReadEv ok i) db = ([], snd (MarkRead ok i db))"
| "store_step fp nt (DeleteEv ok i) db = ([], snd (Delete_inbox ok i db))"
| "store_step fp nt (RecoverEv ok) db = ([], snd (RecoverForward ok db))"
| "store_step fp nt (ConfigureEv ok dest now) db = ([], snd (ConfigureForward ok dest now db))"
| "store_step fp nt (ReserveEv ok now dest own) db =
     (case ReserveForward nt ok now dest own db of
        (Inr (Some job), db') \<Rightarrow> ([(date_str now, job)], db')
      | (_, db') \<Rightarrow> ([], db'))"
| "store_step fp nt (FinishEv ok i sent) db = ([], snd (FinishForward ok i sent db))"

fun store_run ::
  "(string list \<Rightarrow> string) \<Rightarrow> (string \<Rightarrow> number_type option) \<Rightarrow> store_event list \<Rightarrow> store
     \<Rightarrow> (string \<times> forward_job) list \<times> store" where
  "store_run fp nt [] db = ([], db)"
| "store_run fp nt (e # es) db =
     (let (js, db1) = store_step fp nt e db; (ks, db2) = store_run fp nt es db1 in (js @ ks, db2))"

text \<open>The random ids that the records of a run draw.\<close>

fun event_ids :: "store_event list \<Rightarrow> string list" where
  "event_ids [] = []"
| "event_ids (RecordEv ok i msg now dest act # es) = i # event_ids es"
| "event_ids (_ # es) = event_ids es"

subsection \<open>Queued jobs\<close>

definition queued_ids :: "store \<Rightarrow> string set" where
  "queued_ids db = {fj_id j | j. j \<in> set (db_jobs db) \<and> fj_state j = JQueued}"

lemma set_state_set:
  "j \<in> set (set_state P st jobs) \<Longrightarrow> (j \<in> set jobs \<and> \<not> P j) \<or> (\<exists>k \<in> set jobs. P k \<and> j = k\<lparr>fj_state := st\<rparr>)"
  by (auto simp: set_state_def split: if_splits)

text \<open>No queued job appears: the job list after an operation that only deletes or retires jobs.\<close>

definition only_retires :: "forward_job list \<Rightarrow> forward_job list \<Rightarrow> bool" where
  "only_retires jobs jobs' \<longleftrightarrow> (\<forall>j \<in> set jobs'. fj_state j = JQueued \<longrightarrow> j \<in> set jobs)"

lemma only_retires_refl [simp]: "only_retires jobs jobs"
  by (simp add: only_retires_def)

lemma only_retires_trans: "only_retires a b \<Longrightarrow> only_retires b c \<Longrightarrow> only_retires a c"
  by (simp add: only_retires_def)

lemma only_retires_filter [simp]: "only_retires jobs (filter P jobs)"
  by (auto simp: only_retires_def)

lemma only_retires_set_state [simp]: "st \<noteq> JQueued \<Longrightarrow> only_retires jobs (set_state P st jobs)"
  by (auto simp: only_retires_def dest: set_state_set)

lemma only_retires_orphans [simp]: "only_retires jobs (drop_orphans rows jobs)"
  by (simp add: drop_orphans_def)

lemma only_retires_cleanup [simp]: "only_retires jobs (reserve_cleanup now dest jobs)"
  unfolding reserve_cleanup_def Let_def
  by (meson job_state.distinct only_retires_filter only_retires_set_state only_retires_trans)

lemma only_retires_queued: "only_retires (db_jobs db) (db_jobs db') \<Longrightarrow> queued_ids db' \<subseteq> queued_ids db"
  by (auto simp: only_retires_def queued_ids_def)

lemma first_queued_Some:
  assumes "first_queued jobs = Some job" shows "job \<in> set jobs \<and> fj_state job = JQueued"
proof -
  let ?l = "sort_key fj_created (sort_key fj_id (filter (\<lambda>j. fj_state j = JQueued) jobs))"
  from assms have "\<exists>rest. ?l = job # rest" by (auto simp: first_queued_def split: list.splits)
  then have "job \<in> set ?l" by (metis list.set_intros(1))
  then show ?thesis by simp
qed

text \<open>What a reservation does: nothing new is queued, and the job handed out is no longer queued.\<close>

lemma only_retires_own [simp]: "only_retires jobs (cancel_own own jobs)"
  by (simp add: cancel_own_def)

lemma cleanup_destination:
  "j \<in> set (reserve_cleanup now dest jobs) \<Longrightarrow> fj_state j = JQueued \<Longrightarrow> fj_destination j = dest"
  by (auto simp: reserve_cleanup_def Let_def dest!: set_state_set)

lemma cancel_own_queued: "j \<in> set (cancel_own own jobs) \<Longrightarrow> fj_state j = JQueued \<Longrightarrow> j \<in> set jobs"
  using only_retires_own [of jobs own] by (simp add: only_retires_def)

lemma budget_spent_jobs [simp]: "budget_spent (db\<lparr>db_jobs := jobs\<rparr>) day = budget_spent db day"
  by (simp add: budget_spent_def)

lemma Reserve_eq:
  fixes db own now dest
  defines "jobs1 \<equiv> reserve_cleanup now dest (db_jobs db)"
  shows "ReserveForward nt ok now dest own db =
    (if \<not> ok 0 \<or> \<not> ok 1 \<or> \<not> ok 2 \<or> \<not> ok 3 then (Inl (), db)
     else if dest = ''off'' \<or> \<not> ValidForwardDestination nt dest \<or> (own \<noteq> '''' \<and> own = dest)
       then (if ok 4 then (Inr None, db\<lparr>db_jobs := jobs1\<rparr>) else (Inl (), db))
     else if own \<noteq> '''' \<and> \<not> ok 5 then (Inl (), db)
     else if \<not> ok 6 then (Inl (), db)
     else (case first_queued (cancel_own own jobs1) of
        None \<Rightarrow> if ok 7 then (Inr None, db\<lparr>db_jobs := cancel_own own jobs1\<rparr>) else (Inl (), db)
      | Some job \<Rightarrow>
          if \<not> ok 8 then (Inl (), db)
          else if budget_spent db (date_str now) + fj_segments job > 10
            then (if ok 9 then (Inr None, db\<lparr>db_jobs := cancel_own own jobs1\<rparr>) else (Inl (), db))
          else if \<not> ok 10 \<or> \<not> ok 11 \<or> \<not> ok 12 then (Inl (), db)
          else (Inr (Some job), db\<lparr>db_jobs := start_sending (fj_id job) (date_str now) (cancel_own own jobs1),
             db_budget := (db_budget db)(date_str now \<mapsto> budget_spent db (date_str now) + fj_segments job)\<rparr>)))"
  by (simp add: ReserveForward_def Let_def jobs1_def cong: if_cong option.case_cong)

lemma Reserve_cases:
  obtains (error) "ReserveForward nt ok now dest own db = (Inl (), db)"
  | (none) jobs where "only_retires (db_jobs db) jobs"
      "ReserveForward nt ok now dest own db = (Inr None, db\<lparr>db_jobs := jobs\<rparr>)"
  | (job) jobs job where "only_retires (db_jobs db) jobs" "job \<in> set jobs" "fj_state job = JQueued"
      "budget_spent db (date_str now) + fj_segments job \<le> 10" "fj_destination job = dest"
      "ReserveForward nt ok now dest own db = (Inr (Some job),
        db\<lparr>db_jobs := start_sending (fj_id job) (date_str now) jobs,
           db_budget := (db_budget db)(date_str now \<mapsto> budget_spent db (date_str now) + fj_segments job)\<rparr>)"
proof -
  define jobs1 where "jobs1 = reserve_cleanup now dest (db_jobs db)"
  define jobs2 where "jobs2 = cancel_own own jobs1"
  have r1: "only_retires (db_jobs db) jobs1" by (simp add: jobs1_def)
  have r2: "only_retires (db_jobs db) jobs2"
    unfolding jobs2_def using r1 only_retires_own by (rule only_retires_trans)
  note eq = Reserve_eq [of nt ok now dest own db, folded jobs1_def, folded jobs2_def]
  show thesis
  proof (cases "first_queued jobs2")
    case None
    show thesis using eq [unfolded None option.case] error none [OF r1] none [OF r2]
      by (simp split: if_splits)
  next
    case (Some j)
    note fq = first_queued_Some [OF Some]
    then have "j \<in> set jobs1" unfolding jobs2_def using cancel_own_queued by blast
    then have d: "fj_destination j = dest" using fq cleanup_destination jobs1_def by blast
    show thesis
      using eq [unfolded Some option.case] error none [OF r1] none [OF r2] job [OF r2, of j] fq d
      by (simp split: if_splits)
  qed
qed

lemma start_sending_queued:
  "j \<in> set (start_sending i day jobs) \<Longrightarrow> fj_state j = JQueued \<Longrightarrow> j \<in> set jobs \<and> fj_id j \<noteq> i"
  by (auto simp: start_sending_def split: if_splits)

lemma record_jobs_ids:
  "j \<in> set (record_jobs nt e msg now dest act jobs) \<Longrightarrow> j \<in> set jobs \<or> fj_id j = sd_ID e"
  by (auto simp: record_jobs_def new_job_def split: option.splits)

lemma Record_queued:
  "queued_ids (snd (RecordWithForwardSince fp nt ok i msg now dest act db)) \<subseteq> insert i (queued_ids db)"
proof (cases rule: Record_cases [of fp nt ok i msg now dest act db])
  case f: failed
  then show ?thesis by auto
next
  case k: known
  then show ?thesis by auto
next
  case c: created
  then show ?thesis
    by (auto simp: created_store_def Let_def queued_ids_def drop_orphans_def entry_of_def
        dest: record_jobs_ids)
qed

text \<open>Operations other than a record and a reservation queue nothing and hand out nothing.\<close>

lemma quiet_step:
  "(case e of RecordEv ok i msg now dest act \<Rightarrow> False | ReserveEv ok now dest own \<Rightarrow> False | _ \<Rightarrow> True)
   \<Longrightarrow> fst (store_step fp nt e db) = [] \<and> only_retires (db_jobs db) (db_jobs (snd (store_step fp nt e db)))
     \<and> db_budget (snd (store_step fp nt e db)) = db_budget db"
  by (cases e) (simp_all add: ForgetModem_def List_inbox_def MarkRead_def Delete_inbox_def
      RecoverForward_def ConfigureForward_def FinishForward_def Let_def split: prod.split)

lemma Record_budget:
  "db_budget (snd (RecordWithForwardSince fp nt ok i msg now dest act db)) = db_budget db"
  by (cases rule: Record_cases [of fp nt ok i msg now dest act db]) (simp_all add: created_store_def Let_def)

text \<open>The segments handed out on a day.\<close>

definition day_segments :: "string \<Rightarrow> (string \<times> forward_job) list \<Rightarrow> nat" where
  "day_segments day js = sum_list (map (\<lambda>(d, j). if d = day then fj_segments j else 0) js)"

lemma store_step_effect:
  assumes "store_step fp nt e db = (js, db')"
  shows "queued_ids db' \<subseteq> set (event_ids [e]) \<union> queued_ids db"
    and "js = [] \<or> (\<exists>d j. js = [(d, j)] \<and> fj_id j \<in> queued_ids db \<and> fj_id j \<notin> queued_ids db')"
    and "budget_spent db' day = budget_spent db day + day_segments day js"
    and "budget_spent db day \<le> 10 \<Longrightarrow> budget_spent db' day \<le> 10"
proof -
  have "queued_ids db' \<subseteq> set (event_ids [e]) \<union> queued_ids db
    \<and> (js = [] \<or> (\<exists>d j. js = [(d, j)] \<and> fj_id j \<in> queued_ids db \<and> fj_id j \<notin> queued_ids db'))
    \<and> budget_spent db' day = budget_spent db day + day_segments day js
    \<and> (budget_spent db day \<le> 10 \<longrightarrow> budget_spent db' day \<le> 10)"
  proof (cases "case e of RecordEv ok i msg now dest act \<Rightarrow> False | ReserveEv ok now dest own \<Rightarrow> False | _ \<Rightarrow> True")
    case True
    from quiet_step [OF this, of fp nt db] assms have q: "js = []"
      "only_retires (db_jobs db) (db_jobs db')" "db_budget db' = db_budget db" by simp_all
    then show ?thesis using only_retires_queued [OF q(2)]
      by (auto simp: budget_spent_def day_segments_def)
  next
    case False
    then consider (rec) ok i msg now dest act where "e = RecordEv ok i msg now dest act"
      | (res) ok now dest own where "e = ReserveEv ok now dest own"
      by (cases e) auto
    then show ?thesis
    proof cases
      case rec
      with assms Record_queued [of fp nt ok i msg now dest act db]
        Record_budget [of fp nt ok i msg now dest act db] show ?thesis
        by (auto simp: budget_spent_def day_segments_def)
    next
      case res
      show ?thesis
      proof (cases rule: Reserve_cases [of nt ok now dest own db])
        case er: error
        with assms res show ?thesis by (auto simp: day_segments_def)
      next
        case no: (none jobs)
        with assms res show ?thesis
          by (auto simp: day_segments_def budget_spent_def queued_ids_def only_retires_def)
      next
        case j: (job jobs job)
        from j(6) assms res have js: "js = [(date_str now, job)]" and
          db': "db' = db\<lparr>db_jobs := start_sending (fj_id job) (date_str now) jobs,
           db_budget := (db_budget db)(date_str now \<mapsto> budget_spent db (date_str now) + fj_segments job)\<rparr>"
          by simp_all
        have "queued_ids db' \<subseteq> queued_ids db" "fj_id job \<notin> queued_ids db'"
          using j(1) by (auto simp: db' queued_ids_def only_retires_def dest: start_sending_queued)
        moreover have "fj_id job \<in> queued_ids db"
          using j(1-3) by (auto simp: queued_ids_def only_retires_def)
        ultimately show ?thesis using j(4)
          by (auto simp: js db' budget_spent_def day_segments_def)
      qed
    qed
  qed
  then show "queued_ids db' \<subseteq> set (event_ids [e]) \<union> queued_ids db"
    "js = [] \<or> (\<exists>d j. js = [(d, j)] \<and> fj_id j \<in> queued_ids db \<and> fj_id j \<notin> queued_ids db')"
    "budget_spent db' day = budget_spent db day + day_segments day js"
    "budget_spent db day \<le> 10 \<Longrightarrow> budget_spent db' day \<le> 10" by blast+
qed

lemma event_ids_Cons: "event_ids (e # es) = event_ids [e] @ event_ids es"
  by (cases e) simp_all

text \<open>The ids of the jobs handed to the modem, in order.\<close>

definition handed_ids :: "(string \<times> forward_job) list \<Rightarrow> string list" where
  "handed_ids js = map (\<lambda>(d, j). fj_id j) js"

lemma store_run_distinct:
  assumes "distinct (event_ids es)" and "queued_ids db \<inter> set (event_ids es) = {}"
  shows "distinct (handed_ids (fst (store_run fp nt es db)))
    \<and> set (handed_ids (fst (store_run fp nt es db))) \<subseteq> queued_ids db \<union> set (event_ids es)"
  using assms
proof (induction es arbitrary: db)
  case (Cons e es)
  obtain js db1 where step: "store_step fp nt e db = (js, db1)" by fastforce
  obtain ks db2 where run: "store_run fp nt es db1 = (ks, db2)" by fastforce
  note eff = store_step_effect [OF step]
  have ids: "event_ids (e # es) = event_ids [e] @ event_ids es" by (rule event_ids_Cons)
  have "distinct (event_ids es)" using Cons.prems(1) ids by simp
  moreover have "queued_ids db1 \<inter> set (event_ids es) = {}"
    using Cons.prems eff(1) unfolding ids by auto
  ultimately have IH: "distinct (handed_ids ks)"
    "set (handed_ids ks) \<subseteq> queued_ids db1 \<union> set (event_ids es)"
    using Cons.IH [of db1] run by simp_all
  have res: "fst (store_run fp nt (e # es) db) = js @ ks" using step run by simp
  show ?case
  proof (cases "js = []")
    case True
    with IH eff(1) show ?thesis unfolding res ids by (auto simp: handed_ids_def)
  next
    case False
    then obtain d j where js: "js = [(d, j)]" "fj_id j \<in> queued_ids db" "fj_id j \<notin> queued_ids db1"
      using eff(2) by blast
    have "fj_id j \<notin> set (handed_ids ks)"
      using IH(2) js(2,3) Cons.prems(2) unfolding ids by auto
    with IH eff(1) js show ?thesis unfolding res ids by (auto simp: handed_ids_def)
  qed
qed (simp add: handed_ids_def)

lemma store_run_budget:
  assumes "budget_spent db day \<le> 10"
  shows "budget_spent db day + day_segments day (fst (store_run fp nt es db)) \<le> 10"
  using assms
proof (induction es arbitrary: db)
  case (Cons e es)
  obtain js db1 where step: "store_step fp nt e db = (js, db1)" by fastforce
  obtain ks db2 where run: "store_run fp nt es db1 = (ks, db2)" by fastforce
  note eff = store_step_effect(3,4) [OF step, of day]
  from Cons.IH [of db1] eff Cons.prems run step show ?case
    by (simp add: day_segments_def)
qed (simp add: day_segments_def)

section \<open>Properties\<close>

text \<open>
   A message is entered once. Take any sequence of records, of releases of other paths and of
  operations that do not touch the pending table, with any statement failing anywhere and any
  restarts in between. As long as a message stays in the modem under its path, it gives rise to at
  most one new inbox entry, however often the modem reports it.
\<close>

theorem message_entered_once:
  assumes "path \<noteq> ''''" and "\<forall>ev \<in> set es. stays (holds_ident fingerprint) path ident ev"
  shows "created_count path ident (log_run (store_record fingerprint number_type) store_forget es db) \<le> 1"
  using inbox.recorded_at_most_once [OF assms] .

definition sample_env :: "string \<Rightarrow> record_env" where
  "sample_env i = \<lparr>re_ok = (\<lambda>n. True), re_newid = i, re_timestamp = (0, 0), re_now = 0,
     re_destination = ''off'', re_activatedAt = 0\<rparr>"

lemma message_entered_once_witness:
  "created_count ''/SMS/1'' [''+49'', ''hi'', ''''] (log_run (store_record concat (\<lambda>n. None)) store_forget
     [LogRecord ''/SMS/1'' [''+49'', ''hi'', ''''] (sample_env ''a''), LogForget True ''/SMS/2'',
      LogRecord ''/SMS/1'' [''+49'', ''hi'', ''''] (sample_env ''b'')] OpenStore) \<le> 1"
  by (rule message_entered_once) simp_all

text \<open>
  C13. No forwarded message is sent twice. Over the whole life of the database, with statements
  failing anywhere and with restarts, a job is handed to the modem at most once, whatever becomes
  of the attempt, as long as the random ids of the entries are distinct.
\<close>

theorem forward_at_most_once:
  assumes "distinct (event_ids es)"
  shows "distinct (handed_ids (fst (store_run fp nt es OpenStore)))"
  using store_run_distinct [OF assms, of OpenStore fp nt]
  by (simp add: queued_ids_def OpenStore_def)

lemma forward_at_most_once_witness:
  "distinct (handed_ids (fst (store_run concat (\<lambda>n. Some MOBILE)
     [RecordEv (\<lambda>n. True) ''a'' sample_message 0 ''+4915198765432'' 0,
      ReserveEv (\<lambda>n. True) 5 ''+4915198765432'' '''', RecoverEv True,
      ReserveEv (\<lambda>n. True) 5 ''+4915198765432'' ''''] OpenStore)))"
  by (rule forward_at_most_once) simp

text \<open>
  C20. The daily budget holds. Whatever the operations, failures and restarts, the jobs handed to the
  modem on one UTC day take at most ten SMS parts together.
\<close>

theorem daily_budget_respected:
  "day_segments day (fst (store_run fp nt es OpenStore)) \<le> 10"
  using store_run_budget [of OpenStore day fp nt es] by (simp add: budget_spent_def OpenStore_def)

text \<open>
   The inbox is bounded and a new message is kept. After a record that created an entry the inbox
  holds at most 100 messages, none older than 30 days, and it holds the new one, provided that the
  clock has not gone back behind the entries that are there.
\<close>

theorem recorded_message_kept:
  assumes "RecordWithForwardSince fp nt ok i msg now dest act db = (Some (e, True), db')"
    and "\<forall>r \<in> set (db_inbox db). in_received r \<le> unix_milli now"
  shows "row_of e \<in> set (db_inbox db') \<and> length (db_inbox db') \<le> 100
     \<and> (\<forall>r \<in> set (db_inbox db'). age_limit now \<le> in_received r)"
proof (cases rule: Record_cases [of fp nt ok i msg now dest act db])
  case f: failed
  with assms(1) show ?thesis by simp
next
  case k: known
  with assms(1) show ?thesis by simp
next
  case c: created
  with assms(1) have e: "e = entry_of i msg now" and inbox: "db_inbox db' = prune_inbox now (db_inbox db @ [row_of e])"
    by (auto simp: created_store_def Let_def)
  have row: "in_received (row_of e) = unix_milli now" "in_id (row_of e) = i"
    by (simp_all add: e row_of_def entry_of_def)
  have "age_limit now \<le> unix_milli now"
    unfolding age_limit_def by (rule unix_milli_mono) (simp add: inboxMaxAge_def go_time)
  with c(2) assms(2) row have "row_of e \<in> set (db_inbox db')"
    unfolding inbox by (intro prune_inbox_keeps) auto
  moreover have "\<forall>r \<in> set (db_inbox db'). age_limit now \<le> in_received r"
    unfolding inbox prune_inbox_alt by auto
  ultimately show ?thesis using prune_inbox_length [of now "db_inbox db @ [row_of e]"] inbox
    by (simp add: inboxLimit_def)
qed

lemma recorded_message_kept_witness:
  "row_of (entry_of ''a'' sample_message 7) \<in> set (db_inbox (snd (RecordWithForwardSince concat (\<lambda>n. None)
     (\<lambda>n. True) ''a'' sample_message 7 ''off'' 0 OpenStore)))"
proof -
  let ?r = "RecordWithForwardSince concat (\<lambda>n. None) (\<lambda>n. True) ''a'' sample_message 7 ''off'' 0 OpenStore"
  have "fst ?r = Some (entry_of ''a'' sample_message 7, True)"
    by (simp add: Record_eq store_holds_def OpenStore_def Let_def ForwardText_def)
  then have "?r = (Some (entry_of ''a'' sample_message 7, True), snd ?r)" by (metis prod.collapse)
  from recorded_message_kept [OF this] show ?thesis by (simp add: OpenStore_def)
qed


definition full_store :: store where
  "full_store = OpenStore\<lparr>db_inbox := map (\<lambda>n. \<lparr>in_id = replicate n (CHR ''a''), in_sender = '''', in_body = '''',
     in_timestamp = '''', in_received = 1, in_read = False\<rparr>) [0..<100]\<rparr>"


end
