(* ===== verification/Sms_Manager.thy ===== *)
theory Sms_Manager
  imports Sms_Store MM_Client
begin

text \<open>
  \<open>internal/sms/manager.go\<close>: sending a message and draining the modem's store. The D-Bus surface and
  the delivery callback answer through \<open>sms_answers\<close>; one message makes at most one call of each
  kind, so an answer per kind says all. An operation returns the calls it made, in order.
\<close>

section \<open>Data\<close>

record messageIdentity =
  mi_number :: string
  mi_text :: string
  mi_timestamp :: string

definition zero_identity :: messageIdentity where
  "zero_identity = \<lparr>mi_number = '''', mi_text = '''', mi_timestamp = ''''\<rparr>"

record SendRequest =
  sr_ID :: string
  sr_To :: string
  sr_Text :: string

datatype send_outcome = SendOK | SendError | SendNoModem

datatype sms_action =
    SmsCreate string string
  | SmsSend object_path
  | SmsDelete object_path
  | SmsDeliver Message
  | SmsForget string

record SmsManager =
  sn_delivered :: "object_path \<rightharpoonup> messageIdentity"

definition Sms_New :: SmsManager where "Sms_New = \<lparr>sn_delivered = Map.empty\<rparr>"

text \<open>
  \<open>an_props\<close>: what \<open>GetSMSProperties\<close> returns; \<open>an_deliver\<close>, \<open>an_delete\<close>: whether those calls
  succeed; \<open>an_now\<close>: \<open>time.Now()\<close>.
\<close>

record sms_answers =
  an_props :: "SMSProperties option"
  an_deliver :: bool
  an_delete :: bool
  an_now :: zoned

section \<open>Sending\<close>

text \<open>
  \<open>Send\<close>: \<open>created\<close> is the answer to \<open>CreateSMS\<close>, \<open>sent\<close> to \<open>SendSMS\<close>. The deferred delete runs
  after the send, whatever its outcome.
\<close>

definition Send :: "object_path option \<Rightarrow> bool \<Rightarrow> object_path \<Rightarrow> SendRequest \<Rightarrow> send_outcome \<times> sms_action list" where
  "Send created sent modemPath req =
     (if modemPath = '''' then (SendNoModem, [])
      else if sr_To req = '''' then (SendError, [])
      else case created of
        None \<Rightarrow> (SendError, [SmsCreate (sr_To req) (sr_Text req)])
      | Some p \<Rightarrow> (if sent then SendOK else SendError,
                   [SmsCreate (sr_To req) (sr_Text req), SmsSend p, SmsDelete p]))"

section \<open>Receiving\<close>

definition parseTimestamp :: "zoned \<Rightarrow> string \<Rightarrow> zoned" where
  "parseTimestamp now s =
     (if s \<noteq> '''' then (case parse_rfc3339 s of Some t \<Rightarrow> t | None \<Rightarrow> now) else now)"

definition identity_of :: "SMSProperties \<Rightarrow> messageIdentity" where
  "identity_of p = \<lparr>mi_number = sp_Number p, mi_text = sp_Text p, mi_timestamp = sp_Timestamp p\<rparr>"

definition incoming :: "zoned \<Rightarrow> object_path \<Rightarrow> SMSProperties \<Rightarrow> Message" where
  "incoming now path p = \<lparr>ms_Number = sp_Number p, ms_Text = sp_Text p,
     ms_Timestamp = parseTimestamp now (sp_Timestamp p), ms_SourcePath = path,
     ms_SourceTimestamp = sp_Timestamp p\<rparr>"

text \<open>A key that is missing from a Go map reads as the zero value.\<close>

definition remembered :: "SmsManager \<Rightarrow> object_path \<Rightarrow> messageIdentity" where
  "remembered m p = (case sn_delivered m p of Some i \<Rightarrow> i | None \<Rightarrow> zero_identity)"

definition is_outbound :: "SMSProperties \<Rightarrow> bool" where
  "is_outbound p \<longleftrightarrow> sp_PduType p = SmsPduTypeSubmit \<or> sp_State p = SmsStateSending
     \<or> sp_State p = SmsStateSent"

definition forget_path :: "object_path \<Rightarrow> SmsManager \<Rightarrow> SmsManager" where
  "forget_path path m = m\<lparr>sn_delivered := (sn_delivered m)(path := None)\<rparr>"

definition processOne :: "sms_answers \<Rightarrow> object_path \<Rightarrow> SmsManager \<Rightarrow> SmsManager \<times> sms_action list" where
  "processOne an path m =
     (case an_props an of
        None \<Rightarrow> (m, [])
      | Some props \<Rightarrow>
          if sp_State props = SmsStateReceiving then (m, [])
          else if sp_PduType props = SmsPduTypeStatusReport then (m, [SmsDelete path])
          else if is_outbound props then (m, [SmsDelete path])
          else if sp_Data props \<noteq> [] then (m, [])
          else if remembered m path = identity_of props then
            (if \<not> an_delete an then (m, [SmsDelete path])
             else (forget_path path m, [SmsDelete path, SmsForget path]))
          else
            let msg = incoming (an_now an) path props in
            if \<not> an_deliver an then (m, [SmsDeliver msg])
            else if \<not> an_delete an then
              (m\<lparr>sn_delivered := (sn_delivered m)(path \<mapsto> identity_of props)\<rparr>, [SmsDeliver msg, SmsDelete path])
            else (forget_path path m, [SmsDeliver msg, SmsDelete path, SmsForget path]))"

definition HandleAdded ::
  "sms_answers \<Rightarrow> object_path \<Rightarrow> object_path \<Rightarrow> SmsManager \<Rightarrow> SmsManager \<times> sms_action list" where
  "HandleAdded an modemPath path m =
     (if modemPath = '''' \<or> path = '''' then (m, []) else processOne an path m)"

fun process_all :: "(object_path \<times> sms_answers) list \<Rightarrow> SmsManager \<Rightarrow> SmsManager \<times> sms_action list" where
  "process_all [] m = (m, [])"
| "process_all ((path, an) # rest) m =
     (let (m1, acts) = processOne an path m; (m2, acts2) = process_all rest m1 in (m2, acts @ acts2))"

text \<open>\<open>DrainReceived\<close>: \<open>listed\<close> is what \<open>ListSMS\<close> returns, each path with the answers for it.\<close>

definition DrainReceived ::
  "(object_path \<times> sms_answers) list option \<Rightarrow> object_path \<Rightarrow> SmsManager
     \<Rightarrow> bool \<times> SmsManager \<times> sms_action list" where
  "DrainReceived listed modemPath m =
     (if modemPath = '''' then (False, m, [])
      else case listed of
        None \<Rightarrow> (False, m, [])
      | Some ps \<Rightarrow> (True, process_all ps m))"

section \<open>Facts\<close>

text \<open>A message that is to be delivered: complete, inbound and textual.\<close>

definition deliverable :: "SMSProperties \<Rightarrow> bool" where
  "deliverable p \<longleftrightarrow> sp_State p \<noteq> SmsStateReceiving \<and> sp_PduType p \<noteq> SmsPduTypeStatusReport
     \<and> \<not> is_outbound p \<and> sp_Data p = []"

lemma processOne_deliverable:
  assumes "an_props an = Some props" and "deliverable props"
  shows "processOne an path m =
     (if remembered m path = identity_of props
      then (if an_delete an then (forget_path path m, [SmsDelete path, SmsForget path])
            else (m, [SmsDelete path]))
      else if \<not> an_deliver an then (m, [SmsDeliver (incoming (an_now an) path props)])
      else if an_delete an then (forget_path path m,
        [SmsDeliver (incoming (an_now an) path props), SmsDelete path, SmsForget path])
      else (m\<lparr>sn_delivered := (sn_delivered m)(path \<mapsto> identity_of props)\<rparr>,
        [SmsDeliver (incoming (an_now an) path props), SmsDelete path]))"
  using assms by (simp add: processOne_def deliverable_def Let_def)

lemma processOne_other:
  assumes "an_props an = None \<or> (\<exists>props. an_props an = Some props \<and> \<not> deliverable props)"
  shows "fst (processOne an path m) = m"
    and "SmsDeliver msg \<notin> set (snd (processOne an path m))"
    and "SmsForget q \<notin> set (snd (processOne an path m))"
  using assms by (auto simp: processOne_def deliverable_def split: option.splits)

text \<open>What is remembered was delivered: the identities delivered so far, by path.\<close>

definition delivered_in :: "object_path \<Rightarrow> messageIdentity \<Rightarrow> (sms_action \<times> bool) list \<Rightarrow> bool" where
  "delivered_in path i trace \<longleftrightarrow> (\<exists>msg. (SmsDeliver msg, True) \<in> set trace \<and> ms_SourcePath msg = path
     \<and> ms_Number msg = mi_number i \<and> ms_Text msg = mi_text i \<and> ms_SourceTimestamp msg = mi_timestamp i)"

text \<open>A run of one process: the calls of each processed message, with their success.\<close>

definition answered :: "sms_answers \<Rightarrow> sms_action \<Rightarrow> sms_action \<times> bool" where
  "answered an a = (a, case a of SmsDeliver msg \<Rightarrow> an_deliver an | SmsDelete p \<Rightarrow> an_delete an | _ \<Rightarrow> True)"

fun sms_run :: "(object_path \<times> sms_answers) list \<Rightarrow> SmsManager \<Rightarrow> SmsManager \<times> (sms_action \<times> bool) list" where
  "sms_run [] m = (m, [])"
| "sms_run ((path, an) # rest) m =
     (let (m1, acts) = processOne an path m; (m2, trace) = sms_run rest m1
      in (m2, map (answered an) acts @ trace))"

lemma sms_run_append:
  "sms_run (xs @ ys) m = (let (m1, t1) = sms_run xs m; (m2, t2) = sms_run ys m1 in (m2, t1 @ t2))"
  by (induction xs m rule: sms_run.induct) (auto split: prod.split)

lemma delivered_in_append: "delivered_in p i (a @ b) \<longleftrightarrow> delivered_in p i a \<or> delivered_in p i b"
  by (auto simp: delivered_in_def)

lemma incoming_identity:
  "ms_SourcePath (incoming now path props) = path"
  "ms_Number (incoming now path props) = mi_number (identity_of props)"
  "ms_Text (incoming now path props) = mi_text (identity_of props)"
  "ms_SourceTimestamp (incoming now path props) = mi_timestamp (identity_of props)"
  by (simp_all add: incoming_def identity_of_def)

lemma remembered_was_delivered:
  "sn_delivered (fst (sms_run steps Sms_New)) p = Some i \<Longrightarrow> delivered_in p i (snd (sms_run steps Sms_New))"
proof (induction steps arbitrary: i rule: rev_induct)
  case Nil
  then show ?case by (simp add: Sms_New_def)
next
  case (snoc step steps)
  obtain path an where s: "step = (path, an)" by (cases step)
  obtain m1 t1 where r: "sms_run steps Sms_New = (m1, t1)" by fastforce
  show ?case
  proof (cases "\<exists>props. an_props an = Some props \<and> deliverable props")
    case True
    then obtain props where props: "an_props an = Some props" "deliverable props" by blast
    show ?thesis
    proof (cases "p = path \<and> remembered m1 path \<noteq> identity_of props \<and> an_deliver an \<and> \<not> an_delete an")
      case True
      then show ?thesis
        using snoc.prems processOne_deliverable [OF props, of path m1] incoming_identity [of "an_now an" path props]
        by (auto simp: sms_run_append r s delivered_in_def answered_def)
    next
      case False
      then have "sn_delivered m1 p = Some i"
        using snoc.prems processOne_deliverable [OF props, of path m1]
        by (auto simp: sms_run_append r s forget_path_def split: if_splits)
      with snoc.IH [of i] r s show ?thesis by (auto simp: sms_run_append delivered_in_append split: prod.split)
    qed
  next
    case False
    then have "fst (processOne an path m1) = m1" using processOne_other(1) by (metis option.exhaust)
    with snoc r s show ?thesis
      by (auto simp: sms_run_append delivered_in_append split: prod.splits)
  qed
qed

section \<open>The manager and the store together\<close>

text \<open>
  The service's delivery callback \<open>deliverIncomingSMS\<close> commits the message to the store and fails
  exactly when that fails; the delete callback releases the path. Events of the system: a message
  is processed, the process restarts and loses its memory, some other operation runs on the store.
\<close>

datatype inbox_event =
    MsgEv object_path sms_answers record_env bool
  | ProcessRestart
  | StoreEv "store \<Rightarrow> store"

definition ident_list :: "SMSProperties \<Rightarrow> string list" where
  "ident_list p = [sp_Number p, sp_Text p, sp_Timestamp p]"

definition answer_ident :: "sms_answers \<Rightarrow> string list" where
  "answer_ident an = (case an_props an of Some p \<Rightarrow> ident_list p | None \<Rightarrow> [])"

definition delivery_env :: "sms_answers \<Rightarrow> record_env \<Rightarrow> record_env" where
  "delivery_env an e = (case an_props an of
     Some p \<Rightarrow> e\<lparr>re_timestamp := parseTimestamp (an_now an) (sp_Timestamp p)\<rparr> | None \<Rightarrow> e)"

text \<open>The message that the store records is the one that the manager delivers.\<close>

lemma message_of_incoming:
  "an_props an = Some p \<Longrightarrow> message_of path (answer_ident an) (delivery_env an e) = incoming (an_now an) path p"
  by (simp add: message_of_def incoming_def answer_ident_def delivery_env_def ident_list_def)

type_synonym inbox_log = "(string, string list, record_env, store) log_event"

definition log_action :: "object_path \<Rightarrow> sms_answers \<Rightarrow> record_env \<Rightarrow> bool \<Rightarrow> sms_action \<Rightarrow> inbox_log list" where
  "log_action path an e fok a = (case a of
     SmsDeliver msg \<Rightarrow> [LogRecord path (answer_ident an) (delivery_env an e)]
   | SmsForget q \<Rightarrow> [LogForget fok q] | _ \<Rightarrow> [])"

definition apply_action ::
  "(string list \<Rightarrow> string) \<Rightarrow> (string \<Rightarrow> number_type option) \<Rightarrow> object_path \<Rightarrow> sms_answers \<Rightarrow> record_env
     \<Rightarrow> bool \<Rightarrow> sms_action \<Rightarrow> store \<Rightarrow> store" where
  "apply_action fp nt path an e fok a db = (case a of
     SmsDeliver msg \<Rightarrow> snd (store_record fp nt path (answer_ident an) (delivery_env an e) db)
   | SmsForget q \<Rightarrow> store_forget fok q db | _ \<Rightarrow> db)"

definition deliver_ok ::
  "(string list \<Rightarrow> string) \<Rightarrow> (string \<Rightarrow> number_type option) \<Rightarrow> object_path \<Rightarrow> sms_answers \<Rightarrow> record_env
     \<Rightarrow> store \<Rightarrow> bool" where
  "deliver_ok fp nt path an e db \<longleftrightarrow>
     fst (store_record fp nt path (answer_ident an) (delivery_env an e) db) \<noteq> None"

text \<open>The store operations of a run of the system, in order.\<close>

fun system_log ::
  "(string list \<Rightarrow> string) \<Rightarrow> (string \<Rightarrow> number_type option) \<Rightarrow> inbox_event list \<Rightarrow> SmsManager \<Rightarrow> store
     \<Rightarrow> inbox_log list" where
  "system_log fp nt [] m db = []"
| "system_log fp nt (MsgEv path an e fok # es) m db =
     (let (m1, acts) = processOne (an\<lparr>an_deliver := deliver_ok fp nt path an e db\<rparr>) path m in
      concat (map (log_action path an e fok) acts)
        @ system_log fp nt es m1 (fold (apply_action fp nt path an e fok) acts db))"
| "system_log fp nt (ProcessRestart # es) m db = system_log fp nt es Sms_New db"
| "system_log fp nt (StoreEv g # es) m db = LogOther g # system_log fp nt es m (g db)"

text \<open>The message stays under its path: it reads the same every time, and no delete of it succeeds.\<close>

fun message_stays :: "object_path \<Rightarrow> string list \<Rightarrow> inbox_event \<Rightarrow> bool" where
  "message_stays path ident (MsgEv q an e fok) \<longleftrightarrow> q = path \<longrightarrow> answer_ident an = ident \<and> \<not> an_delete an"
| "message_stays path ident ProcessRestart \<longleftrightarrow> True"
| "message_stays path ident (StoreEv g) \<longleftrightarrow> (\<forall>db. db_pending (g db) = db_pending db)"

lemma processOne_forgets:
  "SmsForget q \<in> set (snd (processOne an path m)) \<Longrightarrow> q = path \<and> an_delete an"
  by (auto simp: processOne_def Let_def split: option.splits if_splits)

lemma system_log_stays:
  "\<forall>ev \<in> set es. message_stays path ident ev \<Longrightarrow>
     \<forall>l \<in> set (system_log fp nt es m db). stays (holds_ident fp) path ident l"
proof (induction fp nt es m db rule: system_log.induct)
  case (2 fp nt q an e fok es m db)
  let ?an = "an\<lparr>an_deliver := deliver_ok fp nt q an e db\<rparr>"
  obtain m1 acts where p: "processOne ?an q m = (m1, acts)" by fastforce
  have "stays (holds_ident fp) path ident l" if "l \<in> set (concat (map (log_action q an e fok) acts))" for l
  proof -
    from that obtain a where a: "a \<in> set acts" "l \<in> set (log_action q an e fok a)" by auto
    show ?thesis
    proof (cases a)
      case (SmsDeliver msg)
      with a 2(2) show ?thesis by (auto simp: log_action_def)
    next
      case (SmsForget r)
      with a p have "r = q" "an_delete an" using processOne_forgets [of r ?an q m] by auto
      with a SmsForget 2(2) show ?thesis by (auto simp: log_action_def)
    qed (use a in \<open>auto simp: log_action_def\<close>)
  qed
  then have head: "\<forall>l \<in> set (concat (map (log_action q an e fok) acts)). stays (holds_ident fp) path ident l"
    by blast
  have tail: "\<forall>l \<in> set (system_log fp nt es m1 (fold (apply_action fp nt q an e fok) acts db)).
      stays (holds_ident fp) path ident l"
    using 2(1) [OF p [symmetric] refl] 2(2) by simp
  have split: "system_log fp nt (MsgEv q an e fok # es) m db =
      concat (map (log_action q an e fok) acts)
        @ system_log fp nt es m1 (fold (apply_action fp nt q an e fok) acts db)"
    using p by simp
  show ?case unfolding split set_append using head tail by blast
next
  case (4 fp nt g es m db)
  then show ?case by (auto simp: holds_ident_def store_holds_def)
qed auto

section \<open>Properties\<close>

text \<open>
  C4. No message is deleted before it is safe. Over any run of a process, when the manager deletes an
  inbound text message from the modem, that same message (path, sender, text and timestamp) has
  been delivered successfully, in this round or in an earlier one; this holds for every message
  that is not entirely empty.
\<close>

theorem deleted_only_after_delivery:
  assumes "an_props an = Some props" and "deliverable props" and "identity_of props \<noteq> zero_identity"
    and "SmsDelete path \<in> set (snd (processOne an path (fst (sms_run steps Sms_New))))"
  shows "delivered_in path (identity_of props) (snd (sms_run (steps @ [(path, an)]) Sms_New))"
proof -
  obtain m t where r: "sms_run steps Sms_New = (m, t)" by fastforce
  show ?thesis
  proof (cases "remembered m path = identity_of props")
    case True
    with assms(3) have "sn_delivered m path = Some (identity_of props)"
      by (auto simp: remembered_def split: option.splits)
    with remembered_was_delivered [of steps path] r show ?thesis
      by (auto simp: sms_run_append delivered_in_append split: prod.split)
  next
    case False
    with assms(4) r have "an_deliver an"
      by (auto simp: processOne_deliverable [OF assms(1,2)] split: if_splits)
    with False r show ?thesis
      by (auto simp: sms_run_append processOne_deliverable [OF assms(1,2)] delivered_in_def answered_def
          incoming_identity)
  qed
qed

definition text_props :: SMSProperties where
  "text_props = \<lparr>sp_Number = ''+49'', sp_Text = ''hi'', sp_Data = [], sp_State = SmsStateReceived,
     sp_PduType = SmsPduTypeDeliver, sp_Timestamp = ''''\<rparr>"

definition good_answers :: "SMSProperties \<Rightarrow> sms_answers" where
  "good_answers p = \<lparr>an_props = Some p, an_deliver = True, an_delete = True, an_now = (0, 0)\<rparr>"

lemma deleted_only_after_delivery_witness:
  "delivered_in ''/SMS/1'' (identity_of text_props)
     (snd (sms_run ([(''/SMS/1'', (good_answers text_props)\<lparr>an_delete := False\<rparr>)]
        @ [(''/SMS/1'', good_answers text_props)]) Sms_New))"
proof (rule deleted_only_after_delivery)
  show "an_props (good_answers text_props) = Some text_props" by (simp add: good_answers_def)
  show "deliverable text_props"
    by (simp add: deliverable_def text_props_def is_outbound_def sms_enum_defs)
  show "identity_of text_props \<noteq> zero_identity"
    by (simp add: identity_of_def zero_identity_def text_props_def)
  show "SmsDelete ''/SMS/1'' \<in> set (snd (processOne (good_answers text_props) ''/SMS/1''
      (fst (sms_run [(''/SMS/1'', (good_answers text_props)\<lparr>an_delete := False\<rparr>)] Sms_New))))"
    by code_simp
qed

text \<open>
   The exception is real: a message whose sender, text and timestamp are all empty is taken for one
  already delivered, because the zero value that Go's map returns for a missing path is its
  identity; it is deleted from the modem without ever being delivered.
\<close>

theorem empty_message_deleted_undelivered:
  assumes "an_props an = Some props" and "deliverable props" and "identity_of props = zero_identity"
    and "sn_delivered m path = None"
  shows "hd (snd (processOne an path m)) = SmsDelete path
       \<and> (\<forall>msg. SmsDeliver msg \<notin> set (snd (processOne an path m)))"
  using assms(3,4) by (simp add: processOne_deliverable [OF assms(1,2)] remembered_def)

lemma empty_message_deleted_undelivered_witness:
  "hd (snd (processOne (good_answers (text_props\<lparr>sp_Number := '''', sp_Text := ''''\<rparr>)) ''/SMS/3'' Sms_New))
     = SmsDelete ''/SMS/3''"
proof (rule empty_message_deleted_undelivered [THEN conjunct1])
  show "deliverable (text_props\<lparr>sp_Number := '''', sp_Text := ''''\<rparr>)"
    by (simp add: deliverable_def text_props_def is_outbound_def sms_enum_defs)
qed (simp_all add: good_answers_def identity_of_def zero_identity_def text_props_def Sms_New_def)

text \<open>
  C18. Exactly-once entry across restarts. Let a message stay in the modem because its deletion keeps
  failing, and let the modem report it any number of times, among other messages, with restarts of
  the process, failing statements and other work on the store in between: the inbox gets at most
  one entry for it.
\<close>

theorem stuck_message_entered_once:
  assumes "path \<noteq> ''''" and "\<forall>ev \<in> set es. message_stays path ident ev"
  shows "created_count path ident
      (log_run (store_record fp nt) store_forget (system_log fp nt es Sms_New db) db) \<le> 1"
  using inbox.recorded_at_most_once [OF assms(1) system_log_stays [OF assms(2)]] .

lemma stuck_message_entered_once_witness:
  "created_count ''/SMS/1'' (ident_list text_props) (log_run (store_record concat (\<lambda>n. None)) store_forget
     (system_log concat (\<lambda>n. None)
        [MsgEv ''/SMS/1'' ((good_answers text_props)\<lparr>an_delete := False\<rparr>) (sample_env ''a'') True,
         ProcessRestart,
         MsgEv ''/SMS/1'' ((good_answers text_props)\<lparr>an_delete := False\<rparr>) (sample_env ''b'') True]
        Sms_New OpenStore) OpenStore) \<le> 1"
  by (rule stuck_message_entered_once) (simp_all add: answer_ident_def good_answers_def)

end
