(* ===== verification/Apn_Data.thy ===== *)
theory Apn_Data
  imports MM_Client
begin

text \<open>
  The pure part of \<open>internal/apn/manager.go\<close>: configurations, their encodings for ModemManager, the
  AT commands and the parser of their answers.
\<close>

section \<open>Configurations\<close>

record Config =
  cf_APN :: string
  cf_Username :: string
  cf_Password :: string
  cf_Auth :: string

definition empty_Config :: Config where
  "empty_Config = \<lparr>cf_APN = '''', cf_Username = '''', cf_Password = '''', cf_Auth = ''''\<rparr>"

definition IsEmpty :: "Config \<Rightarrow> bool" where
  "IsEmpty c \<longleftrightarrow> cf_APN c = '''' \<and> cf_Username c = '''' \<and> cf_Password c = ''''
     \<and> (cf_Auth c = '''' \<or> cf_Auth c = ''none'')"

definition EqualNM :: "Config \<Rightarrow> Config \<Rightarrow> bool" where
  "EqualNM c d \<longleftrightarrow> cf_APN c = cf_APN d \<and> cf_Username c = cf_Username d \<and> cf_Password c = cf_Password d"

definition norm_auth :: "string \<Rightarrow> string" where
  "norm_auth a = (if a = '''' then ''none'' else a)"

definition Config_Equal :: "Config \<Rightarrow> Config \<Rightarrow> bool" where
  "Config_Equal c d \<longleftrightarrow> EqualNM c d \<and> norm_auth (cf_Auth c) = norm_auth (cf_Auth d)"

text \<open>\<open>strings.ContainsAny(s, "\"\r\n,\x00")\<close>; \<open>False\<close> is the error.\<close>

definition at_delimiters :: "char set" where
  "at_delimiters = {CHR 0x22, CHR 0x0D, CHR 0x0A, CHR '','', CHR 0x00}"

definition validateATValue :: "string \<Rightarrow> bool" where
  "validateATValue s \<longleftrightarrow> list_all (\<lambda>c. c \<notin> at_delimiters) s"

definition validateConfig :: "Config \<Rightarrow> bool" where
  "validateConfig c \<longleftrightarrow> validateATValue (cf_APN c) \<and> validateATValue (cf_Username c)
     \<and> validateATValue (cf_Password c) \<and> cf_Auth c \<in> {'''', ''none'', ''pap'', ''chap''}"

section \<open>ModemManager settings\<close>

definition BearerAuthNone :: u32 where "BearerAuthNone = push_bit 0 1"
definition BearerAuthPAP :: u32 where "BearerAuthPAP = push_bit 1 1"
definition BearerAuthCHAP :: u32 where "BearerAuthCHAP = push_bit 2 1"
definition BearerIPv4 :: u32 where "BearerIPv4 = push_bit 0 1"

lemmas bearer_flag_defs = BearerAuthNone_def BearerAuthPAP_def BearerAuthCHAP_def BearerIPv4_def

definition encodeAuth :: "string \<Rightarrow> u32" where
  "encodeAuth s = (if s = ''pap'' then BearerAuthPAP else if s = ''chap'' then BearerAuthCHAP
     else BearerAuthNone)"

definition decodeAuth :: "u32 \<Rightarrow> string" where
  "decodeAuth u = (if and u BearerAuthPAP \<noteq> 0 then ''pap''
     else if and u BearerAuthCHAP \<noteq> 0 then ''chap'' else ''none'')"

definition encodeMMSettings :: "Config \<Rightarrow> dict" where
  "encodeMMSettings c = [(''apn'', VString (cf_APN c)), (''user'', VString (cf_Username c)),
     (''password'', VString (cf_Password c)), (''allowed-auth'', VUInt32 (encodeAuth (cf_Auth c))),
     (''ip-type'', VUInt32 BearerIPv4)]"

definition parseMMSettings :: "dict \<Rightarrow> Config" where
  "parseMMSettings s =
     \<lparr>cf_APN = as_string (dict_get s ''apn''), cf_Username = as_string (dict_get s ''user''),
      cf_Password = as_string (dict_get s ''password''),
      cf_Auth = (case dict_get s ''allowed-auth'' of VUInt32 u \<Rightarrow> decodeAuth u | _ \<Rightarrow> '''')\<rparr>"

section \<open>Attach contexts\<close>

record attachContext =
  ac_Present :: bool
  ac_PDPType :: string
  ac_APN :: string

definition zero_context :: attachContext where
  "zero_context = \<lparr>ac_Present = False, ac_PDPType = '''', ac_APN = ''''\<rparr>"

definition desiredContext :: "Config \<Rightarrow> attachContext" where
  "desiredContext cfg = \<lparr>ac_Present = True,
     ac_PDPType = (if cf_APN cfg = '''' then ''IPV4V6'' else ''IP''), ac_APN = cf_APN cfg\<rparr>"

definition cid_command :: "attachContext \<Rightarrow> string" where
  "cid_command cid =
     (if ac_Present cid then ''AT+CGDCONT=1,'' @ [CHR 0x22] @ ac_PDPType cid @ [CHR 0x22] @ '',''
        @ [CHR 0x22] @ ac_APN cid @ [CHR 0x22]
      else ''AT+CGDCONT=1'')"

definition auth_command :: "Config \<Rightarrow> string" where
  "auth_command cfg =
     (let auth = (if cf_Auth cfg = ''pap'' then ''1'' else if cf_Auth cfg = ''chap'' then ''2'' else ''0'') in
      if auth \<noteq> ''0'' \<and> (cf_Username cfg \<noteq> '''' \<or> cf_Password cfg \<noteq> '''')
      then ''AT+CGAUTH=1,'' @ auth @ '','' @ [CHR 0x22] @ cf_Username cfg @ [CHR 0x22] @ '',''
        @ [CHR 0x22] @ cf_Password cfg @ [CHR 0x22]
      else ''AT+CGAUTH=1,0'')"

section \<open>Parsing the context list\<close>

text \<open>
  \<open>csv.Reader.Read\<close> on one line, with \<open>TrimLeadingSpace\<close>: the rest of a quoted field, with what
  follows its comma; a quote that is not doubled must end the field.
\<close>

fun csv_quoted :: "string \<Rightarrow> (string \<times> string option) option" where
  "csv_quoted [] = None"
| "csv_quoted [c] = (if c = CHR 0x22 then Some ([], None) else None)"
| "csv_quoted (c # d # s) =
     (if c \<noteq> CHR 0x22 then map_option (\<lambda>(f, r). (c # f, r)) (csv_quoted (d # s))
      else if d = CHR 0x22 then map_option (\<lambda>(f, r). (CHR 0x22 # f, r)) (csv_quoted s)
      else if d = CHR '','' then Some ([], Some s)
      else None)"

lemma csv_quoted_length: "csv_quoted s = Some (f, Some r) \<Longrightarrow> length r < length s"
  by (induction s arbitrary: f rule: csv_quoted.induct) (auto split: if_splits)

lemma TrimSpaceLeft_length: "length (TrimSpaceLeft s) \<le> length s"
  by (simp add: TrimSpaceLeft_def trim_lead_length)

function csv_fields :: "string \<Rightarrow> string list option" where
  "csv_fields line =
     (let l = TrimSpaceLeft line in
      if l \<noteq> [] \<and> hd l = CHR 0x22 then
        (case csv_quoted (tl l) of
           None \<Rightarrow> None
         | Some (f, None) \<Rightarrow> Some [f]
         | Some (f, Some r) \<Rightarrow> map_option (Cons f) (csv_fields r))
      else
        (let f = takeWhile (\<lambda>c. c \<noteq> CHR '','') l; r = dropWhile (\<lambda>c. c \<noteq> CHR '','') l in
         if CHR 0x22 \<in> set f then None
         else if r = [] then Some [f] else map_option (Cons f) (csv_fields (tl r))))"
  by pat_completeness auto
termination
proof (relation "measure length", goal_cases)
  case 1
  then show ?case by simp
next
  case (2 line l a f b r)
  then have "length r < length (tl l)" using csv_quoted_length by metis
  also have "\<dots> \<le> length line" using 2 TrimSpaceLeft_length [of line] by simp
  finally show ?case by simp
next
  case (3 line l f r)
  have "length (tl r) < length r" using 3 by simp
  also have "length r \<le> length l" unfolding 3 by (rule length_dropWhile_le)
  also have "length l \<le> length line" unfolding 3 by (rule TrimSpaceLeft_length)
  finally show ?case by simp
qed

declare csv_fields.simps [simp del]

text \<open>An empty record is the end of the file.\<close>

definition csv_read :: "string \<Rightarrow> string list option" where
  "csv_read s = (if s = '''' then None else csv_fields s)"

text \<open>One line of the answer to \<open>AT+CGDCONT?\<close>, after the contexts seen so far; \<open>None\<close> is an error.\<close>

definition cid1_line :: "attachContext \<Rightarrow> string \<Rightarrow> attachContext option" where
  "cid1_line result raw =
     (let line = TrimSpace raw in
      if \<not> HasPrefix line ''+CGDCONT:'' then Some result
      else case csv_read (TrimSpace (TrimPrefix line ''+CGDCONT:'')) of
        Some (f0 # f1 # f2 # _) \<Rightarrow>
          if TrimSpace f0 \<noteq> ''1'' then Some result
          else if ac_Present result then None
          else if \<not> validateATValue f2 then None
          else if ToUpper f1 \<in> {''IP'', ''IPV6'', ''IPV4V6'', ''PPP''}
            then Some \<lparr>ac_Present = True, ac_PDPType = ToUpper f1, ac_APN = f2\<rparr>
          else None
      | _ \<Rightarrow> None)"

fun cid1_lines :: "attachContext \<Rightarrow> string list \<Rightarrow> attachContext option" where
  "cid1_lines result [] = Some result"
| "cid1_lines result (l # ls) =
     (case cid1_line result l of None \<Rightarrow> None | Some r \<Rightarrow> cid1_lines r ls)"

definition parseCID1 :: "string \<Rightarrow> attachContext option" where
  "parseCID1 response = cid1_lines zero_context (split_char (CHR 0x0A) response)"

section \<open>Clean values\<close>

text \<open>
  A context that the code may send: no delimiter in the APN, a PDP type of the supported ones (or
  the zero context). A command is one line when no carriage return or line feed is in it.
\<close>

definition pdp_types :: "string set" where "pdp_types = {''IP'', ''IPV6'', ''IPV4V6'', ''PPP''}"

definition clean_context :: "attachContext \<Rightarrow> bool" where
  "clean_context c \<longleftrightarrow> validateATValue (ac_APN c) \<and> (ac_Present c \<longrightarrow> ac_PDPType c \<in> pdp_types)"

definition one_line :: "string \<Rightarrow> bool" where
  "one_line s \<longleftrightarrow> list_all (\<lambda>c. c \<noteq> CHR 0x0D \<and> c \<noteq> CHR 0x0A) s"

lemma validate_one_line: "validateATValue s \<Longrightarrow> one_line s"
  by (auto simp: validateATValue_def one_line_def at_delimiters_def list_all_iff)

lemma validate_no_quote: "validateATValue s \<Longrightarrow> CHR 0x22 \<notin> set s"
  by (auto simp: validateATValue_def at_delimiters_def list_all_iff)

lemma one_line_append [simp]: "one_line (a @ b) \<longleftrightarrow> one_line a \<and> one_line b"
  by (simp add: one_line_def)

lemma one_line_Cons [simp]: "one_line (c # b) \<longleftrightarrow> c \<noteq> CHR 0x0D \<and> c \<noteq> CHR 0x0A \<and> one_line b"
  by (simp add: one_line_def)

lemma one_line_Nil [simp]: "one_line []"
  by (simp add: one_line_def)

lemma one_line_pdp: "p \<in> pdp_types \<Longrightarrow> one_line p"
  by (auto simp: pdp_types_def)

lemma cid_command_one_line: "clean_context c \<Longrightarrow> one_line (cid_command c)"
  by (auto simp: cid_command_def clean_context_def validate_one_line one_line_pdp)

lemma auth_command_one_line: "validateConfig c \<Longrightarrow> one_line (auth_command c)"
  by (auto simp: auth_command_def validateConfig_def validate_one_line Let_def)

lemma cid1_line_clean:
  "cid1_line r l = Some c \<Longrightarrow> clean_context r \<Longrightarrow> clean_context c"
  by (auto simp: cid1_line_def clean_context_def pdp_types_def Let_def split: if_splits option.splits list.splits)

lemma parseCID1_clean: "parseCID1 response = Some c \<Longrightarrow> clean_context c"
proof -
  have "cid1_lines r ls = Some c \<Longrightarrow> clean_context r \<Longrightarrow> clean_context c" for r ls
    by (induction ls arbitrary: r) (auto split: option.splits intro: cid1_line_clean)
  moreover have "clean_context zero_context"
    by (simp add: clean_context_def zero_context_def validateATValue_def)
  moreover assume "parseCID1 response = Some c"
  ultimately show ?thesis unfolding parseCID1_def by blast
qed

lemma desiredContext_clean: "validateConfig cfg \<Longrightarrow> clean_context (desiredContext cfg)"
  by (simp add: clean_context_def desiredContext_def validateConfig_def pdp_types_def)

lemma empty_Config_valid [simp]: "validateConfig empty_Config"
  by (simp add: validateConfig_def empty_Config_def validateATValue_def)

section \<open>Round trips\<close>

lemma decode_encodeAuth: "decodeAuth (encodeAuth a) = (if a \<in> {''pap'', ''chap''} then a else ''none'')"
proof -
  have "and BearerAuthNone BearerAuthPAP = 0" "and BearerAuthNone BearerAuthCHAP = 0"
    "and BearerAuthCHAP BearerAuthPAP = 0" "and BearerAuthPAP BearerAuthPAP \<noteq> 0"
    "and BearerAuthCHAP BearerAuthCHAP \<noteq> 0"
    by (simp_all add: bearer_flag_defs)
  then show ?thesis by (auto simp: decodeAuth_def encodeAuth_def)
qed

lemma parse_encodeMMSettings:
  "validateConfig c \<Longrightarrow> Config_Equal (parseMMSettings (encodeMMSettings c)) c"
  by (auto simp: Config_Equal_def EqualNM_def norm_auth_def parseMMSettings_def encodeMMSettings_def
      dict_get_def decode_encodeAuth validateConfig_def)

text \<open>A string that starts and ends with no space character is not trimmed.\<close>

definition ascii_graph :: "char \<Rightarrow> bool" where
  "ascii_graph c \<longleftrightarrow> 33 \<le> (of_char c :: nat) \<and> (of_char c :: nat) < 128"

lemma lead_seq_None: "\<forall>q \<in> set qs. q \<noteq> [] \<and> hd q \<noteq> c \<Longrightarrow> lead_seq qs (c # s) = None"
proof (induction qs)
  case (Cons q qs)
  then have "\<not> prefix q (c # s)" by (cases q) auto
  with Cons show ?case by simp
qed simp

lemma trim_lead_graph:
  assumes "ascii_graph c"
  shows "trim_lead space_seqs (c # s) = c # s" and "trim_lead (map rev space_seqs) (c # s) = c # s"
proof -
  have "\<forall>q \<in> set space_seqs. q \<noteq> [] \<and> \<not> ascii_graph (hd q)"
    "\<forall>q \<in> set (map rev space_seqs). q \<noteq> [] \<and> \<not> ascii_graph (hd q)"
    by code_simp+
  with assms have "lead_seq space_seqs (c # s) = None" "lead_seq (map rev space_seqs) (c # s) = None"
    by (intro lead_seq_None; blast)+
  then show "trim_lead space_seqs (c # s) = c # s" "trim_lead (map rev space_seqs) (c # s) = c # s"
    by simp_all
qed

lemma TrimSpace_graph:
  "ascii_graph a \<Longrightarrow> ascii_graph b \<Longrightarrow> TrimSpace (a # s @ [b]) = a # s @ [b]"
  by (simp add: TrimSpace_def TrimSpaceLeft_def TrimSpaceRight_def trim_lead_graph del: trim_lead.simps)

lemma TrimSpaceLeft_graph: "ascii_graph a \<Longrightarrow> TrimSpaceLeft (a # s) = a # s"
  by (simp add: TrimSpaceLeft_def trim_lead_graph del: trim_lead.simps)

lemma csv_quoted_end: "CHR 0x22 \<notin> set s \<Longrightarrow> csv_quoted (s @ [CHR 0x22]) = Some (s, None)"
proof (induction s)
  case (Cons c s)
  then show ?case by (cases s) auto
qed simp

lemma csv_quoted_comma:
  "CHR 0x22 \<notin> set s \<Longrightarrow> csv_quoted (s @ CHR 0x22 # CHR '','' # r) = Some (s, Some r)"
proof (induction s)
  case (Cons c s)
  then show ?case by (cases s) auto
qed simp

lemma quote_graph: "ascii_graph (CHR 0x22)" "ascii_graph (CHR ''+'')" "ascii_graph (CHR ''1'')"
  by (simp_all add: ascii_graph_def)

lemma csv_fields_quoted:
  assumes "CHR 0x22 \<notin> set f"
  shows "csv_fields (CHR 0x22 # f @ [CHR 0x22]) = Some [f]"
    and "csv_fields (CHR 0x22 # f @ CHR 0x22 # CHR '','' # r) = map_option (Cons f) (csv_fields r)"
  by (subst csv_fields.simps; simp add: TrimSpaceLeft_graph quote_graph Let_def
      csv_quoted_end [OF assms] csv_quoted_comma [OF assms])+

lemma csv_fields_plain: "csv_fields (CHR ''1'' # CHR '','' # r) = map_option (Cons ''1'') (csv_fields r)"
  by (subst csv_fields.simps; simp add: TrimSpaceLeft_graph quote_graph Let_def)

text \<open>The line by which the modem reports the context that \<open>cid_command\<close> defines.\<close>

definition cid_report :: "attachContext \<Rightarrow> string" where
  "cid_report c = ''+CGDCONT: 1,'' @ CHR 0x22 # ac_PDPType c @ CHR 0x22 # CHR '','' #
     CHR 0x22 # ac_APN c @ CHR 0x22 # CHR '','' # ''0,0''"

lemma TrimSpace_blank_graph:
  assumes "ascii_graph a" and "ascii_graph b"
  shows "TrimSpace (CHR '' '' # a # s @ [b]) = a # s @ [b]"
proof -
  have "TrimSpaceLeft (CHR '' '' # a # s @ [b]) = TrimSpaceLeft (a # s @ [b])"
    unfolding TrimSpaceLeft_def by (subst trim_lead.simps) (simp add: space_seqs_def del: trim_lead.simps)
  then show ?thesis
    using TrimSpace_graph [OF assms, of s] by (simp add: TrimSpace_def del: trim_lead.simps)
qed

lemma parse_cid_report:
  assumes "clean_context c" and "ac_Present c"
  shows "parseCID1 (cid_report c) = Some c"
proof -
  let ?q = "CHR 0x22" and ?k = "CHR '',''" and ?p = "ac_PDPType c" and ?a = "ac_APN c"
  define body where "body = ?k # ?q # ?p @ ?q # ?k # ?q # ?a @ ?q # ?k # ''0,''"
  have eq: "cid_report c = CHR ''+'' # (''CGDCONT: 1'' @ body) @ [CHR ''0'']"
    by (simp add: cid_report_def body_def)
  have pdp: "?p \<in> pdp_types" and apn: "validateATValue ?a" using assms by (simp_all add: clean_context_def)
  then have qp: "?q \<notin> set ?p" and qa: "?q \<notin> set ?a" and up: "ToUpper ?p = ?p" and op: "one_line ?p" "one_line ?a"
    using validate_no_quote validate_one_line by (auto simp: pdp_types_def upper_char_def)
  have g0: "ascii_graph (CHR ''0'')" by (simp add: ascii_graph_def)
  have trim: "TrimSpace (cid_report c) = cid_report c"
    unfolding eq by (rule TrimSpace_graph [OF quote_graph(2) g0])
  have rest: "TrimPrefix (cid_report c) ''+CGDCONT:'' = CHR '' '' # CHR ''1'' # body @ [CHR ''0'']"
    by (simp add: eq TrimPrefix_def)
  have csv: "csv_read (CHR ''1'' # body @ [CHR ''0'']) = Some [''1'', ?p, ?a, ''0'', ''0'']"
  proof -
    have tail: "csv_fields ''0,0'' = Some [''0'', ''0'']" by code_simp
    show ?thesis
      by (simp add: csv_read_def body_def csv_fields_plain csv_fields_quoted [OF qp] csv_fields_quoted [OF qa]
          tail [simplified])
  qed
  have line: "cid1_line zero_context (cid_report c) = Some c"
    unfolding cid1_line_def Let_def trim rest TrimSpace_blank_graph [OF quote_graph(3) g0] csv
    using apn up pdp assms(2) by (simp add: HasPrefix_def eq zero_context_def pdp_types_def TrimSpace_def
        TrimSpaceLeft_def TrimSpaceRight_def trim_lead_graph quote_graph del: trim_lead.simps)
  have "CHR 0x0A \<notin> set (cid_report c)"
    using op by (auto simp: cid_report_def one_line_def list_all_iff)
  then show ?thesis
    by (simp add: parseCID1_def split_char_single line)
qed

section \<open>Properties\<close>

text \<open>
   What is written is what is read. For a context without AT delimiters, the modem's report of the
  context that the write command defines parses back to exactly that context, and the settings
  sent to ModemManager read back as an equal configuration.
\<close>

theorem context_and_settings_round_trip:
  assumes "clean_context c" and "ac_Present c" and "validateConfig cfg"
  shows "parseCID1 (cid_report c) = Some c \<and> Config_Equal (parseMMSettings (encodeMMSettings cfg)) cfg"
  using parse_cid_report [OF assms(1,2)] parse_encodeMMSettings [OF assms(3)] by blast

definition sample_config :: Config where
  "sample_config = \<lparr>cf_APN = ''internet'', cf_Username = ''u'', cf_Password = ''p'', cf_Auth = ''chap''\<rparr>"

lemma context_and_settings_round_trip_witness:
  "parseCID1 (cid_report (desiredContext sample_config)) = Some (desiredContext sample_config)"
proof (rule context_and_settings_round_trip [THEN conjunct1])
  show "validateConfig sample_config"
    by (simp add: validateConfig_def sample_config_def validateATValue_def at_delimiters_def)
  show "clean_context (desiredContext sample_config)"
    by (simp add: clean_context_def desiredContext_def sample_config_def validateATValue_def
        at_delimiters_def pdp_types_def)
qed (simp add: desiredContext_def)

end
