(* ===== verification/Apn_Manager.thy ===== *)
theory Apn_Manager
  imports Apn_Data
begin

text \<open>
  The stateful part of \<open>internal/apn/manager.go\<close>: the transaction that moves the NetworkManager profile
  and the modem's attach context to a new configuration, its rollback, and the reconciliation
  that decides about it.

  The world is a strategy: each answer may depend on the whole history of calls. A computation takes
  the history and returns its value, \<open>None\<close> for an error, with the extended history. Every
  call records the context it was made under, as one of the constants of \<open>apn_ctx\<close>: the
  operation's own context, the context of the clean-up, of the final commit and of the reconnect.
  Deadlines are not modelled beyond that; a call that runs out of time is one that fails.
\<close>

section \<open>Calls and answers\<close>

datatype apn_ctx = OpCtx | CleanupCtx | CommitCtx | ReconnectCtx

record ConnectionState =
  cs_Autoconnect :: bool
  cs_Active :: bool

datatype apn_call =
    GetGSM apn_ctx
  | SetGSM apn_ctx Config
  | NMState apn_ctx
  | SetAutoconnect apn_ctx bool
  | Disconnect apn_ctx
  | Connect apn_ctx
  | Commit apn_ctx bool
  | GetEps apn_ctx object_path
  | SetEps apn_ctx object_path dict
  | SendAT apn_ctx object_path string

type_synonym history = "apn_call list"

record apn_env =
  ev_ok :: "history \<Rightarrow> apn_call \<Rightarrow> bool"
  ev_gsm :: "history \<Rightarrow> Config option"
  ev_state :: "history \<Rightarrow> ConnectionState option"
  ev_eps :: "history \<Rightarrow> dict option"
  ev_text :: "history \<Rightarrow> string option"
  ev_cancelled :: "history \<Rightarrow> bool"

type_synonym 'a apn_step = "history \<Rightarrow> 'a option \<times> history"

text \<open>Sequencing: the error of the first step is the error of the whole.\<close>

definition done_with :: "'a \<Rightarrow> 'a apn_step" where
  "done_with x h = (Some x, h)"

definition andthen :: "'a apn_step \<Rightarrow> ('a \<Rightarrow> 'b apn_step) \<Rightarrow> 'b apn_step" where
  "andthen f g h = (case f h of (None, h1) \<Rightarrow> (None, h1) | (Some x, h1) \<Rightarrow> g x h1)"

definition require :: "bool \<Rightarrow> unit apn_step" where
  "require b h = (if b then Some () else None, h)"

definition call :: "apn_env \<Rightarrow> apn_call \<Rightarrow> unit apn_step" where
  "call env c h = (if ev_ok env h c then Some () else None, h @ [c])"

definition get_gsm :: "apn_env \<Rightarrow> apn_ctx \<Rightarrow> Config apn_step" where
  "get_gsm env ctx h = (ev_gsm env h, h @ [GetGSM ctx])"

definition get_state :: "apn_env \<Rightarrow> ConnectionState apn_step" where
  "get_state env h = (ev_state env h, h @ [NMState OpCtx])"

definition get_eps :: "apn_env \<Rightarrow> object_path \<Rightarrow> dict apn_step" where
  "get_eps env path h = (ev_eps env h, h @ [GetEps OpCtx path])"

definition at_text :: "apn_env \<Rightarrow> apn_ctx \<Rightarrow> object_path \<Rightarrow> string \<Rightarrow> string apn_step" where
  "at_text env ctx path cmd h = (ev_text env h, h @ [SendAT ctx path cmd])"

definition lift_option :: "'a option \<Rightarrow> 'a apn_step" where
  "lift_option v h = (v, h)"

text \<open>A step whose error is ignored.\<close>

definition ignore :: "unit apn_step \<Rightarrow> bool apn_step" where
  "ignore f h = (Some (fst (f h) \<noteq> None), snd (f h))"

section \<open>State\<close>

record apn_snapshot =
  sp_nm :: Config
  sp_mm :: dict
  sp_cid :: attachContext

record pendingRollback =
  pr_before :: apn_snapshot
  pr_state :: ConnectionState
  pr_iccid :: string

record ApnInput =
  ai_ICCID :: string
  ai_ModemPath :: object_path
  ai_Desired :: Config

record ApnManager =
  am_pending :: "pendingRollback option"
  am_lastAppliedICCID :: string
  am_lastAppliedPath :: object_path
  am_lastAppliedConfig :: Config
  am_lastAppliedCID :: attachContext
  am_blockedICCID :: string
  am_blockedConfig :: Config
  am_retryInput :: ApnInput
  am_attempts :: nat
  am_retryAt :: gotime

definition Apn_New :: ApnManager where
  "Apn_New = \<lparr>am_pending = None, am_lastAppliedICCID = '''', am_lastAppliedPath = '''',
     am_lastAppliedConfig = empty_Config, am_lastAppliedCID = zero_context, am_blockedICCID = '''',
     am_blockedConfig = empty_Config,
     am_retryInput = \<lparr>ai_ICCID = '''', ai_ModemPath = '''', ai_Desired = empty_Config\<rparr>,
     am_attempts = 0, am_retryAt = zero_time\<rparr>"

datatype apn_outcome = ApnNoSIM | ApnUnconfigured | ApnOK | ApnApplied | ApnICCIDChangedClear | ApnError

definition maxApplyAttempts :: nat where "maxApplyAttempts = 3"
definition retryDelay :: duration where "retryDelay = 30 * second_ns"

section \<open>Reading and writing\<close>

definition readCID :: "apn_env \<Rightarrow> apn_ctx \<Rightarrow> object_path \<Rightarrow> attachContext apn_step" where
  "readCID env ctx path = andthen (at_text env ctx path ''AT+CGDCONT?'') (\<lambda>r. lift_option (parseCID1 r))"

definition readCurrent :: "apn_env \<Rightarrow> object_path \<Rightarrow> apn_snapshot apn_step" where
  "readCurrent env path =
     andthen (get_gsm env OpCtx) (\<lambda>nm.
     andthen (get_eps env path) (\<lambda>mm.
     andthen (readCID env OpCtx path) (\<lambda>cid.
     done_with \<lparr>sp_nm = nm, sp_mm = mm, sp_cid = cid\<rparr>)))"

definition writeCID :: "apn_env \<Rightarrow> apn_ctx \<Rightarrow> object_path \<Rightarrow> attachContext \<Rightarrow> unit apn_step" where
  "writeCID env ctx path cid = call env (SendAT ctx path (cid_command cid))"

definition writeAuth :: "apn_env \<Rightarrow> apn_ctx \<Rightarrow> object_path \<Rightarrow> Config \<Rightarrow> unit apn_step" where
  "writeAuth env ctx path cfg =
     andthen (require (validateConfig cfg)) (\<lambda>_. call env (SendAT ctx path (auth_command cfg)))"

section \<open>The transaction\<close>

text \<open>
  The steps of \<open>apply\<close> after the modem has been deregistered. A failure of \<open>setMM\<close> is an error only when the
  context was cancelled; otherwise the attach context is the authority.
\<close>

definition apply_changes :: "apn_env \<Rightarrow> object_path \<Rightarrow> Config \<Rightarrow> ConnectionState \<Rightarrow> attachContext apn_step" where
  "apply_changes env path cfg state =
     andthen (call env (SetGSM OpCtx cfg)) (\<lambda>_.
     andthen (ignore (call env (SetEps OpCtx path (encodeMMSettings cfg)))) (\<lambda>ok.
     andthen (\<lambda>h. require (ok \<or> \<not> ev_cancelled env h) h) (\<lambda>_.
     andthen (writeCID env OpCtx path (desiredContext cfg)) (\<lambda>_.
     andthen (writeAuth env OpCtx path cfg) (\<lambda>_.
     andthen (readCID env OpCtx path) (\<lambda>cid.
     andthen (require (cid = desiredContext cfg)) (\<lambda>_.
     andthen (get_gsm env OpCtx) (\<lambda>nm.
     andthen (require (EqualNM nm cfg)) (\<lambda>_.
     andthen (call env (SendAT OpCtx path ''AT+COPS=0'')) (\<lambda>_.
     andthen (call env (Connect OpCtx)) (\<lambda>_.
     andthen (readCID env OpCtx path) (\<lambda>actual.
     andthen (require (IsEmpty cfg \<or> actual = desiredContext cfg)) (\<lambda>_.
     andthen (call env (Commit OpCtx (cs_Autoconnect state))) (\<lambda>_.
     done_with actual))))))))))))))"

text \<open>
  The body of \<open>apply\<close> with the flags \<open>changed\<close> and \<open>detached\<close> as they stand when it returns: the
  attach context on success, and the two flags for the deferred rollback.
\<close>

definition apply_body ::
  "apn_env \<Rightarrow> object_path \<Rightarrow> Config \<Rightarrow> ConnectionState \<Rightarrow> bool \<Rightarrow> bool \<Rightarrow> history
     \<Rightarrow> attachContext option \<times> bool \<times> bool \<times> history" where
  "apply_body env path cfg state changed detached h =
     (case call env (SetAutoconnect OpCtx False) h of
        (None, h1) \<Rightarrow> (None, changed, detached, h1)
      | (Some _, h1) \<Rightarrow>
          (case andthen (call env (Disconnect OpCtx)) (\<lambda>_. call env (SendAT OpCtx path ''AT+COPS=2'')) h1 of
             (None, h2) \<Rightarrow> (None, changed, True, h2)
           | (Some _, h2) \<Rightarrow>
               (case apply_changes env path cfg state h2 of (r, h3) \<Rightarrow> (r, True, True, h3))))"

text \<open>The part of \<open>rollback\<close> under \<open>if changed\<close>: whether every step that counts succeeded.\<close>

definition restore ::
  "apn_env \<Rightarrow> object_path \<Rightarrow> apn_snapshot \<Rightarrow> history \<Rightarrow> bool \<times> history" where
  "restore env path before h =
     (let (r1, h1) = andthen (call env (SetAutoconnect CleanupCtx False)) (\<lambda>_.
             andthen (call env (Disconnect CleanupCtx)) (\<lambda>_.
             call env (SendAT CleanupCtx path ''AT+COPS=2''))) h;
          (r2, h2) = call env (SetGSM CleanupCtx (sp_nm before)) h1;
          (ok3, h3) = (if r1 = None then (True, h2) else
            (let (_, k1) = call env (SetEps CleanupCtx path (sp_mm before)) h2;
                 (a, k2) = writeAuth env CleanupCtx path (parseMMSettings (sp_mm before)) k1;
                 (b, k3) = writeCID env CleanupCtx path (sp_cid before) k2;
                 (c, k4) = readCID env CleanupCtx path k3
             in (a \<noteq> None \<and> b \<noteq> None \<and> c = Some (sp_cid before), k4)));
          (g, h4) = get_gsm env CleanupCtx h3
      in (r1 \<noteq> None \<and> r2 \<noteq> None \<and> ok3 \<and> (case g of Some nm \<Rightarrow> EqualNM nm (sp_nm before) | None \<Rightarrow> False), h4))"

definition rollback ::
  "apn_env \<Rightarrow> object_path \<Rightarrow> apn_snapshot \<Rightarrow> ConnectionState \<Rightarrow> bool \<Rightarrow> bool \<Rightarrow> history \<Rightarrow> bool \<times> history" where
  "rollback env path before state changed detached h =
     (let (ok, h1) = (if changed then restore env path before h else (True, h)) in
      if \<not> ok then (False, h1)
      else case call env (Commit CommitCtx (cs_Autoconnect state)) h1 of
        (None, h2) \<Rightarrow> (False, h2)
      | (Some _, h2) \<Rightarrow>
          if detached \<and> \<not> ev_cancelled env h2 then
            (let (r, h3) = andthen (call env (SendAT ReconnectCtx path ''AT+COPS=0'')) (\<lambda>_.
                   if cs_Active state then call env (Connect ReconnectCtx) else done_with ()) h2
             in (r \<noteq> None, h3))
          else (True, h2))"

definition empty_snapshot :: apn_snapshot where
  "empty_snapshot = \<lparr>sp_nm = empty_Config, sp_mm = encodeMMSettings empty_Config,
     sp_cid = desiredContext empty_Config\<rparr>"

definition apply_tx ::
  "apn_env \<Rightarrow> ApnInput \<Rightarrow> Config \<Rightarrow> apn_snapshot \<Rightarrow> bool \<Rightarrow> ApnManager \<Rightarrow> history
     \<Rightarrow> bool \<times> ApnManager \<times> history" where
  "apply_tx env i cfg before0 clearSIM0 m h =
     (case get_state env h of
        (None, h1) \<Rightarrow> (False, m, h1)
      | (Some state0, h1) \<Rightarrow>
          let path = ai_ModemPath i;
              pend = (am_pending m \<noteq> None);
              state = (case am_pending m of Some p \<Rightarrow> pr_state p | None \<Rightarrow> state0);
              same = (case am_pending m of Some p \<Rightarrow> pr_iccid p = ai_ICCID i | None \<Rightarrow> False);
              clearSIM = (clearSIM0 \<or> (pend \<and> \<not> same));
              before = (if clearSIM then empty_snapshot
                        else case am_pending m of Some p \<Rightarrow> pr_before p | None \<Rightarrow> before0)
          in if \<not> validateConfig (parseMMSettings (sp_mm before)) then (False, m, h1)
             else
               let m1 = m\<lparr>am_pending := Some \<lparr>pr_before = before, pr_state = state, pr_iccid = ai_ICCID i\<rparr>\<rparr> in
               case apply_body env path cfg state (pend \<or> clearSIM) pend h1 of
                 (Some actual, _, _, h2) \<Rightarrow> (True, m1\<lparr>am_lastAppliedCID := actual, am_pending := None\<rparr>, h2)
               | (None, changed, detached, h2) \<Rightarrow>
                   (let (ok, h3) = rollback env path before state changed detached h2 in
                    (False, if ok then m1\<lparr>am_pending := None\<rparr> else m1, h3)))"

section \<open>Reconciliation\<close>

definition recordSuccess :: "ApnInput \<Rightarrow> Config \<Rightarrow> ApnManager \<Rightarrow> ApnManager" where
  "recordSuccess i cfg m = m\<lparr>am_lastAppliedICCID := ai_ICCID i, am_lastAppliedPath := ai_ModemPath i,
     am_lastAppliedConfig := cfg, am_attempts := 0, am_retryAt := zero_time\<rparr>"

definition ResetRetry :: "ApnManager \<Rightarrow> ApnManager" where
  "ResetRetry m = m\<lparr>am_attempts := 0, am_retryAt := zero_time, am_lastAppliedPath := ''''\<rparr>"

definition note_input :: "ApnInput \<Rightarrow> ApnManager \<Rightarrow> ApnManager" where
  "note_input i m =
     (if ai_ICCID i \<noteq> ai_ICCID (am_retryInput m) \<or> ai_ModemPath i \<noteq> ai_ModemPath (am_retryInput m)
         \<or> \<not> Config_Equal (ai_Desired i) (ai_Desired (am_retryInput m))
      then m\<lparr>am_retryInput := i, am_attempts := 0, am_retryAt := zero_time\<rparr> else m)"

definition sim_changed :: "ApnInput \<Rightarrow> ApnManager \<Rightarrow> bool" where
  "sim_changed i m \<longleftrightarrow> am_lastAppliedICCID m \<noteq> '''' \<and> am_lastAppliedICCID m \<noteq> ai_ICCID i"

definition blocked :: "ApnInput \<Rightarrow> ApnManager \<Rightarrow> bool" where
  "blocked i m \<longleftrightarrow> am_blockedICCID m = ai_ICCID i \<and> Config_Equal (am_blockedConfig m) (ai_Desired i)"

definition in_place :: "ApnInput \<Rightarrow> Config \<Rightarrow> apn_snapshot \<Rightarrow> ApnManager \<Rightarrow> bool" where
  "in_place i cfg before m \<longleftrightarrow>
     (let verified = (am_lastAppliedICCID m = ai_ICCID i \<and> am_lastAppliedPath m = ai_ModemPath i
            \<and> Config_Equal (am_lastAppliedConfig m) cfg);
          cidMatches = (sp_cid before = desiredContext cfg
            \<or> IsEmpty cfg \<and> (ac_APN (sp_cid before) = '''' \<or> verified \<and> sp_cid before = am_lastAppliedCID m))
      in am_attempts m = 0 \<and> am_pending m = None \<and> EqualNM (sp_nm before) cfg \<and> cidMatches
         \<and> (Config_Equal (parseMMSettings (sp_mm before)) cfg \<or> verified))"

definition block_swapped :: "ApnInput \<Rightarrow> ApnManager \<Rightarrow> ApnManager" where
  "block_swapped i m = m\<lparr>am_blockedICCID := ai_ICCID i, am_blockedConfig := ai_Desired i\<rparr>"

text \<open>
  The body of \<open>Reconcile\<close> once the input has been accepted and the configuration is chosen. The clock
  \<open>now\<close> is read at the history reached.
\<close>

definition reconcile_with ::
  "apn_env \<Rightarrow> (history \<Rightarrow> gotime) \<Rightarrow> ApnInput \<Rightarrow> Config \<Rightarrow> bool \<Rightarrow> ApnManager \<Rightarrow> history
     \<Rightarrow> apn_outcome \<times> ApnManager \<times> history" where
  "reconcile_with env now i cfg clearSIM m h =
     (case readCurrent env (ai_ModemPath i) h of
        (None, h1) \<Rightarrow> (ApnError, m, h1)
      | (Some before, h1) \<Rightarrow>
          if in_place i cfg before m then
            (let m1 = recordSuccess i cfg (m\<lparr>am_lastAppliedCID := sp_cid before\<rparr>) in
             if clearSIM then (ApnICCIDChangedClear, block_swapped i m1, h1)
             else (if IsEmpty cfg then ApnUnconfigured else ApnOK, m1, h1))
          else if am_attempts m \<ge> maxApplyAttempts \<or> time_Before (now h1) (am_retryAt m) then (ApnError, m, h1)
          else case apply_tx env i cfg before clearSIM m h1 of
            (False, m1, h2) \<Rightarrow>
              (let n = am_attempts m1 + 1 in
               (ApnError, m1\<lparr>am_attempts := n,
                  am_retryAt := time_Add (now h2) (retryDelay * 2 ^ (n - 1))\<rparr>, h2))
          | (True, m1, h2) \<Rightarrow>
              (let m2 = recordSuccess i cfg m1 in
               if clearSIM then (ApnICCIDChangedClear, block_swapped i m2, h2) else (ApnApplied, m2, h2)))"

text \<open>\<open>locked\<close>: another operation holds the lock, so \<open>TryLock\<close> fails.\<close>

definition Apn_Reconcile ::
  "apn_env \<Rightarrow> bool \<Rightarrow> (history \<Rightarrow> gotime) \<Rightarrow> ApnInput \<Rightarrow> ApnManager \<Rightarrow> history \<Rightarrow> apn_outcome \<times> ApnManager \<times> history" where
  "Apn_Reconcile env locked now i m0 h =
     (if ai_ICCID i = '''' then (ApnNoSIM, m0, h)
      else if locked then (ApnError, m0, h)
      else if ev_cancelled env h \<or> ai_ModemPath i = '''' then (ApnError, m0, h)
      else if \<not> validateConfig (ai_Desired i) then (ApnError, m0, h)
      else
        let m = note_input i m0;
            clearSIM = sim_changed i m
        in if clearSIM then reconcile_with env now i empty_Config True m h
           else if blocked i m then (ApnUnconfigured, m, h)
           else reconcile_with env now i (ai_Desired i) False
             (if am_blockedICCID m = ai_ICCID i then m\<lparr>am_blockedICCID := ''''\<rparr> else m) h)"

definition Reattach :: "apn_env \<Rightarrow> bool \<Rightarrow> object_path \<Rightarrow> history \<Rightarrow> unit option \<times> history" where
  "Reattach env locked path h =
     (if path = '''' \<or> locked then (None, h)
      else andthen (call env (SendAT OpCtx path ''AT+COPS=2'')) (\<lambda>_. call env (SendAT OpCtx path ''AT+COPS=0'')) h)"

section \<open>Which calls a computation makes\<close>

named_theorems emits \<open>rules for the calls of a computation\<close>

definition emits :: "(apn_call \<Rightarrow> bool) \<Rightarrow> 'a apn_step \<Rightarrow> bool" where
  "emits P f \<longleftrightarrow> (\<forall>h. \<exists>s. snd (f h) = h @ s \<and> list_all P s)"

lemma emitsD: "emits P f \<Longrightarrow> \<exists>s. snd (f h) = h @ s \<and> list_all P s"
  by (simp add: emits_def)

lemma emits_pure [emits]: "emits P (done_with x)" "emits P (require b)" "emits P (lift_option v)"
  by (simp_all add: emits_def done_with_def require_def lift_option_def)

lemma emits_require_h [emits]: "emits P (\<lambda>h. require (b h) h)"
  by (simp add: emits_def require_def)

lemma emits_calls [emits]:
  "P c \<Longrightarrow> emits P (call env c)"
  "P (GetGSM ctx) \<Longrightarrow> emits P (get_gsm env ctx)"
  "P (NMState OpCtx) \<Longrightarrow> emits P (get_state env)"
  "P (GetEps OpCtx path) \<Longrightarrow> emits P (get_eps env path)"
  "P (SendAT ctx path cmd) \<Longrightarrow> emits P (at_text env ctx path cmd)"
  by (simp_all add: emits_def call_def get_gsm_def get_state_def get_eps_def at_text_def)

lemma emits_andthen_value:
  assumes "emits P f" and "\<And>h x h1. f h = (Some x, h1) \<Longrightarrow> emits P (g x)"
  shows "emits P (andthen f g)"
  unfolding emits_def
proof
  fix h
  obtain r h1 where f: "f h = (r, h1)" by fastforce
  from emitsD [OF assms(1), of h] f obtain s where s: "h1 = h @ s" "list_all P s" by auto
  show "\<exists>s. snd (andthen f g h) = h @ s \<and> list_all P s"
  proof (cases r)
    case None
    with f s show ?thesis by (simp add: andthen_def)
  next
    case (Some x)
    with emitsD [OF assms(2) [of h x h1], of h1] f obtain t where "snd (g x h1) = h1 @ t" "list_all P t"
      by auto
    with s f Some show ?thesis by (simp add: andthen_def)
  qed
qed

lemma emits_andthen [emits]: "emits P f \<Longrightarrow> (\<And>x. emits P (g x)) \<Longrightarrow> emits P (andthen f g)"
  by (rule emits_andthen_value)

lemma emits_ignore [emits]: "emits P f \<Longrightarrow> emits P (ignore f)"
  by (simp add: emits_def ignore_def)

lemma emits_if [emits]: "(b \<Longrightarrow> emits P f) \<Longrightarrow> (\<not> b \<Longrightarrow> emits P g) \<Longrightarrow> emits P (if b then f else g)"
  by simp

lemma emits_readCID [emits]: "P (SendAT ctx path ''AT+CGDCONT?'') \<Longrightarrow> emits P (readCID env ctx path)"
  unfolding readCID_def by (intro emits)

lemma emits_readCurrent [emits]:
  "P (GetGSM OpCtx) \<Longrightarrow> P (GetEps OpCtx path) \<Longrightarrow> P (SendAT OpCtx path ''AT+CGDCONT?'')
     \<Longrightarrow> emits P (readCurrent env path)"
  unfolding readCurrent_def by (intro emits)

lemma emits_writeCID [emits]: "P (SendAT ctx path (cid_command cid)) \<Longrightarrow> emits P (writeCID env ctx path cid)"
  unfolding writeCID_def by (intro emits)

lemma emits_writeAuth [emits]:
  assumes "validateConfig cfg \<Longrightarrow> P (SendAT ctx path (auth_command cfg))"
  shows "emits P (writeAuth env ctx path cfg)"
  unfolding writeAuth_def
proof (rule emits_andthen_value)
  show "emits P (require (validateConfig cfg))" by (intro emits)
  fix h x h1
  assume "require (validateConfig cfg) h = (Some x, h1)"
  then have "validateConfig cfg" by (simp add: require_def split: if_splits)
  with assms show "emits P (call env (SendAT ctx path (auth_command cfg)))" by (intro emits)
qed

text \<open>What the transaction may call, for a configuration and a snapshot to go back to.\<close>

definition tx_calls :: "(apn_call \<Rightarrow> bool) \<Rightarrow> object_path \<Rightarrow> Config \<Rightarrow> bool" where
  "tx_calls P path cfg \<longleftrightarrow>
     P (SetGSM OpCtx cfg) \<and> P (SetEps OpCtx path (encodeMMSettings cfg))
     \<and> P (SendAT OpCtx path (cid_command (desiredContext cfg)))
     \<and> (validateConfig cfg \<longrightarrow> P (SendAT OpCtx path (auth_command cfg)))
     \<and> P (SendAT OpCtx path ''AT+CGDCONT?'') \<and> P (SendAT OpCtx path ''AT+COPS=0'')
     \<and> P (SendAT OpCtx path ''AT+COPS=2'') \<and> P (GetGSM OpCtx) \<and> P (Connect OpCtx) \<and> P (Disconnect OpCtx)
     \<and> P (SetAutoconnect OpCtx False) \<and> (\<forall>b. P (Commit OpCtx b)) \<and> P (GetEps OpCtx path)"

definition restore_calls :: "(apn_call \<Rightarrow> bool) \<Rightarrow> object_path \<Rightarrow> apn_snapshot \<Rightarrow> bool" where
  "restore_calls P path before \<longleftrightarrow>
     P (SetAutoconnect CleanupCtx False) \<and> P (Disconnect CleanupCtx) \<and> P (SendAT CleanupCtx path ''AT+COPS=2'')
     \<and> P (SetGSM CleanupCtx (sp_nm before)) \<and> P (SetEps CleanupCtx path (sp_mm before))
     \<and> (validateConfig (parseMMSettings (sp_mm before)) \<longrightarrow>
          P (SendAT CleanupCtx path (auth_command (parseMMSettings (sp_mm before)))))
     \<and> P (SendAT CleanupCtx path (cid_command (sp_cid before))) \<and> P (SendAT CleanupCtx path ''AT+CGDCONT?'')
     \<and> P (GetGSM CleanupCtx) \<and> (\<forall>b. P (Commit CommitCtx b))"

definition reconnect_calls :: "(apn_call \<Rightarrow> bool) \<Rightarrow> object_path \<Rightarrow> bool" where
  "reconnect_calls P path \<longleftrightarrow> P (SendAT ReconnectCtx path ''AT+COPS=0'') \<and> P (Connect ReconnectCtx)"

lemma emits_apply_changes: "tx_calls P path cfg \<Longrightarrow> emits P (apply_changes env path cfg state)"
  unfolding apply_changes_def tx_calls_def by (elim conjE) (intro emits; simp)

text \<open>The same for the functions that return the history last.\<close>

definition extends :: "(apn_call \<Rightarrow> bool) \<Rightarrow> history \<Rightarrow> history \<Rightarrow> bool" where
  "extends P h h' \<longleftrightarrow> (\<exists>s. h' = h @ s \<and> list_all P s)"

lemma extends_refl [simp]: "extends P h h"
  by (simp add: extends_def)

lemma extends_trans: "extends P a b \<Longrightarrow> extends P b c \<Longrightarrow> extends P a c"
  by (auto simp: extends_def)

lemma emits_extends: "emits P f \<Longrightarrow> f h = (r, h') \<Longrightarrow> extends P h h'"
  by (metis emitsD extends_def snd_conv)

lemma extends_apply_body:
  assumes "tx_calls P path cfg" and "apply_body env path cfg state ch de h = (r, c, d, h')"
  shows "extends P h h'"
proof -
  have a: "emits P (call env (SetAutoconnect OpCtx False))"
    "emits P (andthen (call env (Disconnect OpCtx)) (\<lambda>_. call env (SendAT OpCtx path ''AT+COPS=2'')))"
    using assms(1) by (auto simp: tx_calls_def intro!: emits)
  note steps = a [THEN emits_extends] emits_apply_changes [OF assms(1), THEN emits_extends]
  show ?thesis
    using assms(2)
    by (auto simp: apply_body_def split: prod.splits option.splits dest!: steps intro: extends_trans)
qed

lemma extends_restore:
  assumes "restore_calls P path before" and "restore env path before h = (ok, h')"
  shows "extends P h h'"
proof -
  have a: "emits P (andthen (call env (SetAutoconnect CleanupCtx False)) (\<lambda>_.
             andthen (call env (Disconnect CleanupCtx)) (\<lambda>_.
             call env (SendAT CleanupCtx path ''AT+COPS=2''))))"
    "emits P (call env (SetGSM CleanupCtx (sp_nm before)))"
    "emits P (call env (SetEps CleanupCtx path (sp_mm before)))"
    "emits P (writeAuth env CleanupCtx path (parseMMSettings (sp_mm before)))"
    "emits P (writeCID env CleanupCtx path (sp_cid before))"
    "emits P (readCID env CleanupCtx path)" "emits P (get_gsm env CleanupCtx)"
    using assms(1) by (auto simp: restore_calls_def intro!: emits)
  note steps = a [THEN emits_extends]
  show ?thesis
  proof -
    obtain r1 h1 where 1: "andthen (call env (SetAutoconnect CleanupCtx False)) (\<lambda>_.
             andthen (call env (Disconnect CleanupCtx)) (\<lambda>_.
             call env (SendAT CleanupCtx path ''AT+COPS=2''))) h = (r1, h1)" by fastforce
    obtain r2 h2 where 2: "call env (SetGSM CleanupCtx (sp_nm before)) h1 = (r2, h2)" by fastforce
    obtain u k1 where 3: "call env (SetEps CleanupCtx path (sp_mm before)) h2 = (u, k1)" by fastforce
    obtain x k2 where 4: "writeAuth env CleanupCtx path (parseMMSettings (sp_mm before)) k1 = (x, k2)" by fastforce
    obtain y k3 where 5: "writeCID env CleanupCtx path (sp_cid before) k2 = (y, k3)" by fastforce
    obtain z k4 where 6: "readCID env CleanupCtx path k3 = (z, k4)" by fastforce
    define h3 where "h3 = (if r1 = None then h2 else k4)"
    obtain g h4 where 7: "get_gsm env CleanupCtx h3 = (g, h4)" by fastforce
    have "h' = h4"
      using assms(2) 7 by (auto simp: restore_def Let_def 1 2 3 4 5 6 get_gsm_def h3_def split: if_splits)
    moreover have "extends P h h2"
      using steps(1) [OF 1] steps(2) [OF 2] extends_trans by blast
    moreover have "extends P h2 k4"
      using steps(3) [OF 3] steps(4) [OF 4] steps(5) [OF 5] steps(6) [OF 6] extends_trans by meson
    ultimately show ?thesis
      using steps(7) [OF 7] extends_trans by (metis h3_def)
  qed
qed

lemma extends_rollback:
  assumes "restore_calls P path before"
    and "(\<exists>g. \<not> ev_cancelled env g) \<Longrightarrow> reconnect_calls P path"
    and "rollback env path before state ch de h = (ok, h')"
  shows "extends P h h'"
proof -
  have c: "emits P (call env (Commit CommitCtx b))" for b
    using assms(1) by (auto simp: restore_calls_def intro!: emits)
  have r: "emits P (andthen (call env (SendAT ReconnectCtx path ''AT+COPS=0'')) (\<lambda>_.
      if cs_Active state then call env (Connect ReconnectCtx) else done_with ()))" if "\<not> ev_cancelled env g" for g
    using assms(2) that by (auto simp: reconnect_calls_def intro!: emits)
  note steps = c [THEN emits_extends] r [THEN emits_extends] extends_restore [OF assms(1)]
  show ?thesis
    using assms(3)
    by (auto simp: rollback_def Let_def split: prod.splits if_splits option.splits dest!: steps
        intro: extends_trans)
qed

text \<open>The snapshot that a transaction would return to.\<close>

definition tx_before :: "ApnInput \<Rightarrow> bool \<Rightarrow> apn_snapshot \<Rightarrow> ApnManager \<Rightarrow> apn_snapshot" where
  "tx_before i clearSIM0 before0 m =
     (case am_pending m of
        None \<Rightarrow> (if clearSIM0 then empty_snapshot else before0)
      | Some p \<Rightarrow> (if clearSIM0 \<or> pr_iccid p \<noteq> ai_ICCID i then empty_snapshot else pr_before p))"

definition restoring :: "ApnInput \<Rightarrow> apn_snapshot \<Rightarrow> ApnManager \<Rightarrow> ApnManager \<Rightarrow> bool" where
  "restoring i before m m' \<longleftrightarrow>
     (\<exists>st. am_pending m' = Some \<lparr>pr_before = before, pr_state = st, pr_iccid = ai_ICCID i\<rparr>
        \<and> (\<forall>p. am_pending m = Some p \<longrightarrow> st = pr_state p))"

lemma apply_tx_cases:
  assumes "apply_tx env i cfg before0 clr m h = (ok, m', h')"
  obtains (unread) "\<not> ok" "m' = m" "h' = h @ [NMState OpCtx]"
  | (committed) actual c d st where "ok" "am_pending m' = None" "am_lastAppliedCID m' = actual"
      "apply_body env (ai_ModemPath i) cfg st (am_pending m \<noteq> None \<or> clr) (am_pending m \<noteq> None)
         (h @ [NMState OpCtx]) = (Some actual, c, d, h')"
  | (rolled_back) c d st h2 rb where "\<not> ok"
      "apply_body env (ai_ModemPath i) cfg st (am_pending m \<noteq> None \<or> clr) (am_pending m \<noteq> None)
         (h @ [NMState OpCtx]) = (None, c, d, h2)"
      "rollback env (ai_ModemPath i) (tx_before i clr before0 m) st c d h2 = (rb, h')"
      "if rb then am_pending m' = None else restoring i (tx_before i clr before0 m) m m'"
proof (cases "ev_state env h")
  case None
  with assms unread show thesis by (simp add: apply_tx_def get_state_def)
next
  case (Some state0)
  define st where "st = (case am_pending m of Some p \<Rightarrow> pr_state p | None \<Rightarrow> state0)"
  have b: "(if clr \<or> (am_pending m \<noteq> None \<and> \<not> (case am_pending m of Some p \<Rightarrow> pr_iccid p = ai_ICCID i | None \<Rightarrow> False))
       then empty_snapshot else case am_pending m of Some p \<Rightarrow> pr_before p | None \<Rightarrow> before0) = tx_before i clr before0 m"
    by (simp add: tx_before_def split: option.split)
  have b2: "(am_pending m \<noteq> None \<or> clr \<or> (am_pending m \<noteq> None \<and> x)) = (am_pending m \<noteq> None \<or> clr)" for x
    by blast
  obtain r c d h2 where body: "apply_body env (ai_ModemPath i) cfg st (am_pending m \<noteq> None \<or> clr)
      (am_pending m \<noteq> None) (h @ [NMState OpCtx]) = (r, c, d, h2)" by (metis prod_cases4)
  obtain rb h3 where rbk: "rollback env (ai_ModemPath i) (tx_before i clr before0 m) st c d h2 = (rb, h3)"
    by fastforce
  define m1 where "m1 = m\<lparr>am_pending := Some \<lparr>pr_before = tx_before i clr before0 m, pr_state = st,
      pr_iccid = ai_ICCID i\<rparr>\<rparr>"
  have eqs: "(ok, m', h') =
     (if \<not> validateConfig (parseMMSettings (sp_mm (tx_before i clr before0 m))) then (False, m, h @ [NMState OpCtx])
      else case r of
        Some actual \<Rightarrow> (True, m1\<lparr>am_lastAppliedCID := actual, am_pending := None\<rparr>, h2)
      | None \<Rightarrow> (False, if rb then m1\<lparr>am_pending := None\<rparr> else m1, h3))"
    using assms unfolding apply_tx_def get_state_def Some prod.case option.case Let_def st_def [symmetric] b b2 body m1_def
    by (cases r; cases "validateConfig (parseMMSettings (sp_mm (tx_before i clr before0 m)))"; cases rb)
      (auto simp: rbk)
  show thesis
  proof (cases "validateConfig (parseMMSettings (sp_mm (tx_before i clr before0 m)))")
    case False
    with eqs unread show thesis by simp
  next
    case valid: True
    show thesis
    proof (cases r)
      case (Some actual)
      with eqs valid body show thesis by (intro committed) auto
    next
      case None
      with eqs valid rbk body st_def show thesis
        by (intro rolled_back [of st c d h2 rb]) (auto simp: restoring_def m1_def)
    qed
  qed
qed

lemma extends_apply_tx:
  assumes eq: "apply_tx env i cfg before0 clr m h = (ok, m', h')"
    and tx: "tx_calls P (ai_ModemPath i) cfg"
    and undo: "restore_calls P (ai_ModemPath i) (tx_before i clr before0 m)"
    and re: "reconnect_calls P (ai_ModemPath i)"
    and nm: "P (NMState OpCtx)"
  shows "extends P h h'"
proof -
  have first: "extends P h (h @ [NMState OpCtx])" using nm by (simp add: extends_def)
  note body = extends_apply_body [OF tx] and rb = extends_rollback [OF undo re]
  from eq show ?thesis
  proof (cases rule: apply_tx_cases)
    case unread
    with first show ?thesis by simp
  next
    case (committed actual c d st)
    then show ?thesis using first body extends_trans by blast
  next
    case (rolled_back c d st h2 rb')
    then show ?thesis using first body rb extends_trans by meson
  qed
qed

lemma emits_value_history:
  assumes "emits P f" and "f h = (r, h')"
  obtains s where "h' = h @ s" "list_all P s"
  using emits_extends [OF assms] by (auto simp: extends_def)

lemma extends_reconcile_with:
  assumes eq: "reconcile_with env now i cfg clr m h = (out, m', h')"
    and tx: "tx_calls P (ai_ModemPath i) cfg"
    and undo: "\<And>before0 k. readCurrent env (ai_ModemPath i) h = (Some before0, k)
       \<Longrightarrow> restore_calls P (ai_ModemPath i) (tx_before i clr before0 m)"
    and re: "reconnect_calls P (ai_ModemPath i)"
    and nm: "P (NMState OpCtx)"
  shows "extends P h h'"
proof -
  have reads: "emits P (readCurrent env (ai_ModemPath i))"
    using tx by (auto simp: tx_calls_def intro!: emits)
  obtain r k where rc: "readCurrent env (ai_ModemPath i) h = (r, k)" by fastforce
  from emits_extends [OF reads rc] have hk: "extends P h k" .
  show ?thesis
  proof (cases r)
    case None
    with eq hk show ?thesis by (simp add: reconcile_with_def rc)
  next
    case (Some before0)
    obtain ok m1 h1 where ap: "apply_tx env i cfg before0 clr m k = (ok, m1, h1)" by (metis prod_cases3)
    from extends_apply_tx [OF ap tx undo [OF rc [unfolded Some]] re nm] have "extends P k h1" .
    with hk have "extends P h h1" by (rule extends_trans)
    with eq hk show ?thesis
      by (auto simp: reconcile_with_def rc Some ap Let_def split: if_splits bool.splits)
  qed
qed

text \<open>The fields that recording the input and lifting a block leave alone.\<close>

lemma note_input_fields [simp]:
  "am_pending (note_input i m) = am_pending m" "am_lastAppliedICCID (note_input i m) = am_lastAppliedICCID m"
  "am_blockedICCID (note_input i m) = am_blockedICCID m" "am_blockedConfig (note_input i m) = am_blockedConfig m"
  "sim_changed i (note_input i m) = sim_changed i m"
  by (simp_all add: note_input_def sim_changed_def)

lemma Reconcile_cases:
  assumes "Apn_Reconcile env locked now i m0 h = (out, m', h')"
  obtains (refused) "out \<in> {ApnNoSIM, ApnError}" "m' = m0" "h' = h"
  | (swapped) "sim_changed i m0" "validateConfig (ai_Desired i)" "ai_ICCID i \<noteq> ''''"
      "reconcile_with env now i empty_Config True (note_input i m0) h = (out, m', h')"
  | (held) "\<not> sim_changed i m0" "blocked i m0" "out = ApnUnconfigured" "m' = note_input i m0" "h' = h"
  | (normal) m where "\<not> sim_changed i m0" "\<not> blocked i m0" "validateConfig (ai_Desired i)" "ai_ICCID i \<noteq> ''''"
      "m \<in> {note_input i m0, (note_input i m0)\<lparr>am_blockedICCID := ''''\<rparr>}"
      "reconcile_with env now i (ai_Desired i) False m h = (out, m', h')"
proof (cases "ai_ICCID i = '''' \<or> locked \<or> ev_cancelled env h \<or> ai_ModemPath i = '''' \<or> \<not> validateConfig (ai_Desired i)")
  case True
  with assms refused show thesis by (auto simp: Apn_Reconcile_def split: if_splits)
next
  case False
  have b: "blocked i (note_input i m0) = blocked i m0" by (simp add: blocked_def)
  show thesis
  proof (cases "sim_changed i m0")
    case True
    with assms False swapped show thesis by (simp add: Apn_Reconcile_def Let_def)
  next
    case ns: False
    show thesis
    proof (cases "blocked i m0")
      case True
      with assms False ns held b show thesis by (simp add: Apn_Reconcile_def Let_def)
    next
      case nb: False
      from assms False ns nb b
      have "reconcile_with env now i (ai_Desired i) False
             (if am_blockedICCID (note_input i m0) = ai_ICCID i then (note_input i m0)\<lparr>am_blockedICCID := ''''\<rparr>
              else note_input i m0) h = (out, m', h')"
        by (simp add: Apn_Reconcile_def Let_def)
      moreover have "(if am_blockedICCID (note_input i m0) = ai_ICCID i then (note_input i m0)\<lparr>am_blockedICCID := ''''\<rparr>
              else note_input i m0) \<in> {note_input i m0, (note_input i m0)\<lparr>am_blockedICCID := ''''\<rparr>}"
        by simp
      ultimately show thesis using False ns nb normal by blast
    qed
  qed
qed

section \<open>Lemmas for the properties\<close>

text \<open>A write that carries no setting: the empty configuration, or an AT command that resets.\<close>

fun blank_write :: "apn_call \<Rightarrow> bool" where
  "blank_write (SetGSM _ c) \<longleftrightarrow> c = empty_Config"
| "blank_write (SetEps _ _ d) \<longleftrightarrow> d = encodeMMSettings empty_Config"
| "blank_write (SendAT _ _ cmd) \<longleftrightarrow> cmd \<in> {''AT+CGDCONT?'', ''AT+COPS=0'', ''AT+COPS=2'',
     cid_command (desiredContext empty_Config), auth_command empty_Config}"
| "blank_write _ \<longleftrightarrow> True"

lemma blank_auth: "auth_command (parseMMSettings (encodeMMSettings empty_Config)) = auth_command empty_Config"
  by code_simp

lemma blank_tx: "tx_calls blank_write path empty_Config" "restore_calls blank_write path empty_snapshot"
    "reconnect_calls blank_write path"
  by (simp_all add: tx_calls_def restore_calls_def reconnect_calls_def empty_snapshot_def blank_auth
      del: validateConfig_def)

lemma tx_before_clear [simp]: "tx_before i True before0 m = empty_snapshot"
  by (simp add: tx_before_def split: option.split)

lemma Config_Equal_refl [simp]: "Config_Equal c c"
  by (simp add: Config_Equal_def EqualNM_def)

text \<open>An AT command that is one line.\<close>

fun at_one_line :: "apn_call \<Rightarrow> bool" where
  "at_one_line (SendAT _ _ cmd) \<longleftrightarrow> one_line cmd"
| "at_one_line _ \<longleftrightarrow> True"

definition clean_pending :: "ApnManager \<Rightarrow> bool" where
  "clean_pending m \<longleftrightarrow> (\<forall>p. am_pending m = Some p \<longrightarrow> clean_context (sp_cid (pr_before p)))"

lemma fixed_commands_one_line: "one_line ''AT+CGDCONT?''" "one_line ''AT+COPS=0''" "one_line ''AT+COPS=2''"
  by simp_all

lemma one_line_tx:
  "validateConfig cfg \<Longrightarrow> tx_calls at_one_line path cfg"
  "clean_context (sp_cid before) \<Longrightarrow> restore_calls at_one_line path before"
  "reconnect_calls at_one_line path"
  by (auto simp: tx_calls_def restore_calls_def reconnect_calls_def intro: auth_command_one_line
      cid_command_one_line desiredContext_clean)

lemma readCID_value:
  assumes "readCID env ctx path h = (Some cid, h')"
  obtains r where "ev_text env h = Some r" "parseCID1 r = Some cid" "h' = h @ [SendAT ctx path ''AT+CGDCONT?'']"
  using assms by (auto simp: readCID_def andthen_def at_text_def lift_option_def split: option.splits)

lemma readCurrent_clean:
  assumes "readCurrent env path h = (Some before, h')"
  shows "clean_context (sp_cid before)"
  using assms
  by (auto simp: readCurrent_def andthen_def done_with_def get_gsm_def get_eps_def split: option.splits prod.splits
      elim!: readCID_value intro: parseCID1_clean)

lemma tx_before_clean:
  "clean_pending m \<Longrightarrow> clean_context (sp_cid before0) \<Longrightarrow> clean_context (sp_cid (tx_before i clr before0 m))"
  by (auto simp: tx_before_def clean_pending_def empty_snapshot_def desiredContext_clean split: option.split)

lemma clean_pending_apply_tx:
  assumes "apply_tx env i cfg before0 clr m h = (ok, m', h')" "clean_pending m" "clean_context (sp_cid before0)"
  shows "clean_pending m'"
  using assms(1)
proof (cases rule: apply_tx_cases)
  case (rolled_back c d st h2 rb)
  with tx_before_clean [OF assms(2,3)] show ?thesis
    by (auto simp: clean_pending_def restoring_def split: if_splits)
qed (use assms(2) in \<open>auto simp: clean_pending_def\<close>)

lemma clean_pending_reconcile_with:
  assumes "reconcile_with env now i cfg clr m h = (out, m', h')" "clean_pending m"
  shows "clean_pending m'"
proof -
  obtain r k where rc: "readCurrent env (ai_ModemPath i) h = (r, k)" by fastforce
  show ?thesis
  proof (cases r)
    case None
    with assms rc show ?thesis by (simp add: reconcile_with_def)
  next
    case (Some before0)
    obtain ok m1 h1 where ap: "apply_tx env i cfg before0 clr m k = (ok, m1, h1)" by (metis prod_cases3)
    have "clean_pending m1"
      using clean_pending_apply_tx [OF ap assms(2)] readCurrent_clean rc Some by blast
    with assms show ?thesis
      by (auto simp: reconcile_with_def rc Some ap Let_def clean_pending_def recordSuccess_def block_swapped_def
          split: if_splits bool.splits)
  qed
qed

lemma one_line_reconcile_with:
  assumes "reconcile_with env now i cfg clr m h = (out, m', h')" "clean_pending m" "validateConfig cfg"
  shows "extends at_one_line h h'"
  by (rule extends_reconcile_with [OF assms(1) one_line_tx(1) [OF assms(3)] _ one_line_tx(3)])
    (use assms(2) in \<open>auto intro: one_line_tx(2) tx_before_clean readCurrent_clean\<close>)

lemma one_line_Reconcile:
  assumes "Apn_Reconcile env locked now i m h = (out, m', h')" "clean_pending m"
  shows "extends at_one_line h h' \<and> clean_pending m'"
  using assms(1)
proof (cases rule: Reconcile_cases)
  case swapped
  with assms(2) one_line_reconcile_with clean_pending_reconcile_with show ?thesis
    by (metis clean_pending_def empty_Config_valid note_input_fields(1))
next
  case (normal m1)
  with assms(2) have "clean_pending m1" by (auto simp: clean_pending_def)
  with normal one_line_reconcile_with clean_pending_reconcile_with show ?thesis by blast
qed (use assms(2) in \<open>auto simp: clean_pending_def\<close>)

text \<open>Any sequence of the manager's operations, from the start.\<close>

inductive apn_reach :: "apn_env \<Rightarrow> ApnManager \<Rightarrow> history \<Rightarrow> bool" for env where
  begin_empty: "apn_reach env Apn_New []"
| by_Reconcile: "apn_reach env m h \<Longrightarrow> Apn_Reconcile env locked now i m h = (out, m', h') \<Longrightarrow> apn_reach env m' h'"
| by_ResetRetry: "apn_reach env m h \<Longrightarrow> apn_reach env (ResetRetry m) h"
| by_Reattach: "apn_reach env m h \<Longrightarrow> Reattach env locked path h = (r, h') \<Longrightarrow> apn_reach env m h'"

lemma Reattach_extends: "Reattach env locked path h = (r, h') \<Longrightarrow> extends at_one_line h h'"
proof -
  have "emits at_one_line (andthen (call env (SendAT OpCtx path ''AT+COPS=2''))
      (\<lambda>_. call env (SendAT OpCtx path ''AT+COPS=0'')))"
    by (intro emits) simp_all
  from emits_extends [OF this] show "Reattach env locked path h = (r, h') \<Longrightarrow> extends at_one_line h h'"
    by (auto simp: Reattach_def split: if_splits)
qed

lemma list_all_extends: "list_all P h \<Longrightarrow> extends P h h' \<Longrightarrow> list_all P h'"
  by (auto simp: extends_def)

lemma apn_reach_clean: "apn_reach env m h \<Longrightarrow> list_all at_one_line h \<and> clean_pending m"
proof (induction rule: apn_reach.induct)
  case begin_empty
  show ?case by (simp add: clean_pending_def Apn_New_def)
next
  case (by_Reconcile m h locked now i out m' h')
  with one_line_Reconcile list_all_extends show ?case by blast
next
  case (by_ResetRetry m h)
  then show ?case by (simp add: clean_pending_def ResetRetry_def)
next
  case (by_Reattach m h locked path r h')
  with Reattach_extends list_all_extends show ?case by blast
qed

text \<open>Successive calls of \<open>Reconcile\<close> with the clocks \<open>ts\<close>, as long as each returns an error.\<close>

fun retry_run :: "apn_env \<Rightarrow> ApnInput \<Rightarrow> (history \<Rightarrow> gotime) list \<Rightarrow> ApnManager \<Rightarrow> history \<Rightarrow> (ApnManager \<times> history) option" where
  "retry_run env i [] m h = Some (m, h)"
| "retry_run env i (t # ts) m h =
     (case Apn_Reconcile env False t i m h of
        (ApnError, m1, h1) \<Rightarrow> retry_run env i ts m1 h1
      | _ \<Rightarrow> None)"

fun starts_tx :: "apn_call \<Rightarrow> bool" where
  "starts_tx (NMState _) \<longleftrightarrow> True"
| "starts_tx _ \<longleftrightarrow> False"

fun reads_only :: "apn_call \<Rightarrow> bool" where
  "reads_only (GetGSM _) \<longleftrightarrow> True"
| "reads_only (GetEps _ _) \<longleftrightarrow> True"
| "reads_only (SendAT _ _ cmd) \<longleftrightarrow> cmd = ''AT+CGDCONT?''"
| "reads_only _ \<longleftrightarrow> False"

definition transactions :: "history \<Rightarrow> nat" where
  "transactions h = length (filter starts_tx h)"

lemma readCurrent_reads: "readCurrent env path h = (r, k) \<Longrightarrow> extends reads_only h k"
proof -
  have "emits reads_only (readCurrent env path)" by (intro emits) simp_all
  then show "readCurrent env path h = (r, k) \<Longrightarrow> extends reads_only h k" by (rule emits_extends)
qed

lemma reads_no_tx: "extends reads_only h k \<Longrightarrow> transactions k = transactions h"
proof -
  have "filter starts_tx s = []" if "list_all reads_only s" for s
    using that by (induction s) (auto elim: starts_tx.elims)
  then show "extends reads_only h k \<Longrightarrow> transactions k = transactions h"
    by (auto simp: extends_def transactions_def)
qed

lemma extends_no_tx: "extends (\<lambda>c. \<not> starts_tx c) h k \<Longrightarrow> transactions k = transactions h"
proof -
  have "filter starts_tx s = []" if "list_all (\<lambda>c. \<not> starts_tx c) s" for s
    using that by (induction s) auto
  then show "extends (\<lambda>c. \<not> starts_tx c) h k \<Longrightarrow> transactions k = transactions h"
    by (auto simp: extends_def transactions_def)
qed

lemma no_tx_calls:
  "tx_calls (\<lambda>c. \<not> starts_tx c) path cfg" "restore_calls (\<lambda>c. \<not> starts_tx c) path before"
  "reconnect_calls (\<lambda>c. \<not> starts_tx c) path"
  by (simp_all add: tx_calls_def restore_calls_def reconnect_calls_def)

lemma apply_tx_transactions:
  assumes "apply_tx env i cfg before0 clr m h = (ok, m', h')"
  shows "transactions h' = Suc (transactions h)"
proof -
  have first: "transactions (h @ [NMState OpCtx]) = Suc (transactions h)" by (simp add: transactions_def)
  note body = extends_apply_body [OF no_tx_calls(1), THEN extends_no_tx]
    and rb = extends_rollback [OF no_tx_calls(2) no_tx_calls(3), THEN extends_no_tx]
  from assms show ?thesis
  proof (cases rule: apply_tx_cases)
    case unread
    with first show ?thesis by simp
  next
    case (committed actual c d st)
    with first body show ?thesis by metis
  next
    case (rolled_back c d st h2 rb')
    with first body [OF rolled_back(2)] rb [OF rolled_back(3)] show ?thesis by metis
  qed
qed

lemma apply_tx_fields:
  assumes "apply_tx env i cfg before0 clr m h = (ok, m', h')"
  shows "am_attempts m' = am_attempts m" "am_retryInput m' = am_retryInput m" "am_retryAt m' = am_retryAt m"
  using assms by (auto simp: apply_tx_def Let_def split: option.splits prod.splits if_splits)

text \<open>What an error of \<open>reconcile_with\<close> means for the number of attempts.\<close>

lemma reconcile_with_error:
  assumes "reconcile_with env now i cfg clr m h = (ApnError, m', h')"
  shows "am_retryInput m' = am_retryInput m \<and>
    (m' = m \<and> extends reads_only h h' \<or>
     am_attempts m < maxApplyAttempts \<and> (\<exists>g. \<not> time_Before (now g) (am_retryAt m)) \<and> transactions h' = Suc (transactions h)
       \<and> am_attempts m' = Suc (am_attempts m)
       \<and> am_retryAt m' = time_Add (now h') (retryDelay * 2 ^ am_attempts m))"
proof -
  obtain r k where rc: "readCurrent env (ai_ModemPath i) h = (r, k)" by fastforce
  from readCurrent_reads [OF rc] have k: "extends reads_only h k" .
  show ?thesis
  proof (cases r)
    case None
    with assms k show ?thesis by (auto simp: reconcile_with_def rc)
  next
    case (Some before0)
    obtain ok m1 h1 where ap: "apply_tx env i cfg before0 clr m k = (ok, m1, h1)" by (metis prod_cases3)
    from assms apply_tx_fields [OF ap] apply_tx_transactions [OF ap] reads_no_tx [OF k] k show ?thesis
      by (auto simp: reconcile_with_def rc Some ap Let_def split: if_splits bool.splits)
  qed
qed

lemma note_input_again: "am_retryInput m = i \<Longrightarrow> note_input i m = m"
  by (simp add: note_input_def)

lemma note_input_same:
  "am_retryInput m' = am_retryInput (note_input i m) \<Longrightarrow> am_attempts (note_input i m') = am_attempts m'"
  by (auto simp: note_input_def split: if_splits)

lemma Reconcile_error:
  assumes "Apn_Reconcile env locked t i m h = (ApnError, m', h')"
  shows "transactions h' = transactions h \<and> am_attempts (note_input i m') = am_attempts (note_input i m) \<or>
    transactions h' = Suc (transactions h) \<and> am_attempts (note_input i m) < maxApplyAttempts
      \<and> am_attempts (note_input i m') = Suc (am_attempts (note_input i m))"
  using assms
proof (cases rule: Reconcile_cases)
  case swapped
  from reconcile_with_error [OF swapped(4)] note_input_same [of m' i m] reads_no_tx [of h h']
  show ?thesis by auto
next
  case (normal m1)
  then have "am_retryInput m1 = am_retryInput (note_input i m)" "am_attempts m1 = am_attempts (note_input i m)"
    by auto
  with reconcile_with_error [OF normal(6)] note_input_same [of m' i m] reads_no_tx [of h h']
  show ?thesis by auto
qed auto

lemma retry_run_bound:
  "retry_run env i ts m h = Some (m', h')
     \<Longrightarrow> am_attempts (note_input i m) \<le> maxApplyAttempts
     \<Longrightarrow> transactions h' + am_attempts (note_input i m) \<le> transactions h + maxApplyAttempts"
proof (induction ts arbitrary: m h)
  case (Cons t ts)
  obtain out m1 h1 where r: "Apn_Reconcile env False t i m h = (out, m1, h1)" by (metis prod_cases3)
  with Cons.prems(1) have out: "out = ApnError" and rest: "retry_run env i ts m1 h1 = Some (m', h')"
    by (auto split: apn_outcome.splits)
  from Reconcile_error [OF r [unfolded out]] Cons.prems(2) Cons.IH [OF rest] show ?case by auto
qed simp

text \<open>The end of a transaction that succeeded, and of a restoration that succeeded.\<close>

lemma andthen_Some:
  "andthen f g h = (Some y, h') \<longleftrightarrow> (\<exists>x h1. f h = (Some x, h1) \<and> g x h1 = (Some y, h'))"
  by (auto simp: andthen_def split: option.splits prod.splits)

lemma step_Some [simp]:
  "require b h = (Some u, h') \<longleftrightarrow> b \<and> h' = h"
  "call env c h = (Some u, h') \<longleftrightarrow> ev_ok env h c \<and> h' = h @ [c]"
  "done_with x h = (Some y, h') \<longleftrightarrow> y = x \<and> h' = h"
  "get_gsm env ctx h = (Some cfg, h') \<longleftrightarrow> ev_gsm env h = Some cfg \<and> h' = h @ [GetGSM ctx]"
  by (auto simp: require_def call_def done_with_def get_gsm_def)

lemma apply_changes_end:
  assumes "apply_changes env path cfg state h = (Some actual, h')"
  obtains g resp where "ev_text env g = Some resp" "parseCID1 resp = Some actual"
    "IsEmpty cfg \<or> actual = desiredContext cfg"
    "h' = g @ [SendAT OpCtx path ''AT+CGDCONT?'', Commit OpCtx (cs_Autoconnect state)]"
proof -
  from assms obtain k g where "readCID env OpCtx path k = (Some actual, g)"
    "IsEmpty cfg \<or> actual = desiredContext cfg" "h' = g @ [Commit OpCtx (cs_Autoconnect state)]"
    unfolding apply_changes_def andthen_Some by auto
  then show thesis using that by (auto elim!: readCID_value)
qed

lemma apply_body_end:
  assumes "apply_body env path cfg state c d h = (Some actual, c', d', h')"
  obtains g resp where "ev_text env g = Some resp" "parseCID1 resp = Some actual"
    "IsEmpty cfg \<or> actual = desiredContext cfg"
    "h' = g @ [SendAT OpCtx path ''AT+CGDCONT?'', Commit OpCtx (cs_Autoconnect state)]"
proof -
  from assms obtain k where "apply_changes env path cfg state k = (Some actual, h')"
    by (auto simp: apply_body_def split: option.splits prod.splits)
  then show thesis using that by (rule apply_changes_end)
qed

lemma apply_body_changed:
  "apply_body env path cfg state True d h = (r, c', d', h') \<Longrightarrow> c'"
  by (auto simp: apply_body_def split: option.splits prod.splits)

lemma restore_verified:
  assumes "restore env path before h = (True, h')"
  shows "\<exists>k resp nm. ev_text env k = Some resp \<and> parseCID1 resp = Some (sp_cid before)
    \<and> ev_gsm env (k @ [SendAT CleanupCtx path ''AT+CGDCONT?'']) = Some nm \<and> EqualNM nm (sp_nm before)
    \<and> h' = k @ [SendAT CleanupCtx path ''AT+CGDCONT?'', GetGSM CleanupCtx]"
proof -
  from assms obtain k3 k4 where "readCID env CleanupCtx path k3 = (Some (sp_cid before), k4)"
    and g: "case ev_gsm env k4 of Some nm \<Rightarrow> EqualNM nm (sp_nm before) | None \<Rightarrow> False" "h' = k4 @ [GetGSM CleanupCtx]"
    by (auto simp: restore_def Let_def get_gsm_def split: prod.splits if_splits)
  then show ?thesis by (auto elim!: readCID_value split: option.splits)
qed

text \<open>The history \<open>h\<close> contains two consecutive reads that found the snapshot in place again.\<close>

definition restored :: "apn_env \<Rightarrow> object_path \<Rightarrow> apn_snapshot \<Rightarrow> history \<Rightarrow> bool" where
  "restored env path before h \<longleftrightarrow>
     (\<exists>k s resp nm. ev_text env k = Some resp \<and> parseCID1 resp = Some (sp_cid before)
        \<and> ev_gsm env (k @ [SendAT CleanupCtx path ''AT+CGDCONT?'']) = Some nm \<and> EqualNM nm (sp_nm before)
        \<and> h = k @ [SendAT CleanupCtx path ''AT+CGDCONT?'', GetGSM CleanupCtx] @ s)"

lemma rollback_restored:
  assumes "rollback env path before state True d h = (True, h')"
  shows "restored env path before h'"
proof -
  obtain ok h1 where r: "restore env path before h = (ok, h1)" by fastforce
  with assms have ok: "ok = True" by (auto simp: rollback_def split: if_splits)
  from restore_verified [OF r [unfolded ok]] obtain k resp nm where
    k: "ev_text env k = Some resp \<and> parseCID1 resp = Some (sp_cid before)
    \<and> ev_gsm env (k @ [SendAT CleanupCtx path ''AT+CGDCONT?'']) = Some nm \<and> EqualNM nm (sp_nm before)
    \<and> h1 = k @ [SendAT CleanupCtx path ''AT+CGDCONT?'', GetGSM CleanupCtx]" by blast
  have "extends (\<lambda>_. True) h1 h'"
    using assms r ok
    by (auto simp: rollback_def Let_def andthen_Some extends_def list_all_iff
        split: option.splits prod.splits if_splits)
  then obtain s where "h' = h1 @ s" by (auto simp: extends_def)
  with k show ?thesis unfolding restored_def by fastforce
qed

lemma pending_kept_reconcile_with:
  assumes "reconcile_with env now i cfg False m h = (out, m', h')"
    and p: "am_pending m = Some p" "pr_iccid p = ai_ICCID i"
  shows "am_pending m' = Some p \<or>
    am_pending m' = None \<and> (out = ApnApplied \<or> out = ApnError \<and> restored env (ai_ModemPath i) (pr_before p) h')"
proof -
  have b: "tx_before i False before0 m = pr_before p" for before0 using p by (simp add: tx_before_def)
  obtain r k where rc: "readCurrent env (ai_ModemPath i) h = (r, k)" by fastforce
  show ?thesis
  proof (cases r)
    case None
    with assms show ?thesis by (simp add: reconcile_with_def rc)
  next
    case (Some before0)
    obtain ok m1 h1 where ap: "apply_tx env i cfg before0 False m k = (ok, m1, h1)" by (metis prod_cases3)
    then have "am_pending m1 = Some p \<or> am_pending m1 = None \<and> (ok \<or> restored env (ai_ModemPath i) (pr_before p) h1)"
    proof (cases rule: apply_tx_cases)
      case unread
      with p show ?thesis by simp
    next
      case (committed actual c d st)
      then show ?thesis by simp
    next
      case (rolled_back c d st h2 rb)
      then have "c" using p apply_body_changed [of env "ai_ModemPath i" cfg st True] by simp
      with rolled_back rollback_restored show ?thesis
        using p by (cases rb) (fastforce simp: b restoring_def)+
    qed
    with assms p show ?thesis
      by (auto simp: reconcile_with_def rc Some ap Let_def in_place_def recordSuccess_def
          split: if_splits bool.splits)
  qed
qed

lemma applied_reconcile_with:
  assumes "reconcile_with env now i cfg clr m h = (ApnApplied, m', h')"
  shows "am_pending m' = None \<and> (\<exists>g resp b. ev_text env g = Some resp \<and> parseCID1 resp = Some (am_lastAppliedCID m')
    \<and> (IsEmpty cfg \<or> am_lastAppliedCID m' = desiredContext cfg)
    \<and> h' = g @ [SendAT OpCtx (ai_ModemPath i) ''AT+CGDCONT?'', Commit OpCtx b])"
proof -
  obtain r k where rc: "readCurrent env (ai_ModemPath i) h = (r, k)" by fastforce
  show ?thesis
  proof (cases r)
    case None
    with assms show ?thesis by (simp add: reconcile_with_def rc)
  next
    case (Some before0)
    obtain ok m1 h1 where ap: "apply_tx env i cfg before0 clr m k = (ok, m1, h1)" by (metis prod_cases3)
    from assms have ok: "ok" "h' = h1" and f: "am_pending m' = am_pending m1" "am_lastAppliedCID m' = am_lastAppliedCID m1"
      by (auto simp: reconcile_with_def rc Some ap Let_def recordSuccess_def split: if_splits bool.splits)
    from ap show ?thesis
    proof (cases rule: apply_tx_cases)
      case (committed actual c d st)
      with ok f show ?thesis by (auto elim!: apply_body_end)
    qed (use ok in auto)
  qed
qed

section \<open>A modem for the witnesses\<close>

text \<open>A modem that keeps what it is told; the calls of which \<open>bad\<close> holds fail.\<close>

definition lab_old :: Config where "lab_old = empty_Config\<lparr>cf_APN := ''old''\<rparr>"
definition lab_new :: Config where "lab_new = empty_Config\<lparr>cf_APN := ''new''\<rparr>"

definition lab_gsm :: "history \<Rightarrow> Config" where
  "lab_gsm h = foldl (\<lambda>a c. case c of SetGSM _ cfg \<Rightarrow> cfg | _ \<Rightarrow> a) lab_old h"

definition lab_eps :: "history \<Rightarrow> dict" where
  "lab_eps h = foldl (\<lambda>a c. case c of SetEps _ _ d \<Rightarrow> d | _ \<Rightarrow> a) (encodeMMSettings lab_old) h"

definition lab_text :: "history \<Rightarrow> string" where
  "lab_text h = foldl (\<lambda>a c. case c of SendAT _ _ cmd \<Rightarrow>
       if cmd = cid_command (desiredContext lab_new) then cid_report (desiredContext lab_new)
       else if cmd = cid_command (desiredContext lab_old) then cid_report (desiredContext lab_old)
       else if cmd = cid_command (desiredContext empty_Config) then cid_report (desiredContext empty_Config) else a
     | _ \<Rightarrow> a) (cid_report (desiredContext lab_old)) h"

definition lab_env :: "(apn_call \<Rightarrow> bool) \<Rightarrow> apn_env" where
  "lab_env bad = \<lparr>ev_ok = (\<lambda>_ c. \<not> bad c), ev_gsm = (\<lambda>h. Some (lab_gsm h)),
     ev_state = (\<lambda>_. Some \<lparr>cs_Autoconnect = True, cs_Active = True\<rparr>), ev_eps = (\<lambda>h. Some (lab_eps h)),
     ev_text = (\<lambda>h. Some (lab_text h)), ev_cancelled = (\<lambda>_. False)\<rparr>"

definition lab_input :: ApnInput where
  "lab_input = \<lparr>ai_ICCID = ''8949'', ai_ModemPath = ''/M/0'', ai_Desired = lab_new\<rparr>"

fun is_connect :: "apn_call \<Rightarrow> bool" where
  "is_connect (Connect _) \<longleftrightarrow> True"
| "is_connect _ \<longleftrightarrow> False"

fun is_deregister :: "apn_call \<Rightarrow> bool" where
  "is_deregister (SendAT CleanupCtx _ cmd) \<longleftrightarrow> cmd = ''AT+COPS=2''"
| "is_deregister _ \<longleftrightarrow> False"

definition lab_step :: "(apn_call \<Rightarrow> bool) \<Rightarrow> ApnManager \<Rightarrow> apn_outcome \<times> ApnManager \<times> history" where
  "lab_step bad m = Apn_Reconcile (lab_env bad) False (\<lambda>_. 0) lab_input m []"

lemma lab_step_eq: "Apn_Reconcile (lab_env bad) False (\<lambda>_. 0) lab_input m [] =
    (fst (lab_step bad m), fst (snd (lab_step bad m)), snd (snd (lab_step bad m)))"
  by (simp add: lab_step_def)

definition lab_stuck :: ApnManager where
  "lab_stuck = fst (snd (lab_step (\<lambda>c. is_connect c \<or> is_deregister c) Apn_New))"

section \<open>Properties\<close>

text \<open>
  C11. A swapped card gets nothing of the old one. When the card differs from the one last
  configured, every write of the reconciliation, the rollback included, carries the empty
  configuration; the AT commands are the five that read, reset or clear. A completed clearing
  blocks that configuration for that card.
\<close>

theorem swapped_sim_gets_only_blank_settings:
  assumes "sim_changed i m" and "Apn_Reconcile env locked now i m h = (out, m', h')"
  shows "(\<exists>s. h' = h @ s \<and> list_all blank_write s) \<and> (out = ApnICCIDChangedClear \<longrightarrow> blocked i m')"
proof -
  from assms(2) have "extends blank_write h h' \<and> (out = ApnICCIDChangedClear \<longrightarrow> blocked i m')"
  proof (cases rule: Reconcile_cases)
    case swapped
    have "extends blank_write h h'"
      by (rule extends_reconcile_with [OF swapped(4) blank_tx(1) _ blank_tx(3)]) (simp_all add: blank_tx(2))
    moreover have "out = ApnICCIDChangedClear \<longrightarrow> blocked i m'"
      using swapped(4)
      by (auto simp: reconcile_with_def blocked_def block_swapped_def Let_def
          split: option.splits prod.splits if_splits bool.splits)
    ultimately show ?thesis ..
  qed (use assms(1) in auto)
  then show ?thesis by (simp add: extends_def)
qed

lemma swapped_sim_gets_only_blank_settings_witness:
  "fst (lab_step (\<lambda>_. False) (Apn_New\<lparr>am_lastAppliedICCID := ''8901''\<rparr>)) = ApnICCIDChangedClear
   \<and> (\<exists>s. snd (snd (lab_step (\<lambda>_. False) (Apn_New\<lparr>am_lastAppliedICCID := ''8901''\<rparr>))) = [] @ s
        \<and> list_all blank_write s)"
proof
  show "fst (lab_step (\<lambda>_. False) (Apn_New\<lparr>am_lastAppliedICCID := ''8901''\<rparr>)) = ApnICCIDChangedClear"
    by code_simp
  have "sim_changed lab_input (Apn_New\<lparr>am_lastAppliedICCID := ''8901''\<rparr>)" by code_simp
  from swapped_sim_gets_only_blank_settings [OF this lab_step_eq, THEN conjunct1]
  show "\<exists>s. snd (snd (lab_step (\<lambda>_. False) (Apn_New\<lparr>am_lastAppliedICCID := ''8901''\<rparr>))) = [] @ s
        \<and> list_all blank_write s" .
qed





text \<open>
  C12. The original settings are never lost. While a rollback is outstanding for the card, a
  reconciliation keeps exactly that snapshot, however often it fails; it lets go of it only when the
  new configuration was applied, or when the old settings were read back as restored.
\<close>

theorem original_snapshot_kept:
  assumes "am_pending m = Some p" and "pr_iccid p = ai_ICCID i" and "\<not> sim_changed i m"
    and "Apn_Reconcile env locked now i m h = (out, m', h')"
  shows "am_pending m' = Some p \<or>
    am_pending m' = None \<and> (out = ApnApplied \<or> out = ApnError \<and> restored env (ai_ModemPath i) (pr_before p) h')"
  using assms(4)
proof (cases rule: Reconcile_cases)
  case (normal k)
  then have "am_pending k = Some p" using assms(1) by auto
  from pending_kept_reconcile_with [OF normal(6) this assms(2)] show ?thesis .
qed (use assms in auto)

lemma original_snapshot_kept_witness:
  "let p = the (am_pending lab_stuck); r = lab_step is_connect lab_stuck in
     am_pending (fst (snd r)) = Some p \<or>
     am_pending (fst (snd r)) = None \<and> (fst r = ApnApplied
       \<or> fst r = ApnError \<and> restored (lab_env is_connect) ''/M/0'' (pr_before p) (snd (snd r)))"
proof -
  have "am_pending lab_stuck \<noteq> None" by code_simp
  then have p: "am_pending lab_stuck = Some (the (am_pending lab_stuck))" by simp
  have i: "pr_iccid (the (am_pending lab_stuck)) = ai_ICCID lab_input" by code_simp
  have s: "\<not> sim_changed lab_input lab_stuck" by code_simp
  from original_snapshot_kept [OF p i s lab_step_eq] show ?thesis
    by (simp add: Let_def lab_input_def)
qed

text \<open>
   A configuration that fails is tried at most three times. However many reconciliations of one
  input end in an error, from whatever state, at whatever times and with whatever answers, at
  most three of them start a transaction.
\<close>

theorem at_most_three_attempts:
  assumes "retry_run env i ts m h = Some (m', h')" and "am_attempts m \<le> maxApplyAttempts"
  shows "transactions h' \<le> transactions h + 3"
proof -
  have "am_attempts (note_input i m) \<le> maxApplyAttempts" using assms(2) by (simp add: note_input_def)
  from retry_run_bound [OF assms(1) this] show ?thesis by (simp add: maxApplyAttempts_def)
qed

lemma at_most_three_attempts_witness:
  "retry_run (lab_env is_connect) lab_input [\<lambda>_. 0, \<lambda>_. 60 * minute_ns, \<lambda>_. 120 * minute_ns, \<lambda>_. 180 * minute_ns] Apn_New [] \<noteq> None
   \<and> transactions (snd (the (retry_run (lab_env is_connect) lab_input
       [\<lambda>_. 0, \<lambda>_. 60 * minute_ns, \<lambda>_. 120 * minute_ns, \<lambda>_. 180 * minute_ns] Apn_New []))) \<le> transactions [] + 3"
proof -
  let ?r = "retry_run (lab_env is_connect) lab_input [\<lambda>_. 0, \<lambda>_. 60 * minute_ns, \<lambda>_. 120 * minute_ns, \<lambda>_. 180 * minute_ns] Apn_New []"
  have n: "?r \<noteq> None" by code_simp
  then have "?r = Some (fst (the ?r), snd (the ?r))" by auto
  from at_most_three_attempts [OF this] n show ?thesis by (simp add: Apn_New_def)
qed

end
