(* ===== verification/State_Logic.thy ===== *)
theory State_Logic
  imports Prelude "HOL-Library.State_Monad"
begin

text \<open>
  Reasoning about the operations that are written in the state monad: a triple of a precondition, an
  operation and a postcondition on its value and final state, with the rules from which the proofs
  of the service's recovery and remedies are built.
\<close>

named_theorems triples \<open>rules that decompose a triple\<close>

definition triple :: "('s \<Rightarrow> bool) \<Rightarrow> ('s, 'a) state \<Rightarrow> ('a \<Rightarrow> 's \<Rightarrow> bool) \<Rightarrow> bool" where
  "triple P m Q \<longleftrightarrow> (\<forall>s. P s \<longrightarrow> (case run_state m s of (x, t) \<Rightarrow> Q x t))"

lemma tripleI: "(\<And>s x t. P s \<Longrightarrow> run_state m s = (x, t) \<Longrightarrow> Q x t) \<Longrightarrow> triple P m Q"
  by (auto simp: triple_def split: prod.split)

lemma tripleD: "triple P m Q \<Longrightarrow> P s \<Longrightarrow> run_state m s = (x, t) \<Longrightarrow> Q x t"
  by (auto simp: triple_def)

lemma triple_return: "(\<And>s. P s \<Longrightarrow> Q x s) \<Longrightarrow> triple P (State_Monad.return x) Q"
  by (simp add: triple_def)

lemma triple_get: "(\<And>s. P s \<Longrightarrow> Q s s) \<Longrightarrow> triple P State_Monad.get Q"
  by (simp add: triple_def State_Monad.get_def)

lemma triple_set: "(\<And>s. P s \<Longrightarrow> Q () t) \<Longrightarrow> triple P (State_Monad.set t) Q"
  by (simp add: triple_def State_Monad.set_def)

lemma triple_update: "(\<And>s. P s \<Longrightarrow> Q () (f s)) \<Longrightarrow> triple P (State_Monad.update f) Q"
  by (simp add: triple_def State_Monad.update_def State_Monad.get_def State_Monad.set_def)

lemma triple_State: "(\<And>s. P s \<Longrightarrow> (case f s of (x, t) \<Rightarrow> Q x t)) \<Longrightarrow> triple P (State f) Q"
  by (simp add: triple_def)

lemma triple_bind:
  assumes "triple P m R" and "\<And>x. triple (R x) (f x) Q"
  shows "triple P (m \<bind> f) Q"
  using assms by (fastforce simp: triple_def split: prod.splits)

lemma triple_if [triples]:
  "(b \<Longrightarrow> triple P m Q) \<Longrightarrow> (\<not> b \<Longrightarrow> triple P n Q) \<Longrightarrow> triple P (if b then m else n) Q"
  by simp

lemma triple_option [triples]:
  "(v = None \<Longrightarrow> triple P m Q) \<Longrightarrow> (\<And>y. v = Some y \<Longrightarrow> triple P (f y) Q)
     \<Longrightarrow> triple P (case v of None \<Rightarrow> m | Some y \<Rightarrow> f y) Q"
  by (cases v) auto

lemma triple_weaken: "triple P m R \<Longrightarrow> (\<And>s. P' s \<Longrightarrow> P s) \<Longrightarrow> (\<And>x s. R x s \<Longrightarrow> Q x s) \<Longrightarrow> triple P' m Q"
  unfolding triple_def by (fastforce split: prod.splits)

lemma triple_conj: "triple P m Q \<Longrightarrow> triple P' m Q' \<Longrightarrow> triple (\<lambda>s. P s \<and> P' s) m (\<lambda>x s. Q x s \<and> Q' x s)"
  unfolding triple_def by (auto split: prod.splits)

text \<open>An invariant of an operation.\<close>

abbreviation keeps :: "('s \<Rightarrow> bool) \<Rightarrow> ('s, 'a) state \<Rightarrow> bool" where
  "keeps I m \<equiv> triple I m (\<lambda>_. I)"

lemma keeps_return [triples]: "keeps I (State_Monad.return x)"
  by (simp add: triple_return)

lemma keeps_get [triples]: "keeps I State_Monad.get"
  by (simp add: triple_get)

lemma keeps_bind [triples]: "keeps I m \<Longrightarrow> (\<And>x. keeps I (f x)) \<Longrightarrow> keeps I (m \<bind> f)"
  by (rule triple_bind)

text \<open>
  Falling through: a stage that has an answer ends the whole, one that has none hands over to the
  next. This is the shape of Go code that returns early from the middle of a function.
\<close>

definition orelse :: "('s, 'a option) state \<Rightarrow> ('s, 'a option) state \<Rightarrow> ('s, 'a option) state" where
  "orelse m n = do { r \<leftarrow> m; case r of Some x \<Rightarrow> State_Monad.return (Some x) | None \<Rightarrow> n }"

lemma keeps_orelse [triples]: "keeps I m \<Longrightarrow> keeps I n \<Longrightarrow> keeps I (orelse m n)"
  unfolding orelse_def by (intro triples)

lemma triple_orelse:
  assumes "triple P m (\<lambda>r s. case r of Some x \<Rightarrow> Q (Some x) s | None \<Rightarrow> R s)" and "triple R n Q"
  shows "triple P (orelse m n) Q"
  unfolding orelse_def
proof (rule triple_bind [OF assms(1)])
  fix r
  show "triple (\<lambda>s. case r of Some x \<Rightarrow> Q (Some x) s | None \<Rightarrow> R s)
      (case r of Some x \<Rightarrow> State_Monad.return (Some x) | None \<Rightarrow> n) Q"
    using assms(2) by (cases r) (simp_all add: triple_return)
qed

end
