(* ===== verification/Recovery.thy ===== *)
theory Recovery
  imports State_Logic Modem
begin

text \<open>
  Modem health and recovery: \<open>internal/health/health.go\<close>, and from \<open>internal/service/service.go\<close> the health
  probe, the recovery ladder with its backoff, and \<open>checkHealth\<close>.

  The world is a strategy: what a call answers, whether the operation has been cancelled and whether
  the modem is enabled may depend on all the calls made so far. The state holds the health record and
  the log of calls, so a property can speak about what was done to the hardware, and when. Deadlines
  appear as the argument of a wait; a wait that runs out of time is one that fails.
\<close>

section \<open>health.go\<close>

definition MaxRecoveryAttempts :: nat where "MaxRecoveryAttempts = 5"
definition RecoveryWaitTime :: duration where "RecoveryWaitTime = 60 * second_ns"

datatype health_state = StateNormal | StateRecovering | StateRecoveryFailedWait | StatePermanentFailure

definition health_string :: "health_state \<Rightarrow> string" where
  "health_string st = (case st of StateNormal \<Rightarrow> ''normal'' | StateRecovering \<Rightarrow> ''recovering''
     | StateRecoveryFailedWait \<Rightarrow> ''recovery-failed-waiting-reboot''
     | StatePermanentFailure \<Rightarrow> ''permanent-failure-needs-replacement'')"

record Health =
  hl_RecoveryAttempts :: nat
  hl_LastRecoveryTime :: gotime
  hl_State :: health_state

definition Health_New :: Health where
  "Health_New = \<lparr>hl_RecoveryAttempts = 0, hl_LastRecoveryTime = zero_time, hl_State = StateNormal\<rparr>"

definition StartRecovery :: "gotime \<Rightarrow> Health \<Rightarrow> Health" where
  "StartRecovery now h = h\<lparr>hl_State := StateRecovering, hl_RecoveryAttempts := hl_RecoveryAttempts h + 1,
     hl_LastRecoveryTime := now\<rparr>"

definition MarkNormal :: "Health \<Rightarrow> Health" where
  "MarkNormal h = h\<lparr>hl_State := StateNormal, hl_RecoveryAttempts := 0\<rparr>"

definition FinishRecoveryAttempt :: "Health \<Rightarrow> bool \<times> Health" where
  "FinishRecoveryAttempt h =
     (if hl_State h \<noteq> StateRecovering then (False, h) else (True, h\<lparr>hl_State := StateNormal\<rparr>))"

definition MarkRecoveryFailed :: "Health \<Rightarrow> Health" where
  "MarkRecoveryFailed h =
     (if hl_RecoveryAttempts h \<ge> MaxRecoveryAttempts then h\<lparr>hl_State := StateRecoveryFailedWait\<rparr>
      else h\<lparr>hl_State := StatePermanentFailure\<rparr>)"

definition IsRecovering :: "Health \<Rightarrow> bool" where "IsRecovering h \<longleftrightarrow> hl_State h = StateRecovering"

definition IsTerminal :: "Health \<Rightarrow> bool" where
  "IsTerminal h \<longleftrightarrow> hl_State h = StateRecoveryFailedWait \<or> hl_State h = StatePermanentFailure"

definition CanRecover :: "Health \<Rightarrow> bool" where
  "CanRecover h \<longleftrightarrow> hl_RecoveryAttempts h < MaxRecoveryAttempts"

section \<open>The world\<close>

datatype rec_fault = ModemUnavailable | ModemRecoveryFailed

datatype rec_call =
    CFind | CPort | CPower | CReady | CInfo | CPresent | CStart
  | CWait duration | CSleep duration
  | CReset | CUsb | CGpio
  | CPublishHealth health_state | CRaise rec_fault | CClear rec_fault
  | CResetApnRetry | CResetGPS | CRearmSMS

text \<open>
  \<open>rv_cancelled\<close> is the context of the modem operation, which a disable command cancels; \<open>rv_stopped\<close> is
  that of the service. \<open>rv_info\<close> is the SIM state of \<open>GetModemInfo\<close>, \<open>None\<close> if it returned an error.
\<close>

record rec_env =
  rv_ok :: "rec_call list \<Rightarrow> rec_call \<Rightarrow> bool"
  rv_info :: "rec_call list \<Rightarrow> string option"
  rv_iface :: "rec_call list \<Rightarrow> bool"
  rv_usb_absent :: "rec_call list \<Rightarrow> bool"
  rv_cancelled :: "rec_call list \<Rightarrow> bool"
  rv_stopped :: "rec_call list \<Rightarrow> bool"
  rv_enabled :: "rec_call list \<Rightarrow> bool"
  rv_busy :: "rec_call list \<Rightarrow> bool"
  rv_now :: "rec_call list \<Rightarrow> gotime"

record recovery =
  rc_health :: Health
  rc_simMissing :: bool
  rc_gpsCount :: int
  rc_log :: "rec_call list"

definition recovery_init :: recovery where
  "recovery_init = \<lparr>rc_health = Health_New, rc_simMissing = False, rc_gpsCount = 0, rc_log = []\<rparr>"

type_synonym 'a rec_m = "(recovery, 'a) state"

definition ask :: "(rec_call list \<Rightarrow> 'a) \<Rightarrow> 'a rec_m" where
  "ask f = State (\<lambda>s. (f (rc_log s), s))"

definition perform :: "rec_env \<Rightarrow> rec_call \<Rightarrow> bool rec_m" where
  "perform env c = State (\<lambda>s. (rv_ok env (rc_log s) c, s\<lparr>rc_log := rc_log s @ [c]\<rparr>))"

definition notify :: "rec_env \<Rightarrow> rec_call \<Rightarrow> unit rec_m" where
  "notify env c = do { _ \<leftarrow> perform env c; State_Monad.return () }"

definition on_health :: "(Health \<Rightarrow> Health) \<Rightarrow> unit rec_m" where
  "on_health f = State_Monad.update (\<lambda>s. s\<lparr>rc_health := f (rc_health s)\<rparr>)"

definition get_health :: "Health rec_m" where
  "get_health = do { s \<leftarrow> State_Monad.get; State_Monad.return (rc_health s) }"

section \<open>Probing\<close>

definition hasMissingSIM :: "rec_env \<Rightarrow> bool rec_m" where
  "hasMissingSIM env = do {
     info \<leftarrow> ask (rv_info env);
     _ \<leftarrow> perform env CInfo;
     case info of
       None \<Rightarrow> do {
         present \<leftarrow> ask (rv_iface env);
         if \<not> present then do {
           _ \<leftarrow> State_Monad.update (\<lambda>s. s\<lparr>rc_simMissing := False\<rparr>);
           State_Monad.return False
         } else do { s \<leftarrow> State_Monad.get; State_Monad.return (rc_simMissing s) }
       }
     | Some sim \<Rightarrow> do {
         _ \<leftarrow> State_Monad.update (\<lambda>s. s\<lparr>rc_simMissing := (sim = SIMStateMissing)\<rparr>);
         State_Monad.return (sim = SIMStateMissing)
       }
   }"

text \<open>\<open>probeHealthError\<close>; the value says whether the probe passed.\<close>

definition probeHealth :: "rec_env \<Rightarrow> bool rec_m" where
  "probeHealth env = do {
     found \<leftarrow> perform env CFind;
     if \<not> found then State_Monad.return False else do {
       port \<leftarrow> perform env CPort;
       if \<not> port then State_Monad.return False else do {
         power \<leftarrow> perform env CPower;
         if \<not> power then State_Monad.return False else do {
           ready \<leftarrow> perform env CReady;
           if ready then State_Monad.return True else hasMissingSIM env
         }
       }
     }
   }"

definition publishHealthState :: "rec_env \<Rightarrow> unit rec_m" where
  "publishHealthState env = do { h \<leftarrow> get_health; notify env (CPublishHealth (hl_State h)) }"

definition recoverySucceeded :: "rec_env \<Rightarrow> unit rec_m" where
  "recoverySucceeded env = do {
     _ \<leftarrow> notify env CResetApnRetry;
     _ \<leftarrow> on_health MarkNormal;
     _ \<leftarrow> State_Monad.update (\<lambda>s. s\<lparr>rc_gpsCount := 0\<rparr>);
     _ \<leftarrow> notify env CResetGPS;
     _ \<leftarrow> publishHealthState env;
     _ \<leftarrow> notify env (CClear ModemUnavailable);
     _ \<leftarrow> notify env (CClear ModemRecoveryFailed);
     notify env CRearmSMS
   }"

section \<open>The recovery ladder\<close>

datatype rec_result =
    Recovered string | BackoffDone | ModemHealthy
  | RecCancelled | RecFailed | RecStopped | RecBusy | RecDisabled | RecTerminal

text \<open>A stage of the ladder returns the result that ends the attempt, or nothing and the next stage runs.\<close>

type_synonym stage = "rec_result option rec_m"

definition check_context :: "rec_env \<Rightarrow> stage" where
  "check_context env = do {
     c \<leftarrow> ask (rv_cancelled env);
     State_Monad.return (if c then Some RecCancelled else None)
   }"

definition confirm :: "rec_env \<Rightarrow> bool \<Rightarrow> string \<Rightarrow> stage" where
  "confirm env waited strategy =
     (if \<not> waited then State_Monad.return None else do {
        healthy \<leftarrow> probeHealth env;
        if healthy then do { _ \<leftarrow> recoverySucceeded env; State_Monad.return (Some (Recovered strategy)) }
        else State_Monad.return None
      })"

definition stabilize :: "rec_env \<Rightarrow> (rec_result option \<times> bool) rec_m" where
  "stabilize env = do {
     found \<leftarrow> perform env CFind;
     ready \<leftarrow> (if found then perform env CReady else State_Monad.return False);
     if ready then State_Monad.return (None, False) else do {
       w \<leftarrow> perform env (CWait RecoveryWaitTime);
       r \<leftarrow> confirm env w ''MM stabilization wait'';
       State_Monad.return (r, True)
     }
   }"

definition dbus_reset :: "rec_env \<Rightarrow> stage" where
  "dbus_reset env = do {
     found \<leftarrow> perform env CFind;
     if \<not> found then State_Monad.return None else do {
       ok \<leftarrow> perform env CReset;
       if \<not> ok then State_Monad.return None else do {
         _ \<leftarrow> perform env (CSleep RecoveryWaitTime);
         orelse (check_context env) (confirm env True ''D-Bus reset'')
       }
     }
   }"

definition usb_recovery :: "rec_env \<Rightarrow> bool \<Rightarrow> stage" where
  "usb_recovery env stabilizationWaited = do {
     absent \<leftarrow> ask (rv_usb_absent env);
     ok \<leftarrow> perform env CUsb;
     if ok then do {
       w \<leftarrow> perform env (CWait RecoveryWaitTime);
       confirm env w ''USB recovery''
     } else if absent \<and> \<not> stabilizationWaited then do {
       w \<leftarrow> perform env (CWait RecoveryWaitTime);
       confirm env w ''MM rebind wait''
     } else State_Monad.return None
   }"

definition gpio_restart :: "rec_env \<Rightarrow> stage" where
  "gpio_restart env = do {
     ok \<leftarrow> perform env CGpio;
     if \<not> ok then State_Monad.return None else do {
       w \<leftarrow> perform env (CWait RecoveryWaitTime);
       confirm env w ''GPIO restart''
     }
   }"

definition extended_wait :: "rec_env \<Rightarrow> stage" where
  "extended_wait env = do {
     _ \<leftarrow> perform env (CSleep (30 * second_ns));
     orelse (check_context env) (orelse (confirm env True ''extended wait'')
       (State_Monad.return (Some RecFailed)))
   }"

definition finish_attempt :: "rec_env \<Rightarrow> unit rec_m" where
  "finish_attempt env = do {
     h \<leftarrow> get_health;
     _ \<leftarrow> on_health (\<lambda>h. snd (FinishRecoveryAttempt h));
     if fst (FinishRecoveryAttempt h) then publishHealthState env else State_Monad.return ()
   }"

definition ladder :: "rec_env \<Rightarrow> stage" where
  "ladder env = do {
     r \<leftarrow> stabilize env;
     orelse (State_Monad.return (fst r))
      (orelse (dbus_reset env)
      (orelse (check_context env)
      (orelse (usb_recovery env (snd r))
      (orelse (check_context env)
      (orelse (gpio_restart env)
      (orelse (check_context env)
      (extended_wait env)))))))
   }"

text \<open>The body and the deferred function; \<open>None\<close> does not occur, since the last stage always ends.\<close>

definition attemptRecovery :: "rec_env \<Rightarrow> rec_result rec_m" where
  "attemptRecovery env = do {
     c \<leftarrow> ask (rv_cancelled env);
     if c then State_Monad.return RecCancelled else do {
       now \<leftarrow> ask (rv_now env);
       _ \<leftarrow> on_health (StartRecovery now);
       _ \<leftarrow> publishHealthState env;
       r \<leftarrow> ladder env;
       _ \<leftarrow> finish_attempt env;
       State_Monad.return (case r of Some x \<Rightarrow> x | None \<Rightarrow> RecFailed)
     }
   }"

definition completeRecoveryBackoff :: "rec_env \<Rightarrow> rec_result rec_m" where
  "completeRecoveryBackoff env = do {
     _ \<leftarrow> perform env (CSleep (2 * minute_ns));
     c \<leftarrow> ask (rv_cancelled env);
     _ \<leftarrow> on_health MarkNormal;
     _ \<leftarrow> publishHealthState env;
     State_Monad.return (if c then RecCancelled else BackoffDone)
   }"

definition handleModemFailure :: "rec_env \<Rightarrow> rec_result rec_m" where
  "handleModemFailure env = do {
     stopped \<leftarrow> ask (rv_stopped env);
     if stopped then State_Monad.return RecStopped else do {
       _ \<leftarrow> notify env (CRaise ModemUnavailable);
       busy \<leftarrow> ask (rv_busy env);
       enabled \<leftarrow> ask (rv_enabled env);
       if busy then State_Monad.return RecBusy
       else if \<not> enabled then State_Monad.return RecDisabled
       else do {
         h \<leftarrow> get_health;
         if \<not> CanRecover h then do {
           _ \<leftarrow> on_health MarkRecoveryFailed;
           _ \<leftarrow> publishHealthState env;
           _ \<leftarrow> notify env (CRaise ModemRecoveryFailed);
           completeRecoveryBackoff env
         } else attemptRecovery env
       }
     }
   }"

definition checkHealth :: "rec_env \<Rightarrow> rec_result rec_m" where
  "checkHealth env = do {
     stopped \<leftarrow> ask (rv_stopped env);
     if stopped then State_Monad.return RecStopped else do {
       healthy \<leftarrow> probeHealth env;
       h \<leftarrow> get_health;
       if \<not> healthy then
         (if IsTerminal h then State_Monad.return RecTerminal else handleModemFailure env)
       else do {
         _ \<leftarrow> on_health MarkNormal;
         missing \<leftarrow> hasMissingSIM env;
         if missing then State_Monad.return ModemHealthy else do {
           _ \<leftarrow> notify env (CClear ModemUnavailable);
           _ \<leftarrow> notify env (CClear ModemRecoveryFailed);
           State_Monad.return ModemHealthy
         }
       }
     }
   }"

section \<open>What is done to the hardware\<close>

text \<open>The three actions of rising cost, and the operations whose actions are, in order, some of a list.\<close>

fun is_action :: "rec_call \<Rightarrow> bool" where
  "is_action CReset \<longleftrightarrow> True"
| "is_action CUsb \<longleftrightarrow> True"
| "is_action CGpio \<longleftrightarrow> True"
| "is_action _ \<longleftrightarrow> False"

definition does :: "rec_call list \<Rightarrow> 'a rec_m \<Rightarrow> bool" where
  "does L m \<longleftrightarrow> (\<forall>s. \<exists>l. rc_log (snd (run_state m s)) = rc_log s @ l \<and> subseq (filter is_action l) L)"

named_theorems acts \<open>rules for the hardware actions of an operation\<close>

lemma does_return [acts]: "does [] (State_Monad.return x)"
  by (simp add: does_def)

lemma does_ask [acts]: "does [] (ask f)"
  by (simp add: does_def ask_def)

lemma does_get [acts]: "does [] State_Monad.get"
  by (simp add: does_def State_Monad.get_def)

lemma does_update:
  "(\<And>s. rc_log (f s) = rc_log s) \<Longrightarrow> does [] (State_Monad.update f)"
  by (simp add: does_def State_Monad.update_def State_Monad.get_def State_Monad.set_def)

lemma does_on_health [acts]: "does [] (on_health f)"
  unfolding on_health_def by (rule does_update) simp

lemma does_perform [acts]: "\<not> is_action c \<Longrightarrow> does [] (perform env c)"
  by (simp add: does_def perform_def)

lemma does_action: "does [c] (perform env c)"
  by (auto simp: does_def perform_def)

lemma does_bind:
  assumes "does L m" and "\<And>x. does K (f x)"
  shows "does (L @ K) (m \<bind> f)"
  unfolding does_def
proof
  fix s
  obtain x s1 where m: "run_state m s = (x, s1)" by fastforce
  from assms(1) m obtain l where l: "rc_log s1 = rc_log s @ l" "subseq (filter is_action l) L"
    unfolding does_def by (metis snd_conv)
  from assms(2) obtain k where "rc_log (snd (run_state (f x) s1)) = rc_log s1 @ k" "subseq (filter is_action k) K"
    unfolding does_def by meson
  with m l show "\<exists>l. rc_log (snd (run_state (m \<bind> f) s)) = rc_log s @ l \<and> subseq (filter is_action l) (L @ K)"
    by (auto intro!: list_emb_append_mono)
qed

lemma does_bind_none [acts]: "does [] m \<Longrightarrow> (\<And>x. does [] (f x)) \<Longrightarrow> does [] (m \<bind> f)"
  using does_bind [of "[]" m "[]" f] by simp

lemma does_more: "does L m \<Longrightarrow> subseq L K \<Longrightarrow> does K m"
  unfolding does_def by (meson subseq_order.order_trans)

lemma does_none: "does [] m \<Longrightarrow> does L m"
  by (erule does_more) (rule list_emb_Nil)

lemma does_if [acts]: "(b \<Longrightarrow> does L m) \<Longrightarrow> (\<not> b \<Longrightarrow> does L n) \<Longrightarrow> does L (if b then m else n)"
  by simp

lemma does_option [acts]:
  "does L m \<Longrightarrow> (\<And>y. does L (f y)) \<Longrightarrow> does L (case v of None \<Rightarrow> m | Some y \<Rightarrow> f y)"
  by (cases v) simp_all

lemma does_orelse: "does L m \<Longrightarrow> does K n \<Longrightarrow> does (L @ K) (orelse m n)"
  unfolding orelse_def by (intro does_bind) (auto intro!: does_option intro: does_none does_return)

lemma does_orelse_none [acts]: "does [] m \<Longrightarrow> does [] n \<Longrightarrow> does [] (orelse m n)"
  using does_orelse [of "[]" m "[]" n] by simp

lemma does_quiet [acts]:
  "does [] get_health" "does [] (hasMissingSIM env)"
  "\<not> is_action c \<Longrightarrow> does [] (notify env c)"
  unfolding get_health_def hasMissingSIM_def notify_def by (intro acts does_update; simp)+

lemma does_probe [acts]: "does [] (probeHealth env)"
  unfolding probeHealth_def by (intro acts; simp)

lemma does_publish [acts]: "does [] (publishHealthState env)"
  unfolding publishHealthState_def by (intro acts; simp)

lemma does_succeeded [acts]: "does [] (recoverySucceeded env)"
  unfolding recoverySucceeded_def by (intro acts does_update; simp)

lemma does_stages [acts]:
  "does [] (check_context env)" "does [] (confirm env w n)" "does [] (stabilize env)"
  "does [] (extended_wait env)" "does [] (finish_attempt env)"
  unfolding check_context_def confirm_def stabilize_def extended_wait_def finish_attempt_def
  by (intro acts; simp)+

lemma does_then: "does L m \<Longrightarrow> (\<And>x. does [] (f x)) \<Longrightarrow> does L (m \<bind> f)"
  using does_bind [of L m "[]" f] by simp

lemma does_after: "does [] m \<Longrightarrow> (\<And>x. does L (f x)) \<Longrightarrow> does L (m \<bind> f)"
  using does_bind [of "[]" m L f] by simp

lemma does_dbus: "does [CReset] (dbus_reset env)"
  unfolding dbus_reset_def
  by (rule does_after) (auto intro!: does_then does_action acts intro: does_none)

lemma does_usb: "does [CUsb] (usb_recovery env w)"
  unfolding usb_recovery_def
  by (rule does_after) (auto intro!: does_then does_action acts)

lemma does_gpio: "does [CGpio] (gpio_restart env)"
  unfolding gpio_restart_def
  by (auto intro!: does_then does_action acts)

lemma does_ladder: "does [CReset, CUsb, CGpio] (ladder env)"
proof -
  have "does ([] @ [CReset] @ [] @ [CUsb] @ [] @ [CGpio] @ [] @ []) (ladder env)"
    unfolding ladder_def
    by (intro does_after does_orelse acts does_dbus does_usb does_gpio)
  then show ?thesis by simp
qed

lemma does_attempt: "does [CReset, CUsb, CGpio] (attemptRecovery env)"
  unfolding attemptRecovery_def
  by (rule does_after [OF does_ask], rule does_if, rule does_none [OF does_return], rule does_after [OF does_ask],
      rule does_after [OF does_on_health], rule does_after [OF does_publish], rule does_then [OF does_ladder],
      intro acts)

lemma does_checkHealth: "does [CReset, CUsb, CGpio] (checkHealth env)"
proof -
  have b: "does [] (completeRecoveryBackoff env)"
    unfolding completeRecoveryBackoff_def by (intro acts; simp)
  have h: "does [CReset, CUsb, CGpio] (handleModemFailure env)"
    unfolding handleModemFailure_def
    by (rule does_after [OF does_ask], rule does_if, rule does_none [OF does_return],
        rule does_after [OF does_quiet(3)], simp, rule does_after [OF does_ask], rule does_after [OF does_ask],
        rule does_if, rule does_none [OF does_return], rule does_if, rule does_none [OF does_return],
        rule does_after [OF does_quiet(1)], rule does_if, rule does_none, (intro acts b; simp),
        rule does_attempt)
  show ?thesis
    unfolding checkHealth_def
    by (rule does_after [OF does_ask], rule does_if, rule does_none [OF does_return],
        rule does_after [OF does_probe], rule does_after [OF does_quiet(1)], rule does_if,
        rule does_if, rule does_none [OF does_return], rule h, rule does_none, (intro acts; simp))
qed

section \<open>What a success rests on\<close>

text \<open>A probe that found the modem on the bus, on its port and powered, and ready unless the SIM is missing.\<close>

definition healthy_at :: "rec_env \<Rightarrow> rec_call list \<Rightarrow> bool" where
  "healthy_at env l \<longleftrightarrow> (\<exists>g r. l = g @ [CFind, CPort, CPower, CReady] @ r
     \<and> rv_ok env g CFind \<and> rv_ok env (g @ [CFind]) CPort \<and> rv_ok env (g @ [CFind, CPort]) CPower
     \<and> (rv_ok env (g @ [CFind, CPort, CPower]) CReady \<or> (\<exists>r'. r = CInfo # r')))"

lemma healthy_atI:
  assumes "rv_ok env g CFind" "rv_ok env (g @ [CFind]) CPort" "rv_ok env (g @ [CFind, CPort]) CPower"
  shows "rv_ok env (g @ [CFind, CPort, CPower]) CReady \<Longrightarrow> healthy_at env (g @ [CFind, CPort, CPower, CReady])"
    and "healthy_at env (g @ [CFind, CPort, CPower, CReady, CInfo])"
  unfolding healthy_at_def using assms by fastforce+

lemma healthy_at_more: "healthy_at env l \<Longrightarrow> healthy_at env (l @ k)"
  unfolding healthy_at_def by (metis append.assoc append_Cons)

lemma does_extends:
  assumes "does L m"
  obtains l where "rc_log (snd (run_state m s)) = rc_log s @ l"
  using assms unfolding does_def by blast

lemma healthy_kept: "does L m \<Longrightarrow> keeps (\<lambda>s. healthy_at env (rc_log s)) m"
  by (rule tripleI) (metis does_extends healthy_at_more snd_conv)

lemma probe_healthy: "triple (\<lambda>_. True) (probeHealth env) (\<lambda>b s. b \<longrightarrow> healthy_at env (rc_log s))"
proof (rule tripleI)
  fix s b t
  assume r: "run_state (probeHealth env) s = (b, t)"
  obtain i u where hm: "run_state (hasMissingSIM env) (s\<lparr>rc_log := rc_log s @ [CFind, CPort, CPower, CReady]\<rparr>) = (i, u)"
    by fastforce
  then have l: "rc_log u = rc_log s @ [CFind, CPort, CPower, CReady] @ CInfo # []"
    by (auto simp: hasMissingSIM_def ask_def perform_def State_Monad.update_def State_Monad.get_def
        State_Monad.set_def split: option.splits if_splits)
  show "b \<longrightarrow> healthy_at env (rc_log t)"
    using r hm l by (auto simp: probeHealth_def perform_def split: if_splits intro: healthy_atI)
qed

text \<open>The results that claim a working modem.\<close>

definition claims_healthy :: "rec_result \<Rightarrow> bool" where
  "claims_healthy r \<longleftrightarrow> r = ModemHealthy \<or> (\<exists>x. r = Recovered x)"

text \<open>A stage whose success is confirmed; it stays confirmed whatever precedes or follows.\<close>

abbreviation confirmed :: "rec_env \<Rightarrow> stage \<Rightarrow> bool" where
  "confirmed env m \<equiv> triple (\<lambda>_. True) m (\<lambda>r s. \<forall>x. r = Some x \<and> claims_healthy x \<longrightarrow> healthy_at env (rc_log s))"

lemma triple_any: "triple P m (\<lambda>_ _. True)"
  by (simp add: triple_def split: prod.split)

lemma confirm_healthy: "confirmed env (confirm env w n)"
proof (cases w)
  case True
  have "triple (\<lambda>s. healthy_at env (rc_log s))
      (do { _ \<leftarrow> recoverySucceeded env; State_Monad.return (Some (Recovered n)) })
      (\<lambda>r s. \<forall>x. r = Some x \<and> claims_healthy x \<longrightarrow> healthy_at env (rc_log s))"
    by (rule triple_bind [OF healthy_kept [OF does_succeeded]]) (simp add: triple_return)
  with True show ?thesis
    unfolding confirm_def
    by (auto intro!: triple_bind [OF probe_healthy] triple_return elim!: triple_weaken split: if_splits)
qed (simp add: confirm_def triple_return)

lemma confirmed_none: "(\<And>x. v = Some x \<Longrightarrow> \<not> claims_healthy x) \<Longrightarrow> confirmed env (State_Monad.return v)"
  by (auto intro: triple_return)

lemma confirmed_bind: "(\<And>x. confirmed env (f x)) \<Longrightarrow> confirmed env (m \<bind> f)"
  by (rule triple_bind [OF triple_any])

lemma confirmed_if: "confirmed env m \<Longrightarrow> confirmed env n \<Longrightarrow> confirmed env (if b then m else n)"
  by simp

lemma confirmed_orelse: "confirmed env m \<Longrightarrow> confirmed env n \<Longrightarrow> confirmed env (orelse m n)"
  by (rule triple_orelse [where R = "\<lambda>_. True"]) (auto elim!: triple_weaken split: option.split)

lemmas confirmed_rules = confirmed_none confirmed_if confirmed_orelse confirm_healthy

lemma claims_healthy_simps [simp]:
  "\<not> claims_healthy RecCancelled" "\<not> claims_healthy RecFailed" "\<not> claims_healthy RecStopped"
  "\<not> claims_healthy RecBusy" "\<not> claims_healthy RecDisabled" "\<not> claims_healthy RecTerminal"
  "\<not> claims_healthy BackoffDone"
  by (simp_all add: claims_healthy_def)

lemma confirmed_stages:
  "confirmed env (check_context env)" "confirmed env (dbus_reset env)" "confirmed env (usb_recovery env w)"
  "confirmed env (gpio_restart env)" "confirmed env (extended_wait env)"
  unfolding check_context_def dbus_reset_def usb_recovery_def gpio_restart_def extended_wait_def
  by (intro confirmed_bind confirmed_rules; simp split: if_splits)+

lemma stabilize_confirmed:
  "triple (\<lambda>_. True) (stabilize env) (\<lambda>r s. \<forall>x. fst r = Some x \<and> claims_healthy x \<longrightarrow> healthy_at env (rc_log s))"
proof -
  have c: "triple (\<lambda>_. True) (do { r \<leftarrow> confirm env w n; State_Monad.return (r, True) })
      (\<lambda>r s. \<forall>x. fst r = Some x \<and> claims_healthy x \<longrightarrow> healthy_at env (rc_log s))" for w n
    by (rule triple_bind [OF confirm_healthy]) (simp add: triple_return)
  show ?thesis
    unfolding stabilize_def
    by (rule triple_bind [OF triple_any], rule triple_bind [OF triple_any], rule triple_if,
        simp add: triple_return, rule triple_bind [OF triple_any], rule c)
qed

lemma ladder_confirmed: "confirmed env (ladder env)"
  unfolding ladder_def
proof (rule triple_bind [OF stabilize_confirmed])
  fix r :: "rec_result option \<times> bool"
  let ?R = "orelse (dbus_reset env) (orelse (check_context env) (orelse (usb_recovery env (snd r))
      (orelse (check_context env) (orelse (gpio_restart env) (orelse (check_context env) (extended_wait env))))))"
  have rest: "confirmed env ?R" by (intro confirmed_orelse confirmed_stages)
  show "triple (\<lambda>s. \<forall>x. fst r = Some x \<and> claims_healthy x \<longrightarrow> healthy_at env (rc_log s))
      (orelse (State_Monad.return (fst r)) ?R) (\<lambda>r s. \<forall>x. r = Some x \<and> claims_healthy x \<longrightarrow> healthy_at env (rc_log s))"
    by (rule triple_orelse [OF triple_return rest]) (simp split: option.split)
qed

abbreviation sound_result :: "rec_env \<Rightarrow> rec_result rec_m \<Rightarrow> bool" where
  "sound_result env m \<equiv> triple (\<lambda>_. True) m (\<lambda>r s. claims_healthy r \<longrightarrow> healthy_at env (rc_log s))"

lemma sound_return: "\<not> claims_healthy r \<Longrightarrow> sound_result env (State_Monad.return r)"
  by (auto intro: triple_return)

lemma sound_bind: "(\<And>x. sound_result env (f x)) \<Longrightarrow> sound_result env (m \<bind> f)"
  by (rule triple_bind [OF triple_any])

lemma sound_if: "sound_result env m \<Longrightarrow> sound_result env n \<Longrightarrow> sound_result env (if b then m else n)"
  by simp

lemma attempt_sound: "sound_result env (attemptRecovery env)"
proof -
  have t: "triple (\<lambda>s. \<forall>x. r = Some x \<and> claims_healthy x \<longrightarrow> healthy_at env (rc_log s))
      (do { _ \<leftarrow> finish_attempt env; State_Monad.return (case r of Some x \<Rightarrow> x | None \<Rightarrow> RecFailed) })
      (\<lambda>r s. claims_healthy r \<longrightarrow> healthy_at env (rc_log s))" for r
  proof (cases "\<exists>x. r = Some x \<and> claims_healthy x")
    case True
    then have "triple (\<lambda>s. healthy_at env (rc_log s))
      (do { _ \<leftarrow> finish_attempt env; State_Monad.return (case r of Some x \<Rightarrow> x | None \<Rightarrow> RecFailed) })
      (\<lambda>r s. claims_healthy r \<longrightarrow> healthy_at env (rc_log s))"
      by (intro triple_bind [OF healthy_kept [OF does_stages(5)]]) (simp add: triple_return)
    with True show ?thesis by (auto elim!: triple_weaken)
  next
    case False
    then show ?thesis
      by (intro triple_bind [OF triple_any] triple_return) (auto split: option.splits)
  qed
  show ?thesis
    unfolding attemptRecovery_def
    by (intro sound_bind sound_if sound_return triple_bind [OF ladder_confirmed] t; simp)
qed

lemma checkHealth_sound: "sound_result env (checkHealth env)"
proof -
  have h: "sound_result env (handleModemFailure env)"
    unfolding handleModemFailure_def completeRecoveryBackoff_def
    by (intro sound_bind sound_if attempt_sound sound_return; simp)
  have ok: "triple (\<lambda>s. healthy_at env (rc_log s)) m (\<lambda>r s. claims_healthy r \<longrightarrow> healthy_at env (rc_log s))"
    if "does [] m" for m :: "rec_result rec_m"
    using healthy_kept [OF that, of env] by (rule triple_weaken) blast+
  have p: "triple (\<lambda>s. b \<longrightarrow> healthy_at env (rc_log s)) (if \<not> b then m else n)
      (\<lambda>r s. claims_healthy r \<longrightarrow> healthy_at env (rc_log s))"
    if "sound_result env m" "does [] n" for b m n
    using that(1) ok [OF that(2)] by (cases b) auto
  have k: "triple (\<lambda>s. b \<longrightarrow> healthy_at env (rc_log s)) get_health (\<lambda>_ s. b \<longrightarrow> healthy_at env (rc_log s))" for b
    using healthy_kept [OF does_quiet(1), of env] by (cases b) (auto simp: triple_any)
  show ?thesis
    unfolding checkHealth_def
    by (rule sound_bind, rule sound_if, simp add: sound_return, rule triple_bind [OF probe_healthy],
        rule triple_bind [OF k], rule p) (intro sound_if h sound_return acts; simp)+
qed

section \<open>Cancellation\<close>

text \<open>
  No USB or GPIO action is taken under a cancelled context. (The D-Bus reset is not guarded in
  this way, see below.)
\<close>

definition guarded :: "rec_env \<Rightarrow> rec_call list \<Rightarrow> bool" where
  "guarded env l \<longleftrightarrow> (\<forall>g c r. l = g @ c # r \<longrightarrow> c \<in> {CUsb, CGpio} \<longrightarrow> \<not> rv_cancelled env g)"

lemma guarded_append:
  "guarded env l \<Longrightarrow> CUsb \<notin> set k \<Longrightarrow> CGpio \<notin> set k \<Longrightarrow> guarded env (l @ k)"
  unfolding guarded_def by (auto simp: append_eq_append_conv2 append_eq_Cons_conv Cons_eq_append_conv)

lemma guarded_one: "guarded env l \<Longrightarrow> \<not> rv_cancelled env l \<Longrightarrow> guarded env (l @ [c])"
  unfolding guarded_def by (auto simp: append_eq_append_conv2 append_eq_Cons_conv Cons_eq_append_conv)

lemma keeps_guarded:
  assumes "does L m" and "CUsb \<notin> set L" and "CGpio \<notin> set L"
  shows "keeps (\<lambda>s. guarded env (rc_log s)) m"
proof (rule tripleI)
  fix s x t
  assume g: "guarded env (rc_log s)" and r: "run_state m s = (x, t)"
  from assms(1) r obtain l where l: "rc_log t = rc_log s @ l" "subseq (filter is_action l) L"
    unfolding does_def by (metis snd_conv)
  have "set (filter is_action l) \<subseteq> set L" using l(2) by (auto dest: list_emb_set)
  with assms(2,3) have "CUsb \<notin> set l" "CGpio \<notin> set l" by auto
  with g l(1) show "guarded env (rc_log t)" by (simp add: guarded_append)
qed

lemma keeps_guarded_quiet: "does [] m \<Longrightarrow> keeps (\<lambda>s. guarded env (rc_log s)) m"
  by (erule keeps_guarded) simp_all

text \<open>An action that is taken right after a look at the context.\<close>

lemma triple_guarded_action:
  assumes "\<And>x. keeps (\<lambda>s. guarded env (rc_log s)) (f x)"
  shows "triple (\<lambda>s. guarded env (rc_log s) \<and> \<not> rv_cancelled env (rc_log s)) (perform env c \<bind> f)
    (\<lambda>_ s. guarded env (rc_log s))"
  by (rule triple_bind [where R = "\<lambda>_ s. guarded env (rc_log s)"])
    (auto simp: perform_def intro!: triple_State guarded_one assms)

lemma triple_check_context:
  assumes "triple (\<lambda>s. G s \<and> \<not> rv_cancelled env (rc_log s)) m (\<lambda>_. G)"
  shows "keeps G (orelse (check_context env) m)"
proof (rule triple_orelse [OF _ assms])
  show "triple G (check_context env)
      (\<lambda>r s. case r of None \<Rightarrow> G s \<and> \<not> rv_cancelled env (rc_log s) | Some x \<Rightarrow> G s)"
    unfolding check_context_def ask_def by (rule tripleI) auto
qed

lemma triple_orelse_pre:
  "triple P m (\<lambda>_. G) \<Longrightarrow> keeps G n \<Longrightarrow> triple P (orelse m n) (\<lambda>_. G)"
  by (rule triple_orelse) (auto elim!: triple_weaken split: option.split)

lemma ladder_guarded: "keeps (\<lambda>s. guarded env (rc_log s)) (ladder env)"
proof -
  note q = keeps_guarded_quiet
  have usb: "triple (\<lambda>s. guarded env (rc_log s) \<and> \<not> rv_cancelled env (rc_log s)) (usb_recovery env w)
      (\<lambda>_ s. guarded env (rc_log s))" for w
    unfolding usb_recovery_def
    by (rule triple_bind [where R = "\<lambda>_ s. guarded env (rc_log s) \<and> \<not> rv_cancelled env (rc_log s)"],
        simp add: ask_def triple_State, rule triple_guarded_action, rule q, (intro acts; simp))
  have gpio: "triple (\<lambda>s. guarded env (rc_log s) \<and> \<not> rv_cancelled env (rc_log s)) (gpio_restart env)
      (\<lambda>_ s. guarded env (rc_log s))"
    unfolding gpio_restart_def by (rule triple_guarded_action, rule q, (intro acts; simp))
  have dbus: "keeps (\<lambda>s. guarded env (rc_log s)) (dbus_reset env)"
    by (rule keeps_guarded [OF does_dbus]) simp_all
  show ?thesis
    unfolding ladder_def
    by (intro keeps_bind keeps_orelse q does_stages dbus triple_check_context triple_orelse_pre usb gpio
        does_return)
qed

lemma checkHealth_guarded: "keeps (\<lambda>s. guarded env (rc_log s)) (checkHealth env)"
proof -
  note q = keeps_guarded_quiet
  have a: "keeps (\<lambda>s. guarded env (rc_log s)) (attemptRecovery env)"
    unfolding attemptRecovery_def by (intro keeps_bind triple_if ladder_guarded q acts)
  have h: "keeps (\<lambda>s. guarded env (rc_log s)) (handleModemFailure env)"
    unfolding handleModemFailure_def completeRecoveryBackoff_def
    by (intro keeps_bind triple_if a q acts; simp)
  show ?thesis
    unfolding checkHealth_def by (intro keeps_bind triple_if h q acts; simp)
qed

section \<open>Counting attempts\<close>

text \<open>Operations that leave the health record alone.\<close>

definition no_health :: "'a rec_m \<Rightarrow> bool" where
  "no_health m \<longleftrightarrow> (\<forall>s. rc_health (snd (run_state m s)) = rc_health s)"

lemma no_health_basic [acts]:
  "no_health (State_Monad.return x)" "no_health (ask f)" "no_health (perform env c)" "no_health State_Monad.get"
  by (simp_all add: no_health_def ask_def perform_def State_Monad.get_def)

lemma no_health_update: "(\<And>s. rc_health (f s) = rc_health s) \<Longrightarrow> no_health (State_Monad.update f)"
  by (simp add: no_health_def State_Monad.update_def State_Monad.get_def State_Monad.set_def)

lemma no_health_bind [acts]: "no_health m \<Longrightarrow> (\<And>x. no_health (f x)) \<Longrightarrow> no_health (m \<bind> f)"
  by (simp add: no_health_def split: prod.split) (metis snd_conv)

lemma no_health_if [acts]: "no_health m \<Longrightarrow> no_health n \<Longrightarrow> no_health (if b then m else n)"
  by simp

lemma no_health_option [acts]:
  "no_health m \<Longrightarrow> (\<And>y. no_health (f y)) \<Longrightarrow> no_health (case v of None \<Rightarrow> m | Some y \<Rightarrow> f y)"
  by (cases v) simp_all

lemma no_health_ops [acts]:
  "no_health get_health" "no_health (hasMissingSIM env)" "no_health (notify env c)"
  unfolding get_health_def hasMissingSIM_def notify_def by (intro acts no_health_update; simp)+

lemma no_health_probe [acts]: "no_health (probeHealth env)" "no_health (publishHealthState env)"
  unfolding probeHealth_def publishHealthState_def by (intro acts)+

text \<open>A stage changes the health record only by marking it normal, and then it reports success.\<close>

abbreviation health_is :: "Health \<Rightarrow> recovery \<Rightarrow> bool" where
  "health_is h s \<equiv> rc_health s = h"

definition stage_health :: "Health \<Rightarrow> rec_result option \<Rightarrow> Health" where
  "stage_health h r = (case r of Some x \<Rightarrow> if claims_healthy x then MarkNormal h else h | None \<Rightarrow> h)"

definition stage_value :: "rec_result option \<Rightarrow> bool" where
  "stage_value r \<longleftrightarrow> (\<forall>x. r = Some x \<longrightarrow> claims_healthy x \<or> x = RecCancelled \<or> x = RecFailed)"

definition stage_post :: "Health \<Rightarrow> rec_result option \<Rightarrow> recovery \<Rightarrow> bool" where
  "stage_post h r s \<longleftrightarrow> rc_health s = stage_health h r \<and> stage_value r"

abbreviation stage_marks :: "stage \<Rightarrow> bool" where
  "stage_marks m \<equiv> (\<forall>h. triple (health_is h) m (stage_post h))"

lemmas stage_defs = stage_post_def stage_health_def stage_value_def

lemma health_kept: "no_health m \<Longrightarrow> triple (health_is h) m (\<lambda>_. health_is h)"
  by (rule tripleI) (metis no_health_def snd_conv)

lemma health_set: "triple (health_is h) (on_health f) (\<lambda>_. health_is (f h))"
  by (auto simp: on_health_def intro!: triple_update)

lemma marks_return: "v \<in> {None, Some RecCancelled, Some RecFailed} \<Longrightarrow> stage_marks (State_Monad.return v)"
  by (auto simp: stage_defs intro!: triple_return)

lemma marks_bind: "no_health m \<Longrightarrow> (\<And>x. stage_marks (f x)) \<Longrightarrow> stage_marks (m \<bind> f)"
  by (intro allI) (rule triple_bind [OF health_kept], auto)

lemma marks_if: "stage_marks m \<Longrightarrow> stage_marks n \<Longrightarrow> stage_marks (if b then m else n)"
  by simp

lemma marks_orelse: "stage_marks m \<Longrightarrow> stage_marks n \<Longrightarrow> stage_marks (orelse m n)"
proof
  fix h
  assume m: "stage_marks m" and n: "stage_marks n"
  have "triple (health_is h) m (\<lambda>r s. case r of Some x \<Rightarrow> stage_post h (Some x) s | None \<Rightarrow> health_is h s)"
    using m [THEN spec, of h] by (rule triple_weaken) (auto simp: stage_defs split: option.splits)
  then show "triple (health_is h) (orelse m n) (stage_post h)"
    by (rule triple_orelse) (rule n [THEN spec])
qed

lemma succeeded_marks: "triple (health_is h) (recoverySucceeded env) (\<lambda>_. health_is (MarkNormal h))"
  unfolding recoverySucceeded_def
  by (rule triple_bind [OF health_kept], intro acts, rule triple_bind [OF health_set], rule health_kept,
      intro acts no_health_update, simp)

lemma marks_confirm: "stage_marks (confirm env w n)"
proof -
  have c: "stage_marks (do { _ \<leftarrow> recoverySucceeded env; State_Monad.return (Some (Recovered n)) })"
    by (intro allI triple_bind [OF succeeded_marks]) (simp add: triple_return stage_defs claims_healthy_def)
  show ?thesis
    unfolding confirm_def by (intro c marks_if marks_bind marks_return acts) simp_all
qed

lemma marks_stages:
  "stage_marks (check_context env)" "stage_marks (dbus_reset env)" "stage_marks (usb_recovery env w)"
  "stage_marks (gpio_restart env)" "stage_marks (extended_wait env)"
proof -
  show c: "stage_marks (check_context env)"
    unfolding check_context_def by (intro marks_bind marks_return acts) (auto split: if_splits)
  show "stage_marks (dbus_reset env)" "stage_marks (usb_recovery env w)" "stage_marks (gpio_restart env)"
    unfolding dbus_reset_def usb_recovery_def gpio_restart_def
    by (intro marks_bind marks_if marks_return marks_orelse marks_confirm c acts; simp)+
  show "stage_marks (extended_wait env)"
    unfolding extended_wait_def
    by (intro marks_bind marks_orelse marks_return marks_confirm c acts) simp_all
qed

lemma marks_ladder: "stage_marks (ladder env)"
proof
  fix h
  have st: "triple (health_is h) (stabilize env) (\<lambda>r. stage_post h (fst r))"
  proof -
    have c: "triple (health_is h) (do { r \<leftarrow> confirm env w n; State_Monad.return (r, True) })
        (\<lambda>r. stage_post h (fst r))" for w n
      by (rule triple_bind [OF marks_confirm [THEN spec]]) (simp add: triple_return)
    show ?thesis
      unfolding stabilize_def
      by (rule triple_bind [OF health_kept], intro acts, rule triple_bind [OF health_kept], intro acts,
          rule triple_if, simp add: triple_return stage_defs, rule triple_bind [OF health_kept],
          intro acts, rule c)
  qed
  show "triple (health_is h) (ladder env) (stage_post h)"
    unfolding ladder_def
  proof (rule triple_bind [OF st])
    fix r :: "rec_result option \<times> bool"
    let ?R = "orelse (dbus_reset env) (orelse (check_context env) (orelse (usb_recovery env (snd r))
        (orelse (check_context env) (orelse (gpio_restart env) (orelse (check_context env) (extended_wait env))))))"
    have rest: "stage_marks ?R" by (intro marks_orelse marks_stages)
    show "triple (stage_post h (fst r)) (orelse (State_Monad.return (fst r)) ?R) (stage_post h)"
      by (rule triple_orelse [OF triple_return rest [THEN spec]])
        (auto simp: stage_defs split: option.splits)
  qed
qed

section \<open>The effect of a round on the health record\<close>

definition normal_with :: "nat \<Rightarrow> Health \<Rightarrow> bool" where
  "normal_with n h \<longleftrightarrow> hl_RecoveryAttempts h = n \<and> hl_State h = StateNormal"

definition round_effect :: "Health \<Rightarrow> rec_result \<Rightarrow> Health \<Rightarrow> bool" where
  "round_effect h0 r h \<longleftrightarrow>
     (if r \<in> {RecStopped, RecBusy, RecDisabled, RecTerminal} then h = h0
      else if claims_healthy r \<or> r = BackoffDone then normal_with 0 h
      else if r = RecFailed then CanRecover h0 \<and> normal_with (hl_RecoveryAttempts h0 + 1) h
      else h = h0 \<or> normal_with 0 h \<or> CanRecover h0 \<and> normal_with (hl_RecoveryAttempts h0 + 1) h)"

lemma normal_MarkNormal [simp]: "normal_with 0 (MarkNormal h)"
  by (simp add: normal_with_def MarkNormal_def)

lemma finish_effect:
  "triple (health_is h) (finish_attempt env) (\<lambda>_. health_is (snd (FinishRecoveryAttempt h)))"
  unfolding finish_attempt_def
  by (rule triple_bind [OF health_kept], intro acts, rule triple_bind [OF health_set], rule health_kept, intro acts)

lemma FinishRecoveryAttempt_cases:
  "snd (FinishRecoveryAttempt (MarkNormal h)) = MarkNormal h"
  "normal_with (hl_RecoveryAttempts h + 1) (snd (FinishRecoveryAttempt (StartRecovery now h)))"
  by (simp_all add: FinishRecoveryAttempt_def MarkNormal_def StartRecovery_def normal_with_def)

lemma attempt_effect:
  assumes "CanRecover h"
  shows "triple (health_is h) (attemptRecovery env) (\<lambda>r s. round_effect h r (rc_health s))"
proof -
  have e: "triple (stage_post (StartRecovery now h) r)
      (do { _ \<leftarrow> finish_attempt env; State_Monad.return (case r of Some x \<Rightarrow> x | None \<Rightarrow> RecFailed) })
      (\<lambda>r s. round_effect h r (rc_health s))" for now r
  proof (cases "stage_value r")
    case True
    let ?h = "stage_health (StartRecovery now h) r"
    have "triple (health_is ?h) (do { _ \<leftarrow> finish_attempt env;
        State_Monad.return (case r of Some x \<Rightarrow> x | None \<Rightarrow> RecFailed) })
        (\<lambda>r s. round_effect h r (rc_health s))"
      by (rule triple_bind [OF finish_effect], rule triple_return)
        (use True assms FinishRecoveryAttempt_cases(1) FinishRecoveryAttempt_cases(2) [of h] in
          \<open>auto simp: stage_defs round_effect_def split: option.splits if_splits\<close>)
    then show ?thesis by (rule triple_weaken) (auto simp: stage_post_def)
  qed (simp add: triple_def stage_post_def)
  have "triple (health_is h) (if c then State_Monad.return RecCancelled else do {
       now \<leftarrow> ask (rv_now env); _ \<leftarrow> on_health (StartRecovery now); _ \<leftarrow> publishHealthState env;
       r \<leftarrow> ladder env; _ \<leftarrow> finish_attempt env;
       State_Monad.return (case r of Some x \<Rightarrow> x | None \<Rightarrow> RecFailed) })
     (\<lambda>r s. round_effect h r (rc_health s))" for c
    by (rule triple_if, rule triple_return, simp add: round_effect_def,
        rule triple_bind [OF health_kept], intro acts, rule triple_bind [OF health_set],
        rule triple_bind [OF health_kept], intro acts, rule triple_bind [OF marks_ladder [THEN spec]], rule e)
  then show ?thesis
    unfolding attemptRecovery_def by (intro triple_bind [OF health_kept] acts)
qed

lemma backoff_effect:
  "triple (health_is h) (completeRecoveryBackoff env) (\<lambda>r s. normal_with 0 (rc_health s) \<and> r \<in> {RecCancelled, BackoffDone})"
  unfolding completeRecoveryBackoff_def
  by (rule triple_bind [OF health_kept], intro acts, rule triple_bind [OF health_kept], intro acts,
      rule triple_bind [OF health_set], rule triple_bind [OF health_kept], intro acts, rule triple_return) auto

lemma handle_effect: "triple (health_is h) (handleModemFailure env) (\<lambda>r s. round_effect h r (rc_health s))"
proof -
  have b: "triple (health_is h) (completeRecoveryBackoff env) (\<lambda>r s. round_effect h0 r (rc_health s))" for h h0
    by (rule triple_weaken [OF backoff_effect]) (auto simp: round_effect_def)
  have g: "triple (health_is h) (if \<not> CanRecover k then do {
           _ \<leftarrow> on_health MarkRecoveryFailed; _ \<leftarrow> publishHealthState env;
           _ \<leftarrow> notify env (CRaise ModemRecoveryFailed); completeRecoveryBackoff env
         } else attemptRecovery env) (\<lambda>r s. round_effect h r (rc_health s))" if "k = h" for k
    using that
    by (intro triple_if) (simp_all add: attempt_effect, rule triple_bind [OF health_set],
      rule triple_bind [OF health_kept], intro acts, rule triple_bind [OF health_kept], intro acts, rule b)
  have gh: "triple (health_is h) get_health (\<lambda>k s. health_is h s \<and> k = h)"
    by (simp add: get_health_def State_Monad.get_def triple_def)
  have ret: "triple (health_is h) (State_Monad.return r) (\<lambda>r s. round_effect h r (rc_health s))"
    if "r \<in> {RecStopped, RecBusy, RecDisabled}" for r
    using that by (auto simp: round_effect_def intro!: triple_return)
  have gg: "triple (\<lambda>s. health_is h s \<and> k = h) m Q" if "k = h \<Longrightarrow> triple (health_is h) m Q" for k m Q
    using that by (cases "k = h") (auto simp: triple_def)
  show ?thesis
    unfolding handleModemFailure_def
    by (rule triple_bind [OF health_kept], intro acts, rule triple_if, rule ret, simp,
        rule triple_bind [OF health_kept], intro acts, rule triple_bind [OF health_kept], intro acts,
        rule triple_bind [OF health_kept], intro acts, rule triple_if, rule ret, simp,
        rule triple_if, rule ret, simp, rule triple_bind [OF gh], rule gg, rule g)
qed

lemma checkHealth_effect: "triple (health_is h) (checkHealth env) (\<lambda>r s. round_effect h r (rc_health s))"
proof -
  have ret: "triple (health_is k) (State_Monad.return r) (\<lambda>r s. round_effect h r (rc_health s))"
    if "r \<in> {RecStopped, RecTerminal} \<and> k = h \<or> r = ModemHealthy \<and> normal_with 0 k" for r k
    using that by (auto simp: round_effect_def claims_healthy_def intro!: triple_return)
  have ok: "triple (health_is h) (do { _ \<leftarrow> on_health MarkNormal; missing \<leftarrow> hasMissingSIM env;
       if missing then State_Monad.return ModemHealthy else do {
           _ \<leftarrow> notify env (CClear ModemUnavailable);
           _ \<leftarrow> notify env (CClear ModemRecoveryFailed);
           State_Monad.return ModemHealthy } }) (\<lambda>r s. round_effect h r (rc_health s))"
    by (rule triple_bind [OF health_set], rule triple_bind [OF health_kept], intro acts, rule triple_if,
        rule ret, simp, rule triple_bind [OF health_kept], intro acts, rule triple_bind [OF health_kept],
        intro acts, rule ret, simp)
  show ?thesis
    unfolding checkHealth_def
    by (rule triple_bind [OF health_kept], intro acts, rule triple_if, rule ret, simp,
        rule triple_bind [OF health_kept], intro acts, rule triple_bind [OF health_kept], intro acts,
        rule triple_if, rule triple_if, rule ret, simp, rule handle_effect, rule ok)
qed

text \<open>Successive health checks, and the results they return.\<close>

fun health_rounds :: "rec_env \<Rightarrow> nat \<Rightarrow> recovery \<Rightarrow> rec_result list \<times> recovery" where
  "health_rounds env 0 s = ([], s)"
| "health_rounds env (Suc n) s =
     (case run_state (checkHealth env) s of (r, t) \<Rightarrow>
        case health_rounds env n t of (rs, u) \<Rightarrow> (r # rs, u))"

definition unsuccessful :: "rec_result \<Rightarrow> bool" where
  "unsuccessful r \<longleftrightarrow> r \<in> {RecFailed, RecStopped, RecBusy, RecDisabled, RecTerminal}"

definition failed_ladders :: "rec_result list \<Rightarrow> nat" where
  "failed_ladders rs = length (filter (\<lambda>r. r = RecFailed) rs)"

lemma health_rounds_bound:
  "health_rounds env n s = (rs, t) \<Longrightarrow> list_all unsuccessful rs
     \<Longrightarrow> hl_RecoveryAttempts (rc_health s) \<le> MaxRecoveryAttempts
     \<Longrightarrow> failed_ladders rs + hl_RecoveryAttempts (rc_health s) \<le> MaxRecoveryAttempts"
proof (induction n arbitrary: s rs)
  case (Suc n)
  obtain r s1 where r: "run_state (checkHealth env) s = (r, s1)" by fastforce
  obtain rs1 u where rest: "health_rounds env n s1 = (rs1, u)" by fastforce
  with Suc.prems(1) r have rs: "rs = r # rs1" "u = t" by auto
  from tripleD [OF checkHealth_effect refl r] Suc.prems(2) rs(1)
  have "rc_health s1 = rc_health s \<and> r \<noteq> RecFailed
      \<or> r = RecFailed \<and> CanRecover (rc_health s) \<and> normal_with (hl_RecoveryAttempts (rc_health s) + 1) (rc_health s1)"
    by (auto simp: round_effect_def unsuccessful_def split: if_splits)
  with Suc.IH [of s1 rs1] rest rs Suc.prems(2,3) show ?case
    by (auto simp: failed_ladders_def CanRecover_def normal_with_def)
qed (simp add: failed_ladders_def)

text \<open>The health record between rounds: at most five attempts, and no recovery or backoff left half-way.\<close>

definition settled :: "Health \<Rightarrow> bool" where
  "settled h \<longleftrightarrow> hl_RecoveryAttempts h \<le> MaxRecoveryAttempts
     \<and> (hl_State h = StateNormal \<or> hl_State h = StatePermanentFailure)"

lemma round_settled: "round_effect h r h' \<Longrightarrow> settled h \<Longrightarrow> settled h'"
  by (auto simp: round_effect_def settled_def normal_with_def CanRecover_def split: if_splits)

lemma rounds_settled: "health_rounds env n s = (rs, t) \<Longrightarrow> settled (rc_health s) \<Longrightarrow> settled (rc_health t)"
proof (induction n arbitrary: s rs)
  case (Suc n)
  obtain r s1 where r: "run_state (checkHealth env) s = (r, s1)" by fastforce
  obtain rs1 u where "health_rounds env n s1 = (rs1, u)" by fastforce
  with Suc r round_settled [OF tripleD [OF checkHealth_effect refl r]] show ?case by fastforce
qed simp

lemma rounds_guarded:
  "guarded env (rc_log s) \<Longrightarrow> guarded env (rc_log (snd (health_rounds env n s)))"
proof (induction n arbitrary: s)
  case (Suc n)
  obtain r s1 where r: "run_state (checkHealth env) s = (r, s1)" by fastforce
  from tripleD [OF checkHealth_guarded Suc.prems r] Suc.IH [of s1] show ?case
    by (simp add: r split: prod.split) (metis snd_conv)
qed simp

text \<open>
  A modem for the witnesses: off the bus until one of the calls of \<open>cure\<close> has been made; the
  operation is cancelled after the calls of \<open>stop\<close>.
\<close>

definition sick_env :: "rec_call list \<Rightarrow> rec_call list \<Rightarrow> rec_env" where
  "sick_env cure stop = \<lparr>
     rv_ok = (\<lambda>l c. c \<notin> {CFind, CPort, CPower, CReady, CWait RecoveryWaitTime} \<or> (\<exists>x \<in> set cure. x \<in> set l)),
     rv_info = (\<lambda>_. None), rv_iface = (\<lambda>_. False), rv_usb_absent = (\<lambda>_. False),
     rv_cancelled = (\<lambda>l. \<exists>x \<in> set stop. x \<in> set l), rv_stopped = (\<lambda>_. False), rv_enabled = (\<lambda>_. True),
     rv_busy = (\<lambda>_. False), rv_now = (\<lambda>_. 0)\<rparr>"

section \<open>Properties\<close>



text \<open>
   The ladder climbs from the cheapest action to the costliest, and takes each at most once per
  round: what a health check does to the hardware is, in order, some of the D-Bus reset, the USB
  rebind and the GPIO restart.
\<close>

theorem actions_in_rising_cost:
  "\<exists>l. rc_log (snd (run_state (checkHealth env) s)) = rc_log s @ l
     \<and> subseq (filter is_action l) [CReset, CUsb, CGpio]"
  using does_checkHealth by (simp add: does_def)

text \<open>
   At most five failed recoveries in a row. However many health checks follow one another without a
  success, a backoff or a cancellation in between, at most five of them run the ladder to its end;
  after five the next one backs off instead.
\<close>

theorem at_most_five_failed_ladders:
  assumes "health_rounds env n s = (rs, t)" and "list_all unsuccessful rs"
    and "hl_RecoveryAttempts (rc_health s) \<le> MaxRecoveryAttempts"
  shows "failed_ladders rs \<le> 5"
  using health_rounds_bound [OF assms] by (simp add: MaxRecoveryAttempts_def)

lemma at_most_five_failed_ladders_witness:
  "failed_ladders (fst (health_rounds (sick_env [] []) 1 recovery_init)) = 1
   \<and> failed_ladders (fst (health_rounds (sick_env [] []) 1 recovery_init)) \<le> 5"
proof
  let ?m = "health_rounds (sick_env [] []) 1 recovery_init"
  show "failed_ladders (fst ?m) = 1" by code_simp
  have u: "list_all unsuccessful (fst ?m)" by code_simp
  have "?m = (fst ?m, snd ?m)" by simp
  from at_most_five_failed_ladders [OF this u]
  show "failed_ladders (fst ?m) \<le> 5" by (simp add: recovery_init_def Health_New_def)
qed

text \<open>
  C17. A disabled modem is left alone. From the start of the service, over any number of health checks
  and whatever the modem answers, neither the USB rebind nor the GPIO restart is carried out once
  the operation has been cancelled.
\<close>

theorem no_hardware_action_after_cancel:
  "guarded env (rc_log (snd (health_rounds env n recovery_init)))"
  by (rule rounds_guarded) (simp add: guarded_def recovery_init_def)

text \<open>
   The reset over D-Bus is the exception: there are answers under which the operation is cancelled
  while the ladder waits for the modem to stabilise, and the ladder goes on to reset it.
\<close>

theorem reset_in_spite_of_cancel:
  "\<exists>env g r. rc_log (snd (run_state (checkHealth env) recovery_init)) = g @ CReset # r \<and> rv_cancelled env g"
proof -
  let ?e = "sick_env [CWait RecoveryWaitTime] [CWait RecoveryWaitTime]"
  let ?g = "[CFind, CRaise ModemUnavailable, CPublishHealth StateRecovering, CFind, CWait RecoveryWaitTime, CFind]"
  have "rc_log (snd (run_state (checkHealth ?e) recovery_init))
      = ?g @ CReset # [CSleep RecoveryWaitTime, CPublishHealth StateNormal]"
    by code_simp
  moreover have "rv_cancelled ?e ?g" by (simp add: sick_env_def)
  ultimately show ?thesis by blast
qed

text \<open>
   Every round ends. After any number of health checks the state is never left at "recovering" or
  in the backoff, and the number of attempts never exceeds five.
\<close>

theorem rounds_end_settled:
  "settled (rc_health (snd (health_rounds env n recovery_init)))"
proof -
  have "settled (rc_health recovery_init)"
    by (simp add: settled_def recovery_init_def Health_New_def)
  then show ?thesis using rounds_settled [of env n recovery_init] by (metis prod.collapse)
qed

end
