(* ===== verification/Dns_Message.thy ===== *)
theory Dns_Message
  imports Go_Strings
begin

unbundle bit_operations_syntax

text \<open>
  From \<open>internal/health/probe.go\<close>: the DNS messages of the remote probe. \<open>buildDNSQueryType\<close> writes a
  query; \<open>skipDNSName\<close> and \<open>parseTXTAnswers\<close> read an answer, which may come from anybody. An index
  outside the message would be a panic, and is the error \<open>IndexPanic\<close> here. The two loops without a
  counter are partial functions, for which \<open>None\<close> is not to return.
\<close>

section \<open>Bytes\<close>

type_synonym byte = "8 word"

definition bytes_of :: "string \<Rightarrow> byte list" where "bytes_of = map of_char"
definition text_of :: "byte list \<Rightarrow> string" where "text_of = map (\<lambda>b. char_of (unat b))"

definition append_uint16 :: "byte list \<Rightarrow> 16 word \<Rightarrow> byte list" where
  "append_uint16 msg v = msg @ [ucast (drop_bit 8 v), ucast v]"

datatype dns_error =
    ShortResponse | TruncatedQuestion | TruncatedAnswer | TruncatedRdata | TruncatedTXT
  | TruncatedName | TruncatedPointer | InvalidLabel | TruncatedLabel | IndexPanic

type_synonym 'a parsed = "(dns_error + 'a) option"

definition byte_at :: "byte list \<Rightarrow> nat \<Rightarrow> dns_error + byte" where
  "byte_at msg i = (if i < length msg then Inr (msg ! i) else Inl IndexPanic)"

definition slice :: "byte list \<Rightarrow> nat \<Rightarrow> nat \<Rightarrow> dns_error + byte list" where
  "slice msg a b = (if a \<le> b \<and> b \<le> length msg then Inr (take (b - a) (drop a msg)) else Inl IndexPanic)"

text \<open>\<open>binary.BigEndian.Uint16(msg[i:i+2])\<close>.\<close>

definition uint16_at :: "byte list \<Rightarrow> nat \<Rightarrow> dns_error + 16 word" where
  "uint16_at msg i =
     res_bind (slice msg i (i + 2)) (\<lambda>b. Inr (ucast (b ! 1) OR push_bit 8 (ucast (b ! 0))))"

fun and_then :: "'a parsed \<Rightarrow> ('a \<Rightarrow> 'b parsed) \<Rightarrow> 'b parsed" where
  "and_then None f = None"
| "and_then (Some (Inl e)) f = Some (Inl e)"
| "and_then (Some (Inr x)) f = f x"

section \<open>Reading\<close>

partial_function (option) skipDNSName :: "byte list \<Rightarrow> nat \<Rightarrow> nat parsed" where
  "skipDNSName msg off =
     (if off \<ge> length msg then Some (Inl TruncatedName)
      else case byte_at msg off of Inl e \<Rightarrow> Some (Inl e) | Inr n \<Rightarrow>
        if n = 0 then Some (Inr (off + 1))
        else if n AND 0xC0 = 0xC0 then
          (if off + 1 \<ge> length msg then Some (Inl TruncatedPointer) else Some (Inr (off + 2)))
        else if n AND 0xC0 \<noteq> 0 then Some (Inl InvalidLabel)
        else if off + 1 + unat n > length msg then Some (Inl TruncatedLabel)
        else skipDNSName msg (off + 1 + unat n))"

fun skip_questions :: "byte list \<Rightarrow> nat \<Rightarrow> nat \<Rightarrow> nat parsed" where
  "skip_questions msg 0 off = Some (Inr off)"
| "skip_questions msg (Suc k) off =
     and_then (skipDNSName msg off) (\<lambda>off.
       if off + 4 > length msg then Some (Inl TruncatedQuestion) else skip_questions msg k (off + 4))"

text \<open>The character strings of one TXT record, concatenated.\<close>

partial_function (option) txt_value :: "byte list \<Rightarrow> nat \<Rightarrow> nat \<Rightarrow> byte list \<Rightarrow> byte list parsed" where
  "txt_value msg pos stop acc =
     (if \<not> pos < stop then Some (Inr acc)
      else case byte_at msg pos of Inl e \<Rightarrow> Some (Inl e) | Inr n \<Rightarrow>
        if pos + 1 + unat n > stop then Some (Inl TruncatedTXT)
        else case slice msg (pos + 1) (pos + 1 + unat n) of Inl e \<Rightarrow> Some (Inl e) | Inr s \<Rightarrow>
          txt_value msg (pos + 1 + unat n) stop (acc @ s))"

fun read_answers :: "byte list \<Rightarrow> nat \<Rightarrow> nat \<Rightarrow> string list \<Rightarrow> string list parsed" where
  "read_answers msg 0 off vs = Some (Inr vs)"
| "read_answers msg (Suc k) off vs =
     and_then (skipDNSName msg off) (\<lambda>off.
       if off + 10 > length msg then Some (Inl TruncatedAnswer)
       else and_then (Some (uint16_at msg off)) (\<lambda>typ.
         and_then (Some (uint16_at msg (off + 2))) (\<lambda>class.
         and_then (Some (uint16_at msg (off + 8))) (\<lambda>rdlen.
           let start = off + 10; stop = start + unat rdlen in
           if stop > length msg then Some (Inl TruncatedRdata)
           else if typ = 16 \<and> class = 1 then
             and_then (txt_value msg start stop []) (\<lambda>v. read_answers msg k stop (vs @ [text_of v]))
           else read_answers msg k stop vs))))"

definition parseTXTAnswers :: "byte list \<Rightarrow> string list parsed" where
  "parseTXTAnswers msg =
     (if length msg < 12 then Some (Inl ShortResponse)
      else and_then (Some (uint16_at msg 4)) (\<lambda>qdcount.
        and_then (Some (uint16_at msg 6)) (\<lambda>ancount.
        and_then (skip_questions msg (unat qdcount) 12) (\<lambda>off.
          read_answers msg (unat ancount) off []))))"

section \<open>Writing\<close>

text \<open>The labels; \<open>Inl\<close> is the label that does not fit.\<close>

fun append_labels :: "string list \<Rightarrow> byte list \<Rightarrow> string + byte list" where
  "append_labels [] msg = Inr msg"
| "append_labels (l # ls) msg =
     (if length l = 0 \<or> length l > 63 then Inl l
      else append_labels ls (msg @ [of_nat (length l)] @ bytes_of l))"

text \<open>\<open>idBytes\<close> are the random bytes, \<open>None\<close> if there are none.\<close>

datatype build_error = NoRandom | BadLabel string

definition buildDNSQueryType :: "(byte \<times> byte) option \<Rightarrow> string \<Rightarrow> 16 word \<Rightarrow> build_error + (byte list \<times> 16 word)" where
  "buildDNSQueryType idBytes name qtype =
     (case idBytes of None \<Rightarrow> Inl NoRandom
      | Some (a, b) \<Rightarrow>
          let id = ucast b OR push_bit 8 (ucast a);
              header = fold (\<lambda>v msg. append_uint16 msg v) [id, 0x0100, 1, 0, 0, 0] [] in
          case append_labels (split_char (CHR ''.'') name) header of Inl l \<Rightarrow> Inl (BadLabel l)
          | Inr msg \<Rightarrow> Inr (append_uint16 (append_uint16 (msg @ [0]) qtype) 1, id))"

definition buildDNSQuery :: "(byte \<times> byte) option \<Rightarrow> string \<Rightarrow> build_error + (byte list \<times> 16 word)" where
  "buildDNSQuery idBytes name = buildDNSQueryType idBytes name 1"

section \<open>Bytes, facts\<close>

lemma unat_byte_less: "unat (b :: byte) < 256"
  using unsigned_less [of b, where 'a = nat] by simp

lemma unat_of_char: "unat (of_char c :: byte) = (of_char c :: nat)"
proof -
  have "unat (of_nat (of_char c) :: byte) = (of_char c :: nat)" by (simp add: unat_of_nat take_bit_eq_mod)
  then show ?thesis by (simp only: of_nat_of_char)
qed

lemma text_bytes [simp]: "text_of (bytes_of s) = s"
  by (simp add: text_of_def bytes_of_def comp_def map_idI unat_of_char)

lemma length_bytes [simp]: "length (bytes_of s) = length s"
  by (simp add: bytes_of_def)

lemma uint16_round_trip:
  "ucast (ucast v :: byte) OR push_bit 8 (ucast (ucast (drop_bit 8 v) :: byte)) = (v :: 16 word)"
  by (rule bit_word_eqI) (auto simp: bit_simps)

lemma uint16_at_append:
  "length pre = i \<Longrightarrow> uint16_at (append_uint16 pre v @ post) i = Inr v"
  by (auto simp: uint16_at_def slice_def append_uint16_def uint16_round_trip nth_append)

section \<open>Every message is read in full or refused\<close>

text \<open>What an operation promises on a message: it returns, without an index out of range.\<close>

definition reads_safely :: "('a \<Rightarrow> bool) \<Rightarrow> 'a parsed \<Rightarrow> bool" where
  "reads_safely P r \<longleftrightarrow> (\<exists>e. r = Some (Inl e) \<and> e \<noteq> IndexPanic) \<or> (\<exists>x. r = Some (Inr x) \<and> P x)"

named_theorems reads \<open>rules for reads_safely\<close>

lemma reads_error [reads]: "e \<noteq> IndexPanic \<Longrightarrow> reads_safely P (Some (Inl e))"
  by (simp add: reads_safely_def)

lemma reads_value [reads]: "P x \<Longrightarrow> reads_safely P (Some (Inr x))"
  by (simp add: reads_safely_def)

lemma reads_then:
  assumes "reads_safely P r" and "\<And>x. P x \<Longrightarrow> reads_safely Q (f x)"
  shows "reads_safely Q (and_then r f)"
proof -
  from assms(1) consider e where "r = Some (Inl e)" "e \<noteq> IndexPanic" | x where "r = Some (Inr x)" "P x"
    unfolding reads_safely_def by blast
  then show ?thesis
  proof cases
    case 1
    then show ?thesis by (simp add: reads_error)
  next
    case 2
    with assms(2) show ?thesis by simp
  qed
qed

lemma reads_if [reads]:
  "(b \<Longrightarrow> reads_safely P x) \<Longrightarrow> (\<not> b \<Longrightarrow> reads_safely P y) \<Longrightarrow> reads_safely P (if b then x else y)"
  by simp

lemma reads_uint16: "i + 2 \<le> length msg \<Longrightarrow> reads_safely (\<lambda>_. True) (Some (uint16_at msg i))"
  by (simp add: reads_safely_def uint16_at_def slice_def)

lemma skip_safe: "reads_safely (\<lambda>n. n \<le> length msg) (skipDNSName msg off)"
proof (induction "length msg - off" arbitrary: off rule: less_induct)
  case less
  show ?case
  proof (cases "off < length msg")
    case False
    then show ?thesis by (subst skipDNSName.simps) (simp add: reads)
  next
    case True
    then have "length msg - (off + 1 + unat (msg ! off)) < length msg - off" by linarith
    from less [OF this] True show ?thesis
      by (subst skipDNSName.simps) (auto simp: byte_at_def intro!: reads)
  qed
qed

lemma questions_safe: "off \<le> length msg \<Longrightarrow> reads_safely (\<lambda>n. n \<le> length msg) (skip_questions msg k off)"
  by (induction k arbitrary: off) (auto intro!: reads reads_then [OF skip_safe])

lemma txt_safe: "stop \<le> length msg \<Longrightarrow> reads_safely (\<lambda>_. True) (txt_value msg pos stop acc)"
proof (induction "stop - pos" arbitrary: pos acc rule: less_induct)
  case less
  show ?case
  proof (cases "pos < stop")
    case False
    then show ?thesis by (subst txt_value.simps) (simp add: reads)
  next
    case True
    then have "stop - (pos + 1 + unat (msg ! pos)) < stop - pos" by linarith
    from less(1) [OF this] True less.prems show ?thesis
      by (subst txt_value.simps) (auto simp: byte_at_def slice_def intro!: reads)
  qed
qed

lemma answers_safe: "off \<le> length msg \<Longrightarrow> reads_safely (\<lambda>_. True) (read_answers msg k off vs)"
  by (induction k arbitrary: off vs)
    (auto simp: Let_def intro!: reads reads_then [OF skip_safe] reads_then [OF reads_uint16] reads_then [OF txt_safe])

lemma parse_safe: "reads_safely (\<lambda>_. True) (parseTXTAnswers msg)"
  unfolding parseTXTAnswers_def
  by (auto intro!: reads reads_then [OF reads_uint16] reads_then [OF questions_safe] answers_safe)

section \<open>The wire format, as RFC 1035 has it\<close>

text \<open>
  A domain name is a sequence of labels that ends in the root or in a compression pointer; a TXT
  record holds character strings of at most 255 bytes. \<open>wire_message\<close> writes a whole answer: header,
  questions, answers, and anything behind them.
\<close>

datatype name_end = Root | Pointer "8 word" "8 word"

type_synonym wire_name = "byte list list \<times> name_end"

definition wire_labels :: "byte list list \<Rightarrow> byte list" where
  "wire_labels ls = concat (map (\<lambda>l. of_nat (length l) # l) ls)"

definition write_name :: "wire_name \<Rightarrow> byte list" where
  "write_name n = wire_labels (fst n) @ (case snd n of Root \<Rightarrow> [0] | Pointer a b \<Rightarrow> [0xC0 OR a, b])"

definition name_ok :: "wire_name \<Rightarrow> bool" where
  "name_ok n \<longleftrightarrow> (\<forall>l \<in> set (fst n). 0 < length l \<and> length l \<le> 63)"

datatype rdata = TXT "string list" | OtherData "16 word" "16 word" "byte list"

fun rd_type :: "rdata \<Rightarrow> 16 word" where "rd_type (TXT _) = 16" | "rd_type (OtherData t _ _) = t"
fun rd_class :: "rdata \<Rightarrow> 16 word" where "rd_class (TXT _) = 1" | "rd_class (OtherData _ c _) = c"

definition wire_strings :: "string list \<Rightarrow> byte list" where
  "wire_strings ss = concat (map (\<lambda>t. of_nat (length t) # bytes_of t) ss)"

fun rd_bytes :: "rdata \<Rightarrow> byte list" where
  "rd_bytes (TXT ss) = wire_strings ss" | "rd_bytes (OtherData _ _ b) = b"

fun rdata_ok :: "rdata \<Rightarrow> bool" where
  "rdata_ok (TXT ss) \<longleftrightarrow> (\<forall>t \<in> set ss. length t < 256) \<and> length (wire_strings ss) < 65536"
| "rdata_ok (OtherData t c b) \<longleftrightarrow> \<not> (t = 16 \<and> c = 1) \<and> length b < 65536"

fun txt_of :: "rdata \<Rightarrow> string list" where
  "txt_of (TXT ss) = [concat ss]" | "txt_of (OtherData _ _ _) = []"

record resource =
  rr_name :: wire_name
  rr_ttl :: "byte list"
  rr_data :: rdata

definition write_resource :: "resource \<Rightarrow> byte list" where
  "write_resource r = write_name (rr_name r)
     @ append_uint16 [] (rd_type (rr_data r)) @ append_uint16 [] (rd_class (rr_data r)) @ rr_ttl r
     @ append_uint16 [] (of_nat (length (rd_bytes (rr_data r)))) @ rd_bytes (rr_data r)"

definition resource_ok :: "resource \<Rightarrow> bool" where
  "resource_ok r \<longleftrightarrow> name_ok (rr_name r) \<and> length (rr_ttl r) = 4 \<and> rdata_ok (rr_data r)"

record question =
  qu_name :: wire_name
  qu_rest :: "byte list"

definition write_question :: "question \<Rightarrow> byte list" where
  "write_question q = write_name (qu_name q) @ qu_rest q"

definition question_ok :: "question \<Rightarrow> bool" where
  "question_ok q \<longleftrightarrow> name_ok (qu_name q) \<and> length (qu_rest q) = 4"

definition wire_message :: "byte list \<Rightarrow> question list \<Rightarrow> resource list \<Rightarrow> byte list \<Rightarrow> byte list \<Rightarrow> byte list" where
  "wire_message start qs rs counts tail =
     start @ append_uint16 [] (of_nat (length qs)) @ append_uint16 [] (of_nat (length rs)) @ counts
     @ concat (map write_question qs) @ concat (map write_resource rs) @ tail"

lemma unat_of_nat_byte: "n < 256 \<Longrightarrow> unat (of_nat n :: byte) = n"
  by (simp add: unat_of_nat take_bit_eq_mod)

lemma unat_of_nat_16: "n < 65536 \<Longrightarrow> unat (of_nat n :: 16 word) = n"
  by (simp add: unat_of_nat take_bit_eq_mod)

lemma label_byte:
  assumes "0 < n" and "n \<le> 63"
  shows "(of_nat n :: byte) \<noteq> 0 \<and> (of_nat n :: byte) AND 0xC0 = 0"
proof
  have "(of_nat n :: byte) = take_bit 6 (of_nat n)"
    using assms by (simp add: take_bit_of_nat take_bit_nat_eq_self)
  then have "(of_nat n :: byte) AND 0xC0 = (of_nat n AND mask 6) AND 0xC0" by (simp add: take_bit_eq_mask)
  also have "\<dots> = 0" by (simp add: and.assoc mask_eq_exp_minus_1)
  finally show "(of_nat n :: byte) AND 0xC0 = 0" .
  have "unat (of_nat n :: byte) \<noteq> 0" using assms unat_of_nat_byte [of n] by linarith
  then show "(of_nat n :: byte) \<noteq> 0" by auto
qed

lemma pointer_byte: "((0xC0 :: byte) OR a) AND 0xC0 = 0xC0 \<and> (0xC0 :: byte) OR a \<noteq> 0"
proof -
  have a: "((0xC0 :: byte) OR a) AND 0xC0 = 0xC0"
    by (simp add: bit.conj_disj_distrib2 and.commute [of a])
  have "b \<noteq> 0" if "b AND 0xC0 = (0xC0 :: byte)" for b
  proof
    assume "b = 0"
    with that show False by simp
  qed
  with a show ?thesis by blast
qed

text \<open>What is read at the end of \<open>pre\<close>.\<close>

lemma byte_at_end [simp]: "byte_at (pre @ b # post) (length pre) = Inr b"
  by (simp add: byte_at_def nth_append)

lemma slice_end [simp]: "length s = n \<Longrightarrow> slice (pre @ b # s @ post) (length pre + 1) (length pre + 1 + n) = Inr s"
  by (simp add: slice_def)

lemma skip_end_name:
  "skipDNSName (pre @ (case e of Root \<Rightarrow> [0] | Pointer a b \<Rightarrow> [0xC0 OR a, b]) @ post) (length pre)
     = Some (Inr (length pre + length (case e of Root \<Rightarrow> [0 :: byte] | Pointer a b \<Rightarrow> [0xC0 OR a, b])))"
  by (cases e) (subst skipDNSName.simps; simp add: pointer_byte)+

lemma skip_written:
  "name_ok n \<Longrightarrow> skipDNSName (pre @ write_name n @ post) (length pre) = Some (Inr (length pre + length (write_name n)))"
proof (induction "fst n" arbitrary: n pre)
  case Nil
  then show ?case by (simp add: write_name_def wire_labels_def skip_end_name)
next
  case (Cons l ls)
  let ?b = "of_nat (length l) :: byte" and ?m = "(ls, snd n)"
  note n = Cons.hyps(2) [symmetric]
  from Cons.prems have l: "0 < length l" "length l \<le> 63" and ok: "name_ok ?m"
    by (auto simp: name_ok_def n)
  have w: "write_name n = ?b # l @ write_name ?m"
    by (simp add: write_name_def wire_labels_def n)
  have len: "unat ?b = length l" using l by (simp add: unat_of_nat_byte)
  have "skipDNSName (pre @ write_name n @ post) (length pre)
      = skipDNSName ((pre @ ?b # l) @ write_name ?m @ post) (length (pre @ ?b # l))"
    using label_byte [OF l] by (subst skipDNSName.simps) (simp add: w len)
  also have "\<dots> = Some (Inr (length (pre @ ?b # l) + length (write_name ?m)))"
    using Cons.hyps(1) [of ?m "pre @ ?b # l"] ok by simp
  finally show ?case by (simp add: w)
qed

lemma txt_written:
  "\<forall>t \<in> set ss. length t < 256 \<Longrightarrow>
     txt_value (pre @ wire_strings ss @ post) (length pre) (length pre + length (wire_strings ss)) acc
       = Some (Inr (acc @ bytes_of (concat ss)))"
proof (induction ss arbitrary: pre acc)
  case Nil
  then show ?case by (subst txt_value.simps) (simp add: wire_strings_def bytes_of_def)
next
  case (Cons t ss)
  let ?b = "of_nat (length t) :: byte"
  have n: "unat ?b = length t" using Cons.prems by (simp add: unat_of_nat_byte)
  have w: "wire_strings (t # ss) = ?b # bytes_of t @ wire_strings ss" by (simp add: wire_strings_def)
  have "txt_value (pre @ wire_strings (t # ss) @ post) (length pre) (length pre + length (wire_strings (t # ss))) acc
      = txt_value ((pre @ ?b # bytes_of t) @ wire_strings ss @ post) (length (pre @ ?b # bytes_of t))
          (length (pre @ ?b # bytes_of t) + length (wire_strings ss)) (acc @ bytes_of t)"
    using slice_end [of "bytes_of t" "length t" pre ?b "wire_strings ss @ post"]
    by (subst txt_value.simps) (simp add: w n add.assoc)
  also have "\<dots> = Some (Inr (acc @ bytes_of (concat (t # ss))))"
    using Cons.IH [of "pre @ ?b # bytes_of t" "acc @ bytes_of t"] Cons.prems by (simp add: bytes_of_def)
  finally show ?case .
qed

lemma length_append_uint16 [simp]: "length (append_uint16 pre v) = length pre + 2"
  by (simp add: append_uint16_def)

lemma uint16_at_written [simp]: "uint16_at (pre @ append_uint16 [] v @ post) (length pre) = Inr v"
  using uint16_at_append [of pre "length pre" v post] by (simp add: append_uint16_def)

lemma questions_written:
  "\<forall>q \<in> set qs. question_ok q \<Longrightarrow>
     skip_questions (pre @ concat (map write_question qs) @ post) (length qs) (length pre)
       = Some (Inr (length pre + length (concat (map write_question qs))))"
proof (induction qs arbitrary: pre)
  case (Cons q qs)
  let ?rest = "concat (map write_question qs) @ post"
  have ok: "name_ok (qu_name q)" "length (qu_rest q) = 4" using Cons.prems by (auto simp: question_ok_def)
  have skip: "skipDNSName (pre @ write_question q @ ?rest) (length pre) = Some (Inr (length pre + length (write_name (qu_name q))))"
    using skip_written [OF ok(1), of pre "qu_rest q @ ?rest"] by (simp add: write_question_def)
  have "skip_questions (pre @ concat (map write_question (q # qs)) @ post) (length (q # qs)) (length pre)
      = skip_questions ((pre @ write_question q) @ ?rest) (length qs) (length (pre @ write_question q))"
    using skip ok(2) by (simp add: write_question_def add.assoc)
  also have "\<dots> = Some (Inr (length pre + length (concat (map write_question (q # qs)))))"
    using Cons.IH [of "pre @ write_question q"] Cons.prems by (simp add: add.assoc)
  finally show ?case .
qed simp

lemma resource_written:
  assumes "resource_ok r"
  shows "read_answers (pre @ write_resource r @ post) (Suc k) (length pre) vs
    = read_answers ((pre @ write_resource r) @ post) k (length (pre @ write_resource r)) (vs @ txt_of (rr_data r))"
proof -
  let ?n = "write_name (rr_name r)" and ?t = "append_uint16 [] (rd_type (rr_data r))"
  let ?c = "append_uint16 [] (rd_class (rr_data r))" and ?b = "rd_bytes (rr_data r)"
  let ?l = "append_uint16 [] (of_nat (length ?b))"
  let ?msg = "pre @ write_resource r @ post"
  from assms have ok: "name_ok (rr_name r)" "length (rr_ttl r) = 4" "rdata_ok (rr_data r)"
    by (simp_all add: resource_ok_def)
  have len: "length ?b < 65536" using ok(3) by (cases "rr_data r") simp_all
  have msg: "?msg = pre @ ?n @ ?t @ ?c @ rr_ttl r @ ?l @ ?b @ post" by (simp add: write_resource_def)
  define off where "off = length pre + length ?n"
  have skip: "skipDNSName ?msg (length pre) = Some (Inr off)"
    using skip_written [OF ok(1), of pre] by (simp add: msg off_def)
  have t: "uint16_at ?msg off = Inr (rd_type (rr_data r))"
    using uint16_at_written [of "pre @ ?n"] by (simp add: msg off_def)
  have c: "uint16_at ?msg (off + 2) = Inr (rd_class (rr_data r))"
    using uint16_at_written [of "pre @ ?n @ ?t"] by (simp add: msg add.assoc off_def)
  have l: "uint16_at ?msg (off + 8) = Inr (of_nat (length ?b))"
    using uint16_at_written [of "pre @ ?n @ ?t @ ?c @ rr_ttl r"] ok(2) by (simp add: msg add.assoc off_def)
  have stop: "off + 10 + length ?b = length (pre @ write_resource r)"
    using ok(2) by (simp add: write_resource_def off_def)
  then have fits: "\<not> length ?msg < off + 10" "\<not> length ?msg < length (pre @ write_resource r)" by simp_all
  show ?thesis
  proof (cases "rr_data r")
    case (TXT ss)
    have "txt_value ?msg (off + 10) (length (pre @ write_resource r)) [] = Some (Inr (bytes_of (concat ss)))"
      using TXT txt_written [of ss "pre @ ?n @ ?t @ ?c @ rr_ttl r @ ?l" post "[]"] ok(2,3)
      unfolding stop [symmetric] by (simp add: msg add.assoc off_def)
    with TXT fits skip t c l len stop show ?thesis
      by (simp add: Let_def unat_of_nat_16 del: length_append add_2_eq_Suc')
  next
    case (OtherData ty cl d)
    with ok(3) fits skip t c l len stop show ?thesis
      by (auto simp add: Let_def unat_of_nat_16 simp del: length_append add_2_eq_Suc')
  qed
qed

lemma answers_written:
  "\<forall>r \<in> set rs. resource_ok r \<Longrightarrow>
     read_answers (pre @ concat (map write_resource rs) @ post) (length rs) (length pre) vs
       = Some (Inr (vs @ concat (map (\<lambda>r. txt_of (rr_data r)) rs)))"
proof (induction rs arbitrary: pre vs)
  case (Cons r rs)
  then show ?case
    using resource_written [of r pre "concat (map write_resource rs) @ post" "length rs" vs]
      Cons.IH [of "pre @ write_resource r" "vs @ txt_of (rr_data r)"]
    by (simp del: read_answers.simps)
qed simp

lemma parse_written:
  assumes "\<forall>q \<in> set qs. question_ok q" and "\<forall>r \<in> set rs. resource_ok r"
    and "length qs < 65536" and "length rs < 65536" and "length start = 4" and "length counts = 4"
  shows "parseTXTAnswers (wire_message start qs rs counts tail) = Some (Inr (concat (map (\<lambda>r. txt_of (rr_data r)) rs)))"
proof -
  let ?m = "wire_message start qs rs counts tail"
  let ?h = "start @ append_uint16 [] (of_nat (length qs)) @ append_uint16 [] (of_nat (length rs)) @ counts"
  have h: "length ?h = 12" using assms by simp
  have q: "uint16_at ?m 4 = Inr (of_nat (length qs))"
    using uint16_at_written [of start] assms(5) by (simp add: wire_message_def)
  have a: "uint16_at ?m 6 = Inr (of_nat (length rs))"
    using uint16_at_written [of "start @ append_uint16 [] (of_nat (length qs))"] assms(5) by (simp add: wire_message_def)
  have s: "skip_questions ?m (length qs) 12 = Some (Inr (length (?h @ concat (map write_question qs))))"
    using questions_written [OF assms(1), of ?h] h by (simp add: wire_message_def)
  have r: "read_answers ?m (length rs) (length (?h @ concat (map write_question qs))) []
      = Some (Inr (concat (map (\<lambda>r. txt_of (rr_data r)) rs)))"
    using answers_written [OF assms(2), of "?h @ concat (map write_question qs)" tail "[]"] by (simp add: wire_message_def)
  have "12 \<le> length ?m" using h by (simp add: wire_message_def)
  with q a s r assms(3,4) show ?thesis by (simp add: parseTXTAnswers_def unat_of_nat_16)
qed

section \<open>The query\<close>

definition label_ok :: "string \<Rightarrow> bool" where "label_ok l \<longleftrightarrow> 0 < length l \<and> length l \<le> 63"

lemma append_labels_written:
  "append_labels ls msg =
     (if list_all label_ok ls then Inr (msg @ wire_labels (map bytes_of ls)) else Inl (hd (dropWhile label_ok ls)))"
  by (induction ls arbitrary: msg) (auto simp: wire_labels_def label_ok_def)

lemma append_uint16_assoc: "append_uint16 msg v = msg @ append_uint16 [] v"
  by (simp add: append_uint16_def)

lemma uint16_of_bytes: "append_uint16 [] (ucast b OR push_bit 8 (ucast (a :: byte))) = [a, b]"
proof -
  have "(ucast (drop_bit 8 (ucast b OR push_bit 8 (ucast a :: 16 word))) :: byte) = a"
    by (rule bit_word_eqI) (auto simp: bit_simps dest: bit_imp_le_length)
  moreover have "(ucast (ucast b OR push_bit 8 (ucast a :: 16 word)) :: byte) = b"
    by (rule bit_word_eqI) (auto simp: bit_simps)
  ultimately show ?thesis by (simp add: append_uint16_def)
qed

section \<open>Properties\<close>

text \<open>
  C30. Whatever bytes arrive, the reader of TXT answers returns (the loops over labels and character
  strings end), and it never indexes or slices outside the message.
\<close>

theorem parse_returns_without_panic:
  "\<exists>r. parseTXTAnswers msg = Some r \<and> r \<noteq> Inl IndexPanic"
  using parse_safe [of msg] unfolding reads_safely_def by auto

text \<open>
   A well-formed answer is read back exactly: for any questions and resource records, with
  literal or compressed owner names and anything after the answers, the reader returns the TXT
  records of class IN in order, each the concatenation of its character strings.
\<close>

theorem txt_answers_round_trip:
  assumes "\<forall>q \<in> set qs. question_ok q" and "\<forall>r \<in> set rs. resource_ok r"
    and "length qs < 65536" and "length rs < 65536" and "length start = 4" and "length counts = 4"
  shows "parseTXTAnswers (wire_message start qs rs counts tail) = Some (Inr (concat (map (\<lambda>r. txt_of (rr_data r)) rs)))"
  using assms by (rule parse_written)

text \<open>
  C31. The query that is sent is the RFC 1035 message with the random id, the recursion flag and one
  question, for the name, the type and class IN; and it is refused exactly when some label of the
  name is empty or longer than 63 bytes.
\<close>

theorem query_is_wire_message:
  "buildDNSQueryType (Some (a, b)) name qtype =
     (if list_all label_ok (split_char (CHR ''.'') name)
      then Inr (wire_message [a, b, 1, 0]
          [\<lparr>qu_name = (map bytes_of (split_char (CHR ''.'') name), Root),
            qu_rest = append_uint16 [] qtype @ [0, 1]\<rparr>] [] [0, 0, 0, 0] [], ucast b OR push_bit 8 (ucast a))
      else Inl (BadLabel (hd (dropWhile label_ok (split_char (CHR ''.'') name)))))"
proof -
  have "append_uint16 [] (0x0100 :: 16 word) = [1, 0]" "append_uint16 [] (1 :: 16 word) = [0, 1]"
    "append_uint16 [] (0 :: 16 word) = [0, 0]"
    by (simp_all add: append_uint16_def drop_bit_eq_div)
  then show ?thesis
    by (simp add: buildDNSQueryType_def Let_def append_labels_written wire_message_def write_question_def
        write_name_def append_uint16_assoc [of "_ @ _"] append_uint16_assoc [of "_ # _"] uint16_of_bytes)
qed

text \<open>A response with a compressed owner name: an address record, then a TXT record in two strings.\<close>

definition sample_question :: question where
  "sample_question = \<lparr>qu_name = ([bytes_of ''ok'', bytes_of ''net''], Root), qu_rest = [0, 16, 0, 1]\<rparr>"

definition sample_records :: "resource list" where
  "sample_records =
     [\<lparr>rr_name = ([], Pointer 0 12), rr_ttl = [0, 0, 0, 60], rr_data = OtherData 1 1 [10, 0, 0, 1]\<rparr>,
      \<lparr>rr_name = ([], Pointer 0 12), rr_ttl = [0, 0, 0, 60], rr_data = TXT [''up '', ''and running'']\<rparr>]"

lemma txt_answers_round_trip_witness:
  "parseTXTAnswers (wire_message [0x12, 0x34, 0x81, 0x80] [sample_question] sample_records [0, 0, 0, 0] [])
     = Some (Inr (concat (map (\<lambda>r. txt_of (rr_data r)) sample_records)))
   \<and> concat (map (\<lambda>r. txt_of (rr_data r)) sample_records) = [''up and running'']"
proof
  show "parseTXTAnswers (wire_message [0x12, 0x34, 0x81, 0x80] [sample_question] sample_records [0, 0, 0, 0] [])
     = Some (Inr (concat (map (\<lambda>r. txt_of (rr_data r)) sample_records)))"
    by (rule txt_answers_round_trip)
      (simp_all add: sample_question_def sample_records_def question_ok_def resource_ok_def name_ok_def
        wire_strings_def bytes_of_def)
qed (simp add: sample_records_def)

end
