(* ===== verification/Go_Net.thy ===== *)
theory Go_Net
  imports Go_Strings
begin

text \<open>
  The functions of Go's \<open>net\<close> package (\<open>SplitHostPort\<close>, \<open>JoinHostPort\<close>, and whether \<open>ParseIP\<close>
  accepts a text) and the lines of a \<open>bufio.Scanner\<close>, as the service uses them.
\<close>

section \<open>Host and port\<close>

fun index_char :: "char \<Rightarrow> string \<Rightarrow> nat option" where
  "index_char c [] = None"
| "index_char c (d # s) = (if d = c then Some 0 else map_option Suc (index_char c s))"

definition last_index_char :: "char \<Rightarrow> string \<Rightarrow> nat option" where
  "last_index_char c s = map_option (\<lambda>i. length s - 1 - i) (index_char c (rev s))"

text \<open>\<open>None\<close> is the error.\<close>

definition SplitHostPort :: "string \<Rightarrow> (string \<times> string) option" where
  "SplitHostPort hp =
     (case last_index_char (CHR '':'') hp of None \<Rightarrow> None
      | Some i \<Rightarrow>
          if hp ! 0 = CHR ''['' then
            (case index_char (CHR '']'') hp of None \<Rightarrow> None
             | Some e \<Rightarrow>
                 if e + 1 \<noteq> i then None
                 else if CHR ''['' \<in> set (drop 1 hp) \<or> CHR '']'' \<in> set (drop (e + 1) hp) then None
                 else Some (drop 1 (take e hp), drop (i + 1) hp))
          else if CHR '':'' \<in> set (take i hp) then None
          else if CHR ''['' \<in> set hp \<or> CHR '']'' \<in> set hp then None
          else Some (take i hp, drop (i + 1) hp))"

definition JoinHostPort :: "string \<Rightarrow> string \<Rightarrow> string" where
  "JoinHostPort host port =
     (if CHR '':'' \<in> set host then ''['' @ host @ '']:'' @ port else host @ '':'' @ port)"

lemma index_char_None: "index_char c s = None \<longleftrightarrow> c \<notin> set s"
  by (induction s) auto

lemma index_char_at: "c \<notin> set s \<Longrightarrow> index_char c (s @ c # t) = Some (length s)"
  by (induction s) auto

lemma last_index_at: "c \<notin> set t \<Longrightarrow> last_index_char c (s @ c # t) = Some (length s)"
  using index_char_at [of c "rev t" "rev s"] by (simp add: last_index_char_def)

text \<open>A host without brackets and its port come back.\<close>

lemma split_join:
  assumes "CHR ''['' \<notin> set h" "CHR '']'' \<notin> set h"
    and "CHR '':'' \<notin> set p" "CHR ''['' \<notin> set p" "CHR '']'' \<notin> set p"
  shows "SplitHostPort (JoinHostPort h p) = Some (h, p)"
proof (cases "CHR '':'' \<in> set h")
  case True
  let ?hp = "''['' @ h @ '']:'' @ p"
  have l: "last_index_char (CHR '':'') ?hp = Some (length h + 2)"
    using last_index_at [of "CHR '':''" p "''['' @ h @ '']''"] assms by simp
  have "index_char (CHR '']'') ?hp = Some (length h + 1)"
    using index_char_at [of "CHR '']''" "''['' @ h" "'':'' @ p"] assms by simp
  with True l assms show ?thesis by (simp add: SplitHostPort_def JoinHostPort_def)
next
  case False
  have "last_index_char (CHR '':'') (h @ '':'' @ p) = Some (length h)"
    using last_index_at [of "CHR '':''" p h] assms by simp
  moreover have "(h @ '':'' @ p) ! 0 \<noteq> CHR ''[''"
    using assms(1) by (cases h) auto
  ultimately show ?thesis using False assms by (simp add: SplitHostPort_def JoinHostPort_def)
qed

section \<open>Addresses\<close>

definition octet_ok :: "string \<Rightarrow> bool" where
  "octet_ok s \<longleftrightarrow> s \<noteq> [] \<and> list_all is_digit s \<and> (length s = 1 \<or> hd s \<noteq> CHR ''0'') \<and> digits_val s \<le> 255"

definition ipv4_ok :: "string \<Rightarrow> bool" where
  "ipv4_ok s \<longleftrightarrow> (let os = split_char (CHR ''.'') s in length os = 4 \<and> list_all octet_ok os)"

definition is_hex :: "char \<Rightarrow> bool" where
  "is_hex c \<longleftrightarrow> is_digit c \<or> CHR ''a'' \<le> c \<and> c \<le> CHR ''f'' \<or> CHR ''A'' \<le> c \<and> c \<le> CHR ''F''"

text \<open>
  The groups of an IPv6 address: \<open>i\<close> bytes are parsed, \<open>el\<close> tells whether an ellipsis was seen, and
  \<open>g\<close> is how many groups may still come.
\<close>

definition v6_complete :: "nat \<Rightarrow> bool \<Rightarrow> bool" where
  "v6_complete i el \<longleftrightarrow> (if i < 16 then el else \<not> el)"

fun v6_groups :: "nat \<Rightarrow> nat \<Rightarrow> bool \<Rightarrow> string \<Rightarrow> bool" where
  "v6_groups 0 i el s \<longleftrightarrow> s = [] \<and> v6_complete i el"
| "v6_groups (Suc g) i el s \<longleftrightarrow>
     (let h = takeWhile is_hex s; r = dropWhile is_hex s in
      if h = [] \<or> length h > 4 then False
      else case r of
        [] \<Rightarrow> v6_complete (i + 2) el
      | c # t \<Rightarrow>
          if c = CHR ''.'' then (el \<or> i = 12) \<and> i + 4 \<le> 16 \<and> ipv4_ok s \<and> v6_complete (i + 4) el
          else if c \<noteq> CHR '':'' then False
          else (case t of
              [] \<Rightarrow> False
            | d # u \<Rightarrow>
                if d = CHR '':'' then (if el then False else if u = [] then v6_complete (i + 2) True else v6_groups g (i + 2) True u)
                else v6_groups g (i + 2) el t))"

definition ipv6_ok :: "string \<Rightarrow> bool" where
  "ipv6_ok s \<longleftrightarrow>
     (if take 2 s = ''::'' then length s = 2 \<or> v6_groups 8 0 True (drop 2 s) else v6_groups 8 0 False s)"

text \<open>Whether \<open>net.ParseIP\<close> returns an address; a zone is refused.\<close>

definition ParseIP_ok :: "string \<Rightarrow> bool" where
  "ParseIP_ok s \<longleftrightarrow>
     (case dropWhile (\<lambda>c. c \<notin> set ''.:%'') s of
        [] \<Rightarrow> False
      | c # _ \<Rightarrow> if c = CHR ''.'' then ipv4_ok s else if c = CHR '':'' then CHR ''%'' \<notin> set s \<and> ipv6_ok s else False)"

lemma ParseIP_examples:
  "ParseIP_ok ''10.0.0.1'' \<and> ParseIP_ok ''2001:db8::1'' \<and> ParseIP_ok ''::'' \<and> ParseIP_ok ''::ffff:1.2.3.4''
   \<and> \<not> ParseIP_ok ''10.0.0'' \<and> \<not> ParseIP_ok ''01.2.3.4'' \<and> \<not> ParseIP_ok ''fe80::1%wlan0'' \<and> \<not> ParseIP_ok ''1::2::3''
   \<and> \<not> ParseIP_ok ''nameserver''"
  by code_simp

section \<open>Lines\<close>

text \<open>
  \<open>bufio.ScanLines\<close> drops one carriage return; a line that does not fit the buffer of 65536 bytes
  ends the scan.
\<close>

definition drop_cr :: "string \<Rightarrow> string" where
  "drop_cr s = (if s \<noteq> [] \<and> last s = CHR 0x0D then butlast s else s)"

definition scan_lines :: "string \<Rightarrow> string list" where
  "scan_lines s =
     (let ls = split_char (CHR 0x0A) s; ls' = (if last ls = [] then butlast ls else ls) in
      map drop_cr (takeWhile (\<lambda>l. length l < 65536) ls'))"

end
