(* ===== verification/Dns_Probe.thy ===== *)
theory Dns_Probe
  imports Dns_Message Go_Net MM_Bearer
begin

text \<open>
  From \<open>internal/health/probe.go\<close> and \<open>resolvers.go\<close>: the remote probe, which asks the resolvers
  of the network and then the configured targets, and the resolvers it is given. Sockets are
  parameters: a connection answers each step with an error or not, and then delivers packets until
  the deadline ends the reading.
\<close>

section \<open>Resolvers\<close>

text \<open>The sources in order; \<open>None\<close> is a nil entry.\<close>

fun collect :: "string list \<Rightarrow> string list \<Rightarrow> string list" where
  "collect out [] = out"
| "collect out (a # as) = (if a = '''' \<or> a \<in> set out then collect out as else collect (out @ [a]) as)"

fun Resolvers_from :: "string list \<Rightarrow> string list option list \<Rightarrow> string list" where
  "Resolvers_from out [] = out"
| "Resolvers_from out (None # srcs) = Resolvers_from out srcs"
| "Resolvers_from out (Some as # srcs) = Resolvers_from (collect out as) srcs"

definition Resolvers :: "string list option list \<Rightarrow> string list" where
  "Resolvers srcs = Resolvers_from [] srcs"

definition resolv_conf_line :: "string \<Rightarrow> string list" where
  "resolv_conf_line l =
     (let line = TrimSpace l; fields = Fields line in
      if line = '''' \<or> HasPrefix line ''#'' \<or> HasPrefix line '';'' then []
      else if length fields < 2 \<or> fields ! 0 \<noteq> ''nameserver'' then []
      else if ParseIP_ok (fields ! 1) then [fields ! 1] else [])"

definition ParseResolvConf :: "string \<Rightarrow> string list" where
  "ParseResolvConf data = concat (map resolv_conf_line (scan_lines data))"

definition resolvectl_line :: "string \<Rightarrow> string list" where
  "resolvectl_line l =
     (let line = TrimSpace l in
      if HasPrefix line ''DNS Servers:'' then filter ParseIP_ok (Fields (TrimPrefix line ''DNS Servers:'')) else [])"

definition ParseResolvectl :: "string \<Rightarrow> string list" where
  "ParseResolvectl out = concat (map resolvectl_line (scan_lines out))"

text \<open>\<open>None\<close> is a file that cannot be read, or a command that fails.\<close>

definition ResolvConfSource :: "string option \<Rightarrow> string list" where
  "ResolvConfSource data = (case data of None \<Rightarrow> [] | Some d \<Rightarrow> ParseResolvConf d)"

definition ResolvectlSource :: "string option \<Rightarrow> string list" where
  "ResolvectlSource out = (case out of None \<Rightarrow> [] | Some d \<Rightarrow> ParseResolvectl d)"

definition assignedResolvers ::
  "object_path option \<Rightarrow> prop_reader \<Rightarrow> string option \<Rightarrow> string option \<Rightarrow> string list" where
  "assignedResolvers modem prop resolvectl resolvconf =
     Resolvers
       [Some (case modem of None \<Rightarrow> []
          | Some p \<Rightarrow> (case DataBearer prop p of Inl _ \<Rightarrow> [] | Inr b \<Rightarrow> ip4_DNS (bi_IP4 b))),
        Some (ResolvectlSource resolvectl),
        Some (ResolvConfSource resolvconf)]"

section \<open>The prober\<close>

record Result =
  pr_Reachable :: bool
  pr_Detail :: string

record Prober =
  pb_Interface :: string
  pb_Targets :: "string list"
  pb_DNSTimeout :: duration
  pb_DialTimeout :: duration
  pb_VerificationName :: string
  pb_VerificationValue :: string

definition DefaultConnectivityTargets :: "string list" where
  "DefaultConnectivityTargets = [''8.8.8.8:53'', ''1.1.1.1:53'', ''9.9.9.9:53'', ''208.67.222.222:53'']"

definition probeName :: string where "probeName = ''connectivity-probe.invalid''"

definition TrimSuffix :: "string \<Rightarrow> string \<Rightarrow> string" where
  "TrimSuffix s x = (if suffix x s then take (length s - length x) s else s)"

definition NewProberWithVerification :: "string \<Rightarrow> string list \<Rightarrow> string \<Rightarrow> string \<Rightarrow> Prober" where
  "NewProberWithVerification iface targets name value =
     \<lparr>pb_Interface = iface,
      pb_Targets = (if length targets = 0 then DefaultConnectivityTargets else targets),
      pb_DNSTimeout = 2 * second_ns,
      pb_DialTimeout = 2 * second_ns,
      pb_VerificationName = TrimSuffix (TrimSpace name) ''.'',
      pb_VerificationValue = value\<rparr>"

definition NewProber :: "string \<Rightarrow> string list \<Rightarrow> Prober" where
  "NewProber iface targets = NewProberWithVerification iface targets '''' ''''"

definition withDefaultPort :: "string \<Rightarrow> string \<Rightarrow> string" where
  "withDefaultPort addr port = (if SplitHostPort addr \<noteq> None then addr else JoinHostPort addr port)"

text \<open>
  A connection: the errors of dialling, setting the deadline and writing, the random bytes, the
  packets that arrive, and the error that ends the reading.
\<close>

record connection =
  cn_dial :: "string option"
  cn_rand :: "(byte \<times> byte) option"
  cn_deadline :: "string option"
  cn_write :: "string option"
  cn_packets :: "byte list list"
  cn_end :: string

text \<open>\<open>%q\<close> of a label is modelled for labels without characters to escape.\<close>

fun build_error_text :: "build_error \<Rightarrow> string" where
  "build_error_text NoRandom = ''rand''"
| "build_error_text (BadLabel l) = ''invalid dns label '' @ CHR 0x22 # l @ [CHR 0x22]"

fun dns_error_text :: "dns_error \<Rightarrow> string" where
  "dns_error_text ShortResponse = ''short dns response''"
| "dns_error_text TruncatedQuestion = ''truncated dns question''"
| "dns_error_text TruncatedAnswer = ''truncated dns answer''"
| "dns_error_text TruncatedRdata = ''truncated dns rdata''"
| "dns_error_text TruncatedTXT = ''truncated TXT string''"
| "dns_error_text TruncatedName = ''truncated dns name''"
| "dns_error_text TruncatedPointer = ''truncated dns compression pointer''"
| "dns_error_text InvalidLabel = ''invalid dns label''"
| "dns_error_text TruncatedLabel = ''truncated dns label''"
| "dns_error_text IndexPanic = ''''"

text \<open>A packet that is a response to the query of this id.\<close>

definition is_response :: "16 word \<Rightarrow> byte list \<Rightarrow> bool" where
  "is_response qid buf \<longleftrightarrow> \<not> length buf < 12 \<and> uint16_at buf 0 = Inr qid \<and> (buf ! 2) AND 0x80 \<noteq> 0"

text \<open>The two read loops; \<open>None\<close> is success.\<close>

fun await_any :: "16 word \<Rightarrow> string \<Rightarrow> byte list list \<Rightarrow> string option" where
  "await_any qid e [] = Some e"
| "await_any qid e (p # ps) = (if \<not> is_response qid (take 512 p) then await_any qid e ps else None)"

fun await_txt :: "16 word \<Rightarrow> string \<Rightarrow> string \<Rightarrow> byte list list \<Rightarrow> string option" where
  "await_txt qid expected e [] = Some e"
| "await_txt qid expected e (p # ps) =
     (let buf = take 1500 p in
      if \<not> is_response qid buf then await_txt qid expected e ps
      else let rcode = (buf ! 3) AND 0x0F in
        if rcode \<noteq> 0 then Some (''rcode '' @ dec_str (unat rcode))
        else case parseTXTAnswers buf of
          None \<Rightarrow> Some ''''
        | Some (Inl x) \<Rightarrow> Some (dns_error_text x)
        | Some (Inr vs) \<Rightarrow> if expected \<in> set vs then None else Some ''expected TXT value not found'')"

definition exchange :: "connection \<Rightarrow> build_error + (byte list \<times> 16 word) \<Rightarrow> (16 word \<Rightarrow> string option) \<Rightarrow> string option" where
  "exchange c query await =
     (case cn_dial c of Some e \<Rightarrow> Some e
      | None \<Rightarrow> case query of Inl x \<Rightarrow> Some (build_error_text x)
      | Inr (q, qid) \<Rightarrow> case cn_deadline c of Some e \<Rightarrow> Some e
      | None \<Rightarrow> case cn_write c of Some e \<Rightarrow> Some e
      | None \<Rightarrow> await qid)"

definition dnsQuery :: "connection \<Rightarrow> string option" where
  "dnsQuery c = exchange c (buildDNSQuery (cn_rand c) probeName) (\<lambda>qid. await_any qid (cn_end c) (cn_packets c))"

definition dnsTXTQuery :: "connection \<Rightarrow> string \<Rightarrow> string \<Rightarrow> string option" where
  "dnsTXTQuery c name expected =
     exchange c (buildDNSQueryType (cn_rand c) name 16) (\<lambda>qid. await_txt qid expected (cn_end c) (cn_packets c))"

text \<open>
  The network as the nth attempt of a probe finds it: whether the context is done, the connection to
  an address, and the error of a TCP dial or of closing what it opened.
\<close>

record probe_env =
  pe_done :: "nat \<Rightarrow> bool"
  pe_conn :: "nat \<Rightarrow> string \<Rightarrow> connection"
  pe_tcp :: "nat \<Rightarrow> string \<Rightarrow> string option"

definition cancelled_after :: "string list \<Rightarrow> Result" where
  "cancelled_after tried =
     \<lparr>pr_Reachable = False, pr_Detail = ''cancelled after ['' @ join_with '' '' tried @ '']''\<rparr>"

text \<open>A loop over addresses: the verdict that ends the probe, or the attempts made and their errors.\<close>

fun try_each :: "probe_env \<Rightarrow> (nat \<Rightarrow> string \<Rightarrow> string option) \<Rightarrow> (string \<Rightarrow> string) \<Rightarrow> (string \<Rightarrow> string)
    \<Rightarrow> nat \<Rightarrow> string list \<Rightarrow> string list \<Rightarrow> Result + (nat \<times> string list)" where
  "try_each env ask label found n tried [] = Inr (n, tried)"
| "try_each env ask label found n tried (a # as) =
     (if pe_done env n then Inl (cancelled_after tried)
      else case ask n a of
        None \<Rightarrow> Inl \<lparr>pr_Reachable = True, pr_Detail = found a\<rparr>
      | Some e \<Rightarrow> try_each env ask label found (Suc n) (tried @ [label a @ '': '' @ e]) as)"

definition probeVerifiedTXT :: "Prober \<Rightarrow> probe_env \<Rightarrow> string list \<Rightarrow> Result" where
  "probeVerifiedTXT p env assignedDNS =
     (case try_each env
        (\<lambda>n r. dnsTXTQuery (pe_conn env n (withDefaultPort r ''53'')) (pb_VerificationName p) (pb_VerificationValue p))
        (\<lambda>r. ''verified dns '' @ withDefaultPort r ''53'') (\<lambda>r. ''verified dns '' @ withDefaultPort r ''53'')
        0 [] (assignedDNS @ pb_Targets p) of
        Inl r \<Rightarrow> r
      | Inr (_, tried) \<Rightarrow> \<lparr>pr_Reachable = False, pr_Detail = ''no verified target answered: '' @ join_with ''; '' tried\<rparr>)"

definition Probe :: "Prober \<Rightarrow> probe_env \<Rightarrow> string list \<Rightarrow> Result" where
  "Probe p env assignedDNS =
     (if pb_VerificationName p \<noteq> '''' \<or> pb_VerificationValue p \<noteq> '''' then
        (if pb_VerificationName p = '''' \<or> pb_VerificationValue p = '''' then
           \<lparr>pr_Reachable = False, pr_Detail = ''connectivity verification requires both name and value''\<rparr>
         else probeVerifiedTXT p env assignedDNS)
      else case try_each env (\<lambda>n r. dnsQuery (pe_conn env n (withDefaultPort r ''53'')))
          (\<lambda>r. ''dns '' @ withDefaultPort r ''53'') (\<lambda>r. ''dns '' @ withDefaultPort r ''53'' @ '' answered'')
          0 [] assignedDNS of
        Inl r \<Rightarrow> r
      | Inr (n, tried) \<Rightarrow>
          case try_each env (pe_tcp env) (\<lambda>t. ''tcp '' @ t) (\<lambda>t. ''tcp '' @ t @ '' open'') n tried (pb_Targets p) of
            Inl r \<Rightarrow> r
          | Inr (_, tried) \<Rightarrow> \<lparr>pr_Reachable = False, pr_Detail = ''no target answered: '' @ join_with ''; '' tried\<rparr>)"

section \<open>Lemmas\<close>

lemma collect_eq: "collect out as = out @ rev (remdups (rev (filter (\<lambda>a. a \<noteq> '''' \<and> a \<notin> set out) as)))"
proof (induction as arbitrary: out)
  case (Cons a as)
  show ?case
  proof (cases "a = '''' \<or> a \<in> set out")
    case True
    with Cons show ?thesis by auto
  next
    case False
    have "rev (remdups (ys @ [a])) = a # rev (remdups (filter (\<lambda>b. b \<noteq> a) ys))" for ys :: "string list"
      by (induction ys) auto
    from this [of "rev (filter (\<lambda>b. b \<noteq> '''' \<and> b \<notin> set out) as)"] False Cons [of "out @ [a]"] show ?thesis
      by (auto simp: rev_filter [symmetric] conj_commute conj_left_commute intro!: arg_cong [of _ _ remdups] filter_cong)
  qed
qed simp

lemma collect_append: "collect (collect out as) bs = collect out (as @ bs)"
  by (induction as arbitrary: out) auto

lemma Resolvers_from_eq: "Resolvers_from out srcs = collect out (concat (map (case_option [] (\<lambda>as. as)) srcs))"
  by (induction out srcs rule: Resolvers_from.induct) (auto simp: collect_append)

lemma try_each_reached:
  "try_each env ask label found n tried as = Inl r \<Longrightarrow> pr_Reachable r \<Longrightarrow>
     \<exists>k a. n \<le> k \<and> a \<in> set as \<and> \<not> pe_done env k \<and> ask k a = None"
  by (induction as arbitrary: n tried)
    (auto simp: cancelled_after_def split: if_splits option.splits, (metis Suc_leD order_refl)+)

lemma await_any_None:
  "await_any qid e ps = None \<Longrightarrow> \<exists>p \<in> set ps. is_response qid (take 512 p)"
  by (induction ps) (auto split: if_splits)

definition proves :: "16 word \<Rightarrow> string \<Rightarrow> byte list \<Rightarrow> bool" where
  "proves qid expected buf \<longleftrightarrow> is_response qid buf \<and> (buf ! 3) AND 0x0F = 0
     \<and> (\<exists>vs. parseTXTAnswers buf = Some (Inr vs) \<and> expected \<in> set vs)"

lemma await_txt_None:
  "await_txt qid expected e ps = None \<Longrightarrow> \<exists>p \<in> set ps. proves qid expected (take 1500 p)"
  by (induction ps) (auto simp: Let_def proves_def split: if_splits option.splits sum.splits)

lemma exchange_None:
  "exchange c query await = None \<Longrightarrow>
     \<exists>q qid. query = Inr (q, qid) \<and> cn_dial c = None \<and> cn_deadline c = None \<and> cn_write c = None \<and> await qid = None"
  by (auto simp: exchange_def split: option.splits sum.splits)

text \<open>The query went out over this connection and a packet came back that satisfies \<open>P\<close>, which knows the id.\<close>

definition came_back :: "connection \<Rightarrow> build_error + (byte list \<times> 16 word) \<Rightarrow> (16 word \<Rightarrow> byte list \<Rightarrow> bool) \<Rightarrow> bool" where
  "came_back c query P \<longleftrightarrow> cn_dial c = None \<and> cn_write c = None
     \<and> (\<exists>q qid pkt. query = Inr (q, qid) \<and> pkt \<in> set (cn_packets c) \<and> P qid pkt)"

lemma dnsQuery_None:
  assumes "dnsQuery c = None"
  shows "came_back c (buildDNSQuery (cn_rand c) probeName) (\<lambda>qid pkt. is_response qid (take 512 pkt))"
  using exchange_None [OF assms [unfolded dnsQuery_def]] await_any_None unfolding came_back_def by blast

lemma dnsTXTQuery_None:
  assumes "dnsTXTQuery c name v = None"
  shows "came_back c (buildDNSQueryType (cn_rand c) name 16) (\<lambda>qid pkt. proves qid v (take 1500 pkt))"
  using exchange_None [OF assms [unfolded dnsTXTQuery_def]] await_txt_None unfolding came_back_def by blast

section \<open>Properties\<close>


text \<open>
   The resolvers are the non-empty addresses of all sources in order of priority, each kept where
  it occurs first: the loop over the sources with its map of addresses seen computes exactly that.
\<close>

theorem Resolvers_dedup:
  "Resolvers srcs =
     rev (remdups (rev (filter (\<lambda>a. a \<noteq> '''') (concat (map (case_option [] (\<lambda>as. as)) srcs)))))"
  by (simp add: Resolvers_def Resolvers_from_eq collect_eq)

text \<open>
   An address without brackets gets a form that dials: it is split into host and port, with port
  53 added when it has none, also for an IPv6 address, whose colons are not taken for a port.
\<close>

theorem default_port_dials:
  assumes "CHR ''['' \<notin> set a" and "CHR '']'' \<notin> set a"
  shows "SplitHostPort (withDefaultPort a ''53'') \<noteq> None"
  using assms split_join [of a "''53''"] by (auto simp: withDefaultPort_def)

lemma default_port_dials_witness:
  "SplitHostPort (withDefaultPort ''2001:db8::1'' ''53'') \<noteq> None
   \<and> withDefaultPort ''2001:db8::1'' ''53'' = ''[2001:db8::1]:53''"
proof
  show "SplitHostPort (withDefaultPort ''2001:db8::1'' ''53'') \<noteq> None"
    by (rule default_port_dials) simp_all
  show "withDefaultPort ''2001:db8::1'' ''53'' = ''[2001:db8::1]:53''" by code_simp
qed

text \<open>A network whose resolver answers after a stray packet.\<close>

definition sample_env :: probe_env where
  "sample_env = \<lparr>pe_done = (\<lambda>_. False),
     pe_conn = (\<lambda>_ _. \<lparr>cn_dial = None, cn_rand = Some (1, 2), cn_deadline = None, cn_write = None,
       cn_packets = [[9, 9], [1, 2, 0x81, 3, 0, 0, 0, 0, 0, 0, 0, 0]], cn_end = ''timeout''\<rparr>),
     pe_tcp = (\<lambda>_ _. Some ''refused'')\<rparr>"


end
