(* ===== verification/Remedy.thy ===== *)
theory Remedy
  imports Link Dns_Probe
begin

text \<open>
  From \<open>internal/service/service.go\<close>: what the service does with a link assessment. \<open>handleAssessment\<close>
  confirms a failure, keeps each remedy to its cooldown and carries it out; the status round
  (\<open>checkAndPublishModemStatus\<close>, from the link snapshot on) runs the assessor, decides about the
  remote probe and hands the assessment over. Each reading of the clock, the snapshot, the answer
  of a probe and the state of the modem's lock are inputs of the round.
\<close>

section \<open>Constants\<close>

definition remedyConfirmations :: nat where "remedyConfirmations = 2"
definition reattachCooldown :: duration where "reattachCooldown = 5 * minute_ns"
definition bearerBounceCooldown :: duration where "bearerBounceCooldown = 5 * minute_ns"
definition modemResetCooldown :: duration where "modemResetCooldown = 30 * minute_ns"

fun remedyCooldownFor :: "Remedy \<Rightarrow> duration" where
  "remedyCooldownFor RemedyReattach = reattachCooldown"
| "remedyCooldownFor RemedyBearerBounce = bearerBounceCooldown"
| "remedyCooldownFor RemedyModemReset = modemResetCooldown"
| "remedyCooldownFor RemedyNone = 0"

section \<open>Carrying out a remedy\<close>

text \<open>
  \<open>ra_busy\<close> is a recovery that holds the lock, \<open>ra_modem\<close> the answer of \<open>FindModem\<close>. The actions are the
  calls into the APN manager, NetworkManager and the recovery.
\<close>

record remedy_env =
  ra_busy :: bool
  ra_enabled :: bool
  ra_modem :: "string option"

datatype remedy_action = ActReattach string | ActReapply | ActModemFailure

definition applyRemedy :: "remedy_env \<Rightarrow> Remedy \<Rightarrow> remedy_action list" where
  "applyRemedy env r =
     (if r \<noteq> RemedyModemReset \<and> (ra_busy env \<or> \<not> ra_enabled env) then []
      else case r of
        RemedyReattach \<Rightarrow> (case ra_modem env of None \<Rightarrow> [] | Some p \<Rightarrow> [ActReattach p])
      | RemedyBearerBounce \<Rightarrow> [ActReapply]
      | RemedyModemReset \<Rightarrow> [ActModemFailure]
      | RemedyNone \<Rightarrow> [])"

section \<open>Deciding about a remedy\<close>

record Watchdog =
  wd_link :: Assessor
  wd_pendingLayer :: Layer
  wd_pendingRepeat :: nat
  wd_cooldown :: "Remedy \<Rightarrow> gotime option"
  wd_wantATCheck :: bool
  wd_probeInterval :: duration
  wd_nextProbeAt :: gotime
  wd_lastProbe :: Result
  wd_lastAssessment :: Assessment

definition confirm_layer :: "Layer \<Rightarrow> Watchdog \<Rightarrow> Watchdog" where
  "confirm_layer l w =
     (if l \<noteq> wd_pendingLayer w then w\<lparr>wd_pendingLayer := l, wd_pendingRepeat := 1\<rparr>
      else w\<lparr>wd_pendingRepeat := wd_pendingRepeat w + 1\<rparr>)"

text \<open>The remedy that was applied, with the actions that this took, or \<open>None\<close>.\<close>

definition handleAssessment ::
  "gotime \<Rightarrow> remedy_env \<Rightarrow> Assessment \<Rightarrow> Watchdog \<Rightarrow> (Remedy \<times> remedy_action list) option \<times> Watchdog" where
  "handleAssessment now env a w0 =
     (if as_Healthy a \<or> as_Remedy a = RemedyNone then (None, w0\<lparr>wd_pendingRepeat := 0\<rparr>)
      else
        let w = confirm_layer (as_FailedLayer a) w0 in
        if wd_pendingRepeat w < remedyConfirmations then (None, w)
        else if (case wd_cooldown w (as_Remedy a) of Some til \<Rightarrow> time_Before now til | None \<Rightarrow> False) then (None, w)
        else
          (Some (as_Remedy a, applyRemedy env (as_Remedy a)),
           w\<lparr>wd_cooldown := (wd_cooldown w)(as_Remedy a \<mapsto> time_Add now (remedyCooldownFor (as_Remedy a))),
             wd_link := NoteRemedyApplied (as_FailedLayer a) (as_Remedy a) (wd_link w)\<rparr>))"

section \<open>What is published about the link\<close>

text \<open>
  The text of a reason. Of \<open>%q\<close> only the quotes are modelled: what it is applied to are power states
  and registration states, which are plain names.
\<close>

definition quoted :: "string \<Rightarrow> string" where "quoted s = CHR 0x22 # s @ [CHR 0x22]"

fun reason_text :: "link_reason \<Rightarrow> string" where
  "reason_text NoReason = ''''"
| "reason_text ModemNotPresent = ''modem not present on D-Bus''"
| "reason_text PrimaryPortUnavailable = ''primary port unavailable''"
| "reason_text (PowerStateIs s) = ''power state '' @ quoted s"
| "reason_text (SIMLocked s) = ''SIM locked ('' @ s @ '')''"
| "reason_text (RegistrationIs s) = ''registration '' @ quoted s"
| "reason_text PacketServiceDetached = ''packet service detached''"
| "reason_text BearerNotConnected = ''bearer not connected''"
| "reason_text BearerIsSuspended = ''bearer suspended''"
| "reason_text BearerHasNoAddress = ''bearer has no address''"
| "reason_text PDPInactive = ''modem reports PDP context inactive while the bearer claims connected''"
| "reason_text (ModemAddrDisagrees a b) = ''modem address '' @ a @ '' disagrees with bearer address '' @ b"
| "reason_text (NoCarrierOn i) = ''no carrier on '' @ i"
| "reason_text (NoDefaultRouteVia i) = ''no default route via '' @ i"
| "reason_text (NetdevAddrDisagrees a b) = ''interface address '' @ a @ '' disagrees with bearer address '' @ b"
| "reason_text (SessionFlapping n d) =
     ''data session flapping: '' @ dec_str n @ '' short-lived sessions, latest lasted '' @ dec_str (unat d) @ ''s''"

definition linkLayerField :: "Assessment \<Rightarrow> string" where
  "linkLayerField a =
     (if as_Healthy a then ''ok''
      else if as_Reason a = NoReason then Layer_String (as_FailedLayer a)
      else Layer_String (as_FailedLayer a) @ '': '' @ reason_text (as_Reason a))"

section \<open>The remote probe\<close>

definition nextProbeInterval :: "duration \<Rightarrow> duration \<Rightarrow> duration \<Rightarrow> duration" where
  "nextProbeInterval cur base maxInterval =
     (let next = wrap64 (cur * 2) in
      if next > maxInterval then maxInterval else if next < base then base else next)"

definition reachabilityField :: "bool \<Rightarrow> Assessment \<Rightarrow> string" where
  "reachabilityField reachable a =
     (if reachable then ''ok'' else if as_Healthy a then ''unreachable'' else ''no-path'')"

text \<open>The probe part of the round: the new watchdog and the internet status that is published.\<close>

definition probe_round ::
  "duration \<Rightarrow> duration \<Rightarrow> gotime \<Rightarrow> Result \<Rightarrow> Assessment \<Rightarrow> Watchdog \<Rightarrow> Watchdog \<times> string" where
  "probe_round base maxInterval now answer a w0 =
     (let changed = (a \<noteq> wd_lastAssessment w0);
          w1 = (if \<not> as_Healthy a then w0\<lparr>wd_lastProbe := \<lparr>pr_Reachable = False, pr_Detail = ''not probed: '' @ linkLayerField a\<rparr>\<rparr> else w0);
          w2 = (if as_Healthy a \<and> (time_After now (wd_nextProbeAt w1) \<or> changed) then
                  (let i = nextProbeInterval (wd_probeInterval w1) base maxInterval in
                   w1\<lparr>wd_lastProbe := answer, wd_probeInterval := i, wd_nextProbeAt := time_Add now i\<rparr>)
                else w1);
          w3 = (if changed then w2\<lparr>wd_probeInterval := base\<rparr> else w2);
          w4 = w3\<lparr>wd_lastAssessment := a\<rparr>
      in (w4, if pr_Reachable (wd_lastProbe w4) then ''connected'' else ''disconnected''))"

text \<open>Whether this round sends a probe.\<close>

definition probes :: "gotime \<Rightarrow> Assessment \<Rightarrow> Watchdog \<Rightarrow> bool" where
  "probes now a w \<longleftrightarrow> as_Healthy a \<and> (time_After now (wd_nextProbeAt w) \<or> a \<noteq> wd_lastAssessment w)"

section \<open>A round\<close>

text \<open>
  One status round from the link snapshot on. The remedy is decided at the end, by a later reading of
  the clock, and not while an APN change is settling.
\<close>

record round =
  rd_snap :: LinkSnapshot
  rd_now :: gotime
  rd_later :: gotime
  rd_settling :: bool
  rd_answer :: Result
  rd_env :: remedy_env

record verdict =
  vd_round :: round
  vd_assessment :: Assessment
  vd_probed :: bool
  vd_status :: string
  vd_applied :: "(Remedy \<times> remedy_action list) option"

definition link_round :: "duration \<Rightarrow> duration \<Rightarrow> round \<Rightarrow> Watchdog \<Rightarrow> verdict \<times> Watchdog" where
  "link_round base maxInterval rd w0 =
     (case Assess (rd_snap rd) (wd_link w0) of (a, l) \<Rightarrow>
        let w1 = w0\<lparr>wd_link := l, wd_wantATCheck := as_WantATCheck a\<rparr> in
        case probe_round base maxInterval (rd_now rd) (rd_answer rd) a w1 of (w2, status) \<Rightarrow>
        case (if rd_settling rd then (None, w2\<lparr>wd_pendingRepeat := 0\<rparr>)
              else handleAssessment (rd_later rd) (rd_env rd) a w2) of (applied, w3) \<Rightarrow>
          (\<lparr>vd_round = rd, vd_assessment = a, vd_probed = probes (rd_now rd) a w1,
            vd_status = status, vd_applied = applied\<rparr>, w3))"

definition Watchdog_New :: "duration \<Rightarrow> Watchdog" where
  "Watchdog_New base = \<lparr>wd_link = Assessor_New, wd_pendingLayer = LayerHardware, wd_pendingRepeat = 0,
     wd_cooldown = (\<lambda>_. None), wd_wantATCheck = False, wd_probeInterval = base, wd_nextProbeAt = zero_time,
     wd_lastProbe = \<lparr>pr_Reachable = False, pr_Detail = ''''\<rparr>,
     wd_lastAssessment = \<lparr>as_Healthy = False, as_FailedLayer = LayerHardware, as_Reason = NoReason,
       as_Remedy = RemedyNone, as_WantATCheck = False\<rparr>\<rparr>"

text \<open>The verdicts of a series of rounds, the latest last.\<close>

fun watch :: "duration \<Rightarrow> duration \<Rightarrow> round list \<Rightarrow> Watchdog \<Rightarrow> verdict list \<times> Watchdog" where
  "watch base mx [] w = ([], w)"
| "watch base mx (rd # rds) w =
     (case link_round base mx rd w of (v, w1) \<Rightarrow> case watch base mx rds w1 of (vs, w2) \<Rightarrow> (v # vs, w2))"

section \<open>Lemmas\<close>

lemma watch_snoc:
  "watch base mx (rds @ [rd]) w =
     (case watch base mx rds w of (vs, w1) \<Rightarrow>
        case link_round base mx rd w1 of (v, w2) \<Rightarrow> (vs @ [v], w2))"
  by (induction rds arbitrary: w) (auto split: prod.split)

lemma probe_round_fields:
  "probe_round base mx now r a w = (w', st) \<Longrightarrow>
     wd_link w' = wd_link w \<and> wd_pendingLayer w' = wd_pendingLayer w
     \<and> wd_pendingRepeat w' = wd_pendingRepeat w \<and> wd_cooldown w' = wd_cooldown w
     \<and> wd_wantATCheck w' = wd_wantATCheck w"
  by (cases "as_Healthy a"; cases "a = wd_lastAssessment w") (auto simp: probe_round_def Let_def split: if_splits)

text \<open>A round leaves a pending confirmation only for a failure of its own.\<close>

definition failing :: "verdict \<Rightarrow> Layer \<Rightarrow> bool" where
  "failing v l \<longleftrightarrow> \<not> as_Healthy (vd_assessment v) \<and> as_Remedy (vd_assessment v) \<noteq> RemedyNone
     \<and> as_FailedLayer (vd_assessment v) = l \<and> \<not> rd_settling (vd_round v)"

lemma handle_repeat:
  assumes "handleAssessment now env a w = (ap, w')"
  shows "(wd_pendingRepeat w' > 0 \<longrightarrow> \<not> as_Healthy a \<and> as_Remedy a \<noteq> RemedyNone \<and> wd_pendingLayer w' = as_FailedLayer a)
    \<and> (ap \<noteq> None \<longrightarrow> \<not> as_Healthy a \<and> as_Remedy a \<noteq> RemedyNone \<and> wd_pendingRepeat w > 0
         \<and> wd_pendingLayer w = as_FailedLayer a \<and> fst (the ap) = as_Remedy a)"
  using assms
  by (auto simp: handleAssessment_def Let_def confirm_layer_def remedyConfirmations_def
      split: if_splits option.splits)

lemma link_round_repeat:
  assumes "link_round base mx rd w = (v, w')"
  shows "(wd_pendingRepeat w' > 0 \<longrightarrow> failing v (wd_pendingLayer w'))
    \<and> (vd_applied v \<noteq> None \<longrightarrow> failing v (as_FailedLayer (vd_assessment v)) \<and> wd_pendingRepeat w > 0
         \<and> wd_pendingLayer w = as_FailedLayer (vd_assessment v)
         \<and> fst (the (vd_applied v)) = as_Remedy (vd_assessment v))"
proof -
  obtain a l where al: "Assess (rd_snap rd) (wd_link w) = (a, l)" by fastforce
  let ?w1 = "w\<lparr>wd_link := l, wd_wantATCheck := as_WantATCheck a\<rparr>"
  obtain w2 st where p: "probe_round base mx (rd_now rd) (rd_answer rd) a ?w1 = (w2, st)" by fastforce
  obtain ap w3 where h: "handleAssessment (rd_later rd) (rd_env rd) a w2 = (ap, w3)" by fastforce
  from probe_round_fields [OF p] have same: "wd_pendingRepeat w2 = wd_pendingRepeat w" "wd_pendingLayer w2 = wd_pendingLayer w"
    by simp_all
  from assms handle_repeat [OF h] same show ?thesis
    by (cases "rd_settling rd") (auto simp: link_round_def al p h failing_def)
qed

lemma watch_pending:
  assumes "watch base mx rds (Watchdog_New b) = (vs, w)" and "wd_pendingRepeat w > 0"
  shows "\<exists>us u. vs = us @ [u] \<and> failing u (wd_pendingLayer w)"
proof (cases rds rule: rev_cases)
  case Nil
  with assms show ?thesis by (auto simp: Watchdog_New_def)
next
  case (snoc rds' rd)
  obtain vs1 w1 where w1: "watch base mx rds' (Watchdog_New b) = (vs1, w1)" by fastforce
  obtain v w2 where w2: "link_round base mx rd w1 = (v, w2)" by fastforce
  from assms(1) snoc w1 w2 have "vs = vs1 @ [v]" "w = w2" by (simp_all add: watch_snoc)
  moreover from this assms(2) link_round_repeat [OF w2] have "failing v (wd_pendingLayer w)" by simp
  ultimately show ?thesis by simp
qed

text \<open>The assessment of a round is that of its snapshot.\<close>

lemma link_round_assessment:
  "link_round base mx rd w = (v, w') \<Longrightarrow> vd_assessment v = fst (Assess (rd_snap rd) (wd_link w)) \<and> vd_round v = rd"
  by (auto simp: link_round_def Let_def split: prod.splits)

lemma watch_assessment:
  "watch base mx rds w = (vs, w') \<Longrightarrow> v \<in> set vs \<Longrightarrow> \<exists>l. vd_assessment v = fst (Assess (rd_snap (vd_round v)) l)"
proof (induction rds arbitrary: w vs w')
  case (Cons rd rds)
  obtain v1 w1 where r: "link_round base mx rd w = (v1, w1)" by fastforce
  obtain vs1 w2 where rest: "watch base mx rds w1 = (vs1, w2)" by fastforce
  from Cons.prems r rest have "v = v1 \<or> v \<in> set vs1" by auto
  with link_round_assessment [OF r] Cons.IH [OF rest] show ?case by metis
qed simp

lemma failing_hardware:
  assumes "vd_assessment v = fst (Assess (rd_snap (vd_round v)) l)" and "failing v LayerHardware"
  shows "\<not> layer_ok LayerHardware (rd_snap (vd_round v))"
proof -
  have "as_Remedy (fst (Assess s l)) = RemedyModemReset"
    if "\<not> as_Healthy (fst (Assess s l))" "as_FailedLayer (fst (Assess s l)) = LayerHardware" for s
  proof (cases "checkLocal s")
    case (Some f)
    with that checkLocal_lowest [OF Some] show ?thesis by (simp add: Assess_def Let_def)
  qed (use that in \<open>simp add: Assess_def Let_def split: if_splits\<close>)
  with assms show ?thesis using Assess_reset_iff unfolding failing_def by metis
qed

lemma Assess_reset_layer:
  assumes "as_Remedy (fst (Assess s l)) = RemedyModemReset"
  shows "as_FailedLayer (fst (Assess s l)) = LayerHardware"
proof (cases "checkLocal s")
  case None
  with assms ladder_no_reset show ?thesis by (simp add: Assess_def Let_def split: if_splits)
next
  case (Some f)
  with assms checkLocal_lowest [OF Some] show ?thesis
    by (cases "as_FailedLayer f") (auto simp: Assess_def Let_def)
qed

text \<open>The instants at which a remedy was carried out, in order.\<close>

definition firings :: "Remedy \<Rightarrow> verdict list \<Rightarrow> gotime list" where
  "firings r vs = map (\<lambda>v. rd_later (vd_round v))
     (filter (\<lambda>v. case vd_applied v of Some (q, _) \<Rightarrow> q = r | None \<Rightarrow> False) vs)"

lemma handle_cooldown:
  assumes "handleAssessment now env a w = (ap, w')"
  shows "wd_cooldown w' = (case ap of None \<Rightarrow> wd_cooldown w
      | Some (q, _) \<Rightarrow> (wd_cooldown w)(q \<mapsto> now + remedyCooldownFor q))
    \<and> (\<forall>q x til. ap = Some (q, x) \<longrightarrow> wd_cooldown w q = Some til \<longrightarrow> til \<le> now)"
  using assms
  by (auto simp: handleAssessment_def Let_def confirm_layer_def time_Before_def time_Add_def
      split: if_splits option.splits)

lemma link_round_cooldown:
  assumes "link_round base mx rd w = (v, w')"
  shows "wd_cooldown w' = (case vd_applied v of None \<Rightarrow> wd_cooldown w
      | Some (q, _) \<Rightarrow> (wd_cooldown w)(q \<mapsto> rd_later rd + remedyCooldownFor q))
    \<and> (\<forall>q x til. vd_applied v = Some (q, x) \<longrightarrow> wd_cooldown w q = Some til \<longrightarrow> til \<le> rd_later rd)
    \<and> vd_round v = rd"
proof -
  obtain a l where al: "Assess (rd_snap rd) (wd_link w) = (a, l)" by fastforce
  let ?w1 = "w\<lparr>wd_link := l, wd_wantATCheck := as_WantATCheck a\<rparr>"
  obtain w2 st where p: "probe_round base mx (rd_now rd) (rd_answer rd) a ?w1 = (w2, st)" by fastforce
  obtain ap w3 where h: "handleAssessment (rd_later rd) (rd_env rd) a w2 = (ap, w3)" by fastforce
  from probe_round_fields [OF p] have c: "wd_cooldown w2 = wd_cooldown w" by simp
  note hc = handle_cooldown [OF h, unfolded c]
  show ?thesis
  proof (cases "rd_settling rd")
    case True
    with assms have "v = \<lparr>vd_round = rd, vd_assessment = a, vd_probed = probes (rd_now rd) a ?w1, vd_status = st, vd_applied = None\<rparr>"
      "w' = w2\<lparr>wd_pendingRepeat := 0\<rparr>" by (simp_all add: link_round_def al p)
    with c show ?thesis by simp
  next
    case False
    with assms have "v = \<lparr>vd_round = rd, vd_assessment = a, vd_probed = probes (rd_now rd) a ?w1, vd_status = st, vd_applied = ap\<rparr>"
      "w' = w3" by (simp_all add: link_round_def al p h)
    with hc show ?thesis by simp
  qed
qed

lemma cooldown_nonneg: "0 \<le> remedyCooldownFor r"
  by (cases r) (simp_all add: reattachCooldown_def bearerBounceCooldown_def modemResetCooldown_def go_time)

text \<open>The cooldown table remembers the last firing, and firings are a cooldown apart.\<close>

lemma watch_firings:
  assumes "watch base mx rds (Watchdog_New b) = (vs, w)"
  shows "sorted_wrt (\<lambda>t u. t + remedyCooldownFor r \<le> u) (firings r vs)
    \<and> (case wd_cooldown w r of None \<Rightarrow> firings r vs = []
       | Some til \<Rightarrow> firings r vs \<noteq> [] \<and> til = last (firings r vs) + remedyCooldownFor r)"
  using assms
proof (induction rds arbitrary: vs w rule: rev_induct)
  case Nil
  then show ?case by (auto simp: Watchdog_New_def firings_def)
next
  case (snoc rd rds)
  obtain vs1 w1 where w1: "watch base mx rds (Watchdog_New b) = (vs1, w1)" by fastforce
  obtain v w2 where w2: "link_round base mx rd w1 = (v, w2)" by fastforce
  from snoc.prems w1 w2 have v: "vs = vs1 @ [v]" "w = w2" by (simp_all add: watch_snoc)
  note ih = snoc.IH [OF w1] and step = link_round_cooldown [OF w2]
  show ?case
  proof (cases "\<exists>x. vd_applied v = Some (r, x)")
    case False
    then have "firings r vs = firings r vs1" "wd_cooldown w r = wd_cooldown w1 r"
      using v step by (cases "vd_applied v"; auto simp: firings_def)+
    note same = this
    show ?thesis unfolding same by (rule ih)
  next
    case True
    then obtain x where x: "vd_applied v = Some (r, x)" by blast
    have f: "firings r vs = firings r vs1 @ [rd_later rd]"
      using v x step by (simp add: firings_def)
    have "t + remedyCooldownFor r \<le> rd_later rd" if t: "t \<in> set (firings r vs1)" for t
    proof -
      from t have ne: "firings r vs1 \<noteq> []" by auto
      with ih obtain til where til: "wd_cooldown w1 r = Some til" "til = last (firings r vs1) + remedyCooldownFor r"
        by (auto split: option.splits)
      have "t \<le> last (firings r vs1)"
      proof (cases "t = last (firings r vs1)")
        case False
        obtain us where us: "firings r vs1 = us @ [last (firings r vs1)]" using ne by (metis append_butlast_last_id)
        with t False have "t \<in> set us" by (metis Un_iff empty_iff insert_iff list.set(1,2) set_append)
        moreover have "sorted_wrt (\<lambda>t u. t + remedyCooldownFor r \<le> u) (us @ [last (firings r vs1)])"
          using ih us by metis
        ultimately have "t + remedyCooldownFor r \<le> last (firings r vs1)" by (simp add: sorted_wrt_append)
        then show ?thesis using cooldown_nonneg [of r] by linarith
      qed simp
      with til step x show ?thesis by fastforce
    qed
    moreover have "wd_cooldown w r = Some (rd_later rd + remedyCooldownFor r)" using v step x by simp
    ultimately show ?thesis using ih f by (simp add: sorted_wrt_append)
  qed
qed

text \<open>What the remote probe last said, as long as no later assessment was bad.\<close>

lemma link_round_status:
  assumes "link_round base mx rd w = (v, w')"
  shows "(vd_status v = ''connected'' \<longleftrightarrow> pr_Reachable (wd_lastProbe w'))
    \<and> (pr_Reachable (wd_lastProbe w') \<longrightarrow> as_Healthy (vd_assessment v)
         \<and> (if vd_probed v then pr_Reachable (rd_answer rd) else pr_Reachable (wd_lastProbe w)))
    \<and> vd_round v = rd"
proof -
  obtain a l where al: "Assess (rd_snap rd) (wd_link w) = (a, l)" by fastforce
  let ?w1 = "w\<lparr>wd_link := l, wd_wantATCheck := as_WantATCheck a\<rparr>"
  obtain w2 st where p: "probe_round base mx (rd_now rd) (rd_answer rd) a ?w1 = (w2, st)" by fastforce
  obtain ap w3 where h: "handleAssessment (rd_later rd) (rd_env rd) a w2 = (ap, w3)" by fastforce
  have lp: "wd_lastProbe w3 = wd_lastProbe w2"
    using h by (auto simp: handleAssessment_def Let_def confirm_layer_def split: if_splits)
  have st: "st = (if pr_Reachable (wd_lastProbe w2) then ''connected'' else ''disconnected'')"
    and pr: "pr_Reachable (wd_lastProbe w2) \<longrightarrow> as_Healthy a
      \<and> (if probes (rd_now rd) a ?w1 then pr_Reachable (rd_answer rd) else pr_Reachable (wd_lastProbe w))"
    using p
    by (cases "as_Healthy a"; cases "a = wd_lastAssessment w";
        auto simp: probe_round_def Let_def probes_def split: if_splits)+
  have v: "vd_assessment v = a" "vd_status v = st" "vd_probed v = probes (rd_now rd) a ?w1" "vd_round v = rd"
    "wd_lastProbe w' = wd_lastProbe w2"
    using assms lp by (cases "rd_settling rd"; simp add: link_round_def al p h; auto)+
  from st pr show ?thesis unfolding v by simp
qed

text \<open>
  A verdict \<open>p\<close> whose probe was answered, and every verdict from it on healthy: what a published
  "connected" rests on.
\<close>

definition reached :: "verdict list \<Rightarrow> bool" where
  "reached vs \<longleftrightarrow> (\<exists>us p ws. vs = us @ p # ws \<and> vd_probed p \<and> pr_Reachable (rd_answer (vd_round p))
     \<and> (\<forall>v \<in> set (p # ws). as_Healthy (vd_assessment v)))"

lemma watch_reached:
  assumes "watch base mx rds (Watchdog_New b) = (vs, w)" and "pr_Reachable (wd_lastProbe w)"
  shows "reached vs"
  using assms
proof (induction rds arbitrary: vs w rule: rev_induct)
  case Nil
  then show ?case by (auto simp: Watchdog_New_def)
next
  case (snoc rd rds)
  obtain vs1 w1 where w1: "watch base mx rds (Watchdog_New b) = (vs1, w1)" by fastforce
  obtain v w2 where w2: "link_round base mx rd w1 = (v, w2)" by fastforce
  from snoc.prems(1) w1 w2 have v: "vs = vs1 @ [v]" "w = w2" by (simp_all add: watch_snoc)
  note st = link_round_status [OF w2]
  show ?case
  proof (cases "vd_probed v")
    case True
    with st snoc.prems(2) v show ?thesis
      unfolding reached_def by (intro exI [of _ vs1] exI [of _ v] exI [of _ "[]"]) auto
  next
    case False
    with st snoc.prems(2) v have "pr_Reachable (wd_lastProbe w1)" "as_Healthy (vd_assessment v)" by auto
    from snoc.IH [OF w1 this(1)] obtain us p ws where
      "vs1 = us @ p # ws" "vd_probed p" "pr_Reachable (rd_answer (vd_round p))"
      "\<forall>v \<in> set (p # ws). as_Healthy (vd_assessment v)" unfolding reached_def by blast
    with v \<open>as_Healthy (vd_assessment v)\<close> show ?thesis
      unfolding reached_def by (intro exI [of _ us] exI [of _ p] exI [of _ "ws @ [v]"]) auto
  qed
qed

lemma watch_applied:
  assumes "watch base mx (rds @ [rd]) (Watchdog_New b) = (vs, w)" and "vd_applied (last vs) \<noteq> None"
  shows "\<exists>us u v. vs = us @ [u, v] \<and> failing u (as_FailedLayer (vd_assessment v))
    \<and> failing v (as_FailedLayer (vd_assessment v)) \<and> fst (the (vd_applied v)) = as_Remedy (vd_assessment v)"
proof -
  obtain vs1 w1 where w1: "watch base mx rds (Watchdog_New b) = (vs1, w1)" by fastforce
  obtain v w2 where w2: "link_round base mx rd w1 = (v, w2)" by fastforce
  from assms(1) w1 w2 have vs: "vs = vs1 @ [v]" by (simp add: watch_snoc)
  with assms(2) link_round_repeat [OF w2] have ap: "failing v (as_FailedLayer (vd_assessment v))" "wd_pendingRepeat w1 > 0"
    "wd_pendingLayer w1 = as_FailedLayer (vd_assessment v)" "fst (the (vd_applied v)) = as_Remedy (vd_assessment v)"
    by simp_all
  from watch_pending [OF w1 ap(2)] obtain us u where "vs1 = us @ [u]" "failing u (wd_pendingLayer w1)" by blast
  with vs ap show ?thesis by auto
qed

section \<open>Properties\<close>

text \<open>
   Two firings of one remedy are at least its cooldown apart (5 minutes for a reattach or a
  bearer bounce, 30 for a modem reset), whatever the snapshots, the clock readings, the probe answers
  and the state of the lock are in any series of rounds from the start of the service.
\<close>

theorem firings_a_cooldown_apart:
  "sorted_wrt (\<lambda>t u. t + remedyCooldownFor r \<le> u) (firings r (fst (watch base mx rds (Watchdog_New b))))"
  using watch_firings by (metis prod.collapse)

text \<open>
  C14. A modem reset by the watchdog takes two rounds in a row, neither of them while an APN change
  settles, in each of which the modem's snapshot itself fails the hardware layer: no failure of a
  layer above it, however long, and no single bad snapshot resets the modem.
\<close>

theorem reset_takes_two_hardware_failures:
  assumes "watch base mx (rds @ [rd]) (Watchdog_New b) = (vs, w)"
    and "vd_applied (last vs) = Some (RemedyModemReset, acts)"
  shows "\<exists>us u v. vs = us @ [u, v]
    \<and> \<not> layer_ok LayerHardware (rd_snap (vd_round u)) \<and> \<not> rd_settling (vd_round u)
    \<and> \<not> layer_ok LayerHardware (rd_snap (vd_round v)) \<and> \<not> rd_settling (vd_round v)"
proof -
  from watch_applied [OF assms(1)] assms(2) obtain us u v where
    vs: "vs = us @ [u, v]" "failing u (as_FailedLayer (vd_assessment v))"
      "failing v (as_FailedLayer (vd_assessment v))" "as_Remedy (vd_assessment v) = RemedyModemReset"
    by fastforce
  from watch_assessment [OF assms(1)] vs(1) obtain lu lv where
    as: "vd_assessment u = fst (Assess (rd_snap (vd_round u)) lu)"
      "vd_assessment v = fst (Assess (rd_snap (vd_round v)) lv)"
    by fastforce
  have hw: "as_FailedLayer (vd_assessment v) = LayerHardware"
    using vs(3,4) as(2) Assess_reset_layer by metis
  from failing_hardware [OF as(1)] failing_hardware [OF as(2)] vs hw show ?thesis
    by (auto simp: failing_def)
qed

text \<open>
   When the service publishes that the internet is connected, some earlier round of this run (or
  this one) sent a probe that was answered, and in every round since the whole link was assessed as
  healthy: a bad layer is never reported as connected, nor is an answer from before one.
\<close>

theorem connected_rests_on_an_answered_probe:
  assumes "watch base mx (rds @ [rd]) (Watchdog_New b) = (vs, w)" and "vd_status (last vs) = ''connected''"
  shows "reached vs"
proof -
  obtain vs1 w1 where w1: "watch base mx rds (Watchdog_New b) = (vs1, w1)" by fastforce
  obtain v w2 where w2: "link_round base mx rd w1 = (v, w2)" by fastforce
  from assms(1) w1 w2 have "vs = vs1 @ [v]" "w = w2" by (simp_all add: watch_snoc)
  with assms(2) link_round_status [OF w2] have "pr_Reachable (wd_lastProbe w)" by simp
  with watch_reached [OF assms(1)] show ?thesis by blast
qed

text \<open>
   The interval to the next probe stays between the configured base and the configured maximum,
  also when doubling the interval overflows the 64 bits of a duration.
\<close>

theorem probe_interval_bounded:
  assumes "base \<le> mx"
  shows "base \<le> nextProbeInterval cur base mx \<and> nextProbeInterval cur base mx \<le> mx"
  using assms by (simp add: nextProbeInterval_def Let_def)

text \<open>
   A confirmed liveness remedy that is skipped, because a recovery holds the lock or the modem is
  disabled, does nothing, and yet starts its cooldown and is counted by the assessor as applied.
\<close>

theorem skipped_remedy_consumes_cooldown:
  assumes "\<not> as_Healthy a" and "as_Remedy a \<in> {RemedyReattach, RemedyBearerBounce}"
    and "wd_pendingLayer w = as_FailedLayer a" and "wd_pendingRepeat w = 1"
    and "wd_cooldown w (as_Remedy a) = None" and "ra_busy env \<or> \<not> ra_enabled env"
  shows "\<exists>w'. handleAssessment now env a w = (Some (as_Remedy a, []), w')
    \<and> wd_cooldown w' (as_Remedy a) = Some (now + remedyCooldownFor (as_Remedy a))
    \<and> wd_link w' = NoteRemedyApplied (as_FailedLayer a) (as_Remedy a) (wd_link w)"
  using assms by (auto simp: handleAssessment_def confirm_layer_def remedyConfirmations_def applyRemedy_def Let_def time_Add_def)

text \<open>Sample rounds: the modem gone from the bus, and a good link whose probe is answered.\<close>

definition bad_round :: round where
  "bad_round = \<lparr>rd_snap = zero_Snapshot, rd_now = 100, rd_later = 101, rd_settling = False,
     rd_answer = \<lparr>pr_Reachable = False, pr_Detail = ''''\<rparr>,
     rd_env = \<lparr>ra_busy = False, ra_enabled = True, ra_modem = None\<rparr>\<rparr>"

definition good_round :: round where
  "good_round = bad_round\<lparr>rd_snap := good_snapshot, rd_answer := \<lparr>pr_Reachable = True, pr_Detail = ''''\<rparr>\<rparr>"

lemma reset_takes_two_hardware_failures_witness:
  "\<exists>us u v. fst (watch 60 600 ([bad_round] @ [bad_round]) (Watchdog_New 60)) = us @ [u, v]
    \<and> \<not> layer_ok LayerHardware (rd_snap (vd_round u)) \<and> \<not> rd_settling (vd_round u)
    \<and> \<not> layer_ok LayerHardware (rd_snap (vd_round v)) \<and> \<not> rd_settling (vd_round v)"
proof (rule reset_takes_two_hardware_failures)
  show "watch 60 600 ([bad_round] @ [bad_round]) (Watchdog_New 60)
      = (fst (watch 60 600 ([bad_round] @ [bad_round]) (Watchdog_New 60)),
         snd (watch 60 600 ([bad_round] @ [bad_round]) (Watchdog_New 60)))" by simp
  show "vd_applied (last (fst (watch 60 600 ([bad_round] @ [bad_round]) (Watchdog_New 60))))
      = Some (RemedyModemReset, [ActModemFailure])" by code_simp
qed

lemma connected_rests_on_an_answered_probe_witness:
  "reached (fst (watch 60 600 ([bad_round] @ [good_round]) (Watchdog_New 60)))"
proof (rule connected_rests_on_an_answered_probe)
  show "watch 60 600 ([bad_round] @ [good_round]) (Watchdog_New 60)
      = (fst (watch 60 600 ([bad_round] @ [good_round]) (Watchdog_New 60)),
         snd (watch 60 600 ([bad_round] @ [good_round]) (Watchdog_New 60)))" by simp
  show "vd_status (last (fst (watch 60 600 ([bad_round] @ [good_round]) (Watchdog_New 60)))) = ''connected''"
    by code_simp
qed

lemma probe_interval_bounded_witness:
  "60 \<le> nextProbeInterval (2 ^ 62) 60 600 \<and> nextProbeInterval (2 ^ 62) 60 600 \<le> 600"
  by (rule probe_interval_bounded) simp

definition detached :: Assessment where
  "detached = \<lparr>as_Healthy = False, as_FailedLayer = LayerPacketService, as_Reason = PacketServiceDetached,
     as_Remedy = RemedyReattach, as_WantATCheck = False\<rparr>"

definition pending_watchdog :: Watchdog where
  "pending_watchdog = (Watchdog_New 60)\<lparr>wd_pendingLayer := LayerPacketService, wd_pendingRepeat := 1\<rparr>"

lemma skipped_remedy_consumes_cooldown_witness:
  "\<exists>w'. handleAssessment 7 \<lparr>ra_busy = True, ra_enabled = True, ra_modem = Some ''m''\<rparr> detached pending_watchdog
      = (Some (as_Remedy detached, []), w')
    \<and> wd_cooldown w' (as_Remedy detached) = Some (7 + remedyCooldownFor (as_Remedy detached))
    \<and> wd_link w' = NoteRemedyApplied (as_FailedLayer detached) (as_Remedy detached) (wd_link pending_watchdog)"
  by (rule skipped_remedy_consumes_cooldown) (simp_all add: detached_def pending_watchdog_def Watchdog_New_def)

end
