(* ===== verification/Apn_Nm.thy ===== *)
theory Apn_Nm
  imports State_Logic Apn_Manager
begin

text \<open>
  \<open>internal/apn/nm.go\<close>: the front end of \<open>nmcli\<close>. What a run prints and whether it fails is a
  parameter, a function of the runs so far, as are the two contexts; each operation appends the
  argument lists of its runs.
\<close>

section \<open>Running nmcli\<close>

datatype ctx_err = Canceled | DeadlineExceeded
datatype cmd_err = ContextErr ctx_err | RunErr

type_synonym runs = "string list list"

record nm_env =
  nm_run :: "runs \<Rightarrow> string list \<Rightarrow> string \<times> bool"
  nm_timeout :: "runs \<Rightarrow> string list \<Rightarrow> ctx_err option"
  nm_done :: "runs \<Rightarrow> bool"

type_synonym 'a nm_m = "(runs, 'a) state"

text \<open>The output and the error; the output is dropped when the context is done.\<close>

definition command :: "nm_env \<Rightarrow> string list \<Rightarrow> (string \<times> cmd_err option) nm_m" where
  "command env args = State (\<lambda>h.
     (case nm_timeout env h args of
        Some e \<Rightarrow> ('''', Some (ContextErr e))
      | None \<Rightarrow> (case nm_run env h args of (out, ok) \<Rightarrow> (out, if ok then None else Some RunErr)),
      h @ [args]))"

fun ctx_err_text :: "ctx_err \<Rightarrow> string" where
  "ctx_err_text Canceled = ''context canceled''"
| "ctx_err_text DeadlineExceeded = ''context deadline exceeded''"

fun nmError :: "string \<Rightarrow> cmd_err \<Rightarrow> string" where
  "nmError operation (ContextErr e) = ''nmcli '' @ operation @ '': '' @ ctx_err_text e"
| "nmError operation RunErr = ''nmcli '' @ operation @ '' failed''"

text \<open>A run whose output does not matter.\<close>

definition run_only :: "nm_env \<Rightarrow> string \<Rightarrow> string list \<Rightarrow> (string + unit) nm_m" where
  "run_only env operation args = do {
     r \<leftarrow> command env args;
     State_Monad.return (case snd r of Some e \<Rightarrow> Inl (nmError operation e) | None \<Rightarrow> Inr ())
   }"

section \<open>Settings\<close>

definition trim_newlines :: "string \<Rightarrow> string" where
  "trim_newlines s = rev (dropWhile (\<lambda>c. c = CHR 0x0A) (rev s))"

definition gsm_line :: "string \<Rightarrow> Config \<Rightarrow> Config" where
  "gsm_line line cfg =
     (case Cut line '':'' of None \<Rightarrow> cfg
      | Some (key, v) \<Rightarrow>
          let val = (if v = ''--'' then '''' else v) in
          if key = ''gsm.apn'' then cfg\<lparr>cf_APN := val\<rparr>
          else if key = ''gsm.username'' then cfg\<lparr>cf_Username := val\<rparr>
          else if key = ''gsm.password'' then cfg\<lparr>cf_Password := val\<rparr>
          else cfg)"

definition parse_gsm :: "string \<Rightarrow> Config" where
  "parse_gsm out = fold gsm_line (split_char (CHR 0x0A) (trim_newlines out)) empty_Config"

definition GetGSM :: "nm_env \<Rightarrow> string \<Rightarrow> (string + Config) nm_m" where
  "GetGSM env connection = do {
     r \<leftarrow> command env [''--show-secrets'', ''-t'', ''-e'', ''no'',
       ''-f'', ''gsm.apn,gsm.username,gsm.password'', ''connection'', ''show'', connection];
     State_Monad.return (case r of
        (_, Some e) \<Rightarrow> Inl (nmError ''show GSM settings'' e)
      | (out, None) \<Rightarrow> Inr (parse_gsm out))
   }"

definition SetGSM :: "nm_env \<Rightarrow> string \<Rightarrow> Config \<Rightarrow> (string + unit) nm_m" where
  "SetGSM env connection cfg =
     run_only env ''modify GSM settings'' [''connection'', ''modify'', ''--temporary'', connection,
       ''gsm.apn'', cf_APN cfg, ''gsm.username'', cf_Username cfg, ''gsm.password'', cf_Password cfg,
       ''gsm.password-flags'', ''0'']"

section \<open>State\<close>

definition autoconnect_of :: "string \<Rightarrow> bool option" where
  "autoconnect_of out =
     (let s = TrimSpace out in if s = ''yes'' then Some True else if s = ''no'' then Some False else None)"

definition active_of :: "string \<Rightarrow> bool option" where
  "active_of out =
     (let s = TrimSpace out in
      if s \<in> {''activated'', ''activating'', ''deactivating''} then Some True
      else if s \<in> {'''', ''--'', ''deactivated'', ''unknown''} then Some False
      else None)"

definition nm_State :: "nm_env \<Rightarrow> string \<Rightarrow> (string + ConnectionState) nm_m" where
  "nm_State env connection = do {
     a \<leftarrow> command env [''-g'', ''connection.autoconnect'', ''connection'', ''show'', connection];
     case a of
       (_, Some e) \<Rightarrow> State_Monad.return (Inl (nmError ''read autoconnect'' e))
     | (out, None) \<Rightarrow>
         (case autoconnect_of out of
            None \<Rightarrow> State_Monad.return (Inl ''invalid NM autoconnect state'')
          | Some auto \<Rightarrow> do {
              b \<leftarrow> command env [''-g'', ''GENERAL.STATE'', ''connection'', ''show'', connection];
              State_Monad.return (case b of
                 (_, Some e) \<Rightarrow> Inl (nmError ''read connection state'' e)
               | (out, None) \<Rightarrow>
                   (case active_of out of
                      None \<Rightarrow> Inl ''invalid NM connection state''
                    | Some act \<Rightarrow> Inr \<lparr>cs_Autoconnect = auto, cs_Active = act\<rparr>))
            })
   }"

section \<open>Changes\<close>

definition yes_no :: "bool \<Rightarrow> string" where "yes_no b = (if b then ''yes'' else ''no'')"

definition SetAutoconnect :: "nm_env \<Rightarrow> string \<Rightarrow> bool \<Rightarrow> (string + unit) nm_m" where
  "SetAutoconnect env connection enabled =
     run_only env ''set autoconnect''
       [''connection'', ''modify'', ''--temporary'', connection, ''connection.autoconnect'', yes_no enabled]"

definition Commit :: "nm_env \<Rightarrow> string \<Rightarrow> bool \<Rightarrow> (string + unit) nm_m" where
  "Commit env connection autoconnect =
     run_only env ''commit connection''
       [''connection'', ''modify'', connection, ''connection.autoconnect'', yes_no autoconnect]"

definition Disconnect :: "nm_env \<Rightarrow> string \<Rightarrow> (string + unit) nm_m" where
  "Disconnect env connection = do {
     r \<leftarrow> command env [''connection'', ''down'', connection];
     h \<leftarrow> State_Monad.get;
     State_Monad.return (case r of
        (out, Some e) \<Rightarrow>
          if \<not> nm_done env h \<and> Contains out ''is not an active connection'' then Inr ()
          else Inl (nmError ''disconnect'' e)
      | (out, None) \<Rightarrow> Inr ())
   }"

definition Connect :: "nm_env \<Rightarrow> string \<Rightarrow> (string + unit) nm_m" where
  "Connect env connection = run_only env ''connect'' [''--wait'', ''55'', ''connection'', ''up'', connection]"

definition Reapply :: "nm_env \<Rightarrow> string \<Rightarrow> (string + unit) nm_m" where
  "Reapply env connection = do {
     d \<leftarrow> Disconnect env connection;
     case d of Inl e \<Rightarrow> State_Monad.return (Inl e) | Inr _ \<Rightarrow> Connect env connection
   }"

section \<open>Lemmas\<close>

lemma run_command: "run_state (command env args) h =
    (case nm_timeout env h args of
        Some e \<Rightarrow> ('''', Some (ContextErr e))
      | None \<Rightarrow> (case nm_run env h args of (out, ok) \<Rightarrow> (out, if ok then None else Some RunErr)), h @ [args])"
  by (simp add: command_def)

lemma run_run_only: "run_state (run_only env operation args) h =
    (case snd (fst (run_state (command env args) h)) of Some e \<Rightarrow> Inl (nmError operation e) | None \<Rightarrow> Inr (), h @ [args])"
  by (simp add: run_only_def run_command split: prod.split)

text \<open>The settings as nmcli prints them with \<open>-t -e no\<close>.\<close>

definition print_gsm :: "Config \<Rightarrow> string" where
  "print_gsm cfg = ''gsm.apn:'' @ cf_APN cfg @ [CHR 0x0A] @ ''gsm.username:'' @ cf_Username cfg @ [CHR 0x0A]
     @ ''gsm.password:'' @ cf_Password cfg @ [CHR 0x0A]"

definition printable :: "string \<Rightarrow> bool" where
  "printable v \<longleftrightarrow> CHR 0x0A \<notin> set v \<and> v \<noteq> ''--''"

lemma split_line: "CHR 0x0A \<notin> set l \<Longrightarrow> split_char (CHR 0x0A) (l @ CHR 0x0A # s) = l # split_char (CHR 0x0A) s"
  by (induction l) auto

lemma split_last: "CHR 0x0A \<notin> set l \<Longrightarrow> split_char (CHR 0x0A) l = [l]"
  by (induction l) auto

lemma dropWhile_not: "c \<notin> set s \<Longrightarrow> dropWhile (\<lambda>d. d = c) s = s"
  by (cases s) auto

lemma trim_one_newline: "CHR 0x0A \<notin> set l \<Longrightarrow> l \<noteq> [] \<Longrightarrow> trim_newlines (s @ l @ [CHR 0x0A]) = s @ l"
  by (cases l rule: rev_cases) (auto simp: trim_newlines_def)

lemma split_print:
  assumes "printable (cf_APN cfg)" "printable (cf_Username cfg)" "printable (cf_Password cfg)"
  shows "split_char (CHR 0x0A) (trim_newlines (print_gsm cfg))
    = [''gsm.apn:'' @ cf_APN cfg, ''gsm.username:'' @ cf_Username cfg, ''gsm.password:'' @ cf_Password cfg]"
proof -
  let ?a = "''gsm.apn:'' @ cf_APN cfg" and ?u = "''gsm.username:'' @ cf_Username cfg" and ?p = "''gsm.password:'' @ cf_Password cfg"
  have p: "print_gsm cfg = (?a @ CHR 0x0A # ?u @ [CHR 0x0A]) @ ?p @ [CHR 0x0A]" by (simp add: print_gsm_def)
  have n: "CHR 0x0A \<notin> set ?a" "CHR 0x0A \<notin> set ?u" "CHR 0x0A \<notin> set ?p"
    using assms by (simp_all add: printable_def)
  have "trim_newlines (print_gsm cfg) = ?a @ CHR 0x0A # ?u @ CHR 0x0A # ?p"
    unfolding p using trim_one_newline [OF n(3), of "?a @ CHR 0x0A # ?u @ [CHR 0x0A]"] by simp
  then show ?thesis using split_line [OF n(1)] split_line [OF n(2)] split_last [OF n(3)] by simp
qed

lemma parse_print:
  assumes "printable (cf_APN cfg)" "printable (cf_Username cfg)" "printable (cf_Password cfg)"
  shows "parse_gsm (print_gsm cfg) = cfg\<lparr>cf_Auth := ''''\<rparr>"
proof -
  have "v \<noteq> ''--''" if "printable v" for v using that by (simp add: printable_def)
  with assms show ?thesis
    by (simp add: parse_gsm_def split_print gsm_line_def empty_Config_def Let_def)
qed

text \<open>A run that changes the stored connection, and not only the one in memory.\<close>

definition persists :: "string list \<Rightarrow> bool" where
  "persists args \<longleftrightarrow> take 2 args = [''connection'', ''modify''] \<and> args ! 2 \<noteq> ''--temporary''"

definition nm_ops :: "nm_env \<Rightarrow> string \<Rightarrow> (string + unit) nm_m set" where
  "nm_ops env c = range (SetGSM env c) \<union> range (SetAutoconnect env c) \<union> {Disconnect env c, Connect env c, Reapply env c}"

lemma no_persisting_runs:
  "m \<in> nm_ops env c \<Longrightarrow> \<exists>new. snd (run_state m h) = h @ new \<and> list_all (\<lambda>args. \<not> persists args) new"
  by (auto simp: nm_ops_def SetGSM_def SetAutoconnect_def Disconnect_def Connect_def Reapply_def run_run_only
      run_command persists_def State_Monad.get_def split: prod.splits sum.splits option.splits)

section \<open>Properties\<close>

text \<open>
   The GSM settings are read back as they are stored: from what nmcli prints for any settings,
  colons and spaces included, \<open>GetGSM\<close> returns them (without the authentication, which nmcli does
  not hold), as long as no value contains a newline or is the placeholder for an unset value.
\<close>

theorem GetGSM_reads_back:
  assumes "nm_timeout env h args = None" and "nm_run env h args = (print_gsm cfg, True)"
    and "args = [''--show-secrets'', ''-t'', ''-e'', ''no'', ''-f'', ''gsm.apn,gsm.username,gsm.password'', ''connection'', ''show'', c]"
    and "printable (cf_APN cfg)" and "printable (cf_Username cfg)" and "printable (cf_Password cfg)"
  shows "run_state (GetGSM env c) h = (Inr (cfg\<lparr>cf_Auth := ''''\<rparr>), h @ [args])"
  using assms by (simp add: GetGSM_def run_command parse_print)

definition sample_gsm :: Config where
  "sample_gsm = \<lparr>cf_APN = ''internet.t-d1.de'', cf_Username = ''a b'', cf_Password = ''t:m'', cf_Auth = ''''\<rparr>"

definition sample_nm :: nm_env where
  "sample_nm = \<lparr>nm_run = (\<lambda>_ _. (print_gsm sample_gsm, True)), nm_timeout = (\<lambda>_ _. None), nm_done = (\<lambda>_. False)\<rparr>"

lemma GetGSM_reads_back_witness:
  "run_state (GetGSM sample_nm ''wwan'') [] = (Inr (sample_gsm\<lparr>cf_Auth := ''''\<rparr>),
     [] @ [[''--show-secrets'', ''-t'', ''-e'', ''no'', ''-f'', ''gsm.apn,gsm.username,gsm.password'', ''connection'', ''show'', ''wwan'']])"
  by (rule GetGSM_reads_back) (simp_all add: sample_nm_def sample_gsm_def printable_def)

text \<open>
  Until the commit nothing is stored: apart from \<open>Commit\<close> no operation runs a modification without
  \<open>--temporary\<close>, so a crash in the middle of a transaction leaves the stored connection as it was.
\<close>

theorem only_Commit_persists:
  "m \<in> nm_ops env c \<Longrightarrow> \<exists>new. snd (run_state m h) = h @ new \<and> list_all (\<lambda>args. \<not> persists args) new"
  by (rule no_persisting_runs)

end
