(* ===== verification/Modem_Power.thy ===== *)
theory Modem_Power
  imports State_Logic Modem
begin

text \<open>
  The power line and the USB port of the modem: \<open>internal/gpio/power.go\<close>, \<open>internal/usb/recovery.go\<close>,
  and the operations of \<open>internal/modem/modem.go\<close> that use them, with \<open>WaitForModem\<close>. The operations
  append to a log of calls; whether a call succeeds is a function of the log so far. The loop that
  waits for the USB device to come back reads a clock and may not return.
\<close>

section \<open>Constants\<close>

definition ModemOnPulseMS :: nat where "ModemOnPulseMS = 500"
definition ModemOffPulseMS :: nat where "ModemOffPulseMS = 3500"
definition ModemOffWaitMS :: nat where "ModemOffWaitMS = 12000"

definition USBDevice :: string where "USBDevice = ''1-1''"
definition USBUnbindPath :: string where "USBUnbindPath = ''/sys/bus/usb/drivers/usb/unbind''"
definition USBBindPath :: string where "USBBindPath = ''/sys/bus/usb/drivers/usb/bind''"
definition UnbindWaitMS :: nat where "UnbindWaitMS = 2000"
definition BindWaitMS :: nat where "BindWaitMS = 2000"

section \<open>The hardware\<close>

datatype hw_call =
    HRequest | HSet bool | HSleep nat | HWait nat | HClose
  | UStat | UOpen string | UWrite string | USync | UClose
  | BFind | BReset

text \<open>
  \<open>hw_wrote_all\<close> is whether a successful write wrote the whole value, \<open>hw_sync_soft\<close> whether a sync
  failed with an error that means "not supported".
\<close>

record hw_env =
  hw_ok :: "hw_call list \<Rightarrow> hw_call \<Rightarrow> bool"
  hw_wrote_all :: "hw_call list \<Rightarrow> bool"
  hw_sync_soft :: "hw_call list \<Rightarrow> bool"
  hw_now :: "hw_call list \<Rightarrow> gotime"

record PowerController =
  pc_line :: bool
  pc_calls :: "hw_call list"

datatype hw_err =
    NoController | InitFailed | NotInitialized | SetHighFailed | SetLowFailed | WaitInterrupted
  | CycleOff hw_err | CycleOn hw_err | NoModem | ResetFailed

text \<open>An operation's error, or \<open>None\<close>.\<close>

type_synonym hw_m = "(PowerController, hw_err option) state"

definition hw :: "hw_env \<Rightarrow> hw_call \<Rightarrow> hw_err \<Rightarrow> hw_m" where
  "hw env c e = State (\<lambda>s. (if hw_ok env (pc_calls s) c then None else Some e, s\<lparr>pc_calls := pc_calls s @ [c]\<rparr>))"

definition sleep :: "nat \<Rightarrow> hw_m" where
  "sleep ms = State (\<lambda>s. (None, s\<lparr>pc_calls := pc_calls s @ [HSleep ms]\<rparr>))"

definition set_line :: "bool \<Rightarrow> hw_m" where
  "set_line b = State (\<lambda>s. (None, s\<lparr>pc_line := b\<rparr>))"

definition with_line :: "hw_m \<Rightarrow> hw_m" where
  "with_line m = do { s \<leftarrow> State_Monad.get; if \<not> pc_line s then State_Monad.return (Some NotInitialized) else m }"

section \<open>The power line\<close>

definition Init :: "hw_env \<Rightarrow> hw_m" where
  "Init env = orelse (hw env HRequest InitFailed) (set_line True)"

text \<open>The error of closing is not looked at by the callers.\<close>

definition Close :: "hw_env \<Rightarrow> hw_m" where
  "Close env = do {
     s \<leftarrow> State_Monad.get;
     if \<not> pc_line s then State_Monad.return None
     else do { e \<leftarrow> hw env HClose NoController; _ \<leftarrow> set_line False; State_Monad.return e }
   }"

definition PowerOn :: "hw_env \<Rightarrow> hw_m" where
  "PowerOn env = with_line
     (orelse (hw env (HSet True) SetHighFailed)
     (orelse (sleep ModemOnPulseMS)
       (hw env (HSet False) SetLowFailed)))"

definition PowerOff :: "hw_env \<Rightarrow> hw_m" where
  "PowerOff env = with_line
     (orelse (hw env (HSet True) SetHighFailed)
     (orelse (sleep ModemOffPulseMS)
     (orelse (hw env (HSet False) SetLowFailed)
       (hw env (HWait ModemOffWaitMS) WaitInterrupted))))"

definition wrap_err :: "(hw_err \<Rightarrow> hw_err) \<Rightarrow> hw_m \<Rightarrow> hw_m" where
  "wrap_err f m = do { e \<leftarrow> m; State_Monad.return (map_option f e) }"

definition Cycle :: "hw_env \<Rightarrow> hw_m" where
  "Cycle env = orelse (wrap_err CycleOff (PowerOff env)) (wrap_err CycleOn (PowerOn env))"

section \<open>The modem manager's power operations\<close>

text \<open>\<open>m.gpio\<close> may be nil; the line is closed by a deferred call.\<close>

definition with_gpio :: "bool \<Rightarrow> hw_env \<Rightarrow> hw_m \<Rightarrow> hw_m" where
  "with_gpio gpio env m =
     (if \<not> gpio then State_Monad.return (Some NoController)
      else orelse (Init env) (do { e \<leftarrow> m; _ \<leftarrow> Close env; State_Monad.return e }))"

definition StartModem :: "bool \<Rightarrow> hw_env \<Rightarrow> hw_m" where
  "StartModem gpio env = with_gpio gpio env (PowerOn env)"

definition PowerOffModem :: "bool \<Rightarrow> hw_env \<Rightarrow> hw_m" where
  "PowerOffModem gpio env = with_gpio gpio env (PowerOff env)"

definition ResetModem :: "hw_env \<Rightarrow> hw_m" where
  "ResetModem env = orelse (hw env BFind NoModem) (hw env BReset ResetFailed)"

definition RestartModem :: "bool \<Rightarrow> hw_env \<Rightarrow> hw_m" where
  "RestartModem gpio env = with_gpio gpio env (do {
     e \<leftarrow> Cycle env;
     case e of None \<Rightarrow> State_Monad.return None | Some _ \<Rightarrow> ResetModem env
   })"

section \<open>The USB port\<close>

datatype usb_err =
    DeviceNotPresent | OpenFailed | WriteFailed | ShortWrite | SyncFailed | CloseFailed | NotEnumerated

type_synonym calls = "hw_call list"

definition writeControl :: "hw_env \<Rightarrow> string \<Rightarrow> string \<Rightarrow> calls \<Rightarrow> usb_err option \<times> calls" where
  "writeControl env path v h =
     (let h1 = h @ [UOpen path] in
      if \<not> hw_ok env h (UOpen path) then (Some OpenFailed, h1)
      else let h2 = h1 @ [UWrite v] in
      if \<not> hw_ok env h1 (UWrite v) then (Some WriteFailed, h2 @ [UClose])
      else if \<not> hw_wrote_all env h1 then (Some ShortWrite, h2 @ [UClose])
      else let h3 = h2 @ [USync] in
      if \<not> hw_ok env h2 USync \<and> \<not> hw_sync_soft env h2 then (Some SyncFailed, h3 @ [UClose])
      else if \<not> hw_ok env h3 UClose then (Some CloseFailed, h3 @ [UClose])
      else (None, h3 @ [UClose]))"

definition Unbind :: "hw_env \<Rightarrow> calls \<Rightarrow> usb_err option \<times> calls" where
  "Unbind env h =
     (if \<not> hw_ok env h UStat then (Some DeviceNotPresent, h @ [UStat])
      else case writeControl env USBUnbindPath USBDevice (h @ [UStat]) of
        (Some e, h1) \<Rightarrow> (Some e, h1)
      | (None, h1) \<Rightarrow> (None, h1 @ [HSleep UnbindWaitMS]))"

partial_function (option) enumerate :: "hw_env \<Rightarrow> gotime \<Rightarrow> calls \<Rightarrow> (usb_err option \<times> calls) option" where
  "enumerate env deadline h =
     (if \<not> time_Before (hw_now env h) deadline then Some (Some NotEnumerated, h)
      else if hw_ok env h UStat then Some (None, h @ [UStat])
      else enumerate env deadline (h @ [UStat, HSleep 100]))"

definition Bind :: "hw_env \<Rightarrow> calls \<Rightarrow> (usb_err option \<times> calls) option" where
  "Bind env h =
     (case writeControl env USBBindPath USBDevice h of
        (Some e, h1) \<Rightarrow> Some (Some e, h1)
      | (None, h1) \<Rightarrow> enumerate env (time_Add (hw_now env h1) (int BindWaitMS * millisecond_ns)) h1)"

definition usb_Recover :: "hw_env \<Rightarrow> calls \<Rightarrow> (usb_err option \<times> calls) option" where
  "usb_Recover env h =
     (case Unbind env h of (Some e, h1) \<Rightarrow> Some (Some e, h1) | (None, h1) \<Rightarrow> Bind env h1)"

section \<open>Waiting for the modem\<close>

text \<open>
  What one check of \<open>WaitForModem\<close> finds: the modem's path, whether watching it works, and its
  readiness. A check follows each event; when there is no further event, the context ends the wait.
\<close>

record sighting =
  si_path :: "object_path option"
  si_watch :: bool
  si_ready :: bool

datatype wait_result = WaitReady | WatchFailed | WaitEnded

definition wait_check :: "sighting \<Rightarrow> wait_result option" where
  "wait_check s =
     (case si_path s of None \<Rightarrow> None
      | Some _ \<Rightarrow> if \<not> si_watch s then Some WatchFailed else if \<not> si_ready s then None else Some WaitReady)"

fun wait_events :: "sighting list \<Rightarrow> wait_result" where
  "wait_events [] = WaitEnded"
| "wait_events (s # ss) = (case wait_check s of Some r \<Rightarrow> r | None \<Rightarrow> wait_events ss)"

definition WaitForModem :: "bool \<Rightarrow> sighting \<Rightarrow> sighting list \<Rightarrow> wait_result" where
  "WaitForModem watching now events =
     (if \<not> watching then WatchFailed
      else case wait_check now of Some r \<Rightarrow> r | None \<Rightarrow> wait_events events)"

section \<open>Lemmas\<close>

lemma run_hw [simp]:
  "run_state (hw env c e) s = (if hw_ok env (pc_calls s) c then None else Some e, s\<lparr>pc_calls := pc_calls s @ [c]\<rparr>)"
  "run_state (sleep ms) s = (None, s\<lparr>pc_calls := pc_calls s @ [HSleep ms]\<rparr>)"
  "run_state (set_line b) s = (None, s\<lparr>pc_line := b\<rparr>)"
  by (simp_all add: hw_def sleep_def set_line_def)

lemma run_orelse [simp]:
  "run_state (orelse m n) s = (case run_state m s of (None, t) \<Rightarrow> run_state n t | (Some e, t) \<Rightarrow> (Some e, t))"
  by (simp add: orelse_def split: prod.split option.split)

lemma run_with_line [simp]:
  "run_state (with_line m) s = (if \<not> pc_line s then (Some NotInitialized, s) else run_state m s)"
  by (simp add: with_line_def State_Monad.get_def)

lemma run_wrap [simp]:
  "run_state (wrap_err f m) s = (case run_state m s of (e, t) \<Rightarrow> (map_option f e, t))"
  by (simp add: wrap_err_def split: prod.split)

lemma run_Close [simp]:
  "run_state (Close env) s = (if \<not> pc_line s then (None, s)
     else (if hw_ok env (pc_calls s) HClose then None else Some NoController,
           s\<lparr>pc_calls := pc_calls s @ [HClose], pc_line := False\<rparr>))"
  by (simp add: Close_def State_Monad.get_def)

text \<open>The pulses of a whole power cycle, and the points where an operation on the line may stop.\<close>

definition off_pulse :: "hw_call list" where
  "off_pulse = [HSet True, HSleep ModemOffPulseMS, HSet False, HWait ModemOffWaitMS]"

definition on_pulse :: "hw_call list" where
  "on_pulse = [HSet True, HSleep ModemOnPulseMS, HSet False]"

definition off_stops :: "hw_call list set" where "off_stops = {take 1 off_pulse, take 3 off_pulse, off_pulse}"
definition on_stops :: "hw_call list set" where "on_stops = {take 1 on_pulse, on_pulse}"

lemma PowerOff_calls:
  assumes "pc_line s"
  shows "\<exists>p e. run_state (PowerOff env) s = (e, s\<lparr>pc_calls := pc_calls s @ p\<rparr>) \<and> p \<in> off_stops
    \<and> (e = None \<longrightarrow> p = off_pulse)"
  using assms
  by (cases "hw_ok env (pc_calls s) (HSet True)";
      cases "hw_ok env (pc_calls s @ [HSet True, HSleep ModemOffPulseMS]) (HSet False)";
      cases "hw_ok env (pc_calls s @ [HSet True, HSleep ModemOffPulseMS, HSet False]) (HWait ModemOffWaitMS)";
      force simp: PowerOff_def off_stops_def off_pulse_def)

lemma PowerOn_calls:
  assumes "pc_line s"
  shows "\<exists>p e. run_state (PowerOn env) s = (e, s\<lparr>pc_calls := pc_calls s @ p\<rparr>) \<and> p \<in> on_stops
    \<and> (e = None \<longrightarrow> p = on_pulse)"
  using assms
  by (cases "hw_ok env (pc_calls s) (HSet True)";
      cases "hw_ok env (pc_calls s @ [HSet True, HSleep ModemOnPulseMS]) (HSet False)";
      force simp: PowerOn_def on_stops_def on_pulse_def)

lemma Cycle_calls:
  assumes "pc_line s"
  shows "\<exists>p e. run_state (Cycle env) s = (e, s\<lparr>pc_calls := pc_calls s @ p\<rparr>)
    \<and> p \<in> off_stops \<union> (\<lambda>q. off_pulse @ q) ` on_stops \<and> (e = None \<longrightarrow> p = off_pulse @ on_pulse)"
proof -
  from PowerOff_calls [OF assms] obtain p e where
    off: "run_state (PowerOff env) s = (e, s\<lparr>pc_calls := pc_calls s @ p\<rparr>)" "p \<in> off_stops" "e = None \<Longrightarrow> p = off_pulse"
    by blast
  show ?thesis
  proof (cases e)
    case (Some x)
    with off show ?thesis by (intro exI [of _ p] exI [of _ "Some (CycleOff x)"]) (auto simp: Cycle_def)
  next
    case None
    let ?t = "s\<lparr>pc_calls := pc_calls s @ p\<rparr>"
    from assms have "pc_line ?t" by simp
    from PowerOn_calls [OF this] obtain q f where
      on: "run_state (PowerOn env) ?t = (f, ?t\<lparr>pc_calls := pc_calls ?t @ q\<rparr>)" "q \<in> on_stops" "f = None \<Longrightarrow> q = on_pulse"
      by blast
    from None off on show ?thesis
      by (intro exI [of _ "p @ q"] exI [of _ "map_option CycleOn f"]) (auto simp: Cycle_def)
  qed
qed

text \<open>Clock and USB: how long the wait for the device can be.\<close>

lemma enumerate_returns:
  assumes clock: "\<And>h. hw_now env h + 100 * millisecond_ns \<le> hw_now env (h @ [UStat, HSleep 100])"
  shows "deadline - hw_now env h \<le> int k * (100 * millisecond_ns) \<Longrightarrow>
    \<exists>e h'. enumerate env deadline h = Some (e, h') \<and> length h' \<le> length h + 2 * k + 1"
proof (induction k arbitrary: h)
  case 0
  then show ?case by (subst enumerate.simps) (simp add: time_Before_def)
next
  case (Suc k)
  let ?h = "h @ [UStat, HSleep 100]"
  have "int (Suc k) * (100 * millisecond_ns) = int k * (100 * millisecond_ns) + 100 * millisecond_ns"
    by (simp add: algebra_simps)
  with clock [of h] Suc.prems have "deadline - hw_now env ?h \<le> int k * (100 * millisecond_ns)" by linarith
  from Suc.IH [OF this] obtain e h' where ih: "enumerate env deadline ?h = Some (e, h')" "length h' \<le> length ?h + 2 * k + 1"
    by blast
  from ih show ?case by (subst enumerate.simps) auto
qed

lemma writeControl_calls: "length (snd (writeControl env p v h)) \<le> length h + 4"
  by (simp add: writeControl_def Let_def)

lemma Unbind_calls: "length (snd (Unbind env h)) \<le> length h + 6"
  using writeControl_calls [of env USBUnbindPath USBDevice "h @ [UStat]"]
  by (auto simp: Unbind_def split: prod.split option.split)

lemma enumerate_present:
  assumes "enumerate env deadline h = Some (None, h')"
  shows "\<exists>h0. h' = h0 @ [UStat] \<and> hw_ok env h0 UStat"
proof -
  let ?P = "\<lambda>e (_ :: gotime) (_ :: calls) r. fst r = (None :: usb_err option) \<longrightarrow> (\<exists>h0. snd r = h0 @ [UStat] \<and> hw_ok e h0 UStat)"
  have "?P env deadline h r" if "enumerate env deadline h = Some r" for r
  proof (rule enumerate.raw_induct [where P = ?P, OF _ that])
    fix f e d h r
    assume "\<And>e d h r. f e d h = Some r \<Longrightarrow> ?P e d h r"
      and "(if \<not> time_Before (hw_now e h) d then Some (Some NotEnumerated, h)
        else if hw_ok e h UStat then Some (None, h @ [UStat]) else f e d (h @ [UStat, HSleep 100])) = Some r"
    then show "?P e d h r" by (auto split: if_splits)
  qed
  with assms show ?thesis by fastforce
qed

section \<open>Properties\<close>

text \<open>
   A restart never cuts a pulse short and never leaves the line in use. Once the line is
  requested, whatever fails, the line sees whole pulses only (high, the full hold time, low), in the
  order off, wait, on; a power-on pulse comes only after a complete power-off with its wait; the modem
  is left without a bus reset only when the whole cycle went through; and the line is released last.
\<close>

theorem restart_pulses_whole:
  assumes "hw_ok env (pc_calls s) HRequest"
  shows "\<exists>e p bus. run_state (RestartModem True env) s
      = (e, s\<lparr>pc_calls := pc_calls s @ [HRequest] @ p @ bus @ [HClose], pc_line := False\<rparr>)
    \<and> p \<in> off_stops \<union> (\<lambda>q. off_pulse @ q) ` on_stops
    \<and> bus \<in> {[], [BFind], [BFind, BReset]} \<and> (bus = [] \<longrightarrow> e = None \<and> p = off_pulse @ on_pulse)"
proof -
  let ?t = "s\<lparr>pc_calls := pc_calls s @ [HRequest], pc_line := True\<rparr>"
  have "pc_line ?t" by simp
  from Cycle_calls [OF this] obtain p e where cy:
    "run_state (Cycle env) ?t = (e, ?t\<lparr>pc_calls := pc_calls ?t @ p\<rparr>)"
    "p \<in> off_stops \<union> (\<lambda>q. off_pulse @ q) ` on_stops" "e = None \<longrightarrow> p = off_pulse @ on_pulse" by blast
  have start: "run_state (Init env) s = (None, ?t)" using assms by (simp add: Init_def)
  show ?thesis
  proof (cases e)
    case None
    with cy start show ?thesis
      by (intro exI [of _ None] exI [of _ p] exI [of _ "[]"]) (simp add: RestartModem_def with_gpio_def)
  next
    case (Some x)
    let ?u = "?t\<lparr>pc_calls := pc_calls ?t @ p\<rparr>"
    show ?thesis
    proof (cases "hw_ok env (pc_calls ?u) BFind")
      case False
      with Some cy start show ?thesis
        by (intro exI [of _ "Some NoModem"] exI [of _ p] exI [of _ "[BFind]"])
          (simp add: RestartModem_def with_gpio_def ResetModem_def)
    next
      case True
      with Some cy start show ?thesis
        by (intro exI [of _ "if hw_ok env (pc_calls ?u @ [BFind]) BReset then None else Some ResetFailed"]
              exI [of _ p] exI [of _ "[BFind, BReset]"])
          (simp add: RestartModem_def with_gpio_def ResetModem_def)
    qed
  qed
qed

text \<open>
   The USB recovery returns, within 55 calls, for any behaviour of the device and the control
  files: the wait for the device ends because each pass of 100 ms moves the clock at least that much.
\<close>

theorem usb_recovery_returns:
  assumes "\<And>h. hw_now env h + 100 * millisecond_ns \<le> hw_now env (h @ [UStat, HSleep 100])"
  shows "\<exists>e h'. usb_Recover env h = Some (e, h') \<and> length h' \<le> length h + 55"
proof (cases "Unbind env h")
  case (Pair e h1)
  with Unbind_calls [of env h] have h1: "length h1 \<le> length h + 6" by simp
  show ?thesis
  proof (cases e)
    case (Some x)
    with Pair h1 show ?thesis by (simp add: usb_Recover_def)
  next
    case None
    obtain f h2 where w: "writeControl env USBBindPath USBDevice h1 = (f, h2)" by fastforce
    with writeControl_calls [of env USBBindPath USBDevice h1] have h2: "length h2 \<le> length h1 + 4" by simp
    have "time_Add (hw_now env h2) (int BindWaitMS * millisecond_ns) - hw_now env h2 \<le> int 20 * (100 * millisecond_ns)"
      by (simp add: time_Add_def BindWaitMS_def millisecond_ns_def)
    from enumerate_returns [OF assms this] obtain e' h' where
      "enumerate env (time_Add (hw_now env h2) (int BindWaitMS * millisecond_ns)) h2 = Some (e', h')"
      "length h' \<le> length h2 + 2 * 20 + 1" by blast
    with None Pair w h1 h2 show ?thesis by (cases f) (simp_all add: usb_Recover_def Bind_def)
  qed
qed

text \<open>Hardware whose device goes away for good, with a clock that follows the sleeps.\<close>

definition lost_device :: hw_env where
  "lost_device = \<lparr>hw_ok = (\<lambda>h c. c \<noteq> UStat \<or> h = []), hw_wrote_all = (\<lambda>_. True), hw_sync_soft = (\<lambda>_. False),
     hw_now = (\<lambda>h. int (length (filter (\<lambda>c. c = HSleep 100) h)) * (100 * millisecond_ns))\<rparr>"

lemma usb_recovery_returns_witness:
  "\<exists>e h'. usb_Recover lost_device [] = Some (e, h') \<and> length h' \<le> length ([] :: calls) + 55"
  by (rule usb_recovery_returns) (simp add: lost_device_def millisecond_ns_def)

lemma restart_pulses_whole_witness:
  "\<exists>e p bus. run_state (RestartModem True lost_device) \<lparr>pc_line = False, pc_calls = []\<rparr>
      = (e, \<lparr>pc_line = False, pc_calls = []\<rparr>\<lparr>pc_calls := pc_calls \<lparr>pc_line = False, pc_calls = []\<rparr> @ [HRequest] @ p @ bus @ [HClose], pc_line := False\<rparr>)
    \<and> p \<in> off_stops \<union> (\<lambda>q. off_pulse @ q) ` on_stops
    \<and> bus \<in> {[], [BFind], [BFind, BReset]} \<and> bus \<in> {b. b = [] \<and> e = None \<and> p = off_pulse @ on_pulse} \<union> {b. b \<noteq> []}"
proof -
  have "hw_ok lost_device (pc_calls \<lparr>pc_line = False, pc_calls = []\<rparr>) HRequest" by (simp add: lost_device_def)
  from restart_pulses_whole [OF this] show ?thesis by blast
qed

end
