(* ===== verification/Gps_Time.thy ===== *)
theory Gps_Time
  imports Go_Strings
begin

text \<open>
  From \<open>internal/location/location.go\<close>: the receiver modes, the correction of receivers that report
  times of an older GPS week epoch, and the delays between attempts to configure the receiver.
\<close>

section \<open>Constants and modes\<close>

definition GPSUpdateInterval :: duration where "GPSUpdateInterval = second_ns"
definition GPSTimeout :: duration where "GPSTimeout = 10 * minute_ns"
definition GPSRetryInterval :: duration where "GPSRetryInterval = 5 * second_ns"
definition MaxGPSRetryInterval :: duration where "MaxGPSRetryInterval = 60 * second_ns"
definition MaxConfigRetries :: nat where "MaxConfigRetries = 3"
definition requiredAntennaVoltageMillivolts :: int where "requiredAntennaVoltageMillivolts = 3050"
definition requiredGPSPowerMode :: int where "requiredGPSPowerMode = 7"
definition gpsRestartMinimumInterval :: duration where "gpsRestartMinimumInterval = 2 * second_ns"
definition gpsStopConfirmationTimeout :: duration where "gpsStopConfirmationTimeout = 10 * second_ns"
definition gpsStopPollInterval :: duration where "gpsStopPollInterval = 100 * millisecond_ns"
definition startupReuseProbeTimeout :: duration where "startupReuseProbeTimeout = 5 * second_ns"
definition locationSourceRestartDelay :: duration where "locationSourceRestartDelay = 3 * second_ns"
definition gpsWeekRollover :: duration where "gpsWeekRollover = 1024 * 7 * 24 * hour_ns"
definition gpsTransportAllowance :: duration where "gpsTransportAllowance = second_ns"
definition gpsTimestampQuantization :: duration where "gpsTimestampQuantization = second_ns"

datatype GPSMode = ModeStandalone | ModeUEBased

fun GPSMode_String :: "GPSMode \<Rightarrow> string" where
  "GPSMode_String ModeStandalone = ''standalone''"
| "GPSMode_String ModeUEBased = ''ue-based''"

fun cgpsArg :: "GPSMode \<Rightarrow> string" where
  "cgpsArg ModeUEBased = ''2''"
| "cgpsArg ModeStandalone = ''1''"

section \<open>Week rollover\<close>

text \<open>2019-04-07 00:00 UTC, 17993 days after the Unix epoch.\<close>

definition MinValidGPSDate :: gotime where "MinValidGPSDate = 17993 * 24 * hour_ns"

partial_function (option) advance_epochs :: "gotime \<Rightarrow> gotime option" where
  "advance_epochs t =
     (if time_Before t MinValidGPSDate then advance_epochs (time_Add t gpsWeekRollover) else Some t)"

definition correctGPSWeekRollover :: "gotime \<Rightarrow> (gotime \<times> bool) option" where
  "correctGPSWeekRollover t =
     (if time_IsZero t then Some (t, False)
      else map_option (\<lambda>corrected. (corrected, corrected \<noteq> t)) (advance_epochs t))"

text \<open>The time, whether it is from the receiver, and whether it was corrected.\<close>

definition gpsTimestamp :: "gotime \<Rightarrow> gotime \<Rightarrow> (gotime \<times> bool \<times> bool) option" where
  "gpsTimestamp reportTime fallback =
     (if time_IsZero reportTime then Some (fallback, False, False)
      else map_option (\<lambda>(t, corrected). (t, True, corrected)) (correctGPSWeekRollover reportTime))"

section \<open>Retry delays\<close>

fun retry_delay :: "nat \<Rightarrow> duration \<Rightarrow> duration" where
  "retry_delay 0 delay = delay"
| "retry_delay (Suc n) delay =
     (if delay * 2 \<ge> MaxGPSRetryInterval then MaxGPSRetryInterval else retry_delay n (delay * 2))"

definition configRetryDelay :: "nat \<Rightarrow> duration" where
  "configRetryDelay attempt = retry_delay attempt GPSRetryInterval"

section \<open>Lemmas\<close>

lemma rollover_pos: "0 < gpsWeekRollover"
  by (simp add: gpsWeekRollover_def go_time)

lemma advance_steps:
  assumes "MinValidGPSDate - t \<le> int n * gpsWeekRollover"
  shows "\<exists>k. advance_epochs t = Some (t + int k * gpsWeekRollover) \<and> MinValidGPSDate \<le> t + int k * gpsWeekRollover
    \<and> (k > 0 \<longrightarrow> t + int (k - 1) * gpsWeekRollover < MinValidGPSDate)"
  using assms
proof (induction n arbitrary: t)
  case 0
  then show ?case by (subst advance_epochs.simps) (auto simp: time_Before_def intro!: exI [of _ 0])
next
  case (Suc n)
  show ?case
  proof (cases "t < MinValidGPSDate")
    case False
    then show ?thesis by (subst advance_epochs.simps) (auto simp: time_Before_def intro!: exI [of _ 0])
  next
    case True
    from Suc.prems have "MinValidGPSDate - (t + gpsWeekRollover) \<le> int n * gpsWeekRollover" by (simp add: algebra_simps)
    from Suc.IH [OF this] obtain k where k:
      "advance_epochs (t + gpsWeekRollover) = Some (t + gpsWeekRollover + int k * gpsWeekRollover)"
      "MinValidGPSDate \<le> t + gpsWeekRollover + int k * gpsWeekRollover"
      "k > 0 \<longrightarrow> t + gpsWeekRollover + int (k - 1) * gpsWeekRollover < MinValidGPSDate" by blast
    have last: "t + int k * gpsWeekRollover < MinValidGPSDate"
    proof (cases "k = 0")
      case False
      then have "int k * gpsWeekRollover = gpsWeekRollover + int (k - 1) * gpsWeekRollover"
        by (cases k) (simp_all add: algebra_simps)
      with k(3) False show ?thesis by simp
    qed (use True in simp)
    with True k(1,2) show ?thesis
      by (subst advance_epochs.simps, intro exI [of _ "Suc k"]) (auto simp: time_Before_def time_Add_def algebra_simps)
  qed
qed

lemma advance_returns:
  "\<exists>k. advance_epochs t = Some (t + int k * gpsWeekRollover) \<and> MinValidGPSDate \<le> t + int k * gpsWeekRollover
    \<and> (k > 0 \<longrightarrow> t + int (k - 1) * gpsWeekRollover < MinValidGPSDate)"
proof -
  have "MinValidGPSDate - t \<le> int (nat (MinValidGPSDate - t)) * 1" by simp
  also have "\<dots> \<le> int (nat (MinValidGPSDate - t)) * gpsWeekRollover"
    using rollover_pos by (intro mult_left_mono) simp_all
  finally show ?thesis by (rule advance_steps)
qed

lemma gpsTimestamp_from_gps:
  assumes "gpsTimestamp reportTime fallback = Some (t, True, c)"
  shows "MinValidGPSDate \<le> t \<and> (\<exists>k. t = reportTime + int k * gpsWeekRollover) \<and> (c \<longleftrightarrow> t \<noteq> reportTime)"
  using assms advance_returns [of reportTime]
  by (auto simp: gpsTimestamp_def correctGPSWeekRollover_def split: if_splits)

lemma gpsTimestamp_returns: "\<exists>t f c. gpsTimestamp reportTime fallback = Some (t, f, c) \<and> (f \<longleftrightarrow> \<not> time_IsZero reportTime)"
  using advance_returns [of reportTime]
  by (auto simp: gpsTimestamp_def correctGPSWeekRollover_def)

lemma retry_delay_eq:
  "0 < d \<Longrightarrow> d < MaxGPSRetryInterval \<Longrightarrow> retry_delay n d = min MaxGPSRetryInterval (d * 2 ^ n)"
proof (induction n arbitrary: d)
  case (Suc n)
  show ?case
  proof (cases "d * 2 \<ge> MaxGPSRetryInterval")
    case True
    have "d * 2 * 1 \<le> d * 2 * 2 ^ n" using Suc.prems(1) by (intro mult_left_mono) simp_all
    with True show ?thesis by (simp add: ac_simps)
  next
    case False
    with Suc show ?thesis by (simp add: ac_simps)
  qed
qed simp

section \<open>Properties\<close>

text \<open>
   The week correction ends on every time a receiver can report, and moves it to the current
  epoch by the least number of whole 1024-week periods: a time of the current epoch is unchanged.
\<close>

theorem rollover_corrected:
  assumes "\<not> time_IsZero t"
  shows "\<exists>k. correctGPSWeekRollover t = Some (t + int k * gpsWeekRollover, k > 0)
    \<and> MinValidGPSDate \<le> t + int k * gpsWeekRollover
    \<and> (k > 0 \<longrightarrow> t + int (k - 1) * gpsWeekRollover < MinValidGPSDate)"
  using assms advance_returns [of t] rollover_pos by (auto simp: correctGPSWeekRollover_def)

lemma rollover_corrected_witness:
  "\<exists>k. correctGPSWeekRollover (13241 * 24 * hour_ns) = Some (13241 * 24 * hour_ns + int k * gpsWeekRollover, k > 0)
    \<and> MinValidGPSDate \<le> 13241 * 24 * hour_ns + int k * gpsWeekRollover
    \<and> k \<in> {j. j = 0} \<union> {j. 13241 * 24 * hour_ns + int (j - 1) * gpsWeekRollover < MinValidGPSDate}"
proof -
  have "\<not> time_IsZero (13241 * 24 * hour_ns)" by (simp add: go_time zero_time_def)
  from rollover_corrected [OF this] obtain k where k:
    "correctGPSWeekRollover (13241 * 24 * hour_ns) = Some (13241 * 24 * hour_ns + int k * gpsWeekRollover, k > 0)"
    "MinValidGPSDate \<le> 13241 * 24 * hour_ns + int k * gpsWeekRollover"
    "k > 0 \<longrightarrow> 13241 * 24 * hour_ns + int (k - 1) * gpsWeekRollover < MinValidGPSDate" by blast
  then have "k \<in> {j. j = 0} \<union> {j. 13241 * 24 * hour_ns + int (j - 1) * gpsWeekRollover < MinValidGPSDate}" by blast
  with k(1,2) show ?thesis by (intro exI [of _ k] conjI)
qed

text \<open>
   The delay before the next attempt to configure the receiver is the base interval doubled for
  each failed attempt, but never more than a minute: the loop computes this closed form for every
  attempt number, so it cannot overflow.
\<close>

theorem retry_delay_closed_form:
  "configRetryDelay attempt = min MaxGPSRetryInterval (GPSRetryInterval * 2 ^ attempt)"
  unfolding configRetryDelay_def
  by (rule retry_delay_eq) (simp_all add: GPSRetryInterval_def MaxGPSRetryInterval_def go_time)

end
