(* ===== verification/Gps_Receiver.thy ===== *)
theory Gps_Receiver
  imports Gps_Time State_Logic MM_Bearer Go_Time
begin

text \<open>
  From \<open>internal/location/location.go\<close>: how the service drives the satellite receiver. Everything
  the code asks of the modem goes into a log; what is answered, what the clock says and whether the
  context is done are functions of the log so far. A path that ModemManager has rebound is resolved
  once, and the command sent once more.
\<close>

unbundle bit_operations_syntax

section \<open>Parsing the answers\<close>

definition drop_char :: "char \<Rightarrow> string \<Rightarrow> string" where "drop_char c s = filter (\<lambda>d. d \<noteq> c) s"

fun all_ints :: "string list \<Rightarrow> int list option" where
  "all_ints [] = Some []"
| "all_ints (f # fs) =
     (case Atoi (TrimSpace f) of None \<Rightarrow> None
      | Some v \<Rightarrow> (case all_ints fs of None \<Rightarrow> None | Some vs \<Rightarrow> Some (v # vs)))"

fun integer_lines :: "string \<Rightarrow> string list \<Rightarrow> int list option" where
  "integer_lines pre [] = None"
| "integer_lines pre (l # ls) =
     (let line = TrimSpace l in
      if \<not> HasPrefix line pre then integer_lines pre ls
      else all_ints (split_char (CHR '','') (TrimSpace (TrimPrefix line pre))))"

definition parseIntegerResponse :: "string \<Rightarrow> string \<Rightarrow> int list option" where
  "parseIntegerResponse response pre =
     integer_lines pre (split_char (CHR 0x0A) (drop_char (CHR 0x0D) response))"

definition parseSingleValueResponse :: "string \<Rightarrow> string \<Rightarrow> int option" where
  "parseSingleValueResponse response pre =
     (case parseIntegerResponse response pre of Some [v] \<Rightarrow> Some v | _ \<Rightarrow> None)"

text \<open>Running, mode, and whether the answer is well formed.\<close>

definition parseCGPSResponse :: "string \<Rightarrow> bool \<times> GPSMode \<times> bool" where
  "parseCGPSResponse response =
     (case parseIntegerResponse response ''+CGPS:'' of
        None \<Rightarrow> (False, ModeStandalone, False)
      | Some [] \<Rightarrow> (False, ModeStandalone, False)
      | Some (v # vs) \<Rightarrow>
          if v = 0 then (False, ModeStandalone, True)
          else if v \<noteq> 1 then (False, ModeStandalone, False)
          else (case vs of
              [] \<Rightarrow> (False, ModeStandalone, False)
            | m # _ \<Rightarrow> if m = 1 then (True, ModeStandalone, True)
                else if m = 2 then (True, ModeUEBased, True)
                else (True, ModeStandalone, False)))"

definition gpsRunning :: "string \<Rightarrow> bool" where
  "gpsRunning resp = (case parseCGPSResponse resp of (running, _, ok) \<Rightarrow> ok \<and> running)"

definition parseCGPSMode :: "string \<Rightarrow> GPSMode" where
  "parseCGPSMode resp = fst (snd (parseCGPSResponse resp))"

record gpsChipState =
  ch_running :: bool
  ch_mode :: GPSMode
  ch_antennaMillivolts :: int
  ch_powerMode :: int

text \<open>\<open>None\<close> is the error.\<close>

definition parseGPSChipState :: "string \<Rightarrow> string \<Rightarrow> string \<Rightarrow> gpsChipState option" where
  "parseGPSChipState cgps cvauxv cgpspmd =
     (case parseCGPSResponse cgps of (running, mode, ok) \<Rightarrow>
        if \<not> ok then None
        else case parseSingleValueResponse cvauxv ''+CVAUXV:'' of None \<Rightarrow> None
        | Some voltage \<Rightarrow> (case parseSingleValueResponse cgpspmd ''+CGPSPMD:'' of None \<Rightarrow> None
          | Some powerMode \<Rightarrow> Some \<lparr>ch_running = running, ch_mode = mode,
              ch_antennaMillivolts = voltage, ch_powerMode = powerMode\<rparr>))"

definition reuseEligibility :: "gpsChipState \<Rightarrow> bool" where
  "reuseEligibility st =
     (if \<not> ch_running st then False
      else if ch_mode st \<noteq> ModeStandalone then False
      else if ch_antennaMillivolts st \<noteq> requiredAntennaVoltageMillivolts then False
      else if ch_powerMode st \<noteq> requiredGPSPowerMode then False
      else True)"

section \<open>Location sources\<close>

definition gps_sources :: u32 where
  "gps_sources = LocationSourceGpsNmea OR LocationSourceGpsRaw OR LocationSourceGpsUnmanaged"

definition locationSourceMask :: "u32 \<Rightarrow> u32" where
  "locationSourceMask currentSources = (currentSources AND NOT gps_sources) OR LocationSource3gppLacCi"

section \<open>The receiver's world\<close>

datatype gps_call =
    AT object_path string
  | Sleep duration
  | GetSources object_path
  | SetupLocation object_path u32
  | SetRefreshRate object_path u32
  | RestartGpsd

datatype gps_err =
    ATErr string | BusErr string | NoPath | Cancelled | MalformedAnswer | NotStopped
  | WrongPowerMode | StartFailed | OutOfFuel

record gps_env =
  ge_at :: "gps_call list \<Rightarrow> object_path \<Rightarrow> string \<Rightarrow> string + string"
  ge_bus :: "gps_call list \<Rightarrow> gps_call \<Rightarrow> string option"
  ge_sources :: "gps_call list \<Rightarrow> u32"
  ge_resolve :: "(gps_call list \<Rightarrow> object_path option) option"
  ge_now :: "gps_call list \<Rightarrow> gotime"
  ge_done :: "gps_call list \<Rightarrow> bool"
  ge_woken :: "gps_call list \<Rightarrow> bool"

text \<open>The configuration, with the accuracy in metres and the antenna voltage in millivolts.\<close>

record gps_config =
  gc_SuplServer :: string
  gc_accuracy :: nat
  gc_millivolts :: nat
  gc_refreshSeconds :: u32

definition default_config :: "string \<Rightarrow> gps_config" where
  "default_config suplServer =
     \<lparr>gc_SuplServer = (if suplServer = '''' then ''supl.google.com:7276'' else suplServer),
      gc_accuracy = 50, gc_millivolts = 3050, gc_refreshSeconds = 1\<rparr>"

record receiver =
  gr_path :: object_path
  gr_mode :: GPSMode
  gr_ready :: bool
  gr_lastData :: gotime
  gr_log :: "gps_call list"

type_synonym 'a gps_m = "(receiver, 'a) state"

text \<open>A stage ends with an error or hands over to the next.\<close>

type_synonym gps_stage = "gps_err option gps_m"

definition observe :: "(gps_call list \<Rightarrow> 'a) \<Rightarrow> 'a gps_m" where
  "observe f = State (\<lambda>s. (f (gr_log s), s))"

definition cur_path :: "object_path gps_m" where "cur_path = State (\<lambda>s. (gr_path s, s))"

definition note_call :: "gps_call \<Rightarrow> unit gps_m" where
  "note_call c = State_Monad.update (\<lambda>s. s\<lparr>gr_log := gr_log s @ [c]\<rparr>)"

definition finish :: gps_stage where "finish = State_Monad.return None"

section \<open>Commands\<close>

definition isStalePathError :: "string \<Rightarrow> bool" where
  "isStalePathError msg \<longleftrightarrow> Contains msg ''Object does not exist at path'' \<or> Contains msg ''UnknownObject''"

definition refreshModemPathIfStale :: "gps_env \<Rightarrow> string \<Rightarrow> bool gps_m" where
  "refreshModemPathIfStale env msg = State (\<lambda>s.
     (case ge_resolve env of
        None \<Rightarrow> (False, s)
      | Some resolve \<Rightarrow>
          if \<not> isStalePathError msg then (False, s)
          else case resolve (gr_log s) of
            None \<Rightarrow> (False, s)
          | Some p \<Rightarrow> if p = gr_path s then (False, s) else (True, s\<lparr>gr_path := p\<rparr>)))"

definition ensureModemPath :: "gps_env \<Rightarrow> gps_stage" where
  "ensureModemPath env = State (\<lambda>s.
     if gr_path s \<noteq> '''' then (None, s)
     else case ge_resolve env of
       None \<Rightarrow> (Some NoPath, s)
     | Some resolve \<Rightarrow>
         (case resolve (gr_log s) of
            None \<Rightarrow> (Some NoPath, s)
          | Some p \<Rightarrow> if p = '''' then (Some NoPath, s) else (None, s\<lparr>gr_path := p\<rparr>)))"

definition send :: "gps_env \<Rightarrow> string \<Rightarrow> (string + string) gps_m" where
  "send env command = State (\<lambda>s.
     (ge_at env (gr_log s) (gr_path s) command, s\<lparr>gr_log := gr_log s @ [AT (gr_path s) command]\<rparr>))"

fun err_of_at :: "string + string \<Rightarrow> gps_err + string" where
  "err_of_at (Inl e) = Inl (ATErr e)"
| "err_of_at (Inr t) = Inr t"

text \<open>The one retry, after the error \<open>msg\<close>.\<close>

definition send_again :: "gps_env \<Rightarrow> string \<Rightarrow> string \<Rightarrow> (gps_err + string) gps_m" where
  "send_again env command msg = do {
     again \<leftarrow> refreshModemPathIfStale env msg;
     if \<not> again then State_Monad.return (Inl (ATErr msg))
     else do { r \<leftarrow> send env command; State_Monad.return (err_of_at r) }
   }"

definition send_first :: "gps_env \<Rightarrow> string \<Rightarrow> (gps_err + string) gps_m" where
  "send_first env command = do {
     r \<leftarrow> send env command;
     case r of Inl msg \<Rightarrow> send_again env command msg | Inr t \<Rightarrow> State_Monad.return (Inr t)
   }"

definition sendATCommand :: "gps_env \<Rightarrow> string \<Rightarrow> (gps_err + string) gps_m" where
  "sendATCommand env command = do {
     e \<leftarrow> ensureModemPath env;
     case e of Some e \<Rightarrow> State_Monad.return (Inl e) | None \<Rightarrow> send_first env command
   }"

text \<open>A command whose failure ends the stage, and one whose result is not looked at.\<close>

definition require_at :: "gps_env \<Rightarrow> string \<Rightarrow> gps_stage" where
  "require_at env command = do {
     r \<leftarrow> sendATCommand env command;
     State_Monad.return (case r of Inl e \<Rightarrow> Some e | Inr _ \<Rightarrow> None)
   }"

definition try_at :: "gps_env \<Rightarrow> string \<Rightarrow> gps_stage" where
  "try_at env command = do { _ \<leftarrow> sendATCommand env command; finish }"

text \<open>A command whose answer must pass a check.\<close>

definition check_at :: "gps_env \<Rightarrow> string \<Rightarrow> (string \<Rightarrow> gps_err option) \<Rightarrow> gps_stage" where
  "check_at env command ok = do {
     r \<leftarrow> sendATCommand env command;
     State_Monad.return (case r of Inl e \<Rightarrow> Some e | Inr t \<Rightarrow> ok t)
   }"

definition wait_for :: "gps_env \<Rightarrow> duration \<Rightarrow> gps_stage" where
  "wait_for env d = do {
     _ \<leftarrow> note_call (Sleep d);
     woken \<leftarrow> observe (ge_woken env);
     State_Monad.return (if woken then None else Some Cancelled)
   }"

definition waitUntil :: "gps_env \<Rightarrow> gotime \<Rightarrow> gps_stage" where
  "waitUntil env notBefore = do {
     stop \<leftarrow> observe (ge_done env);
     if stop then State_Monad.return (Some Cancelled)
     else do {
       now \<leftarrow> observe (ge_now env);
       let remaining = time_Sub notBefore now;
       if remaining \<le> 0 then finish else wait_for env remaining
     }
   }"

section \<open>Configuring the receiver\<close>

text \<open>
  The loop that waits for the receiver to stop. Each pass either ends it or waits for 100 ms or until
  the deadline of 10 s, so 102 passes are enough (\<open>stopped_within_fuel\<close> below).
\<close>

definition stop_poll :: "gps_env \<Rightarrow> gotime \<Rightarrow> gps_stage \<Rightarrow> gotime \<Rightarrow> gps_stage" where
  "stop_poll env deadline again now =
     (if \<not> time_Before now deadline then State_Monad.return (Some NotStopped)
      else let nextPoll = time_Add now gpsStopPollInterval in
        orelse (waitUntil env (if time_After nextPoll deadline then deadline else nextPoll)) again)"

definition stop_answer :: "gps_env \<Rightarrow> gotime \<Rightarrow> gps_stage \<Rightarrow> gps_err + string \<Rightarrow> gps_stage" where
  "stop_answer env deadline again r =
     (case r of
        Inl e \<Rightarrow> State_Monad.return (Some e)
      | Inr t \<Rightarrow> (case parseCGPSResponse t of (running, _, ok) \<Rightarrow>
          if \<not> ok then State_Monad.return (Some MalformedAnswer)
          else if \<not> running then finish
          else do { now \<leftarrow> observe (ge_now env); stop_poll env deadline again now }))"

fun waitForReceiverStopped :: "nat \<Rightarrow> gps_env \<Rightarrow> gotime \<Rightarrow> gps_stage" where
  "waitForReceiverStopped 0 env deadline = State_Monad.return (Some OutOfFuel)"
| "waitForReceiverStopped (Suc fuel) env deadline = do {
     r \<leftarrow> sendATCommand env ''AT+CGPS?'';
     stop_answer env deadline (waitForReceiverStopped fuel env deadline) r
   }"

definition configureGPSPowerMode :: "gps_env \<Rightarrow> gps_stage" where
  "configureGPSPowerMode env =
     orelse (require_at env ''AT+CGPSPMD=7'')
       (check_at env ''AT+CGPSPMD?'' (\<lambda>t.
          if parseSingleValueResponse t ''+CGPSPMD:'' = Some requiredGPSPowerMode then None else Some WrongPowerMode))"

text \<open>\<open>Format("06/01/02,15:04:05+00")\<close> in UTC.\<close>

definition cclk_text :: "gotime \<Rightarrow> string" where
  "cclk_text t =
     (let (y, m, d) = civil_from_days ((t div second_ns) div 86400); s = (t div second_ns) mod 86400 in
      two_digits (y mod 100) @ ''/'' @ two_digits m @ ''/'' @ two_digits d @ '','' @ two_digits (s div 3600)
        @ '':'' @ two_digits (s div 60 mod 60) @ '':'' @ two_digits (s mod 60) @ ''+00'')"

definition quote :: "string \<Rightarrow> string" where "quote s = CHR 0x22 # s @ [CHR 0x22]"

definition syncGPSClock :: "gps_env \<Rightarrow> gps_stage" where
  "syncGPSClock env = do { now \<leftarrow> observe (ge_now env); try_at env (''AT+CCLK='' @ quote (cclk_text now)) }"

text \<open>The instant before which the receiver may not be started again comes with the error.\<close>

definition stop_fuel :: nat where "stop_fuel = 102"

definition configureGPSViaATCommands :: "gps_config \<Rightarrow> gps_env \<Rightarrow> (gotime \<times> gps_err option) gps_m" where
  "configureGPSViaATCommands cfg env = do {
     stopIssuedAt \<leftarrow> observe (ge_now env);
     _ \<leftarrow> sendATCommand env ''AT+CGPS=0'';
     e \<leftarrow>
       orelse (waitForReceiverStopped stop_fuel env (time_Add stopIssuedAt gpsStopConfirmationTimeout))
       (orelse (configureGPSPowerMode env)
       (orelse (try_at env ''AT+CGPSAUTO=0'')
       (orelse (try_at env (''AT+CGPSHOR='' @ dec_str (gc_accuracy cfg)))
       (orelse (try_at env ''AT+CGDRT=41,1'')
       (orelse (try_at env ''AT+CGSETV=41,1'')
       (orelse (syncGPSClock env)
         (try_at env ''AT+CGPSNMEA=511'')))))));
     State_Monad.return (time_Add stopIssuedAt gpsRestartMinimumInterval, e)
   }"

definition startStandaloneReceiver :: "gps_env \<Rightarrow> gotime \<Rightarrow> gps_stage" where
  "startStandaloneReceiver env restartNotBefore =
     orelse (waitUntil env restartNotBefore)
     (orelse (try_at env ''AT+CGPS=1,1'')
     (orelse (check_at env ''AT+CGPS?'' (\<lambda>t.
        case parseCGPSResponse t of (running, mode, ok) \<Rightarrow>
          if \<not> ok \<or> \<not> running \<or> mode \<noteq> ModeStandalone then Some StartFailed else None))
     (do { _ \<leftarrow> State_Monad.update (\<lambda>s. s\<lparr>gr_mode := ModeStandalone\<rparr>); finish })))"

definition configureAntennaPower :: "gps_config \<Rightarrow> gps_env \<Rightarrow> gotime \<Rightarrow> gps_stage" where
  "configureAntennaPower cfg env restartNotBefore =
     orelse (try_at env ''AT+CVAUXV?'')
     (orelse (require_at env (''AT+CVAUXV='' @ dec_str (gc_millivolts cfg)))
     (orelse (require_at env ''AT+CVAUXS=1'')
     (orelse (syncGPSClock env)
     (orelse (startStandaloneReceiver env restartNotBefore)
       (try_at env ''AT+CGPSNOTIFY=0'')))))"

definition configureReceiver :: "gps_config \<Rightarrow> gps_env \<Rightarrow> gps_stage" where
  "configureReceiver cfg env = do {
     r \<leftarrow> configureGPSViaATCommands cfg env;
     case r of (restartNotBefore, e) \<Rightarrow>
       orelse (State_Monad.return e) (configureAntennaPower cfg env restartNotBefore)
   }"

section \<open>Location sources and the configuration as a whole\<close>

definition bus :: "gps_env \<Rightarrow> (object_path \<Rightarrow> gps_call) \<Rightarrow> (string option) gps_m" where
  "bus env c = do {
     p \<leftarrow> cur_path;
     e \<leftarrow> observe (\<lambda>h. ge_bus env h (c p));
     _ \<leftarrow> note_call (c p);
     State_Monad.return e
   }"

text \<open>A call on the bus that is repeated once when the path was rebound.\<close>

definition bus_retry :: "gps_env \<Rightarrow> (object_path \<Rightarrow> gps_call) \<Rightarrow> (string option) gps_m" where
  "bus_retry env c = do {
     e \<leftarrow> bus env c;
     case e of
       None \<Rightarrow> State_Monad.return None
     | Some msg \<Rightarrow> do {
         again \<leftarrow> refreshModemPathIfStale env msg;
         if again then bus env c else State_Monad.return (Some msg)
       }
   }"

definition getLocationStatus :: "gps_env \<Rightarrow> (u32 option) gps_m" where
  "getLocationStatus env = do {
     e \<leftarrow> bus_retry env GetSources;
     v \<leftarrow> observe (ge_sources env);
     State_Monad.return (case e of Some _ \<Rightarrow> None | None \<Rightarrow> Some v)
   }"

definition disableConflictingSources :: "gps_env \<Rightarrow> u32 \<Rightarrow> (string option) gps_m" where
  "disableConflictingSources env enabledSources =
     (if enabledSources AND gps_sources \<noteq> 0
      then bus_retry env (\<lambda>p. SetupLocation p (enabledSources AND NOT gps_sources))
      else State_Monad.return None)"

text \<open>Up to three attempts, a second apart; an error of the context or of the last attempt.\<close>

fun setup_attempts :: "nat \<Rightarrow> gps_env \<Rightarrow> u32 \<Rightarrow> gps_stage" where
  "setup_attempts 0 env sources = finish"
| "setup_attempts (Suc n) env sources = do {
     e \<leftarrow> bus_retry env (\<lambda>p. SetupLocation p sources);
     case e of
       None \<Rightarrow> finish
     | Some msg \<Rightarrow>
         if n = 0 then State_Monad.return (Some (BusErr msg))
         else orelse (wait_for env second_ns) (setup_attempts n env sources)
   }"

definition setupLocationSources :: "gps_env \<Rightarrow> u32 \<Rightarrow> gps_stage" where
  "setupLocationSources env sources = setup_attempts 3 env sources"

definition enableLocationSources :: "gps_env \<Rightarrow> u32 \<Rightarrow> gps_stage" where
  "enableLocationSources env currentSources = do {
     _ \<leftarrow> (if currentSources AND LocationSource3gppLacCi = 0
       then setupLocationSources env (locationSourceMask currentSources) else finish);
     orelse (wait_for env locationSourceRestartDelay)
       (do { _ \<leftarrow> note_call RestartGpsd; finish })
   }"

definition setGPSRefreshRate :: "gps_config \<Rightarrow> gps_env \<Rightarrow> (string option) gps_m" where
  "setGPSRefreshRate cfg env = bus_retry env (\<lambda>p. SetRefreshRate p (gc_refreshSeconds cfg))"

definition doGPSConfiguration :: "gps_config \<Rightarrow> gps_env \<Rightarrow> gps_stage" where
  "doGPSConfiguration cfg env =
     orelse (configureReceiver cfg env) (do {
       status \<leftarrow> getLocationStatus env;
       let enabledSources = (case status of Some v \<Rightarrow> v | None \<Rightarrow> 0);
       _ \<leftarrow> disableConflictingSources env enabledSources;
       orelse (enableLocationSources env enabledSources)
         (do { _ \<leftarrow> setGPSRefreshRate cfg env; finish })
     })"

fun config_attempts :: "nat \<Rightarrow> gps_config \<Rightarrow> gps_env \<Rightarrow> gps_stage" where
  "config_attempts 0 cfg env = finish"
| "config_attempts (Suc n) cfg env = do {
     e \<leftarrow> doGPSConfiguration cfg env;
     case e of
       None \<Rightarrow> finish
     | Some x \<Rightarrow>
         if n = 0 then State_Monad.return (Some x)
         else orelse (wait_for env (2 * second_ns)) (config_attempts n cfg env)
   }"

definition configureGPSWithRetries :: "gps_config \<Rightarrow> gps_env \<Rightarrow> gps_stage" where
  "configureGPSWithRetries cfg env = config_attempts MaxConfigRetries cfg env"

section \<open>Switching the mode\<close>

definition SetGPSMode :: "gps_config \<Rightarrow> gps_env \<Rightarrow> GPSMode \<Rightarrow> gps_stage" where
  "SetGPSMode cfg env mode = do {
     s \<leftarrow> State_Monad.get;
     if \<not> gr_ready s then finish
     else do {
       r \<leftarrow> sendATCommand env ''AT+CGPS?'';
       if (case r of Inl _ \<Rightarrow> False | Inr t \<Rightarrow> gpsRunning t \<and> parseCGPSMode t = mode) then do {
         _ \<leftarrow> State_Monad.update (\<lambda>s. s\<lparr>gr_mode := mode\<rparr>); finish
       } else
         orelse (try_at env ''AT+CGPS=0'')
         (orelse (wait_for env (3 * second_ns))
         (orelse (if mode = ModeUEBased then
              orelse (try_at env (''AT+CGPSURL='' @ quote (gc_SuplServer cfg)))
                (orelse (try_at env ''AT+CGPSSSL=0'') (try_at env ''AT+CGPSMSB=1''))
            else
              orelse (try_at env (''AT+CGPSURL='' @ quote '''')) (try_at env ''AT+CGPSMSB=0''))
         (orelse (try_at env (''AT+CGPS=1,'' @ cgpsArg mode))
         (orelse (check_at env ''AT+CGPS?'' (\<lambda>t.
            if \<not> gpsRunning t \<or> parseCGPSMode t \<noteq> mode then Some StartFailed else None))
         (do {
            now \<leftarrow> observe (ge_now env);
            _ \<leftarrow> State_Monad.update (\<lambda>s. s\<lparr>gr_mode := mode, gr_lastData := now\<rparr>);
            finish
         })))))
     }
   }"

definition ProbeGPSMode :: "gps_env \<Rightarrow> unit gps_m" where
  "ProbeGPSMode env = do {
     s \<leftarrow> State_Monad.get;
     if gr_path s = '''' then State_Monad.return ()
     else do {
       r \<leftarrow> sendATCommand env ''AT+CGPS?'';
       case r of
         Inl _ \<Rightarrow> State_Monad.return ()
       | Inr t \<Rightarrow>
           if \<not> gpsRunning t then State_Monad.return ()
           else State_Monad.update (\<lambda>s. s\<lparr>gr_mode := parseCGPSMode t\<rparr>)
     }
   }"

section \<open>Reuse at start-up\<close>

definition queryGPSChipState :: "gps_env \<Rightarrow> (gpsChipState option) gps_m" where
  "queryGPSChipState env = do {
     a \<leftarrow> sendATCommand env ''AT+CGPS?'';
     case a of Inl _ \<Rightarrow> State_Monad.return None | Inr a \<Rightarrow> do {
       b \<leftarrow> sendATCommand env ''AT+CVAUXV?'';
       case b of Inl _ \<Rightarrow> State_Monad.return None | Inr b \<Rightarrow> do {
         c \<leftarrow> sendATCommand env ''AT+CGPSPMD?'';
         State_Monad.return (case c of Inl _ \<Rightarrow> None | Inr c \<Rightarrow> parseGPSChipState a b c)
       }
     }
   }"

section \<open>What has been answered\<close>

text \<open>Some command of the log was answered, and the answer satisfies \<open>P\<close>.\<close>

definition answered :: "gps_env \<Rightarrow> gps_call list \<Rightarrow> string \<Rightarrow> (string \<Rightarrow> bool) \<Rightarrow> bool" where
  "answered env h command P \<longleftrightarrow>
     (\<exists>h0 p t. prefix (h0 @ [AT p command]) h \<and> ge_at env h0 p command = Inr t \<and> P t)"

lemma answered_eq: "answered env h c ((=) t) \<Longrightarrow> P t \<Longrightarrow> answered env h c P"
  unfolding answered_def by blast

definition stable :: "(gps_call list \<Rightarrow> bool) \<Rightarrow> bool" where
  "stable F \<longleftrightarrow> (\<forall>h c. F h \<longrightarrow> F (h @ [c]))"

named_theorems stability \<open>facts that stay true as the log grows\<close>

lemma stable_answered [stability]: "stable (\<lambda>h. answered env h c P)"
  unfolding stable_def answered_def by (meson prefix_order.order_trans prefixI)

lemma stable_True [stability]: "stable (\<lambda>_. True)"
  by (simp add: stable_def)

lemma stable_conj [stability]: "stable F \<Longrightarrow> stable H \<Longrightarrow> stable (\<lambda>h. F h \<and> H h)"
  by (auto simp: stable_def)

text \<open>The command that starts the receiver, and the logs in which each one was sent after \<open>G\<close> held.\<close>

definition start_command :: string where "start_command = ''AT+CGPS=1,1''"

definition starts_after :: "(gps_call list \<Rightarrow> bool) \<Rightarrow> gps_call list \<Rightarrow> bool" where
  "starts_after G log \<longleftrightarrow> (\<forall>h p. prefix (h @ [AT p start_command]) log \<longrightarrow> G h)"

lemma starts_after_snoc:
  "starts_after G (log @ [c]) \<longleftrightarrow> starts_after G log \<and> (\<forall>p. c = AT p start_command \<longrightarrow> G log)"
  by (auto simp: starts_after_def)

text \<open>
  A stage that starts where \<open>F\<close> holds of the log, and ends without an error only where \<open>R\<close> holds;
  either way every start command in the log was sent after \<open>G\<close> held.
\<close>

definition leads :: "(gps_call list \<Rightarrow> bool) \<Rightarrow> (gps_call list \<Rightarrow> bool) \<Rightarrow> gps_stage \<Rightarrow> (gps_call list \<Rightarrow> bool) \<Rightarrow> bool" where
  "leads G F m R \<longleftrightarrow>
     triple (\<lambda>s. starts_after G (gr_log s) \<and> F (gr_log s)) m
       (\<lambda>r s. starts_after G (gr_log s) \<and> (r = None \<longrightarrow> R (gr_log s)))"

lemma leads_orelse:
  assumes "leads G F m R" and "leads G R n Q"
  shows "leads G F (orelse m n) Q"
  unfolding leads_def
proof (rule triple_orelse)
  show "triple (\<lambda>s. starts_after G (gr_log s) \<and> F (gr_log s)) m
      (\<lambda>r s. case r of Some x \<Rightarrow> starts_after G (gr_log s) \<and> (Some x = None \<longrightarrow> Q (gr_log s))
         | None \<Rightarrow> starts_after G (gr_log s) \<and> R (gr_log s))"
    using assms(1) unfolding leads_def by (rule triple_weaken) (auto split: option.split)
  show "triple (\<lambda>s. starts_after G (gr_log s) \<and> R (gr_log s)) n
      (\<lambda>r s. starts_after G (gr_log s) \<and> (r = None \<longrightarrow> Q (gr_log s)))"
    using assms(2) unfolding leads_def .
qed

lemma leads_weaken: "leads G F m R \<Longrightarrow> (\<And>h. F' h \<Longrightarrow> F h) \<Longrightarrow> (\<And>h. R h \<Longrightarrow> R' h) \<Longrightarrow> leads G F' m R'"
  unfolding leads_def by (erule triple_weaken) auto

lemma leads_return: "(\<And>h. e = None \<Longrightarrow> F h \<Longrightarrow> R h) \<Longrightarrow> leads G F (State_Monad.return e) R"
  unfolding leads_def by (rule triple_return) auto

lemma leads_finish: "leads G F finish F"
  unfolding finish_def by (rule leads_return)

text \<open>Observations and changes of the other fields do not touch the log.\<close>

lemma leads_observe: "(\<And>x. leads G (\<lambda>h. F h \<and> x = f h) (m x) R) \<Longrightarrow> leads G F (observe f \<bind> m) R"
  unfolding leads_def observe_def
  by (rule triple_bind [where R = "\<lambda>x s. starts_after G (gr_log s) \<and> F (gr_log s) \<and> x = f (gr_log s)"])
    (auto intro: triple_State)

lemma leads_update: "(\<And>s. gr_log (f s) = gr_log s) \<Longrightarrow> leads G F (do { _ \<leftarrow> State_Monad.update f; finish }) F"
  unfolding leads_def finish_def
  by (rule triple_bind [where R = "\<lambda>_ s. starts_after G (gr_log s) \<and> F (gr_log s)"])
    (auto intro: triple_update triple_return)

lemma leads_state:
  assumes "\<And>s r t. run_state m s = (r, t) \<Longrightarrow> starts_after G (gr_log s) \<Longrightarrow> F (gr_log s)
    \<Longrightarrow> starts_after G (gr_log t) \<and> (r = None \<longrightarrow> R (gr_log t))"
  shows "leads G F m R"
  unfolding leads_def by (rule tripleI) (use assms in blast)

lemma leads_intro:
  assumes "triple (\<lambda>s. starts_after G (gr_log s) \<and> F (gr_log s)) m (\<lambda>x s. starts_after G (gr_log s) \<and> H x (gr_log s))"
    and "\<And>x. leads G (H x) (f x) R"
  shows "leads G F (m \<bind> f) R"
  using assms unfolding leads_def by (rule triple_bind)

section \<open>Commands keep the log in order\<close>

lemma ensure_log: "run_state (ensureModemPath env) s = (r, t) \<Longrightarrow> gr_log t = gr_log s"
  by (auto simp: ensureModemPath_def split: if_splits option.splits)

lemma refresh_log: "run_state (refreshModemPathIfStale env m) s = (r, t) \<Longrightarrow> gr_log t = gr_log s"
  by (auto simp: refreshModemPathIfStale_def split: if_splits option.splits)

lemma send_ordered:
  assumes "stable F" and "c = start_command \<Longrightarrow> \<forall>h. F h \<longrightarrow> G h"
  shows "triple (\<lambda>s. starts_after G (gr_log s) \<and> F (gr_log s)) (send env c)
    (\<lambda>r s. starts_after G (gr_log s) \<and> F (gr_log s) \<and> (\<forall>t. r = Inr t \<longrightarrow> answered env (gr_log s) c ((=) t)))"
proof (rule tripleI)
  fix s r t
  assume "starts_after G (gr_log s) \<and> F (gr_log s)" and r: "run_state (send env c) s = (r, t)"
  moreover from r have "t = s\<lparr>gr_log := gr_log s @ [AT (gr_path s) c]\<rparr>" "r = ge_at env (gr_log s) (gr_path s) c"
    by (simp_all add: send_def)
  ultimately show "starts_after G (gr_log t) \<and> F (gr_log t) \<and> (\<forall>u. r = Inr u \<longrightarrow> answered env (gr_log t) c ((=) u))"
    using assms by (auto simp: starts_after_snoc stable_def answered_def)
qed

lemma sendATCommand_ordered:
  assumes "stable F" and "c = start_command \<Longrightarrow> \<forall>h. F h \<longrightarrow> G h"
  shows "triple (\<lambda>s. starts_after G (gr_log s) \<and> F (gr_log s)) (sendATCommand env c)
    (\<lambda>r s. starts_after G (gr_log s) \<and> F (gr_log s) \<and> (\<forall>t. r = Inr t \<longrightarrow> answered env (gr_log s) c ((=) t)))"
proof -
  let ?P = "\<lambda>s. starts_after G (gr_log s) \<and> F (gr_log s)"
  let ?Q = "\<lambda>r s. starts_after G (gr_log s) \<and> F (gr_log s) \<and> (\<forall>t. r = Inr t \<longrightarrow> answered env (gr_log s) c ((=) t))"
  note send = send_ordered [OF assms]
  have ensure: "triple ?P (ensureModemPath env) (\<lambda>_. ?P)"
    by (rule tripleI) (auto dest: ensure_log)
  have refresh: "triple ?P (refreshModemPathIfStale env msg) (\<lambda>_. ?P)" for msg
    by (rule tripleI) (auto dest: refresh_log)
  have answer: "triple (?Q r) (State_Monad.return (err_of_at r)) ?Q" for r
    by (rule triple_return) (cases r; simp)
  have again: "triple ?P (send_again env c msg) ?Q" for msg
    unfolding send_again_def
    by (rule triple_bind [OF refresh], rule triple_if, rule triple_return, simp, rule triple_bind [OF send answer])
  have first: "triple (?Q r) (case r of Inl msg \<Rightarrow> send_again env c msg | Inr t \<Rightarrow> State_Monad.return (Inr t)) ?Q" for r
  proof (cases r)
    case (Inl msg)
    then show ?thesis using triple_weaken [OF again [of msg]] by simp
  next
    case (Inr t)
    then show ?thesis by (auto intro: triple_return)
  qed
  have first: "triple ?P (send_first env c) ?Q"
    unfolding send_first_def by (rule triple_bind [OF send first])
  have "triple ?P (case e of Some e \<Rightarrow> State_Monad.return (Inl e) | None \<Rightarrow> send_first env c) ?Q" for e
    using first by (cases e) (auto intro: triple_return)
  from triple_bind [OF ensure this] show ?thesis unfolding sendATCommand_def .
qed

lemma leads_at:
  assumes "stable F" and "c = start_command \<Longrightarrow> \<forall>h. F h \<longrightarrow> G h"
    and "\<And>h t. F h \<Longrightarrow> answered env h c ((=) t) \<Longrightarrow> f (Inr t) = None \<Longrightarrow> R h"
    and "\<And>h e. F h \<Longrightarrow> f (Inl e) = None \<Longrightarrow> R h"
  shows "leads G F (do { r \<leftarrow> sendATCommand env c; State_Monad.return (f r) }) R"
proof (rule leads_intro [OF sendATCommand_ordered [OF assms(1,2)]])
  fix r
  show "leads G (\<lambda>h. F h \<and> (\<forall>t. r = Inr t \<longrightarrow> answered env h c ((=) t))) (State_Monad.return (f r)) R"
    using assms(3,4) by (intro leads_return) (cases r; auto)
qed

lemma leads_require:
  assumes "stable F" and "c \<noteq> start_command"
  shows "leads G F (require_at env c) (\<lambda>h. F h \<and> answered env h c (\<lambda>_. True))"
  unfolding require_at_def
  by (rule leads_at [OF assms(1)]) (use assms(2) in \<open>auto simp: answered_def\<close>)

lemma leads_check:
  assumes "stable F" and "c \<noteq> start_command"
  shows "leads G F (check_at env c ok) (\<lambda>h. F h \<and> answered env h c (\<lambda>t. ok t = None))"
  unfolding check_at_def
  by (rule leads_at [OF assms(1)]) (use assms(2) in \<open>auto simp: answered_def\<close>)

lemma leads_try:
  assumes "stable F" and "c = start_command \<Longrightarrow> \<forall>h. F h \<longrightarrow> G h"
  shows "leads G F (try_at env c) F"
  unfolding try_at_def finish_def
  by (rule leads_at [OF assms]) auto

lemma leads_sync: "stable F \<Longrightarrow> leads G F (syncGPSClock env) F"
  unfolding syncGPSClock_def
  by (rule leads_observe, rule leads_weaken [OF leads_try [of F]]) (simp_all add: start_command_def quote_def)

text \<open>What is known of the clock: it does not go back, and a wait that is not cut short lasts.\<close>

definition clock_ok :: "gps_env \<Rightarrow> bool" where
  "clock_ok env \<longleftrightarrow> (\<forall>h c. ge_now env h \<le> ge_now env (h @ [c]))
     \<and> (\<forall>h d. ge_woken env (h @ [Sleep d]) \<longrightarrow> ge_now env h + d \<le> ge_now env (h @ [Sleep d]))"

lemma stable_clock [stability]: "clock_ok env \<Longrightarrow> stable (\<lambda>h. t \<le> ge_now env h)"
  unfolding clock_ok_def stable_def by (meson order_trans)

lemma run_waitUntil:
  "run_state (waitUntil env nb) s =
      (if ge_done env (gr_log s) then (Some Cancelled, s)
       else let d = time_Sub nb (ge_now env (gr_log s)) in
         if d \<le> 0 then (None, s)
         else (if ge_woken env (gr_log s @ [Sleep d]) then None else Some Cancelled, s\<lparr>gr_log := gr_log s @ [Sleep d]\<rparr>))"
  by (simp add: waitUntil_def observe_def wait_for_def note_call_def finish_def Let_def
      State_Monad.update_def State_Monad.get_def State_Monad.set_def)

lemma leads_wait_any: "stable F \<Longrightarrow> leads G F (waitUntil env nb) F"
  by (rule leads_state) (auto simp: run_waitUntil Let_def starts_after_snoc stable_def split: if_splits)

lemma leads_wait:
  assumes "clock_ok env" and "stable F" and small: "\<And>h. F h \<Longrightarrow> nb - ge_now env h \<le> max_int64"
  shows "leads G F (waitUntil env nb) (\<lambda>h. F h \<and> nb \<le> ge_now env h)"
proof (rule leads_state)
  fix s r t
  assume r: "run_state (waitUntil env nb) s = (r, t)" and G: "starts_after G (gr_log s)" and F: "F (gr_log s)"
  let ?d = "time_Sub nb (ge_now env (gr_log s))"
  from small [OF F] have d: "?d \<le> 0 \<Longrightarrow> nb \<le> ge_now env (gr_log s)" "nb - ge_now env (gr_log s) \<le> ?d"
    by (auto simp: time_Sub_def min_int64_def max_int64_def)
  have "F (gr_log s @ [Sleep ?d])" using assms(2) F by (simp add: stable_def)
  moreover have "nb \<le> ge_now env (gr_log s @ [Sleep ?d])" if "ge_woken env (gr_log s @ [Sleep ?d])"
    using that assms(1) d(2) unfolding clock_ok_def by (smt (verit))
  ultimately show "starts_after G (gr_log t) \<and> (r = None \<longrightarrow> F (gr_log t) \<and> nb \<le> ge_now env (gr_log t))"
    using r G F d(1) by (auto simp: run_waitUntil Let_def starts_after_snoc split: if_splits)
qed

text \<open>The modem has said that the receiver is stopped, or running alone.\<close>

definition stopped :: "gps_env \<Rightarrow> gps_call list \<Rightarrow> bool" where
  "stopped env h \<longleftrightarrow> answered env h ''AT+CGPS?'' (\<lambda>t. case parseCGPSResponse t of (running, _, ok) \<Rightarrow> ok \<and> \<not> running)"

lemma stable_stopped [stability]: "stable (stopped env)"
  unfolding stopped_def [abs_def] by (rule stability)

lemma leads_stop_answer:
  assumes "stable F" and again: "leads G F again (\<lambda>h. F h \<and> stopped env h)"
  shows "leads G (\<lambda>h. F h \<and> (\<forall>t. r = Inr t \<longrightarrow> answered env h ''AT+CGPS?'' ((=) t)))
    (stop_answer env deadline again r) (\<lambda>h. F h \<and> stopped env h)"
proof (cases r)
  case (Inl e)
  then show ?thesis by (auto simp: stop_answer_def intro!: leads_return)
next
  case (Inr t)
  let ?F = "\<lambda>h. F h \<and> (\<forall>t. r = Inr t \<longrightarrow> answered env h ''AT+CGPS?'' ((=) t))"
  obtain running m ok where p: "parseCGPSResponse t = (running, m, ok)" by (cases "parseCGPSResponse t") auto
  have "stopped env h" if "answered env h ''AT+CGPS?'' ((=) t)" "ok" "\<not> running" for h
    unfolding stopped_def by (rule answered_eq [OF that(1)]) (use that p in simp)
  then have fin: "leads G ?F finish (\<lambda>h. F h \<and> stopped env h)" if "ok" "\<not> running"
    using that Inr by (intro leads_weaken [OF leads_finish [of G ?F]]) auto
  have poll: "leads G F (observe (ge_now env) \<bind> stop_poll env deadline again) (\<lambda>h. F h \<and> stopped env h)"
    unfolding stop_poll_def
    by (rule leads_observe)
      (auto simp: Let_def intro: leads_return leads_weaken [OF leads_orelse [OF leads_wait_any [OF assms(1)] again]])
  from Inr p fin leads_weaken [OF poll, of ?F] show ?thesis by (auto simp: stop_answer_def intro: leads_return)
qed

lemma leads_stopped:
  assumes "stable F"
  shows "leads G F (waitForReceiverStopped fuel env deadline) (\<lambda>h. F h \<and> stopped env h)"
proof (induction fuel)
  case 0
  then show ?case by (auto intro!: leads_return)
next
  case (Suc fuel)
  have no_start: "''AT+CGPS?'' = start_command \<Longrightarrow> \<forall>h. F h \<longrightarrow> G h" by (simp add: start_command_def)
  show ?case
    unfolding waitForReceiverStopped.simps
    by (rule leads_intro [OF sendATCommand_ordered [OF assms no_start] leads_stop_answer [OF assms Suc.IH]])
qed

text \<open>What has to be so before the receiver is started: \<open>t0\<close> is the instant of the stop command.\<close>

definition ready_to_start :: "gps_config \<Rightarrow> gps_env \<Rightarrow> gotime \<Rightarrow> gps_call list \<Rightarrow> bool" where
  "ready_to_start cfg env t0 h \<longleftrightarrow> stopped env h
     \<and> answered env h ''AT+CGPSPMD?'' (\<lambda>t. parseSingleValueResponse t ''+CGPSPMD:'' = Some requiredGPSPowerMode)
     \<and> answered env h (''AT+CVAUXV='' @ dec_str (gc_millivolts cfg)) (\<lambda>_. True)
     \<and> answered env h ''AT+CVAUXS=1'' (\<lambda>_. True)
     \<and> t0 + gpsRestartMinimumInterval \<le> ge_now env h"

lemma if_None: "((if b then None else Some x) = None) = b"
  by simp

lemma leads_power_mode:
  assumes "stable F"
  shows "leads G F (configureGPSPowerMode env) (\<lambda>h. F h
    \<and> answered env h ''AT+CGPSPMD?'' (\<lambda>t. parseSingleValueResponse t ''+CGPSPMD:'' = Some requiredGPSPowerMode))"
proof -
  have a: "leads G F (require_at env ''AT+CGPSPMD=7'') F"
    by (rule leads_weaken [OF leads_require [OF assms]]) (simp_all add: start_command_def)
  have b: "leads G F (check_at env ''AT+CGPSPMD?'' (\<lambda>t.
      if parseSingleValueResponse t ''+CGPSPMD:'' = Some requiredGPSPowerMode then None else Some WrongPowerMode))
    (\<lambda>h. F h \<and> answered env h ''AT+CGPSPMD?'' (\<lambda>t. parseSingleValueResponse t ''+CGPSPMD:'' = Some requiredGPSPowerMode))"
    using leads_check [OF assms, of "''AT+CGPSPMD?''" G env "\<lambda>t. if parseSingleValueResponse t ''+CGPSPMD:'' = Some requiredGPSPowerMode
      then None else Some WrongPowerMode"]
    by (simp add: start_command_def if_None split del: if_split)
  show ?thesis unfolding configureGPSPowerMode_def by (rule leads_orelse [OF a b])
qed

text \<open>The settings: what is known after them, and that none of them starts the receiver.\<close>

definition prepared :: "gps_env \<Rightarrow> gotime \<Rightarrow> gps_call list \<Rightarrow> bool" where
  "prepared env t0 h \<longleftrightarrow> t0 \<le> ge_now env h \<and> stopped env h
     \<and> answered env h ''AT+CGPSPMD?'' (\<lambda>t. parseSingleValueResponse t ''+CGPSPMD:'' = Some requiredGPSPowerMode)"

lemma stable_prepared: "clock_ok env \<Longrightarrow> stable (prepared env t0)"
  unfolding prepared_def [abs_def] by (intro stability)

lemma leads_settings:
  assumes "clock_ok env"
  shows "leads G (\<lambda>h. t0 \<le> ge_now env h)
      (orelse (waitForReceiverStopped n env d)
       (orelse (configureGPSPowerMode env)
       (orelse (try_at env ''AT+CGPSAUTO=0'')
       (orelse (try_at env (''AT+CGPSHOR='' @ dec_str k))
       (orelse (try_at env ''AT+CGDRT=41,1'')
       (orelse (try_at env ''AT+CGSETV=41,1'')
       (orelse (syncGPSClock env)
         (try_at env ''AT+CGPSNMEA=511''))))))))
    (prepared env t0)"
proof -
  note st = stable_clock [OF assms, of t0]
  have pm: "leads G (\<lambda>h. t0 \<le> ge_now env h \<and> stopped env h) (configureGPSPowerMode env) (prepared env t0)"
    using leads_power_mode [of "\<lambda>h. t0 \<le> ge_now env h \<and> stopped env h" G env]
    by (simp add: prepared_def [abs_def] stability st conj_assoc)
  have try_: "leads G (prepared env t0) (try_at env c) (prepared env t0)" if "c \<noteq> start_command" for c
    using that by (intro leads_try stable_prepared assms) simp
  show ?thesis
    by (intro leads_orelse [OF leads_stopped [OF st]] leads_orelse [OF pm] leads_orelse [OF try_]
          leads_orelse [OF leads_sync [OF stable_prepared [OF assms]]] try_)
      (simp_all add: start_command_def)
qed


lemma leads_antenna:
  assumes "clock_ok env"
  shows "leads (ready_to_start cfg env t0) (prepared env t0)
    (configureAntennaPower cfg env (t0 + gpsRestartMinimumInterval)) (\<lambda>_. True)"
proof -
  let ?G = "ready_to_start cfg env t0"
  let ?v = "''AT+CVAUXV='' @ dec_str (gc_millivolts cfg)"
  define F1 where "F1 = (\<lambda>h. prepared env t0 h \<and> answered env h ?v (\<lambda>_. True))"
  define F2 where "F2 = (\<lambda>h. F1 h \<and> answered env h ''AT+CVAUXS=1'' (\<lambda>_. True))"
  have s0: "stable (prepared env t0)" by (rule stable_prepared [OF assms])
  have s1: "stable F1" unfolding F1_def by (intro stability s0)
  have s2: "stable F2" unfolding F2_def by (intro stability s1)
  have s3: "stable ?G" unfolding ready_to_start_def [abs_def] by (intro stability stable_clock assms)
  have ready: "leads ?G F2 (waitUntil env (t0 + gpsRestartMinimumInterval)) ?G"
  proof (rule leads_weaken [OF leads_wait [OF assms s2]])
    show "t0 + gpsRestartMinimumInterval - ge_now env h \<le> max_int64" if "F2 h" for h
      using that by (simp add: F2_def F1_def prepared_def gpsRestartMinimumInterval_def max_int64_def go_time)
    show "?G h" if "F2 h \<and> t0 + gpsRestartMinimumInterval \<le> ge_now env h" for h
      using that by (simp add: F2_def F1_def prepared_def ready_to_start_def)
  qed
  have start: "leads ?G ?G (try_at env ''AT+CGPS=1,1'') ?G" by (rule leads_try [OF s3]) simp
  have check: "leads ?G ?G (check_at env ''AT+CGPS?'' ok) (\<lambda>_. True)" for ok
    by (rule leads_weaken [OF leads_check [OF s3]]) (simp_all add: start_command_def)
  have mode: "leads ?G (\<lambda>_. True) (do { _ \<leftarrow> State_Monad.update (\<lambda>s. s\<lparr>gr_mode := ModeStandalone\<rparr>); finish }) (\<lambda>_. True)"
    by (rule leads_update) simp
  have receiver: "leads ?G F2 (startStandaloneReceiver env (t0 + gpsRestartMinimumInterval)) (\<lambda>_. True)"
    unfolding startStandaloneReceiver_def by (intro leads_orelse [OF ready] leads_orelse [OF start] leads_orelse [OF check] mode)
  have v: "leads ?G (prepared env t0) (require_at env ?v) F1"
    using leads_require [OF s0, of ?v] by (simp add: F1_def start_command_def)
  have e: "leads ?G F1 (require_at env ''AT+CVAUXS=1'') F2"
    using leads_require [OF s1, of "''AT+CVAUXS=1''"] by (simp add: F2_def start_command_def)
  have q: "leads ?G (prepared env t0) (try_at env ''AT+CVAUXV?'') (prepared env t0)"
    by (rule leads_try [OF s0]) (simp add: start_command_def)
  have n: "leads ?G (\<lambda>_. True) (try_at env ''AT+CGPSNOTIFY=0'') (\<lambda>_. True)"
    by (rule leads_try [OF stable_True]) (simp add: start_command_def)
  show ?thesis
    unfolding configureAntennaPower_def
    by (rule leads_orelse [OF q], rule leads_orelse [OF v], rule leads_orelse [OF e],
        rule leads_orelse [OF leads_sync [OF s2]], rule leads_orelse [OF receiver n])
qed

lemma configure_ordered:
  assumes "clock_ok env" and "gr_log s = []" and "run_state (configureReceiver cfg env) s = (e, s')"
  shows "starts_after (ready_to_start cfg env (ge_now env [])) (gr_log s')"
proof -
  let ?t0 = "ge_now env []" and ?G = "ready_to_start cfg env (ge_now env [])"
  note st = stable_clock [OF assms(1), of ?t0]
  let ?settings = "orelse (waitForReceiverStopped stop_fuel env (time_Add ?t0 gpsStopConfirmationTimeout))
       (orelse (configureGPSPowerMode env)
       (orelse (try_at env ''AT+CGPSAUTO=0'')
       (orelse (try_at env (''AT+CGPSHOR='' @ dec_str (gc_accuracy cfg)))
       (orelse (try_at env ''AT+CGDRT=41,1'')
       (orelse (try_at env ''AT+CGSETV=41,1'')
       (orelse (syncGPSClock env)
         (try_at env ''AT+CGPSNMEA=511'')))))))"
  let ?body = "do { _ \<leftarrow> sendATCommand env ''AT+CGPS=0''; orelse ?settings
      (configureAntennaPower cfg env (?t0 + gpsRestartMinimumInterval)) }"
  have body: "leads ?G (\<lambda>h. ?t0 \<le> ge_now env h) ?body (\<lambda>_. True)"
  proof (rule leads_intro [OF sendATCommand_ordered [OF st]])
    show "''AT+CGPS=0'' = start_command \<Longrightarrow> \<forall>h. ?t0 \<le> ge_now env h \<longrightarrow> ?G h" by (simp add: start_command_def)
    show "leads ?G (\<lambda>h. ?t0 \<le> ge_now env h \<and> (\<forall>t. r = Inr t \<longrightarrow> answered env h ''AT+CGPS=0'' ((=) t)))
        (orelse ?settings (configureAntennaPower cfg env (?t0 + gpsRestartMinimumInterval))) (\<lambda>_. True)"
      for r :: "gps_err + string"
      by (rule leads_weaken [OF leads_orelse [OF leads_settings [OF assms(1)] leads_antenna [OF assms(1)]]]) simp_all
  qed
  have "run_state (configureReceiver cfg env) s = run_state ?body s"
    using assms(2)
    by (simp add: configureReceiver_def configureGPSViaATCommands_def observe_def time_Add_def orelse_def
        split: prod.split)
  with assms(3) have "run_state ?body s = (e, s')" by simp
  moreover have "starts_after ?G (gr_log s) \<and> ?t0 \<le> ge_now env (gr_log s)"
    using assms(2) by (simp add: starts_after_def)
  ultimately show ?thesis using body unfolding leads_def by (blast dest: tripleD)
qed

section \<open>The wait for the stop is bounded\<close>

lemma send_no_fuel: "triple (\<lambda>_. True) (sendATCommand env c) (\<lambda>r _. r \<noteq> Inl OutOfFuel)"
proof -
  have e: "triple (\<lambda>_. True) (ensureModemPath env) (\<lambda>r _. r \<noteq> Some OutOfFuel)"
    by (rule tripleI) (auto simp: ensureModemPath_def split: if_splits option.splits)
  have a: "triple (\<lambda>_. True) (send_again env c m) (\<lambda>r _. r \<noteq> Inl OutOfFuel)" for m
  proof -
    have "triple (\<lambda>_. True) (State_Monad.return (err_of_at r)) (\<lambda>r _. r \<noteq> Inl OutOfFuel)" for r
      by (cases r) (auto intro: triple_return)
    then show ?thesis unfolding send_again_def
      by (intro triple_bind [where R = "\<lambda>_ _. True"] triple_if triple_return) (auto simp: triple_def split: prod.split)
  qed
  have f: "triple (\<lambda>_. True) (send_first env c) (\<lambda>r _. r \<noteq> Inl OutOfFuel)"
  proof -
    have "triple (\<lambda>_. True) (case r of Inl m \<Rightarrow> send_again env c m | Inr t \<Rightarrow> State_Monad.return (Inr t))
        (\<lambda>r _. r \<noteq> Inl OutOfFuel)" for r
      using a by (cases r) (auto intro: triple_return)
    then show ?thesis unfolding send_first_def
      by (intro triple_bind [where R = "\<lambda>_ _. True"]) (auto simp: triple_def split: prod.split)
  qed
  have "triple (\<lambda>_. r \<noteq> Some OutOfFuel) (case r of Some e \<Rightarrow> State_Monad.return (Inl e) | None \<Rightarrow> send_first env c)
      (\<lambda>r _. r \<noteq> Inl OutOfFuel)" for r
    using f by (cases r) (auto intro: triple_return simp: triple_def)
  from triple_bind [OF e this] show ?thesis unfolding sendATCommand_def .
qed

lemma send_keeps_time:
  assumes "clock_ok env"
  shows "triple (\<lambda>s. t \<le> ge_now env (gr_log s)) (sendATCommand env c)
    (\<lambda>r s. t \<le> ge_now env (gr_log s) \<and> r \<noteq> Inl OutOfFuel)"
proof -
  have "triple (\<lambda>s. starts_after (\<lambda>_. True) (gr_log s) \<and> t \<le> ge_now env (gr_log s)) (sendATCommand env c)
      (\<lambda>r s. starts_after (\<lambda>_. True) (gr_log s) \<and> t \<le> ge_now env (gr_log s)
         \<and> (\<forall>u. r = Inr u \<longrightarrow> answered env (gr_log s) c ((=) u)))"
    by (rule sendATCommand_ordered [OF stable_clock [OF assms]]) simp
  from triple_conj [OF this send_no_fuel] show ?thesis
    by (rule triple_weaken) (auto simp: starts_after_def)
qed

lemma stop_poll_bounded:
  assumes "clock_ok env"
    and again: "triple (\<lambda>s. deadline - ge_now env (gr_log s) \<le> d) again (\<lambda>r _. r \<noteq> Some OutOfFuel)" and "0 \<le> d"
  shows "triple (\<lambda>s. deadline - ge_now env (gr_log s) \<le> d + gpsStopPollInterval \<and> now = ge_now env (gr_log s))
    (stop_poll env deadline again now) (\<lambda>r _. r \<noteq> Some OutOfFuel)"
proof (cases "now < deadline")
  case False
  then show ?thesis by (auto simp: stop_poll_def time_Before_def intro: triple_return)
next
  case True
  let ?P = "\<lambda>s. deadline - ge_now env (gr_log s) \<le> d + gpsStopPollInterval \<and> now = ge_now env (gr_log s)"
  let ?nb = "if time_After (time_Add now gpsStopPollInterval) deadline then deadline else time_Add now gpsStopPollInterval"
  have "triple ?P (waitUntil env ?nb)
      (\<lambda>r s. case r of Some x \<Rightarrow> Some x \<noteq> Some OutOfFuel | None \<Rightarrow> deadline - ge_now env (gr_log s) \<le> d)"
  proof (rule tripleI)
    fix s r t
    assume pre: "?P s" and run: "run_state (waitUntil env ?nb) s = (r, t)"
    let ?d = "time_Sub ?nb (ge_now env (gr_log s))"
    note units = time_Add_def time_After_def gpsStopPollInterval_def go_time
    have left: "?nb - now = ?d" "0 < ?d"
      using pre True by (auto simp: time_Sub_def min_int64_def max_int64_def units)
    have nb: "deadline - ?nb \<le> d"
      using pre assms(3) by (auto simp: algebra_simps units)
    have "?nb \<le> ge_now env (gr_log s @ [Sleep ?d])" if "ge_woken env (gr_log s @ [Sleep ?d])"
      using that assms(1) pre left unfolding clock_ok_def by (smt (verit))
    with left run nb show "case r of Some x \<Rightarrow> Some x \<noteq> Some OutOfFuel
        | None \<Rightarrow> deadline - ge_now env (gr_log t) \<le> d"
      by (auto simp: run_waitUntil Let_def split: if_splits)
  qed
  from triple_orelse [OF this again] True show ?thesis by (simp add: stop_poll_def time_Before_def Let_def)
qed

lemma stop_answer_bounded:
  assumes "triple (\<lambda>s. P s) (observe (ge_now env) \<bind> stop_poll env deadline again) (\<lambda>r _. r \<noteq> Some OutOfFuel)"
  shows "triple (\<lambda>s. P s \<and> r \<noteq> Inl OutOfFuel) (stop_answer env deadline again r) (\<lambda>r _. r \<noteq> Some OutOfFuel)"
proof (cases r)
  case (Inl e)
  then show ?thesis by (auto simp: stop_answer_def intro: triple_return)
next
  case (Inr t)
  obtain running m ok where p: "parseCGPSResponse t = (running, m, ok)" by (cases "parseCGPSResponse t") auto
  from Inr p triple_weaken [OF assms, of "\<lambda>s. P s \<and> r \<noteq> Inl OutOfFuel"] show ?thesis
    by (auto simp: stop_answer_def finish_def intro: triple_return)
qed

lemma stop_bounded:
  assumes "clock_ok env"
  shows "triple (\<lambda>s. deadline - ge_now env (gr_log s) \<le> int n * gpsStopPollInterval)
    (waitForReceiverStopped (Suc n) env deadline) (\<lambda>r _. r \<noteq> Some OutOfFuel)"
proof (induction n)
  case 0
  have "triple (\<lambda>s. deadline \<le> ge_now env (gr_log s)) (observe (ge_now env) \<bind> stop_poll env deadline m)
      (\<lambda>r _. r \<noteq> Some OutOfFuel)" for m
    by (rule tripleI) (auto simp: observe_def stop_poll_def time_Before_def)
  from triple_bind [OF send_keeps_time [OF assms] stop_answer_bounded [OF this]] show ?case
    by simp
next
  case (Suc n)
  let ?P = "\<lambda>s. deadline - int (Suc n) * gpsStopPollInterval \<le> ge_now env (gr_log s)"
  have "triple ?P (observe (ge_now env) \<bind> stop_poll env deadline (waitForReceiverStopped (Suc n) env deadline))
      (\<lambda>r _. r \<noteq> Some OutOfFuel)"
  proof (rule triple_bind [where R = "\<lambda>now s. deadline - ge_now env (gr_log s) \<le> int n * gpsStopPollInterval + gpsStopPollInterval
        \<and> now = ge_now env (gr_log s)"])
    show "triple ?P (observe (ge_now env)) (\<lambda>now s. deadline - ge_now env (gr_log s) \<le> int n * gpsStopPollInterval + gpsStopPollInterval
        \<and> now = ge_now env (gr_log s))"
      by (simp add: observe_def triple_def algebra_simps)
    show "triple (\<lambda>s. deadline - ge_now env (gr_log s) \<le> int n * gpsStopPollInterval + gpsStopPollInterval \<and> now = ge_now env (gr_log s))
        (stop_poll env deadline (waitForReceiverStopped (Suc n) env deadline) now) (\<lambda>r _. r \<noteq> Some OutOfFuel)" for now
      by (rule stop_poll_bounded [OF assms Suc.IH]) (simp add: gpsStopPollInterval_def go_time)
  qed
  from triple_bind [OF send_keeps_time [OF assms] stop_answer_bounded [OF this]]
  have "triple ?P (waitForReceiverStopped (Suc (Suc n)) env deadline) (\<lambda>r _. r \<noteq> Some OutOfFuel)"
    by (simp only: waitForReceiverStopped.simps)
  then show ?case by (rule triple_weaken) (simp_all add: algebra_simps)
qed

section \<open>Switching the mode\<close>

lemma send_mode: "triple (\<lambda>s. gr_mode s = m) (sendATCommand env c) (\<lambda>_ s. gr_mode s = m)"
proof -
  have e: "keeps (\<lambda>s. gr_mode s = m) (ensureModemPath env)"
    by (rule tripleI) (auto simp: ensureModemPath_def split: if_splits option.splits)
  have r: "keeps (\<lambda>s. gr_mode s = m) (refreshModemPathIfStale env msg)" for msg
    by (rule tripleI) (auto simp: refreshModemPathIfStale_def split: if_splits option.splits)
  have s: "keeps (\<lambda>s. gr_mode s = m) (send env c)"
    by (rule tripleI) (auto simp: send_def)
  have a: "keeps (\<lambda>s. gr_mode s = m) (send_again env c msg)" for msg
    unfolding send_again_def by (intro triples r s)
  have f: "keeps (\<lambda>s. gr_mode s = m) (send_first env c)"
    unfolding send_first_def by (intro triples s) (auto intro: triples a split: sum.split)
  show ?thesis unfolding sendATCommand_def by (intro triples e f)
qed

lemma stage_modes [triples]:
  "keeps (\<lambda>s. gr_mode s = m) (try_at env c)" "keeps (\<lambda>s. gr_mode s = m) (check_at env c ok)"
  "keeps (\<lambda>s. gr_mode s = m) (wait_for env d)" "keeps (\<lambda>s. gr_mode s = m) finish"
  "keeps (\<lambda>s. gr_mode s = m) (observe f)"
proof -
  note r = send_mode
  show "keeps (\<lambda>s. gr_mode s = m) (try_at env c)" "keeps (\<lambda>s. gr_mode s = m) (check_at env c ok)"
    unfolding try_at_def check_at_def finish_def by (intro triples r)+
  show "keeps (\<lambda>s. gr_mode s = m) (observe f)" by (simp add: observe_def triple_def)
  then show "keeps (\<lambda>s. gr_mode s = m) (wait_for env d)"
    unfolding wait_for_def note_call_def by (intro triples triple_update) (simp_all add: observe_def triple_def)
  show "keeps (\<lambda>s. gr_mode s = m) finish" unfolding finish_def by (intro triples)
qed

text \<open>The mode changes only in the last step, after a check that answers for it.\<close>

definition mode_set :: "gps_env \<Rightarrow> GPSMode \<Rightarrow> GPSMode \<Rightarrow> gps_err option \<Rightarrow> receiver \<Rightarrow> bool" where
  "mode_set env mode m0 r s \<longleftrightarrow>
     (if r = None then gr_mode s = mode
        \<and> answered env (gr_log s) ''AT+CGPS?'' (\<lambda>t. gpsRunning t \<and> parseCGPSMode t = mode)
      else gr_mode s = m0)"

lemma mode_stage:
  assumes "keeps (\<lambda>s. gr_mode s = m0) m" and "triple (\<lambda>s. gr_mode s = m0) n (mode_set env mode m0)"
  shows "triple (\<lambda>s. gr_mode s = m0) (orelse m n) (mode_set env mode m0)"
  by (rule triple_orelse [OF triple_weaken [OF assms(1)] assms(2)]) (auto simp: mode_set_def split: option.split)

lemma check_answered:
  "triple (\<lambda>_. True) (check_at env c ok) (\<lambda>r s. r = None \<longrightarrow> answered env (gr_log s) c (\<lambda>t. ok t = None))"
proof -
  have "triple (\<lambda>s. starts_after (\<lambda>_. True) (gr_log s) \<and> True) (sendATCommand env c)
      (\<lambda>r s. starts_after (\<lambda>_. True) (gr_log s) \<and> True \<and> (\<forall>u. r = Inr u \<longrightarrow> answered env (gr_log s) c ((=) u)))"
    by (rule sendATCommand_ordered [OF stable_True]) simp
  then have "triple (\<lambda>_. True) (sendATCommand env c) (\<lambda>r s. \<forall>u. r = Inr u \<longrightarrow> answered env (gr_log s) c ((=) u))"
    by (rule triple_weaken) (auto simp: starts_after_def)
  moreover have "triple (\<lambda>s. \<forall>u. r = Inr u \<longrightarrow> answered env (gr_log s) c ((=) u))
      (State_Monad.return (case r of Inl e \<Rightarrow> Some e | Inr t \<Rightarrow> ok t))
      (\<lambda>r s. r = None \<longrightarrow> answered env (gr_log s) c (\<lambda>t. ok t = None))" for r
    by (rule triple_return) (cases r; auto intro: answered_eq)
  ultimately show ?thesis unfolding check_at_def by (rule triple_bind)
qed

lemma verified_mode:
  "triple (\<lambda>s. gr_mode s = m0)
     (orelse (check_at env ''AT+CGPS?'' (\<lambda>t. if \<not> gpsRunning t \<or> parseCGPSMode t \<noteq> mode then Some StartFailed else None))
       (do { now \<leftarrow> observe (ge_now env);
             _ \<leftarrow> State_Monad.update (\<lambda>s. s\<lparr>gr_mode := mode, gr_lastData := now\<rparr>); finish }))
     (mode_set env mode m0)"
proof (rule triple_orelse [where R = "\<lambda>s. answered env (gr_log s) ''AT+CGPS?'' (\<lambda>t. gpsRunning t \<and> parseCGPSMode t = mode)"])
  let ?ok = "\<lambda>t. if \<not> gpsRunning t \<or> parseCGPSMode t \<noteq> mode then Some StartFailed else None"
  have ok: "(?ok t = None) = (gpsRunning t \<and> parseCGPSMode t = mode)" for t by simp
  from triple_conj [OF stage_modes(2) [of m0 env "''AT+CGPS?''" ?ok] check_answered [of env "''AT+CGPS?''" ?ok]]
  show "triple (\<lambda>s. gr_mode s = m0) (check_at env ''AT+CGPS?'' ?ok)
      (\<lambda>r s. case r of Some x \<Rightarrow> mode_set env mode m0 (Some x) s
         | None \<Rightarrow> answered env (gr_log s) ''AT+CGPS?'' (\<lambda>t. gpsRunning t \<and> parseCGPSMode t = mode))"
    unfolding ok by (rule triple_weaken) (auto simp: mode_set_def split: option.split)
  show "triple (\<lambda>s. answered env (gr_log s) ''AT+CGPS?'' (\<lambda>t. gpsRunning t \<and> parseCGPSMode t = mode))
      (do { now \<leftarrow> observe (ge_now env);
            _ \<leftarrow> State_Monad.update (\<lambda>s. s\<lparr>gr_mode := mode, gr_lastData := now\<rparr>); finish }) (mode_set env mode m0)"
    by (rule tripleI) (auto simp: observe_def finish_def mode_set_def State_Monad.update_def State_Monad.get_def State_Monad.set_def)
qed

lemma switch_mode:
  "triple (\<lambda>s. gr_mode s = m0 \<and> gr_ready s) (SetGPSMode cfg env mode) (mode_set env mode m0)"
proof -
  let ?switch = "orelse (try_at env ''AT+CGPS=0'')
     (orelse (wait_for env (3 * second_ns))
     (orelse (if mode = ModeUEBased then
          orelse (try_at env (''AT+CGPSURL='' @ quote (gc_SuplServer cfg)))
            (orelse (try_at env ''AT+CGPSSSL=0'') (try_at env ''AT+CGPSMSB=1''))
        else orelse (try_at env (''AT+CGPSURL='' @ quote '''')) (try_at env ''AT+CGPSMSB=0''))
     (orelse (try_at env (''AT+CGPS=1,'' @ cgpsArg mode))
     (orelse (check_at env ''AT+CGPS?'' (\<lambda>t. if \<not> gpsRunning t \<or> parseCGPSMode t \<noteq> mode then Some StartFailed else None))
     (do { now \<leftarrow> observe (ge_now env);
           _ \<leftarrow> State_Monad.update (\<lambda>s. s\<lparr>gr_mode := mode, gr_lastData := now\<rparr>); finish })))))"
  let ?already = "do { _ \<leftarrow> State_Monad.update (\<lambda>s. s\<lparr>gr_mode := mode\<rparr>); finish }"
  let ?R = "\<lambda>r s. gr_mode s = m0 \<and> (\<forall>t. r = Inr t \<longrightarrow> answered env (gr_log s) ''AT+CGPS?'' ((=) t))"
  have switch: "triple (\<lambda>s. gr_mode s = m0) ?switch (mode_set env mode m0)"
    by (intro mode_stage verified_mode triples)
  have asked: "triple (\<lambda>s. gr_mode s = m0) (sendATCommand env ''AT+CGPS?'') ?R"
  proof -
    have "triple (\<lambda>s. starts_after (\<lambda>_. True) (gr_log s) \<and> True) (sendATCommand env ''AT+CGPS?'')
        (\<lambda>r s. starts_after (\<lambda>_. True) (gr_log s) \<and> True \<and> (\<forall>u. r = Inr u \<longrightarrow> answered env (gr_log s) ''AT+CGPS?'' ((=) u)))"
      by (rule sendATCommand_ordered [OF stable_True]) simp
    from triple_conj [OF send_mode [of m0] this] show ?thesis
      by (rule triple_weaken) (auto simp: starts_after_def)
  qed
  have body: "triple (?R r)
      (if (case r of Inl _ \<Rightarrow> False | Inr t \<Rightarrow> gpsRunning t \<and> parseCGPSMode t = mode) then ?already else ?switch)
      (mode_set env mode m0)" for r
  proof (rule triple_if)
    assume "case r of Inl _ \<Rightarrow> False | Inr t \<Rightarrow> gpsRunning t \<and> parseCGPSMode t = mode"
    then obtain t where t: "r = Inr t" "gpsRunning t \<and> parseCGPSMode t = mode" by (cases r) auto
    show "triple (?R r) ?already (mode_set env mode m0)"
      by (rule tripleI) (use t answered_eq in \<open>auto simp: finish_def mode_set_def State_Monad.update_def State_Monad.get_def State_Monad.set_def\<close>)
  next
    show "triple (?R r) ?switch (mode_set env mode m0)" by (rule triple_weaken [OF switch]) simp_all
  qed
  have "triple (\<lambda>s. gr_mode s = m0) (sendATCommand env ''AT+CGPS?'' \<bind> (\<lambda>r.
      if (case r of Inl _ \<Rightarrow> False | Inr t \<Rightarrow> gpsRunning t \<and> parseCGPSMode t = mode) then ?already else ?switch))
      (mode_set env mode m0)"
    by (rule triple_bind [OF asked body])
  then show ?thesis
    unfolding SetGPSMode_def triple_def by (auto simp: State_Monad.get_def)
qed

section \<open>Properties\<close>

text \<open>
   The receiver is started only when the hardware is ready for it. Each time the configuration
  sends the start command, before that in the same run the modem has answered that the receiver is
  stopped and that power mode 7 is in force, it has accepted the antenna voltage of the
  configuration and the antenna supply, and at least two seconds have passed since the stop command,
  whatever fails, is retried on a rebound path, or has to be polled.
\<close>

theorem started_only_when_ready:
  assumes "clock_ok env" and "gr_log s = []" and "run_state (configureReceiver cfg env) s = (e, s')"
    and "prefix (h @ [AT p ''AT+CGPS=1,1'']) (gr_log s')"
  shows "ready_to_start cfg env (ge_now env []) h"
  using configure_ordered [OF assms(1-3)] assms(4) unfolding starts_after_def start_command_def by blast

text \<open>
   The wait for the receiver to stop ends: whatever the modem answers, within 102 polls it sees
  the receiver stopped, fails, is cancelled, or passes the deadline of ten seconds.
\<close>

theorem stop_wait_ends:
  assumes "clock_ok env" and "t \<le> ge_now env (gr_log s)"
  shows "fst (run_state (waitForReceiverStopped stop_fuel env (time_Add t gpsStopConfirmationTimeout)) s) \<noteq> Some OutOfFuel"
proof -
  have "time_Add t gpsStopConfirmationTimeout - ge_now env (gr_log s) \<le> int 101 * gpsStopPollInterval"
    using assms(2) by (simp add: time_Add_def gpsStopConfirmationTimeout_def gpsStopPollInterval_def go_time)
  moreover obtain r s' where run: "run_state (waitForReceiverStopped (Suc 101) env (time_Add t gpsStopConfirmationTimeout)) s = (r, s')"
    by fastforce
  ultimately have "r \<noteq> Some OutOfFuel" by (rule tripleD [OF stop_bounded [OF assms(1)]])
  moreover have "stop_fuel = Suc 101" by (simp add: stop_fuel_def)
  ultimately show ?thesis using run by simp
qed

text \<open>
   A mode switch is trusted only on the modem's word. If \<open>SetGPSMode\<close> returns no error, the modem
  has answered in this run that the receiver is running in that mode, and this is the mode the
  service remembers; if it returns an error, the mode it remembers is the one from before.
\<close>

theorem mode_switch_verified:
  assumes "gr_ready s" and "run_state (SetGPSMode cfg env mode) s = (e, s')"
  shows "if e = None then gr_mode s' = mode
      \<and> answered env (gr_log s') ''AT+CGPS?'' (\<lambda>t. gpsRunning t \<and> parseCGPSMode t = mode)
    else gr_mode s' = gr_mode s"
  using tripleD [OF switch_mode [of "gr_mode s"] _ assms(2)] assms(1) by (simp add: mode_set_def)

text \<open>
   ModemManager never drives the receiver: the mask of location sources that is set up contains the
  cell source and none of the three GPS sources, keeps every other source, and is a fixed point.
\<close>

theorem location_mask_exact:
  "locationSourceMask m AND gps_sources = 0 \<and> locationSourceMask m AND LocationSource3gppLacCi = LocationSource3gppLacCi
   \<and> locationSourceMask m OR gps_sources = m OR gps_sources OR LocationSource3gppLacCi
   \<and> locationSourceMask (locationSourceMask m) = locationSourceMask m"
proof -
  have d: "LocationSource3gppLacCi AND gps_sources = 0"
    by (simp add: gps_sources_def LocationSource3gppLacCi_def LocationSourceGpsNmea_def LocationSourceGpsRaw_def LocationSourceGpsUnmanaged_def)
  have "bit (LocationSource3gppLacCi AND gps_sources) n = False" for n unfolding d by simp
  then have apart: "\<not> (bit LocationSource3gppLacCi n \<and> bit gps_sources n)" for n by (simp add: bit_and_iff)
  have "locationSourceMask m AND gps_sources = 0"
    using d by (simp add: locationSourceMask_def bit.conj_disj_distrib2 and.assoc)
  moreover have "locationSourceMask m OR gps_sources = m OR gps_sources OR LocationSource3gppLacCi"
    by (rule bit_word_eqI) (auto simp: locationSourceMask_def bit_simps)
  moreover have "locationSourceMask m AND LocationSource3gppLacCi = LocationSource3gppLacCi"
    by (rule bit_word_eqI) (auto simp: locationSourceMask_def bit_simps)
  moreover have "locationSourceMask (locationSourceMask m) = locationSourceMask m"
    by (rule bit_word_eqI) (use apart in \<open>auto simp: locationSourceMask_def bit_simps\<close>)
  ultimately show ?thesis by blast
qed

text \<open>A modem that answers the questions of the two operations in their order, with a clock that follows the waits.\<close>

definition good_modem :: gps_env where
  "good_modem = \<lparr>
     ge_at = (\<lambda>h p c. Inr
       (if length h < 3 then ''+CGPS: 0'' else if length h = 3 then ''+CGPSPMD: 7'' else ''+CGPS: 1,1'')),
     ge_bus = (\<lambda>_ _. None), ge_sources = (\<lambda>_. 0), ge_resolve = None,
     ge_now = (\<lambda>h. sum_list (map (\<lambda>x. case x of Sleep d \<Rightarrow> max 0 d | _ \<Rightarrow> 0) h)),
     ge_done = (\<lambda>_. False), ge_woken = (\<lambda>_. True)\<rparr>"

definition idle_receiver :: receiver where
  "idle_receiver = \<lparr>gr_path = ''/m'', gr_mode = ModeUEBased, gr_ready = True, gr_lastData = 0, gr_log = []\<rparr>"

lemma good_clock: "clock_ok good_modem"
  by (auto simp: clock_ok_def good_modem_def split: gps_call.split)

text \<open>Running it, step by step.\<close>

lemma good_send:
  "gr_path s \<noteq> '''' \<Longrightarrow> run_state (sendATCommand good_modem c) s =
     (Inr (if length (gr_log s) < 3 then ''+CGPS: 0'' else if length (gr_log s) = 3 then ''+CGPSPMD: 7'' else ''+CGPS: 1,1''),
      s\<lparr>gr_log := gr_log s @ [AT (gr_path s) c]\<rparr>)"
  by (simp add: sendATCommand_def ensureModemPath_def send_first_def send_def good_modem_def)

lemma good_stages:
  assumes "gr_path s \<noteq> ''''"
  shows "run_state (try_at good_modem c) s = (None, s\<lparr>gr_log := gr_log s @ [AT (gr_path s) c]\<rparr>)"
    "run_state (require_at good_modem c) s = (None, s\<lparr>gr_log := gr_log s @ [AT (gr_path s) c]\<rparr>)"
    "run_state (syncGPSClock good_modem) s = (None, s\<lparr>gr_log := gr_log s
        @ [AT (gr_path s) (''AT+CCLK='' @ quote (cclk_text (ge_now good_modem (gr_log s))))]\<rparr>)"
  using good_send [OF assms]
  by (simp_all add: try_at_def require_at_def syncGPSClock_def finish_def observe_def)

lemma good_answers:
  "parseCGPSResponse ''+CGPS: 0'' = (False, ModeStandalone, True)"
  "parseCGPSResponse ''+CGPS: 1,1'' = (True, ModeStandalone, True)"
  "parseSingleValueResponse ''+CGPSPMD: 7'' ''+CGPSPMD:'' = Some 7"
  by code_simp+

lemma run_orelse_stage:
  "run_state (orelse m n) s = (case run_state m s of (None, t) \<Rightarrow> run_state n t | (Some e, t) \<Rightarrow> (Some e, t))"
  by (simp add: orelse_def split: prod.split option.split)

text \<open>The configuration sends its start command as the sixteenth entry of the log.\<close>

lemma good_configure:
  "15 < length (gr_log (snd (run_state (configureReceiver cfg good_modem) idle_receiver)))
   \<and> gr_log (snd (run_state (configureReceiver cfg good_modem) idle_receiver)) ! 15 = AT ''/m'' ''AT+CGPS=1,1''"
proof -
  have fuel: "stop_fuel = Suc 101" by (simp add: stop_fuel_def)
  have stop: "waitForReceiverStopped stop_fuel env d = do {
      r \<leftarrow> sendATCommand env ''AT+CGPS?''; stop_answer env d (waitForReceiverStopped 101 env d) r }" for env d
    unfolding fuel waitForReceiverStopped.simps ..
  have env: "ge_now good_modem h = sum_list (map (\<lambda>x. case x of Sleep d \<Rightarrow> max 0 d | _ \<Rightarrow> 0) h)"
    "ge_done good_modem h = False" "ge_woken good_modem h = True" for h
    by (simp_all add: good_modem_def)
  show ?thesis
    by (simp add: configureReceiver_def configureGPSViaATCommands_def configureAntennaPower_def
        startStandaloneReceiver_def configureGPSPowerMode_def check_at_def stop stop_answer_def
        good_send good_stages good_answers run_orelse_stage run_waitUntil idle_receiver_def finish_def observe_def
        requiredGPSPowerMode_def gpsRestartMinimumInterval_def time_Sub_def min_int64_def max_int64_def go_time env
        State_Monad.update_def State_Monad.get_def State_Monad.set_def)
qed

lemma started_only_when_ready_witness:
  "\<exists>h. prefix (h @ [AT ''/m'' ''AT+CGPS=1,1'']) (gr_log (snd (run_state (configureReceiver (default_config '''') good_modem) idle_receiver)))
     \<and> ready_to_start (default_config '''') good_modem (ge_now good_modem []) h"
proof -
  obtain e s' where r: "run_state (configureReceiver (default_config '''') good_modem) idle_receiver = (e, s')" by fastforce
  from good_configure [of "default_config ''''"] have "15 < length (gr_log s')" "gr_log s' ! 15 = AT ''/m'' ''AT+CGPS=1,1''"
    unfolding r by simp_all
  then have "take 15 (gr_log s') @ [AT ''/m'' ''AT+CGPS=1,1''] = take 16 (gr_log s')"
    using take_Suc_conv_app_nth [of 15 "gr_log s'"] by simp
  then obtain h where h: "prefix (h @ [AT ''/m'' ''AT+CGPS=1,1'']) (gr_log s')" by (metis take_is_prefix)
  have "gr_log idle_receiver = []" by (simp add: idle_receiver_def)
  from started_only_when_ready [OF good_clock this r h] h r show ?thesis by auto
qed

lemma stop_wait_ends_witness:
  "fst (run_state (waitForReceiverStopped stop_fuel good_modem (time_Add 0 gpsStopConfirmationTimeout)) idle_receiver) \<noteq> Some OutOfFuel"
  by (rule stop_wait_ends [OF good_clock]) (simp add: good_modem_def idle_receiver_def)

lemma mode_switch_verified_witness:
  "gr_mode (snd (run_state (SetGPSMode (default_config '''') good_modem ModeStandalone) idle_receiver)) = ModeStandalone
   \<and> answered good_modem (gr_log (snd (run_state (SetGPSMode (default_config '''') good_modem ModeStandalone) idle_receiver)))
       ''AT+CGPS?'' (\<lambda>t. gpsRunning t \<and> parseCGPSMode t = ModeStandalone)"
proof -
  obtain e s' where r: "run_state (SetGPSMode (default_config '''') good_modem ModeStandalone) idle_receiver = (e, s')" by fastforce
  have "fst (run_state (SetGPSMode (default_config '''') good_modem ModeStandalone) idle_receiver) = None" by code_simp
  with mode_switch_verified [OF _ r] r show ?thesis by (simp add: idle_receiver_def)
qed

end
