(* ===== verification/Gps_Reports.thy ===== *)
theory Gps_Reports
  imports Gps_Time Complex_Main
begin

text \<open>
  From \<open>internal/location/location.go\<close>: what the reports of gpsd do to the position state (the SKY and
  TPV filters of \<open>connectToGPSD\<close>), \<open>Close\<close>, and the conditions under which a recovery of the fix is
  published. Readings of the clocks come with each event. A \<open>float64\<close> is a real number, an infinity or
  not a number; its rounding is not modelled, nor is the conversion to an integer out of range, which
  is the parameter \<open>conv\<close>.
\<close>

section \<open>Floating point\<close>

datatype float64 = Num real | Inf bool | NaN

definition f_zero :: float64 where "f_zero = Num 0"

fun f_add :: "float64 \<Rightarrow> float64 \<Rightarrow> float64" where
  "f_add (Num a) (Num b) = Num (a + b)"
| "f_add NaN _ = NaN"
| "f_add _ NaN = NaN"
| "f_add (Inf p) (Inf q) = (if p = q then Inf p else NaN)"
| "f_add (Inf p) (Num _) = Inf p"
| "f_add (Num _) (Inf q) = Inf q"

text \<open>Division by a positive count.\<close>

fun f_div :: "float64 \<Rightarrow> nat \<Rightarrow> float64" where
  "f_div (Num a) n = Num (a / real n)"
| "f_div x _ = x"

fun f_le :: "float64 \<Rightarrow> float64 \<Rightarrow> bool" where
  "f_le (Num a) (Num b) \<longleftrightarrow> a \<le> b"
| "f_le NaN _ \<longleftrightarrow> False"
| "f_le _ NaN \<longleftrightarrow> False"
| "f_le (Inf p) (Inf q) \<longleftrightarrow> p = q \<or> q"
| "f_le (Inf p) (Num _) \<longleftrightarrow> \<not> p"
| "f_le (Num _) (Inf q) \<longleftrightarrow> q"

fun f_less :: "float64 \<Rightarrow> float64 \<Rightarrow> bool" where
  "f_less (Num a) (Num b) \<longleftrightarrow> a < b"
| "f_less NaN _ \<longleftrightarrow> False"
| "f_less _ NaN \<longleftrightarrow> False"
| "f_less (Inf p) (Inf q) \<longleftrightarrow> \<not> p \<and> q"
| "f_less (Inf p) (Num _) \<longleftrightarrow> \<not> p"
| "f_less (Num _) (Inf q) \<longleftrightarrow> q"

fun f_abs :: "float64 \<Rightarrow> float64" where
  "f_abs (Num a) = Num \<bar>a\<bar>"
| "f_abs (Inf _) = Inf True"
| "f_abs NaN = NaN"

definition f_isNaN :: "float64 \<Rightarrow> bool" where "f_isNaN x \<longleftrightarrow> x = NaN"
definition f_isInf :: "float64 \<Rightarrow> bool" where "f_isInf x \<longleftrightarrow> x \<in> range Inf"

text \<open>\<open>int64(math.Ceil(x * float64(time.Second)))\<close>.\<close>

definition ceil_ns :: "(float64 \<Rightarrow> int) \<Rightarrow> float64 \<Rightarrow> int" where
  "ceil_ns conv x =
     (case x of
        Num r \<Rightarrow> let n = \<lceil>r * 1000000000\<rceil> in if min_int64 \<le> n \<and> n \<le> max_int64 then n else conv x
      | _ \<Rightarrow> conv x)"

section \<open>State\<close>

record Location =
  lo_Latitude :: float64
  lo_Longitude :: float64
  lo_Altitude :: float64
  lo_Speed :: float64
  lo_Course :: float64
  lo_Timestamp :: gotime
  lo_TimeFromGPS :: bool
  lo_ReceiptBootNS :: int
  lo_ReceiptMonoNS :: int
  lo_TimeUncertaintyNS :: int
  lo_GPSSession :: nat

definition zero_Location :: Location where
  "zero_Location = \<lparr>lo_Latitude = f_zero, lo_Longitude = f_zero, lo_Altitude = f_zero, lo_Speed = f_zero,
     lo_Course = f_zero, lo_Timestamp = zero_time, lo_TimeFromGPS = False, lo_ReceiptBootNS = 0,
     lo_ReceiptMonoNS = 0, lo_TimeUncertaintyNS = 0, lo_GPSSession = 0\<rparr>"

record gps_state =
  gs_hasValidFix :: bool
  gs_fixMode :: string
  gs_snr :: float64
  gs_hdop :: float64
  gs_vdop :: float64
  gs_pdop :: float64
  gs_eph :: float64
  gs_eps :: float64
  gs_ept :: float64
  gs_satsUsed :: nat
  gs_satsVisible :: nat
  gs_connected :: bool
  gs_state :: string
  gs_loc :: Location
  gs_session :: nat
  gs_lastFix :: gotime
  gs_lastData :: gotime
  gs_gpsFreshInit :: bool
  gs_GPSLostTime :: gotime

definition NewService_state :: gps_state where
  "NewService_state = \<lparr>gs_hasValidFix = False, gs_fixMode = ''none'', gs_snr = f_zero, gs_hdop = f_zero,
     gs_vdop = f_zero, gs_pdop = f_zero, gs_eph = f_zero, gs_eps = f_zero, gs_ept = f_zero, gs_satsUsed = 0,
     gs_satsVisible = 0, gs_connected = False, gs_state = ''off'', gs_loc = zero_Location, gs_session = 0,
     gs_lastFix = zero_time, gs_lastData = zero_time, gs_gpsFreshInit = True, gs_GPSLostTime = zero_time\<rparr>"

section \<open>SKY reports\<close>

record satellite =
  sa_Used :: bool
  sa_Ss :: float64

record SKYReport =
  sk_Hdop :: float64
  sk_Vdop :: float64
  sk_Pdop :: float64
  sk_Satellites :: "satellite list"

text \<open>Used satellites, the sum of their signal, and the same over those with a signal.\<close>

fun sum_satellites :: "satellite list \<Rightarrow> nat \<times> float64 \<times> float64 \<times> nat \<Rightarrow> nat \<times> float64 \<times> float64 \<times> nat" where
  "sum_satellites [] acc = acc"
| "sum_satellites (sat # sats) (used, usedSum, visSum, visCount) =
     sum_satellites sats
       ((if sa_Used sat then used + 1 else used),
        (if sa_Used sat then f_add usedSum (sa_Ss sat) else usedSum),
        (if f_less f_zero (sa_Ss sat) then f_add visSum (sa_Ss sat) else visSum),
        (if f_less f_zero (sa_Ss sat) then visCount + 1 else visCount))"

definition sky_filter :: "gotime \<Rightarrow> SKYReport \<Rightarrow> gps_state \<Rightarrow> gps_state" where
  "sky_filter now r s0 =
     (let s = s0\<lparr>gs_lastData := now, gs_hdop := sk_Hdop r, gs_vdop := sk_Vdop r, gs_pdop := sk_Pdop r\<rparr> in
      if length (sk_Satellites r) > 0 then
        (case sum_satellites (sk_Satellites r) (0, f_zero, f_zero, 0) of (used, usedSum, visSum, visCount) \<Rightarrow>
           s\<lparr>gs_satsUsed := used, gs_satsVisible := length (sk_Satellites r),
             gs_snr := (if used > 0 then f_div usedSum used
                        else if visCount > 0 then f_div visSum visCount else f_zero)\<rparr>)
      else s)"

section \<open>TPV reports\<close>

record TPVReport =
  tp_Mode :: int
  tp_Time :: gotime
  tp_Lat :: float64
  tp_Lon :: float64
  tp_Alt :: float64
  tp_Speed :: float64
  tp_Track :: float64
  tp_Eph :: float64
  tp_Eps :: float64
  tp_Ept :: float64

text \<open>The clocks when the report arrives; the boot and monotonic clocks may fail, and then read 0.\<close>

record receipt =
  re_boot :: "int option"
  re_mono :: "int option"
  re_now :: gotime

definition tpv_mode :: "TPVReport \<Rightarrow> gps_state \<Rightarrow> gps_state" where
  "tpv_mode r s =
     (if tp_Mode r = 1 then s\<lparr>gs_state := ''searching'', gs_fixMode := ''none''\<rparr>
      else if tp_Mode r = 2 then s\<lparr>gs_state := ''fix-established'', gs_fixMode := ''2d''\<rparr>
      else if tp_Mode r = 3 then s\<lparr>gs_state := ''fix-established'', gs_fixMode := ''3d''\<rparr>
      else s)"

definition non_zero :: "float64 \<Rightarrow> bool" where "non_zero x \<longleftrightarrow> x \<noteq> f_zero"

definition tpv_location :: "(float64 \<Rightarrow> int) \<Rightarrow> receipt \<Rightarrow> TPVReport \<Rightarrow> nat \<Rightarrow> Location \<Rightarrow> Location option" where
  "tpv_location conv rc r session prev =
     (case gpsTimestamp (tp_Time r) (re_now rc) of
        None \<Rightarrow> None
      | Some (gpsTime, fromGPS, corrected) \<Rightarrow> Some
          \<lparr>lo_Latitude = tp_Lat r, lo_Longitude = tp_Lon r,
           lo_Altitude = (if non_zero (tp_Alt r) then tp_Alt r else lo_Altitude prev),
           lo_Speed = (if non_zero (tp_Speed r) then tp_Speed r else lo_Speed prev),
           lo_Course = (if non_zero (tp_Track r) then tp_Track r else lo_Course prev),
           lo_Timestamp = gpsTime,
           lo_TimeFromGPS = (fromGPS \<and> re_boot rc \<noteq> None \<and> re_mono rc \<noteq> None \<and> \<not> f_isNaN (tp_Ept r)
             \<and> \<not> f_isInf (tp_Ept r) \<and> f_le f_zero (tp_Ept r) \<and> f_le (tp_Ept r) (Num 1)),
           lo_ReceiptBootNS = (case re_boot rc of Some b \<Rightarrow> b | None \<Rightarrow> 0),
           lo_ReceiptMonoNS = (case re_mono rc of Some m \<Rightarrow> m | None \<Rightarrow> 0),
           lo_TimeUncertaintyNS = wrap64 (gpsTransportAllowance + gpsTimestampQuantization + ceil_ns conv (tp_Ept r)),
           lo_GPSSession = session\<rparr>)"

text \<open>\<open>None\<close> is a report whose handling does not end.\<close>

definition tpv_filter :: "(float64 \<Rightarrow> int) \<Rightarrow> receipt \<Rightarrow> nat \<Rightarrow> TPVReport \<Rightarrow> gps_state \<Rightarrow> gps_state option" where
  "tpv_filter conv rc session r s0 =
     (let s1 = s0\<lparr>gs_lastData := re_now rc\<rparr> in
      if tp_Mode r = 0 then Some s1
      else let s2 = (tpv_mode r s1)\<lparr>gs_eph := tp_Eph r, gs_eps := tp_Eps r, gs_ept := tp_Ept r\<rparr> in
      if tp_Mode r = 1 then Some (s2\<lparr>gs_hasValidFix := False\<rparr>)
      else case tpv_location conv rc r session (gs_loc s2) of
        None \<Rightarrow> None
      | Some loc \<Rightarrow> Some (s2\<lparr>gs_loc := loc, gs_lastFix := re_now rc, gs_hasValidFix := True\<rparr>))"

section \<open>Sessions\<close>

text \<open>A dialled connection starts a new session; the filters carry the number of their own.\<close>

definition connected_gpsd :: "gps_state \<Rightarrow> gps_state" where
  "connected_gpsd s = s\<lparr>gs_session := gs_session s + 1, gs_connected := True\<rparr>"

definition gps_Close :: "gps_state \<Rightarrow> gps_state" where
  "gps_Close s = s\<lparr>gs_connected := False, gs_state := ''off'', gs_hasValidFix := False,
     gs_loc := (gs_loc s)\<lparr>lo_Timestamp := zero_time, lo_TimeFromGPS := False\<rparr>,
     gs_lastFix := zero_time, gs_lastData := zero_time\<rparr>"

definition ShouldPublishRecovery :: "gotime \<Rightarrow> bool \<Rightarrow> gps_state \<Rightarrow> bool" where
  "ShouldPublishRecovery now hasInternet s =
     (if \<not> hasInternet then False
      else if gs_gpsFreshInit s then True
      else if \<not> time_IsZero (gs_GPSLostTime s) then time_Sub now (gs_GPSLostTime s) > 5 * minute_ns
      else False)"

text \<open>The fields of the status, in the order of the code; numbers are left as they are.\<close>

datatype status_value = SText string | SFloat float64 | SCount nat | SBool bool

definition GetGPSStatus :: "gps_state \<Rightarrow> (string \<times> status_value) list" where
  "GetGPSStatus s =
     [(''fix'', SText (gs_fixMode s)), (''snr'', SFloat (gs_snr s)), (''hdop'', SFloat (gs_hdop s)),
      (''vdop'', SFloat (gs_vdop s)), (''pdop'', SFloat (gs_pdop s)), (''eph'', SFloat (gs_eph s)),
      (''eps'', SFloat (gs_eps s)), (''ept'', SFloat (gs_ept s)), (''satellites-used'', SCount (gs_satsUsed s)),
      (''satellites-visible'', SCount (gs_satsVisible s)), (''active'', SBool (gs_hasValidFix s)),
      (''connected'', SBool (gs_connected s)), (''state'', SText (gs_state s))]"

section \<open>The state machine\<close>

text \<open>gpsd reports the modes 0 to 3; a report may still arrive from an earlier session.\<close>

inductive gps_step :: "(float64 \<Rightarrow> int) \<Rightarrow> gps_state \<Rightarrow> gps_state \<Rightarrow> bool" for conv where
  Connect: "gps_step conv s (connected_gpsd s)"
| Sky: "gps_step conv s (sky_filter now r s)"
| Tpv: "session \<le> gs_session s \<Longrightarrow> 0 \<le> tp_Mode r \<Longrightarrow> tp_Mode r \<le> 3
    \<Longrightarrow> tpv_filter conv rc session r s = Some t \<Longrightarrow> gps_step conv s t"
| Close: "gps_step conv s (gps_Close s)"

inductive gps_reach :: "(float64 \<Rightarrow> int) \<Rightarrow> gps_state \<Rightarrow> bool" for conv where
  Start: "gps_reach conv NewService_state"
| Step: "gps_reach conv s \<Longrightarrow> gps_step conv s t \<Longrightarrow> gps_reach conv t"

section \<open>Lemmas\<close>

text \<open>A position whose time may be used: of the current GPS epoch, with an uncertainty of two to three seconds.\<close>

definition sound_time :: "Location \<Rightarrow> bool" where
  "sound_time l \<longleftrightarrow> MinValidGPSDate \<le> lo_Timestamp l
     \<and> 2 * second_ns \<le> lo_TimeUncertaintyNS l \<and> lo_TimeUncertaintyNS l \<le> 3 * second_ns"

lemma ceil_ns_unit:
  assumes "f_le f_zero x" and "f_le x (Num 1)"
  shows "0 \<le> ceil_ns conv x \<and> ceil_ns conv x \<le> 1000000000"
proof -
  from assms obtain r where r: "x = Num r" "0 \<le> r" "r \<le> 1" by (cases x) (auto simp: f_zero_def)
  have "0 \<le> \<lceil>r * 1000000000\<rceil>" "\<lceil>r * 1000000000\<rceil> \<le> 1000000000"
    using r by (simp_all add: ceiling_le_iff)
  with r show ?thesis by (simp add: ceil_ns_def Let_def min_int64_def max_int64_def)
qed

lemma tpv_location_sound:
  assumes "tpv_location conv rc r session prev = Some loc" and "lo_TimeFromGPS loc"
  shows "sound_time loc"
proof -
  obtain t f c where ts: "gpsTimestamp (tp_Time r) (re_now rc) = Some (t, f, c)"
    using assms(1) by (auto simp: tpv_location_def split: option.splits)
  with assms have f: "f" "f_le f_zero (tp_Ept r)" "f_le (tp_Ept r) (Num 1)" and loc: "lo_Timestamp loc = t"
    "lo_TimeUncertaintyNS loc = wrap64 (gpsTransportAllowance + gpsTimestampQuantization + ceil_ns conv (tp_Ept r))"
    by (auto simp: tpv_location_def)
  have "MinValidGPSDate \<le> t"
    using gpsTimestamp_from_gps [of "tp_Time r" "re_now rc" t c] ts f(1) by simp
  with loc ceil_ns_unit [OF f(2,3), of conv] show ?thesis
    by (simp add: sound_time_def gpsTransportAllowance_def gpsTimestampQuantization_def go_time wrap64_id
        min_int64_def max_int64_def)
qed

lemma tpv_returns: "\<exists>t. tpv_filter conv rc session r s = Some t"
  using gpsTimestamp_returns [of "tp_Time r" "re_now rc"]
  by (auto simp: tpv_filter_def tpv_location_def Let_def)

text \<open>What holds of every state that reports, reconnections and closing can lead to.\<close>

definition gps_sound :: "gps_state \<Rightarrow> bool" where
  "gps_sound s \<longleftrightarrow> (lo_TimeFromGPS (gs_loc s) \<longrightarrow> sound_time (gs_loc s))
     \<and> lo_GPSSession (gs_loc s) \<le> gs_session s
     \<and> (gs_hasValidFix s \<longrightarrow> gs_fixMode s \<in> {''2d'', ''3d''})
     \<and> gs_fixMode s \<in> {''none'', ''2d'', ''3d''}"

lemma tpv_location_session: "tpv_location conv rc r session prev = Some loc \<Longrightarrow> lo_GPSSession loc = session"
  by (auto simp: tpv_location_def split: option.splits)

lemma tpv_sound:
  assumes "gps_sound s" and "session \<le> gs_session s" and mode: "0 \<le> tp_Mode r" "tp_Mode r \<le> 3"
    and "tpv_filter conv rc session r s = Some t"
  shows "gps_sound t"
proof -
  from mode consider "tp_Mode r = 0" | "tp_Mode r = 1" | "tp_Mode r = 2 \<or> tp_Mode r = 3" by linarith
  then show ?thesis
  proof cases
    case 3
    with assms(5) obtain loc where loc: "tpv_location conv rc r session (gs_loc s) = Some loc"
      "gs_loc t = loc" "gs_session t = gs_session s" "gs_fixMode t \<in> {''2d'', ''3d''}"
      by (auto simp: tpv_filter_def tpv_mode_def Let_def split: option.splits)
    with tpv_location_session [OF loc(1)] tpv_location_sound [OF loc(1)] assms(1,2) show ?thesis
      by (auto simp: gps_sound_def)
  qed (use assms in \<open>auto simp: gps_sound_def tpv_filter_def tpv_mode_def Let_def\<close>)
qed

lemma gps_step_sound:
  assumes "gps_step conv s t" and "gps_sound s"
  shows "gps_sound t"
  using assms
proof (cases rule: gps_step.cases)
  case (Sky now r)
  then show ?thesis using assms(2) by (auto simp: gps_sound_def sky_filter_def Let_def split: prod.splits)
next
  case (Tpv session r rc)
  then show ?thesis using tpv_sound [OF assms(2)] by blast
qed (auto simp: gps_sound_def connected_gpsd_def gps_Close_def)

lemma gps_reach_sound: "gps_reach conv s \<Longrightarrow> gps_sound s"
proof (induction rule: gps_reach.induct)
  case Start
  then show ?case by (simp add: gps_sound_def NewService_state_def zero_Location_def)
next
  case (Step s t)
  then show ?case using gps_step_sound by blast
qed

end
