(* ===== verification/Gps_Clock.thy ===== *)
theory Gps_Clock
  imports Gps_Reports
begin

text \<open>
  \<open>internal/service/clock_coordinator.go\<close> and \<open>validateClock\<close> of \<open>service.go\<close>: which positions of the
  receiver are submitted to the clock coordinator. Its answers, the boot id and the clocks are
  parameters; a nanosecond count is a signed 64-bit integer whose subtractions wrap.
\<close>

section \<open>Quality and answers\<close>

record clockQuality =
  cq_BootID :: string
  cq_Generation :: nat
  cq_Source :: string
  cq_External :: bool
  cq_AgeNS :: int
  cq_Residual :: float64
  cq_Uncertainty :: float64
  cq_Outcome :: string
  cq_Preparing :: bool

text \<open>
  What is decoded from the coordinator: whether all nine fields are there, the verdict and the
  quality; \<open>started\<close> and \<open>finished\<close> are the boot clock around the exchange.
\<close>

record coordinator_answer =
  ca_complete :: bool
  ca_OK :: bool
  ca_Quality :: clockQuality

datatype clock_err = NoAnswer | Incomplete | StaleResponse | Rejected

definition clock_response :: "int \<Rightarrow> int \<Rightarrow> coordinator_answer option \<Rightarrow> clock_err + clockQuality" where
  "clock_response started finished answer =
     (case answer of None \<Rightarrow> Inl NoAnswer
      | Some a \<Rightarrow>
          if \<not> ca_complete a then Inl Incomplete
          else let elapsed = wrap64 (finished - started); q = ca_Quality a in
            if elapsed < 0 \<or> elapsed > 30 * second_ns \<or> cq_AgeNS q < 0 \<or> cq_AgeNS q > wrap64 (30 * second_ns - elapsed)
            then Inl StaleResponse
            else let q' = q\<lparr>cq_AgeNS := wrap64 (cq_AgeNS q + elapsed)\<rparr> in
              if \<not> ca_OK a then Inl Rejected else Inr q')"

definition gpsClockConfirmed :: "clockQuality \<Rightarrow> bool" where
  "gpsClockConfirmed q \<longleftrightarrow> \<not> cq_Preparing q \<and> cq_Source q = ''gps'' \<and> cq_External q
     \<and> cq_AgeNS q \<ge> 0 \<and> cq_AgeNS q \<le> 30 * second_ns
     \<and> cq_Outcome q \<noteq> ''unknown'' \<and> cq_Outcome q \<noteq> ''in-flight'' \<and> cq_Outcome q \<noteq> ''''
     \<and> \<not> f_isNaN (cq_Residual q) \<and> \<not> f_isNaN (cq_Uncertainty q)
     \<and> f_le f_zero (cq_Uncertainty q)
     \<and> f_le (f_add (f_abs (cq_Residual q)) (cq_Uncertainty q)) (Num 5)"

section \<open>Which positions count\<close>

definition gpsClockTime :: "Location \<Rightarrow> gotime option" where
  "gpsClockTime loc =
     (if \<not> lo_TimeFromGPS loc \<or> time_IsZero (lo_Timestamp loc) \<or> time_Before (lo_Timestamp loc) MinValidGPSDate
      then None else Some (lo_Timestamp loc))"

definition duration_Abs :: "duration \<Rightarrow> duration" where
  "duration_Abs d = (if 0 \<le> d then d else if d = min_int64 then max_int64 else - d)"

definition gpsProgresses :: "Location \<Rightarrow> Location \<Rightarrow> bool" where
  "gpsProgresses a b \<longleftrightarrow>
     (if \<not> lo_TimeFromGPS a \<or> lo_GPSSession a = 0 \<or> lo_GPSSession a \<noteq> lo_GPSSession b
        \<or> lo_ReceiptBootNS a \<le> 0 \<or> lo_ReceiptBootNS b \<le> lo_ReceiptBootNS a \<or> lo_ReceiptMonoNS b \<le> lo_ReceiptMonoNS a
      then False
      else let elapsed = wrap64 (lo_ReceiptBootNS b - lo_ReceiptBootNS a);
               active = wrap64 (lo_ReceiptMonoNS b - lo_ReceiptMonoNS a);
               delta = time_Sub (lo_Timestamp b) (lo_Timestamp a) in
        elapsed \<ge> 500 * millisecond_ns \<and> elapsed \<le> 5 * second_ns
        \<and> wrap64 (elapsed - active) < 500 * millisecond_ns \<and> delta > 0
        \<and> duration_Abs (wrap64 (delta - elapsed)) \<le> 750 * millisecond_ns)"

definition gpsReceiptFresh :: "Location \<Rightarrow> int \<Rightarrow> int \<Rightarrow> bool" where
  "gpsReceiptFresh loc nowBoot nowMono \<longleftrightarrow>
     (let bootAge = wrap64 (nowBoot - lo_ReceiptBootNS loc); monoAge = wrap64 (nowMono - lo_ReceiptMonoNS loc) in
      lo_ReceiptBootNS loc > 0 \<and> lo_ReceiptMonoNS loc > 0 \<and> bootAge \<ge> 0 \<and> monoAge \<ge> 0
      \<and> bootAge \<le> 2 * second_ns \<and> wrap64 (bootAge - monoAge) \<le> 500 * millisecond_ns)"

section \<open>Submitting\<close>

record submission =
  su_boot_id :: string
  su_generation :: nat
  su_utc_unix_ns :: int
  su_receipt_boot_ns :: int
  su_deadline_boot_ns :: int
  su_uncertainty_ns :: int

text \<open>
  One call: the clocks, the status request to the coordinator and the boot id of the kernel. \<open>ce_sync_due\<close> is that
  30 s have passed since the last confirmation was published, \<open>ce_published\<close> that publishing works.
\<close>

record clock_env =
  ce_boot :: "int option"
  ce_mono :: "int option"
  ce_started :: int
  ce_finished :: int
  ce_answer :: "coordinator_answer option"
  ce_boot_id :: "string option"
  ce_sync_due :: bool
  ce_published :: bool

datatype clock_action = PublishSync | Submit submission

definition submitGPSClock :: "clock_env \<Rightarrow> Location \<Rightarrow> clock_action list" where
  "submitGPSClock env loc =
     (case ce_boot env of None \<Rightarrow> [] | Some nowBoot \<Rightarrow>
      case ce_mono env of None \<Rightarrow> [] | Some nowMono \<Rightarrow>
      if \<not> gpsReceiptFresh loc nowBoot nowMono then []
      else case clock_response (ce_started env) (ce_finished env) (ce_answer env) of Inl _ \<Rightarrow> [] | Inr q \<Rightarrow>
      case ce_boot_id env of None \<Rightarrow> [] | Some boot \<Rightarrow>
      if cq_BootID q \<noteq> TrimSpace boot \<or> cq_BootID q = '''' \<or> cq_Generation q = 0 then []
      else (if gpsClockConfirmed q \<and> ce_sync_due env then [PublishSync] else [])
        @ [Submit \<lparr>su_boot_id = cq_BootID q, su_generation = cq_Generation q, su_utc_unix_ns = lo_Timestamp loc,
             su_receipt_boot_ns = lo_ReceiptBootNS loc,
             su_deadline_boot_ns = wrap64 (lo_ReceiptBootNS loc + 2 * second_ns),
             su_uncertainty_ns = lo_TimeUncertaintyNS loc\<rparr>])"

text \<open>The position remembered from the last call, and the actions.\<close>

definition validateClock :: "clock_env \<Rightarrow> Location \<Rightarrow> Location \<Rightarrow> Location \<times> clock_action list" where
  "validateClock env loc previous =
     (if gpsClockTime loc = None then (zero_Location, [])
      else if lo_ReceiptBootNS loc = lo_ReceiptBootNS previous then (previous, [])
      else if \<not> gpsProgresses previous loc then (loc, [])
      else (loc, submitGPSClock env loc))"

text \<open>A run of the monitor: the positions it finds, and what was submitted for which.\<close>

fun clock_run :: "(clock_env \<times> Location) list \<Rightarrow> Location \<Rightarrow> (Location \<times> Location \<times> submission) list" where
  "clock_run [] previous = []"
| "clock_run ((env, loc) # rest) previous =
     (case validateClock env loc previous of (next, acts) \<Rightarrow>
        concat (map (\<lambda>a. case a of Submit su \<Rightarrow> [(previous, loc, su)] | PublishSync \<Rightarrow> []) acts) @ clock_run rest next)"

section \<open>Lemmas\<close>

lemma wrap64_diff:
  assumes "0 \<le> a" "a \<le> max_int64" "0 \<le> b" "b \<le> max_int64"
  shows "wrap64 (a - b) = a - b"
  using assms by (intro wrap64_id) (simp_all add: min_int64_def max_int64_def)

text \<open>Two readings that are far apart neither in receiver time nor on the boot clock.\<close>

definition agree :: "Location \<Rightarrow> Location \<Rightarrow> bool" where
  "agree a b \<longleftrightarrow> lo_GPSSession a = lo_GPSSession b \<and> lo_GPSSession b \<noteq> 0
     \<and> lo_ReceiptBootNS a < lo_ReceiptBootNS b \<and> lo_ReceiptBootNS b - lo_ReceiptBootNS a \<le> 5 * second_ns
     \<and> lo_Timestamp a < lo_Timestamp b
     \<and> \<bar>(lo_Timestamp b - lo_Timestamp a) - (lo_ReceiptBootNS b - lo_ReceiptBootNS a)\<bar> \<le> 750 * millisecond_ns"

text \<open>The clocks of the kernel: not negative, and within 64 bits.\<close>

definition kernel_clock :: "Location \<Rightarrow> bool" where
  "kernel_clock l \<longleftrightarrow> 0 \<le> lo_ReceiptBootNS l \<and> lo_ReceiptBootNS l \<le> max_int64
     \<and> 0 \<le> lo_ReceiptMonoNS l \<and> lo_ReceiptMonoNS l \<le> max_int64"

lemma progress_agrees:
  assumes "gpsProgresses a b" and "kernel_clock a" and "kernel_clock b"
  shows "agree a b"
proof -
  let ?e = "lo_ReceiptBootNS b - lo_ReceiptBootNS a" and ?d = "time_Sub (lo_Timestamp b) (lo_Timestamp a)"
  have e: "wrap64 ?e = ?e" using assms(2,3) by (simp add: kernel_clock_def wrap64_diff)
  have facts: "lo_GPSSession a = lo_GPSSession b" "lo_GPSSession b \<noteq> 0" "lo_ReceiptBootNS a < lo_ReceiptBootNS b"
    "?e \<le> 5 * second_ns" "0 < ?d" "duration_Abs (wrap64 (?d - ?e)) \<le> 750 * millisecond_ns"
    using assms(1) by (auto simp: gpsProgresses_def Let_def e split: if_splits)
  have "?d \<le> max_int64" by (simp add: time_Sub_def min_int64_def max_int64_def)
  with facts(3-5) have "wrap64 (?d - ?e) = ?d - ?e"
    by (intro wrap64_id) (simp_all add: min_int64_def max_int64_def go_time)
  with facts(6) have close: "\<bar>?d - ?e\<bar> \<le> 750 * millisecond_ns"
    by (simp add: duration_Abs_def min_int64_def max_int64_def go_time split: if_splits)
  with facts(4) have "?d < max_int64" by (simp add: max_int64_def go_time)
  with facts(5) have "?d = lo_Timestamp b - lo_Timestamp a" by (simp add: time_Sub_def min_int64_def max_int64_def)
  with facts close show ?thesis by (simp add: agree_def)
qed

lemma submit_facts:
  assumes "Submit su \<in> set (submitGPSClock env loc)"
  shows "\<exists>nowBoot nowMono q boot. ce_boot env = Some nowBoot \<and> ce_mono env = Some nowMono
    \<and> gpsReceiptFresh loc nowBoot nowMono \<and> clock_response (ce_started env) (ce_finished env) (ce_answer env) = Inr q \<and> ce_boot_id env = Some boot
    \<and> cq_BootID q = TrimSpace boot \<and> cq_BootID q \<noteq> '''' \<and> su_boot_id su = cq_BootID q
    \<and> su_utc_unix_ns su = lo_Timestamp loc \<and> su_uncertainty_ns su = lo_TimeUncertaintyNS loc
    \<and> su_receipt_boot_ns su = lo_ReceiptBootNS loc"
proof -
  from assms obtain nowBoot nowMono q boot where
    "ce_boot env = Some nowBoot" "ce_mono env = Some nowMono"
    "clock_response (ce_started env) (ce_finished env) (ce_answer env) = Inr q" "ce_boot_id env = Some boot"
    by (cases "ce_boot env"; cases "ce_mono env"; cases "ce_boot_id env";
        cases "clock_response (ce_started env) (ce_finished env) (ce_answer env)")
      (auto simp: submitGPSClock_def split: if_splits)
  with assms show ?thesis by (auto simp: submitGPSClock_def split: if_splits)
qed

lemma clock_run_submits:
  assumes "(prev, loc, su) \<in> set (clock_run steps previous)"
  shows "\<exists>env. (env, loc) \<in> set steps \<and> Submit su \<in> set (submitGPSClock env loc)
    \<and> gpsClockTime loc \<noteq> None \<and> gpsProgresses prev loc
    \<and> (prev = previous \<or> prev = zero_Location \<or> prev \<in> snd ` set steps)"
  using assms
proof (induction steps arbitrary: previous)
  case (Cons step rest)
  obtain env l where step: "step = (env, l)" by fastforce
  obtain next_loc acts where v: "validateClock env l previous = (next_loc, acts)" by fastforce
  have next_loc: "next_loc = previous \<or> next_loc = zero_Location \<or> next_loc = l"
    using v by (auto simp: validateClock_def split: if_splits)
  from Cons.prems step v consider
      (here) "prev = previous" "loc = l" "Submit su \<in> set acts"
    | (later) "(prev, loc, su) \<in> set (clock_run rest next_loc)"
    by (auto split: clock_action.splits)
  then show ?case
  proof cases
    case here
    with v step show ?thesis by (auto simp: validateClock_def split: if_splits)
  next
    case later
    from Cons.IH [OF later] next_loc step show ?thesis by auto
  qed
qed simp

section \<open>Properties\<close>


text \<open>
   An accepted answer is recent: the age that the service works with, the coordinator's plus the
  time the exchange took, is not negative and at most thirty seconds, so no wrap-around makes an old
  answer look fresh.
\<close>

theorem accepted_age_bounded:
  assumes "clock_response started finished answer = Inr q" and "0 \<le> started" and "started \<le> max_int64"
    and "0 \<le> finished" and "finished \<le> max_int64"
  shows "0 \<le> cq_AgeNS q \<and> cq_AgeNS q \<le> 30 * second_ns"
proof -
  from assms(1) obtain a where a: "answer = Some a" by (cases answer) (auto simp: clock_response_def)
  let ?e = "finished - started"
  have e: "wrap64 ?e = ?e" using assms(2-5) by (simp add: wrap64_diff)
  from assms(1) a have r: "0 \<le> ?e" "?e \<le> 30 * second_ns" "0 \<le> cq_AgeNS (ca_Quality a)"
    "cq_AgeNS (ca_Quality a) \<le> wrap64 (30 * second_ns - ?e)"
    "q = (ca_Quality a)\<lparr>cq_AgeNS := wrap64 (cq_AgeNS (ca_Quality a) + ?e)\<rparr>"
    by (auto simp: clock_response_def Let_def e split: if_splits)
  have "wrap64 (30 * second_ns - ?e) = 30 * second_ns - ?e"
    using r(1,2) by (intro wrap64_id) (simp_all add: min_int64_def max_int64_def go_time)
  with r have "0 \<le> cq_AgeNS (ca_Quality a) + ?e" "cq_AgeNS (ca_Quality a) + ?e \<le> 30 * second_ns" by simp_all
  moreover from this have "wrap64 (cq_AgeNS (ca_Quality a) + ?e) = cq_AgeNS (ca_Quality a) + ?e"
    by (intro wrap64_id) (simp_all add: min_int64_def max_int64_def go_time)
  ultimately show ?thesis using r(5) by simp
qed

text \<open>A receiver that reports a fix each second.\<close>

definition sample_report :: "gotime \<Rightarrow> TPVReport" where
  "sample_report t = \<lparr>tp_Mode = 3, tp_Time = t, tp_Lat = f_zero, tp_Lon = f_zero, tp_Alt = f_zero,
     tp_Speed = f_zero, tp_Track = f_zero, tp_Eph = f_zero, tp_Eps = f_zero, tp_Ept = f_zero\<rparr>"

definition sample_loc :: "gotime \<Rightarrow> int \<Rightarrow> Location" where
  "sample_loc t b = zero_Location\<lparr>lo_Timestamp := t, lo_TimeFromGPS := True, lo_ReceiptBootNS := b,
     lo_ReceiptMonoNS := b, lo_TimeUncertaintyNS := 2 * second_ns, lo_GPSSession := 1\<rparr>"

lemma sample_fix:
  assumes "MinValidGPSDate \<le> t"
  shows "\<exists>s. gps_reach conv s \<and> sample_loc t b = gs_loc s"
proof -
  let ?s = "connected_gpsd NewService_state" and ?rc = "\<lparr>re_boot = Some b, re_mono = Some b, re_now = 0\<rparr>"
  have "gps_reach conv ?s" by (intro gps_reach.Step [OF gps_reach.Start] gps_step.Connect)
  moreover obtain u where u: "tpv_filter conv ?rc 1 (sample_report t) ?s = Some u" using tpv_returns by blast
  moreover have "gps_step conv ?s u"
    by (rule gps_step.Tpv [OF _ _ _ u]) (simp_all add: sample_report_def connected_gpsd_def)
  ultimately have "gps_reach conv u" by (blast intro: gps_reach.Step)
  have nz: "\<not> time_IsZero t" using assms by (auto simp: time_IsZero_def MinValidGPSDate_def zero_time_def go_time)
  have "gpsTimestamp t 0 = Some (t, True, False)"
    using assms nz
    by (simp add: gpsTimestamp_def correctGPSWeekRollover_def advance_epochs.simps [of t] time_Before_def)
  with u have "gs_loc u = sample_loc t b"
    by (auto simp: tpv_filter_def tpv_location_def sample_report_def tpv_mode_def connected_gpsd_def Let_def
        NewService_state_def sample_loc_def zero_Location_def f_isNaN_def f_isInf_def f_zero_def ceil_ns_def
        non_zero_def gpsTransportAllowance_def gpsTimestampQuantization_def wrap64_def go_time
        min_int64_def max_int64_def)
  with \<open>gps_reach conv u\<close> show ?thesis by metis
qed

definition sample_clock_env :: "int \<Rightarrow> clock_env" where
  "sample_clock_env now = \<lparr>ce_boot = Some now, ce_mono = Some now, ce_started = now, ce_finished = now,
     ce_answer = Some \<lparr>ca_complete = True, ca_OK = True, ca_Quality = \<lparr>cq_BootID = ''b00t'', cq_Generation = 1,
       cq_Source = ''rtc'', cq_External = False, cq_AgeNS = 0, cq_Residual = f_zero, cq_Uncertainty = f_zero,
       cq_Outcome = ''ok'', cq_Preparing = False\<rparr>\<rparr>,
     ce_boot_id = Some ''b00t'', ce_sync_due = False, ce_published = True\<rparr>"

definition sample_steps :: "(clock_env \<times> Location) list" where
  "sample_steps =
     [(sample_clock_env (100 * second_ns), sample_loc (MinValidGPSDate + 10 * second_ns) (100 * second_ns)),
      (sample_clock_env (101 * second_ns), sample_loc (MinValidGPSDate + 11 * second_ns) (101 * second_ns))]"

lemma accepted_age_bounded_witness:
  "0 \<le> cq_AgeNS ((ca_Quality (the (ce_answer (sample_clock_env 5))))\<lparr>cq_AgeNS := 3\<rparr>)
   \<and> cq_AgeNS ((ca_Quality (the (ce_answer (sample_clock_env 5))))\<lparr>cq_AgeNS := 3\<rparr>) \<le> 30 * second_ns"
proof (rule accepted_age_bounded)
  show "clock_response 5 8 (ce_answer (sample_clock_env 5))
      = Inr ((ca_Quality (the (ce_answer (sample_clock_env 5))))\<lparr>cq_AgeNS := 3\<rparr>)" by code_simp
qed (simp_all add: max_int64_def)



text \<open>
  C28. The GPS state is well formed whatever gpsd reports, in whatever order, over reconnections and closing:
  the fix mode is one of the three texts, a valid fix has a mode with a position, no position is from a
  later session than the current one, and a time that claims to come from GPS is of the current epoch with an
  uncertainty of two to three seconds.
\<close>

theorem gps_state_well_formed:
  assumes "gps_reach conv s"
  shows "gps_sound s"
  by (rule gps_reach_sound [OF assms])

lemma gps_state_well_formed_witness:
  "\<exists>s. gps_reach (\<lambda>_. 0) s \<and> gs_loc s = sample_loc (MinValidGPSDate + 10 * second_ns) 7 \<and> gps_sound s"
proof -
  obtain s where s: "gps_reach (\<lambda>_. 0) s" "gs_loc s = sample_loc (MinValidGPSDate + 10 * second_ns) 7"
    using sample_fix [of "MinValidGPSDate + 10 * second_ns" "\<lambda>_. 0" 7] by (force simp: go_time)
  from gps_state_well_formed [OF s(1)] s show ?thesis by blast
qed

end
