(* ===== verification/Publish.thy ===== *)
theory Publish
  imports Modem Classifier Usage
begin

text \<open>
  What other services see of the modem: \<open>publishModemState\<close>, \<open>publishIfChanged\<close>, \<open>publishDataUsage\<close> and
  \<open>publishGPSModeValue\<close> of \<open>internal/service/service.go\<close> with the writes of \<open>internal/redis/redis.go\<close> they
  end in. Each compares what is to be shown with what was last shown and writes only a difference;
  that shape is a gate, its contract is the locale \<open>change_gates\<close>, and the four are interpretations.

  The server is the parameter \<open>pub_env\<close>: a write is stored, or refused, or stored without the answer
  arriving, depending on all the writes before it.
\<close>

section \<open>Redis\<close>

type_synonym fields = "(string \<times> string) list"

datatype answer = Stored_ok | Refused | Unconfirmed

record pub_env =
  pe_answer :: "(string \<times> fields) list \<Rightarrow> answer"
  pe_now :: "(string \<times> fields) list \<Rightarrow> string"

record broker =
  br_hash :: "string \<Rightarrow> string \<Rightarrow> string option"
  br_writes :: "(string \<times> fields) list"

definition hash_set :: "pub_env \<Rightarrow> string \<Rightarrow> fields \<Rightarrow> broker \<Rightarrow> bool \<times> broker" where
  "hash_set env h fs b =
     (let a = pe_answer env (br_writes b) in
      (a = Stored_ok,
       b\<lparr>br_hash := (if a = Refused then br_hash b else (br_hash b)(h := br_hash b h ++ map_of (rev fs))),
         br_writes := br_writes b @ [(h, fs)]\<rparr>))"

definition PublishInternetState :: "pub_env \<Rightarrow> string \<Rightarrow> string \<Rightarrow> broker \<Rightarrow> bool \<times> broker" where
  "PublishInternetState env field v = hash_set env ''internet'' [(field, v)]"

definition PublishModemState :: "pub_env \<Rightarrow> string \<Rightarrow> string \<Rightarrow> broker \<Rightarrow> bool \<times> broker" where
  "PublishModemState env field v = hash_set env ''modem'' [(field, v)]"

definition PublishGPSMode :: "pub_env \<Rightarrow> string \<Rightarrow> broker \<Rightarrow> bool \<times> broker" where
  "PublishGPSMode env mode b =
     hash_set env ''gps'' [(''mode'', mode), (''updated'', pe_now env (br_writes b))] b"

definition PublishDataUsage :: "pub_env \<Rightarrow> fields \<Rightarrow> broker \<Rightarrow> bool \<times> broker" where
  "PublishDataUsage env data b =
     hash_set env ''internet-usage'' (data @ [(''updated'', pe_now env (br_writes b))]) b"

section \<open>Gates\<close>

text \<open>
  \<open>ga_same\<close> is the comparison that skips the write, \<open>ga_send\<close> the write, \<open>ga_save\<close> what is remembered of it.
  \<open>ga_shown\<close> is what the memory says the server holds; it is used in statements only.
\<close>

record 's gate =
  ga_hash :: string
  ga_fields :: fields
  ga_same :: "'s \<Rightarrow> bool"
  ga_send :: "pub_env \<Rightarrow> broker \<Rightarrow> bool \<times> broker"
  ga_save :: "'s \<Rightarrow> 's"
  ga_shown :: "'s \<Rightarrow> fields option"

fun run_gates :: "pub_env \<Rightarrow> 's gate list \<Rightarrow> 's \<times> broker \<Rightarrow> bool \<times> 's \<times> broker" where
  "run_gates env [] sb = (True, sb)"
| "run_gates env (g # gs) sb =
     (if ga_same g (fst sb) then run_gates env gs sb
      else case ga_send g env (snd sb) of
        (ok, b) \<Rightarrow> if ok then run_gates env gs (ga_save g (fst sb), b) else (False, fst sb, b))"

definition field_gate ::
  "string \<Rightarrow> string \<Rightarrow> ('s \<Rightarrow> 'v) \<Rightarrow> (('v \<Rightarrow> 'v) \<Rightarrow> 's \<Rightarrow> 's) \<Rightarrow> ('v \<Rightarrow> string) \<Rightarrow> 'v \<Rightarrow> 's gate" where
  "field_gate h field get upd fmt v =
     \<lparr>ga_hash = h, ga_fields = [(field, fmt v)], ga_same = (\<lambda>s. get s = v),
      ga_send = (\<lambda>env. hash_set env h [(field, fmt v)]), ga_save = upd (\<lambda>_. v),
      ga_shown = (\<lambda>s. Some [(field, fmt (get s))])\<rparr>"

section \<open>publishModemState\<close>

abbreviation internet_gate where "internet_gate \<equiv> field_gate ''internet''"
abbreviation modem_gate where "modem_gate \<equiv> field_gate ''modem''"

definition plain :: "string \<Rightarrow> string" where "plain s = s"
definition bool_str :: "bool \<Rightarrow> string" where "bool_str b = (if b then ''true'' else ''false'')"
definition uint8_str :: "8 word \<Rightarrow> string" where "uint8_str w = dec_str (unat w)"

definition modem_gates :: "string \<times> State \<Rightarrow> State gate list" where
  "modem_gates r = (let internetStatus = fst r; cur = snd r in
    [internet_gate ''status'' stStatus stStatus_update plain internetStatus,
     internet_gate ''modem-state'' stLastRawModemStatus stLastRawModemStatus_update plain (stStatus cur),
     internet_gate ''ip-address'' stIfIPAddr stIfIPAddr_update plain (stIfIPAddr cur),
     internet_gate ''access-tech'' stAccessTech stAccessTech_update plain (stAccessTech cur),
     internet_gate ''signal-quality'' stSignalQuality stSignalQuality_update uint8_str (stSignalQuality cur),
     internet_gate ''sim-imei'' stIMEI stIMEI_update plain (stIMEI cur),
     internet_gate ''sim-imsi'' stIMSI stIMSI_update plain (stIMSI cur),
     internet_gate ''sim-iccid'' stICCID stICCID_update plain (stICCID cur),
     modem_gate ''power-state'' stPowerState stPowerState_update plain (stPowerState cur),
     modem_gate ''sim-state'' stSIMState stSIMState_update plain (stSIMState cur),
     modem_gate ''sim-lock'' stSIMLockStatus stSIMLockStatus_update plain (stSIMLockStatus cur),
     modem_gate ''pin-action'' stPinAction stPinAction_update plain (stPinAction cur),
     modem_gate ''apn-action'' stApnAction stApnAction_update plain (stApnAction cur),
     modem_gate ''operator-name'' stOperatorName stOperatorName_update plain (stOperatorName cur),
     modem_gate ''operator-code'' stOperatorCode stOperatorCode_update plain (stOperatorCode cur),
     modem_gate ''is-roaming'' stIsRoaming stIsRoaming_update bool_str (stIsRoaming cur),
     modem_gate ''registration'' stRegistration stRegistration_update plain (stRegistration cur),
     modem_gate ''registration-fail'' stRegistrationFail stRegistrationFail_update plain (stRegistrationFail cur),
     modem_gate ''error-state'' stErrorState stErrorState_update plain (stErrorState cur)])"

definition conn_str :: "conn_state \<Rightarrow> string" where
  "conn_str c = (case c of Unknown \<Rightarrow> '''' | Connected \<Rightarrow> ''connected'' | Disconnected \<Rightarrow> ''disconnected''
     | Disabled \<Rightarrow> ''disabled'' | NoSIM \<Rightarrow> ''no-sim'' | Denied \<Rightarrow> ''denied'' | Failed \<Rightarrow> ''failed'')"

record publisher =
  pb_last :: State
  pb_conn :: conn_state
  pb_classifier :: classifier
  pb_broker :: broker
  pb_mode_requests :: "conn_state list"

text \<open>
  The arguments after the server's answers: the clock, whether the modem is enabled, whether its health
  is terminal. The value says that no write failed.
\<close>

definition publishModemState ::
  "pub_env \<Rightarrow> gotime \<Rightarrow> bool \<Rightarrow> bool \<Rightarrow> State \<Rightarrow> string \<Rightarrow> publisher \<Rightarrow> bool \<times> publisher" where
  "publishModemState env now enabled hardFailed cur internetStatus p =
     (case run_gates env (modem_gates (internetStatus, cur)) (pb_last p, pb_broker p) of
        (ok, lst, b) \<Rightarrow>
          let p = p\<lparr>pb_last := lst, pb_broker := b\<rparr> in
          if \<not> ok then (False, p) else
          (case Classify now \<lparr>inModemStatus = stStatus cur, inSIMState = stSIMState cur,
               inRegistration = stRegistration cur, inEnabled = enabled, inHardFailed = hardFailed\<rparr>
               (pb_classifier p) of
             (conn, cl) \<Rightarrow>
               let p = p\<lparr>pb_classifier := cl\<rparr> in
               if conn = pb_conn p then (True, p) else
               (case PublishInternetState env ''connectivity'' (conn_str conn) b of
                  (ok, b) \<Rightarrow>
                    if \<not> ok then (False, p\<lparr>pb_broker := b\<rparr>)
                    else (True, p\<lparr>pb_broker := b, pb_conn := conn,
                           pb_mode_requests := pb_mode_requests p @ [conn]\<rparr>))))"

definition publisher_New :: "broker \<Rightarrow> publisher" where
  "publisher_New b = \<lparr>pb_last = NewState, pb_conn = Unknown, pb_classifier = classifier_New,
     pb_broker = b, pb_mode_requests = []\<rparr>"

section \<open>The other gates\<close>

record diagnostics =
  dg_reachability :: string
  dg_linkLayer :: string

definition reachability_gates :: "string \<Rightarrow> diagnostics gate list" where
  "reachability_gates v = [internet_gate ''reachability'' dg_reachability dg_reachability_update plain v]"

definition link_layer_gates :: "string \<Rightarrow> diagnostics gate list" where
  "link_layer_gates v = [internet_gate ''link-layer'' dg_linkLayer dg_linkLayer_update plain v]"

text \<open>\<open>publishIfChanged\<close>, which swallows the error.\<close>

definition publishIfChanged :: "pub_env \<Rightarrow> 's gate list \<Rightarrow> 's \<times> broker \<Rightarrow> 's \<times> broker" where
  "publishIfChanged env gs sb = snd (run_gates env gs sb)"

definition uint_str :: "u64 \<Rightarrow> string" where "uint_str w = dec_str (unat w)"

definition usage_fields :: "Totals \<Rightarrow> fields" where
  "usage_fields t =
     [(''rx-bytes'', uint_str (tt_RxBytes t)), (''tx-bytes'', uint_str (tt_TxBytes t)),
      (''rx-bytes-roaming'', uint_str (tt_RxBytesRoaming t)),
      (''tx-bytes-roaming'', uint_str (tt_TxBytesRoaming t)), (''since'', tt_Since t)]"

text \<open>The remembered value is \<open>None\<close> while \<open>havePub..\<close> is false.\<close>

definition usage_gates :: "Totals \<Rightarrow> Totals option gate list" where
  "usage_gates totals =
     [\<lparr>ga_hash = ''internet-usage'', ga_fields = usage_fields totals,
       ga_same = (\<lambda>last. last = Some totals),
       ga_send = (\<lambda>env. PublishDataUsage env (usage_fields totals)),
       ga_save = (\<lambda>_. Some totals),
       ga_shown = map_option usage_fields\<rparr>]"

definition publishDataUsage :: "pub_env \<Rightarrow> Totals \<Rightarrow> Totals option \<times> broker \<Rightarrow> Totals option \<times> broker" where
  "publishDataUsage env totals sb = publishIfChanged env (usage_gates totals) sb"

definition mode_gates :: "string \<Rightarrow> string option gate list" where
  "mode_gates mode =
     [\<lparr>ga_hash = ''gps'', ga_fields = [(''mode'', mode)], ga_same = (\<lambda>last. last = Some mode),
       ga_send = (\<lambda>env. PublishGPSMode env mode), ga_save = (\<lambda>_. Some mode),
       ga_shown = map_option (\<lambda>m. [(''mode'', m)])\<rparr>]"

definition publishGPSModeValue :: "pub_env \<Rightarrow> string \<Rightarrow> string option \<times> broker \<Rightarrow> string option \<times> broker" where
  "publishGPSModeValue env mode sb = publishIfChanged env (mode_gates mode) sb"

section \<open>The contract of gates\<close>

definition displays :: "broker \<Rightarrow> string \<Rightarrow> fields \<Rightarrow> bool" where
  "displays b h fs \<longleftrightarrow> list_all (\<lambda>(f, v). br_hash b h f = Some v) fs"

definition in_step :: "'s gate list \<Rightarrow> 's \<Rightarrow> broker \<Rightarrow> bool" where
  "in_step gs s b \<longleftrightarrow>
     list_all (\<lambda>g. case ga_shown g s of None \<Rightarrow> True | Some fs \<Rightarrow> displays b (ga_hash g) fs) gs"

definition gate_key :: "'s gate \<Rightarrow> string \<times> string list" where
  "gate_key g = (ga_hash g, map fst (ga_fields g))"

text \<open>
  \<open>shown_same\<close> to \<open>save_other\<close> say what the memory of a gate is, \<open>send_shows\<close> and \<open>send_keeps\<close> what a write
  does, \<open>same_gates\<close> that what is written does not change which gates there are.
\<close>

locale change_gates =
  fixes gates :: "'r \<Rightarrow> 's gate list"
  assumes shown_same: "g \<in> set (gates r) \<Longrightarrow> ga_same g s \<Longrightarrow> ga_shown g s = Some (ga_fields g)"
    and save_same: "g \<in> set (gates r) \<Longrightarrow> ga_same g (ga_save g s)"
    and save_other: "g \<in> set (gates r) \<Longrightarrow> h \<in> set (gates r) \<Longrightarrow> gate_key g \<noteq> gate_key h
      \<Longrightarrow> ga_same h (ga_save g s) = ga_same h s \<and> ga_shown h (ga_save g s) = ga_shown h s"
    and distinct_keys: "distinct (map gate_key (gates r))"
    and send_shows: "g \<in> set (gates r) \<Longrightarrow> ga_send g env b = (True, b') \<Longrightarrow> displays b' (ga_hash g) (ga_fields g)"
    and send_keeps: "g \<in> set (gates r) \<Longrightarrow> h \<in> set (gates r) \<Longrightarrow> gate_key g \<noteq> gate_key h
      \<Longrightarrow> ga_send g env b = (ok, b') \<Longrightarrow> ga_shown h s = Some fs
      \<Longrightarrow> displays b' (ga_hash h) fs = displays b (ga_hash h) fs"
    and refused_keeps: "g \<in> set (gates r) \<Longrightarrow> ga_send g env b = (False, b')
      \<Longrightarrow> pe_answer env (br_writes b) \<noteq> Unconfirmed \<Longrightarrow> br_hash b' = br_hash b"
    and same_gates: "map (\<lambda>g. (ga_hash g, ga_shown g)) (gates r) = map (\<lambda>g. (ga_hash g, ga_shown g)) (gates r')"
begin

lemma key_inj: "g \<in> set (gates r) \<Longrightarrow> h \<in> set (gates r) \<Longrightarrow> gate_key g = gate_key h \<Longrightarrow> g = h"
  using distinct_keys [of r] by (auto simp: distinct_map dest: inj_onD)

lemma in_step_report: "in_step (gates r) s b = in_step (gates r') s b"
proof -
  have "in_step (gates r) s b = list_all (\<lambda>(h, sh). case sh s of None \<Rightarrow> True | Some fs \<Rightarrow> displays b h fs)
      (map (\<lambda>g. (ga_hash g, ga_shown g)) (gates r))" for r
    by (simp add: in_step_def list_all_iff)
  with same_gates [of r r'] show ?thesis by simp
qed

text \<open>One write: the gates stay in step unless its answer was lost.\<close>

lemma sent_in_step:
  assumes "in_step (gates r) s b" "g \<in> set (gates r)" "ga_send g env b = (True, b')"
  shows "in_step (gates r) (ga_save g s) b'"
  unfolding in_step_def list_all_iff
proof
  fix h
  assume h: "h \<in> set (gates r)"
  show "case ga_shown h (ga_save g s) of None \<Rightarrow> True | Some fs \<Rightarrow> displays b' (ga_hash h) fs"
  proof (cases "gate_key g = gate_key h")
    case True
    then have "g = h" using key_inj assms(2) h by blast
    then show ?thesis
      using shown_same [OF h save_same [OF h]] send_shows [OF assms(2,3)] by (simp add: option.case_eq_if)
  next
    case False
    then have "ga_shown h (ga_save g s) = ga_shown h s" using save_other assms(2) h by blast
    then show ?thesis
      using assms(1) h send_keeps [OF assms(2) h False assms(3)]
      by (auto simp: in_step_def list_all_iff split: option.splits)
  qed
qed

lemma refused_in_step:
  assumes "in_step (gates r) s b" "g \<in> set (gates r)" "ga_send g env b = (False, b')"
    and "pe_answer env (br_writes b) \<noteq> Unconfirmed"
  shows "in_step (gates r) s b'"
proof -
  have "displays b' = displays b" using refused_keeps [OF assms(2-4)] by (simp add: displays_def fun_eq_iff)
  then show ?thesis using assms(1) unfolding in_step_def by (simp only:)
qed

lemma run_in_step:
  assumes "run_gates env gs (s, b) = (ok, s', b')" "set gs \<subseteq> set (gates r)" "in_step (gates r) s b"
    and "ok \<or> (\<forall>ws. pe_answer env ws \<noteq> Unconfirmed)"
  shows "in_step (gates r) s' b'"
  using assms
proof (induction gs arbitrary: s b)
  case (Cons g gs)
  show ?case
  proof (cases "ga_same g s")
    case True
    then show ?thesis using Cons by simp
  next
    case False
    obtain k c where send: "ga_send g env b = (k, c)" by fastforce
    have g: "g \<in> set (gates r)" using Cons.prems(2) by simp
    show ?thesis
    proof (cases k)
      case True
      then show ?thesis
        using Cons.IH [of "ga_save g s" c] Cons.prems False send sent_in_step [OF Cons.prems(3) g, of env c] by simp
    next
      case no: False
      then show ?thesis using Cons.prems False send refused_in_step [OF Cons.prems(3) g, of env c] by auto
    qed
  qed
qed simp

lemma run_all_same:
  assumes "run_gates env gs (s, b) = (True, s', b')" "set gs \<subseteq> set (gates r)" "distinct (map gate_key gs)"
  shows "(\<forall>g \<in> set gs. ga_same g s') \<and>
    (\<forall>h \<in> set (gates r). gate_key h \<notin> gate_key ` set gs \<longrightarrow> ga_same h s' = ga_same h s)"
  using assms
proof (induction gs arbitrary: s b)
  case (Cons g gs)
  have g: "g \<in> set (gates r)" and new: "gate_key g \<notin> gate_key ` set gs" using Cons.prems by auto
  show ?case
  proof (cases "ga_same g s")
    case True
    then show ?thesis using Cons.IH [of s b] Cons.prems g new by auto
  next
    case False
    obtain k c where send: "ga_send g env b = (k, c)" by fastforce
    then have "k" using Cons.prems(1) False by (cases k) simp_all
    then have ih: "(\<forall>h \<in> set gs. ga_same h s') \<and> (\<forall>h \<in> set (gates r).
        gate_key h \<notin> gate_key ` set gs \<longrightarrow> ga_same h s' = ga_same h (ga_save g s))"
      using Cons.IH [of "ga_save g s" c] Cons.prems False send by simp
    moreover have "ga_same g s'" using ih g new save_same by blast
    ultimately show ?thesis using save_other [OF g] by auto
  qed
qed simp

lemma all_same_is_silent: "\<forall>g \<in> set gs. ga_same g s \<Longrightarrow> run_gates env gs (s, b) = (True, s, b)"
  by (induction gs) simp_all

text \<open>What a client may rely on: a run without error shows the report, and repeating it writes nothing.\<close>

theorem run_shows:
  assumes "run_gates env (gates r) (s, b) = (True, s', b')" "in_step (gates r) s b" "g \<in> set (gates r)"
  shows "displays b' (ga_hash g) (ga_fields g)"
proof -
  have "in_step (gates r) s' b'" using run_in_step [OF assms(1) _ assms(2)] by simp
  moreover have "ga_same g s'" using run_all_same [OF assms(1)] assms(3) distinct_keys by blast
  ultimately show ?thesis using shown_same [OF assms(3)] assms(3) by (force simp: in_step_def list_all_iff)
qed

theorem rerun_is_silent:
  assumes "run_gates env (gates r) (s, b) = (True, s', b')"
  shows "run_gates env' (gates r) (s', b'') = (True, s', b'')"
  using run_all_same [OF assms subset_refl distinct_keys] by (intro all_same_is_silent) blast

end

text \<open>Writes of single fields, and of all the fields of a hash together.\<close>

lemma hash_set_sent: "hash_set env h fs b = (True, b') \<Longrightarrow> br_hash b' = (br_hash b)(h := br_hash b h ++ map_of (rev fs))"
  by (auto simp: hash_set_def Let_def split: if_splits)

lemma hash_set_other: "hash_set env h fs b = (ok, b') \<Longrightarrow> h' \<noteq> h \<or> f \<notin> fst ` set fs \<Longrightarrow> br_hash b' h' f = br_hash b h' f"
proof -
  assume "hash_set env h fs b = (ok, b')" and other: "h' \<noteq> h \<or> f \<notin> fst ` set fs"
  then have "br_hash b' = br_hash b \<or> br_hash b' = (br_hash b)(h := br_hash b h ++ map_of (rev fs))"
    by (auto simp: hash_set_def Let_def split: if_splits)
  moreover have "h' = h \<Longrightarrow> map_of (rev fs) f = None" using other by (simp add: map_of_eq_None_iff)
  ultimately show ?thesis by (cases "h' = h") (auto simp: map_add_def)
qed

lemma hash_set_refused:
  "hash_set env h fs b = (False, b') \<Longrightarrow> pe_answer env (br_writes b) \<noteq> Unconfirmed \<Longrightarrow> br_hash b' = br_hash b"
  by (cases "pe_answer env (br_writes b)") (auto simp: hash_set_def Let_def)

lemma hash_set_displays:
  assumes "hash_set env h (fs @ gs) b = (True, b')" "distinct (map fst (fs @ gs))"
  shows "displays b' h fs"
  unfolding displays_def list_all_iff
proof (clarify)
  fix f v
  assume "(f, v) \<in> set fs"
  then have "map_of (rev (fs @ gs)) f = Some v"
    using assms(2) by (intro map_of_is_SomeI) (auto simp: rev_map [symmetric])
  then show "br_hash b' h f = Some v" using hash_set_sent [OF assms(1)] by (simp add: map_add_def)
qed


section \<open>The four publishers meet the contract\<close>

lemma field_gate_simps [simp]:
  "ga_same (field_gate h f get upd fmt v) s \<longleftrightarrow> get s = v"
  "ga_shown (field_gate h f get upd fmt v) = (\<lambda>s. Some [(f, fmt (get s))])"
  "ga_save (field_gate h f get upd fmt v) = upd (\<lambda>_. v)"
  "ga_hash (field_gate h f get upd fmt v) = h"
  "ga_fields (field_gate h f get upd fmt v) = [(f, fmt v)]"
  "gate_key (field_gate h f get upd fmt v) = (h, [f])"
  by (simp_all add: field_gate_def gate_key_def)

text \<open>Gates that are all single fields.\<close>

definition simple_gate :: "'s gate \<Rightarrow> bool" where
  "simple_gate g \<longleftrightarrow> (\<exists>f v. ga_fields g = [(f, v)] \<and> (\<forall>env. ga_send g env = hash_set env (ga_hash g) [(f, v)])
     \<and> (\<forall>s. \<exists>w. ga_shown g s = Some [(f, w)]))"

lemma simple_field_gate [simp]: "simple_gate (field_gate h f get upd fmt v)"
  by (simp add: simple_gate_def) (simp add: field_gate_def)

lemma simple_gate_shows:
  "simple_gate g \<Longrightarrow> ga_send g env b = (True, b') \<Longrightarrow> displays b' (ga_hash g) (ga_fields g)"
  using hash_set_displays [of env "ga_hash g" "ga_fields g" "[]" b b'] by (auto simp: simple_gate_def)

lemma simple_gate_keeps:
  assumes "simple_gate g" "simple_gate h" "gate_key g \<noteq> gate_key h" "ga_send g env b = (ok, b')"
    and "ga_shown h s = Some fs"
  shows "displays b' (ga_hash h) fs = displays b (ga_hash h) fs"
proof -
  obtain f v where g: "ga_fields g = [(f, v)]" "ga_send g env b = hash_set env (ga_hash g) [(f, v)] b"
    using assms(1) by (auto simp: simple_gate_def)
  obtain f' w where h: "fs = [(f', w)]" "map fst (ga_fields h) = [f']"
    using assms(2,5) unfolding simple_gate_def by (metis list.simps(8,9) fst_conv option.inject)
  have "ga_hash h \<noteq> ga_hash g \<or> f' \<notin> fst ` set [(f, v)]" using assms(3) g h by (auto simp: gate_key_def)
  then show ?thesis using hash_set_other [of env "ga_hash g" "[(f, v)]" b ok b' "ga_hash h" f'] assms(4) g h
    by (simp add: displays_def)
qed

lemma simple_gate_refused:
  "simple_gate g \<Longrightarrow> ga_send g env b = (False, b') \<Longrightarrow> pe_answer env (br_writes b) \<noteq> Unconfirmed
     \<Longrightarrow> br_hash b' = br_hash b"
  by (auto simp: simple_gate_def intro: hash_set_refused)

lemma simple_gates:
  assumes "\<And>r. \<forall>g \<in> set (gates r). simple_gate g"
    and "\<And>g r s. g \<in> set (gates r) \<Longrightarrow> ga_same g s \<Longrightarrow> ga_shown g s = Some (ga_fields g)"
    and "\<And>g r s. g \<in> set (gates r) \<Longrightarrow> ga_same g (ga_save g s)"
    and "\<And>g h r s. g \<in> set (gates r) \<Longrightarrow> h \<in> set (gates r) \<Longrightarrow> gate_key g \<noteq> gate_key h
      \<Longrightarrow> ga_same h (ga_save g s) = ga_same h s \<and> ga_shown h (ga_save g s) = ga_shown h s"
    and "\<And>r. distinct (map gate_key (gates r))"
    and "\<And>r r'. map (\<lambda>g. (ga_hash g, ga_shown g)) (gates r) = map (\<lambda>g. (ga_hash g, ga_shown g)) (gates r')"
  shows "change_gates gates"
proof
  fix g h r s env b b' ok fs
  assume g: "g \<in> set (gates r)"
  then have simple: "simple_gate g" using assms(1) by blast
  show "ga_send g env b = (True, b') \<Longrightarrow> displays b' (ga_hash g) (ga_fields g)"
    by (rule simple_gate_shows [OF simple])
  show "ga_send g env b = (False, b') \<Longrightarrow> pe_answer env (br_writes b) \<noteq> Unconfirmed \<Longrightarrow> br_hash b' = br_hash b"
    by (rule simple_gate_refused [OF simple])
  assume h: "h \<in> set (gates r)" "gate_key g \<noteq> gate_key h"
    and sent: "ga_send g env b = (ok, b')" "ga_shown h s = Some fs"
  have "simple_gate h" using assms(1) h(1) by blast
  then show "displays b' (ga_hash h) fs = displays b (ga_hash h) fs"
    by (rule simple_gate_keeps [OF simple _ h(2) sent])
qed (use assms in simp_all)


lemma modem_gates_simple: "\<forall>g \<in> set (modem_gates r). simple_gate g"
  by (simp add: modem_gates_def Let_def)

lemma modem_gates_same: "g \<in> set (modem_gates r) \<Longrightarrow> ga_same g s \<Longrightarrow> ga_shown g s = Some (ga_fields g)"
  by (auto simp: modem_gates_def Let_def)

lemma modem_gates_save: "g \<in> set (modem_gates r) \<Longrightarrow> ga_same g (ga_save g s)"
  by (auto simp: modem_gates_def Let_def)

lemma modem_gates_distinct: "distinct (map gate_key (modem_gates r))"
  by (simp add: modem_gates_def Let_def)

lemma modem_gates_report:
  "map (\<lambda>g. (ga_hash g, ga_shown g)) (modem_gates r) = map (\<lambda>g. (ga_hash g, ga_shown g)) (modem_gates r')"
  by (simp add: modem_gates_def Let_def)

lemma modem_gates_other:
  "g \<in> set (modem_gates r) \<Longrightarrow> h \<in> set (modem_gates r) \<Longrightarrow> gate_key g \<noteq> gate_key h
     \<Longrightarrow> ga_same h (ga_save g s) = ga_same h s \<and> ga_shown h (ga_save g s) = ga_shown h s"
proof -
  have "list_all (\<lambda>g. list_all (\<lambda>h. gate_key g = gate_key h \<or>
      (ga_same h (ga_save g s) = ga_same h s \<and> ga_shown h (ga_save g s) = ga_shown h s))
      (modem_gates r)) (modem_gates r)"
    by (simp add: modem_gates_def Let_def)
  then show "g \<in> set (modem_gates r) \<Longrightarrow> h \<in> set (modem_gates r) \<Longrightarrow> gate_key g \<noteq> gate_key h
     \<Longrightarrow> ga_same h (ga_save g s) = ga_same h s \<and> ga_shown h (ga_save g s) = ga_shown h s"
    by (auto simp: list_all_iff)
qed

interpretation modem_pub: change_gates modem_gates
  by (rule simple_gates) (fact modem_gates_simple modem_gates_same modem_gates_save modem_gates_other
      modem_gates_distinct modem_gates_report)+

interpretation reachability_pub: change_gates reachability_gates
  by (rule simple_gates) (auto simp: reachability_gates_def)

interpretation link_layer_pub: change_gates link_layer_gates
  by (rule simple_gates) (auto simp: link_layer_gates_def)


text \<open>The two gates that stamp the time of the write.\<close>

lemma PublishDataUsage_displays:
  "PublishDataUsage env (usage_fields t) b = (True, b') \<Longrightarrow> displays b' ''internet-usage'' (usage_fields t)"
  unfolding PublishDataUsage_def by (erule hash_set_displays) (simp add: usage_fields_def)

lemma PublishGPSMode_displays:
  "PublishGPSMode env m b = (True, b') \<Longrightarrow> displays b' ''gps'' [(''mode'', m)]"
  using hash_set_displays [of env "''gps''" "[(''mode'', m)]" "[(''updated'', pe_now env (br_writes b))]" b b']
  by (simp add: PublishGPSMode_def)

interpretation usage_pub: change_gates usage_gates
  by unfold_locales (auto simp: usage_gates_def PublishDataUsage_displays PublishDataUsage_def hash_set_refused)

interpretation mode_pub: change_gates mode_gates
  by unfold_locales (auto simp: mode_gates_def PublishGPSMode_displays PublishGPSMode_def hash_set_refused)

section \<open>A round of publication\<close>

lemma Classify_known: "fst (Classify now i c) \<noteq> Unknown"
proof -
  have "rawState i \<noteq> Unknown" by (simp add: rawState_def)
  then show ?thesis by (auto simp: Classify_def Let_def)
qed

lemma Classify_commits: "cl_committed (snd (Classify now i c)) = fst (Classify now i c)"
  by (simp add: Classify_def Let_def)

lemma run_gates_other:
  "run_gates env gs (s, b) = (ok, s', b') \<Longrightarrow> \<forall>g \<in> set gs. simple_gate g \<and> gate_key g \<noteq> (h, [f])
     \<Longrightarrow> br_hash b' h f = br_hash b h f"
proof (induction gs arbitrary: s b)
  case (Cons g gs)
  obtain k c where send: "ga_send g env b = (k, c)" by fastforce
  then have "br_hash c h f = br_hash b h f"
    using Cons.prems(2) by (auto simp: simple_gate_def gate_key_def intro: hash_set_other)
  then show ?case using Cons send by (auto split: if_splits)
qed simp

definition report0 :: "string \<times> State" where "report0 = ('''', NewState)"

text \<open>The server holds what the publisher remembers having shown.\<close>

definition pub_in_step :: "publisher \<Rightarrow> bool" where
  "pub_in_step p \<longleftrightarrow> in_step (modem_gates report0) (pb_last p) (pb_broker p)
     \<and> (pb_conn p = Unknown \<or> br_hash (pb_broker p) ''internet'' ''connectivity'' = Some (conn_str (pb_conn p)))"

lemma modem_gates_not_connectivity:
  "\<forall>g \<in> set (modem_gates r). simple_gate g \<and> gate_key g \<noteq> (''internet'', [''connectivity''])"
  by (simp add: modem_gates_def Let_def)

lemma connectivity_keeps_gates:
  assumes "in_step (modem_gates r) s b" "PublishInternetState env ''connectivity'' v b = (ok, b')"
  shows "in_step (modem_gates r) s b'"
proof -
  have "br_hash b' h f = br_hash b h f" if "(h, [f]) \<noteq> (''internet'', [''connectivity''])" for h f
    using assms(2) that by (auto simp: PublishInternetState_def intro: hash_set_other)
  moreover have "\<forall>g \<in> set (modem_gates r). \<forall>fs. ga_shown g s = Some fs \<longrightarrow>
      (\<exists>f v. fs = [(f, v)] \<and> (ga_hash g, [f]) \<noteq> (''internet'', [''connectivity'']))"
    by (simp add: modem_gates_def Let_def)
  ultimately have "\<forall>g \<in> set (modem_gates r). \<forall>fs. ga_shown g s = Some fs \<longrightarrow>
      displays b' (ga_hash g) fs = displays b (ga_hash g) fs"
    by (fastforce simp: displays_def)
  then show ?thesis using assms(1) by (simp add: in_step_def list_all_iff split: option.splits)
qed

lemma publish_cases:
  assumes "publishModemState env now enabled hardFailed cur st p = (ok, p')"
  obtains
    (stopped) lst b where "run_gates env (modem_gates (st, cur)) (pb_last p, pb_broker p) = (False, lst, b)"
      "\<not> ok" "p' = p\<lparr>pb_last := lst, pb_broker := b\<rparr>"
  | (same) lst b cl where "run_gates env (modem_gates (st, cur)) (pb_last p, pb_broker p) = (True, lst, b)"
      "ok" "p' = p\<lparr>pb_last := lst, pb_broker := b, pb_classifier := cl\<rparr>" "pb_conn p \<noteq> Unknown"
      "cl_committed cl = pb_conn p"
  | (wrote) lst b cl conn b' where
      "run_gates env (modem_gates (st, cur)) (pb_last p, pb_broker p) = (True, lst, b)"
      "PublishInternetState env ''connectivity'' (conn_str conn) b = (ok, b')" "cl_committed cl = conn" "conn \<noteq> Unknown"
      "p' = p\<lparr>pb_last := lst, pb_classifier := cl, pb_broker := b',
        pb_conn := (if ok then conn else pb_conn p),
        pb_mode_requests := (if ok then pb_mode_requests p @ [conn] else pb_mode_requests p)\<rparr>"
proof -
  obtain k lst b where run: "run_gates env (modem_gates (st, cur)) (pb_last p, pb_broker p) = (k, lst, b)"
    by (metis prod_cases3)
  define i where "i = \<lparr>inModemStatus = stStatus cur, inSIMState = stSIMState cur,
    inRegistration = stRegistration cur, inEnabled = enabled, inHardFailed = hardFailed\<rparr>"
  obtain conn cl where cl: "Classify now i (pb_classifier p) = (conn, cl)" by fastforce
  have conn: "conn \<noteq> Unknown" "cl_committed cl = conn"
    using Classify_known [of now i "pb_classifier p"] Classify_commits [of now i "pb_classifier p"] cl by simp_all
  note unfolded = assms [unfolded publishModemState_def Let_def, folded i_def]
  consider "\<not> k" | "k" "conn = pb_conn p" | "k" "conn \<noteq> pb_conn p" by blast
  then show thesis
  proof cases
    case 1
    then show thesis using stopped [of lst b] run unfolded by simp
  next
    case 2
    then show thesis using same [of lst b cl] conn run cl unfolded by simp
  next
    case 3
    obtain k' b' where send: "PublishInternetState env ''connectivity'' (conn_str conn) b = (k', b')" by fastforce
    show thesis
      by (rule wrote [of lst b conn b' cl]) (use 3 conn run cl send unfolded in \<open>auto split: if_splits\<close>)
  qed
qed

lemma publish_in_step:
  assumes "publishModemState env now enabled hardFailed cur st p = (ok, p')" "pub_in_step p"
    and sure: "ok \<or> (\<forall>ws. pe_answer env ws \<noteq> Unconfirmed)"
  shows "pub_in_step p'"
proof -
  have start: "in_step (modem_gates (st, cur)) (pb_last p) (pb_broker p)"
    using assms(2) modem_pub.in_step_report unfolding pub_in_step_def by blast
  note report = modem_pub.in_step_report [of report0 _ _ "(st, cur)"]
  note ran = modem_pub.run_in_step [OF _ subset_refl start]
  note other = run_gates_other [OF _ modem_gates_not_connectivity]
  from assms(1) show ?thesis
  proof (cases rule: publish_cases)
    case (stopped lst b)
    then show ?thesis using ran [OF stopped(1)] sure other [OF stopped(1)] assms(2) report
      by (simp add: pub_in_step_def)
  next
    case (same lst b cl)
    then show ?thesis using ran [OF same(1)] other [OF same(1)] assms(2) report by (simp add: pub_in_step_def)
  next
    case (wrote lst b cl conn b')
    have "in_step (modem_gates report0) lst b'"
      using ran [OF wrote(1)] connectivity_keeps_gates [OF _ wrote(2)] report by simp
    moreover have "br_hash b' ''internet'' ''connectivity'' = Some (conn_str conn)" if ok
      using hash_set_sent [of env "''internet''" "[(''connectivity'', conn_str conn)]" b b'] that wrote(2)
      by (simp add: PublishInternetState_def)
    moreover have "br_hash b' ''internet'' ''connectivity'' = br_hash (pb_broker p) ''internet'' ''connectivity''"
      if "\<not> ok"
      using that wrote(2) sure other [OF wrote(1)] hash_set_refused
      by (fastforce simp: PublishInternetState_def)
    ultimately show ?thesis using assms(2) wrote(5) by (auto simp: pub_in_step_def)
  qed
qed


section \<open>Powering off\<close>

text \<open>
  The publications of \<open>disableModem\<close>. None of the errors is looked at, and what is remembered is set all the
  same.
\<close>

definition publish_off :: "pub_env \<Rightarrow> gotime \<Rightarrow> publisher \<Rightarrow> publisher" where
  "publish_off env now p =
     (let b = snd (PublishInternetState env ''status'' ''disconnected'' (pb_broker p));
          b = snd (PublishInternetState env ''modem-state'' ''off'' b);
          b = snd (PublishModemState env ''power-state'' ''off'' b);
          b = snd (PublishInternetState env ''connectivity'' (conn_str Disabled) b)
      in p\<lparr>pb_broker := b, pb_classifier := Force now Disabled (pb_classifier p), pb_conn := Disabled,
           pb_last := (pb_last p)\<lparr>stStatus := ''disconnected'', stLastRawModemStatus := ''off'',
             stPowerState := ''off''\<rparr>\<rparr>)"

section \<open>Properties\<close>

datatype pub_event = PubRound gotime bool bool State string | PubOff gotime

fun pub_step :: "pub_env \<Rightarrow> pub_event \<Rightarrow> publisher \<Rightarrow> publisher" where
  "pub_step env (PubRound now enabled hardFailed cur st) p =
     snd (publishModemState env now enabled hardFailed cur st p)"
| "pub_step env (PubOff now) p = publish_off env now p"

lemma off_gate_in_step:
  assumes "in_step (modem_gates r) s b" "hash_set env h [(f, v)] b = (True, b')"
    and "\<And>g. g \<in> set (modem_gates r) \<Longrightarrow> ga_shown g (upd s) = (if gate_key g = (h, [f]) then Some [(f, v)] else ga_shown g s)"
  shows "in_step (modem_gates r) (upd s) b'"
  unfolding in_step_def list_all_iff
proof
  fix g
  assume g: "g \<in> set (modem_gates r)"
  have simple: "simple_gate g" using modem_gates_simple g by blast
  show "case ga_shown g (upd s) of None \<Rightarrow> True | Some fs \<Rightarrow> displays b' (ga_hash g) fs"
  proof (cases "gate_key g = (h, [f])")
    case True
    then show ?thesis using assms(3) [OF g] hash_set_displays [of env h "[(f, v)]" "[]" b b'] assms(2)
      by (simp add: gate_key_def)
  next
    case False
    obtain f' w where sh: "ga_shown g s = Some [(f', w)]" and f': "gate_key g = (ga_hash g, [f'])"
      using simple by (fastforce simp: simple_gate_def gate_key_def)
    have "br_hash b' (ga_hash g) f' = br_hash b (ga_hash g) f'"
      using hash_set_other [OF assms(2), of "ga_hash g" f'] False f' by auto
    then show ?thesis using assms(1,3) g sh False by (fastforce simp: in_step_def list_all_iff displays_def)
  qed
qed


lemma publish_off_in_step:
  assumes stored: "\<And>ws. pe_answer env ws = Stored_ok" and "pub_in_step p"
  shows "pub_in_step (publish_off env now p)"
proof -
  have sent: "hash_set env h fs b = (True, snd (hash_set env h fs b))" for h fs b
    by (simp add: hash_set_def Let_def stored)
  note set1 = off_gate_in_step [OF _ sent]
  define b0 s0 where "b0 = pb_broker p" and "s0 = pb_last p"
  define b1 s1 where "b1 = snd (hash_set env ''internet'' [(''status'', ''disconnected'')] b0)"
    and "s1 = s0\<lparr>stStatus := ''disconnected''\<rparr>"
  define b2 s2 where "b2 = snd (hash_set env ''internet'' [(''modem-state'', ''off'')] b1)"
    and "s2 = s1\<lparr>stLastRawModemStatus := ''off''\<rparr>"
  define b3 s3 where "b3 = snd (hash_set env ''modem'' [(''power-state'', ''off'')] b2)"
    and "s3 = s2\<lparr>stPowerState := ''off''\<rparr>"
  define b4 where "b4 = snd (hash_set env ''internet'' [(''connectivity'', ''disabled'')] b3)"
  have s0: "in_step (modem_gates report0) s0 b0" using assms(2) by (simp add: pub_in_step_def s0_def b0_def)
  have s1: "in_step (modem_gates report0) s1 b1"
    unfolding s1_def b1_def by (rule set1 [OF s0]) (auto simp: modem_gates_def Let_def plain_def)
  have s2: "in_step (modem_gates report0) s2 b2"
    unfolding s2_def b2_def by (rule set1 [OF s1]) (auto simp: modem_gates_def Let_def plain_def)
  have s3: "in_step (modem_gates report0) s3 b3"
    unfolding s3_def b3_def by (rule set1 [OF s2]) (auto simp: modem_gates_def Let_def plain_def)
  have c: "PublishInternetState env ''connectivity'' ''disabled'' b3 = (True, b4)"
    unfolding PublishInternetState_def b4_def by (rule sent)
  have "in_step (modem_gates report0) s3 b4" by (rule connectivity_keeps_gates [OF s3 c])
  moreover have "br_hash b4 ''internet'' ''connectivity'' = Some ''disabled''"
    using hash_set_sent [OF sent] by (simp add: b4_def)
  moreover have "pb_last (publish_off env now p) = s3" "pb_broker (publish_off env now p) = b4"
      "pb_conn (publish_off env now p) = Disabled"
    by (simp_all add: publish_off_def Let_def b4_def b3_def b2_def b1_def b0_def s3_def s2_def s1_def s0_def
        PublishInternetState_def PublishModemState_def conn_str_def)
  ultimately show ?thesis by (simp add: pub_in_step_def conn_str_def)
qed

fun is_round :: "pub_event \<Rightarrow> bool" where
  "is_round (PubRound now enabled hardFailed cur st) = True"
| "is_round (PubOff now) = False"

definition pub_run :: "pub_env \<Rightarrow> pub_event list \<Rightarrow> publisher \<Rightarrow> publisher" where
  "pub_run env evs = fold (pub_step env) evs"

lemma pub_run_in_step:
  assumes "pub_in_step p" "\<And>ws. pe_answer env ws \<noteq> Unconfirmed"
    and "(\<forall>ev \<in> set evs. is_round ev) \<or> (\<forall>ws. pe_answer env ws = Stored_ok)"
  shows "pub_in_step (pub_run env evs p)"
  using assms
proof (induction evs arbitrary: p)
  case (Cons ev evs)
  have "pub_in_step (pub_step env ev p)"
  proof (cases ev)
    case (PubRound now enabled hardFailed cur st)
    obtain ok p' where "publishModemState env now enabled hardFailed cur st p = (ok, p')" by fastforce
    then show ?thesis using publish_in_step [of env now enabled hardFailed cur st p ok p'] Cons.prems PubRound by simp
  next
    case (PubOff now)
    then show ?thesis using Cons.prems publish_off_in_step by auto
  qed
  then show ?case using Cons by (auto simp: pub_run_def)
qed (simp add: pub_run_def)

lemma publish_shows:
  assumes "publishModemState env now enabled hardFailed cur st p = (True, p')" "pub_in_step p"
  shows "list_all (\<lambda>g. displays (pb_broker p') (ga_hash g) (ga_fields g)) (modem_gates (st, cur))
    \<and> br_hash (pb_broker p') ''internet'' ''connectivity'' = Some (conn_str (Committed (pb_classifier p')))"
proof -
  have after: "pub_in_step p'" using publish_in_step [OF assms] by simp
  have start: "in_step (modem_gates (st, cur)) (pb_last p) (pb_broker p)"
    using assms(2) modem_pub.in_step_report unfolding pub_in_step_def by blast
  have same: "ga_same g (pb_last p')" if "g \<in> set (modem_gates (st, cur))" for g
    using assms(1) that modem_pub.run_all_same [OF _ subset_refl modem_gates_distinct]
    by (cases rule: publish_cases) auto
  have "in_step (modem_gates (st, cur)) (pb_last p') (pb_broker p')"
    using after modem_pub.in_step_report unfolding pub_in_step_def by blast
  then have "list_all (\<lambda>g. displays (pb_broker p') (ga_hash g) (ga_fields g)) (modem_gates (st, cur))"
    using modem_pub.shown_same [OF _ same] by (force simp: in_step_def list_all_iff)
  moreover have "pb_conn p' \<noteq> Unknown \<and> pb_conn p' = Committed (pb_classifier p')"
    using assms(1) by (cases rule: publish_cases) (auto simp: Committed_def)
  ultimately show ?thesis using after by (auto simp: pub_in_step_def)
qed


text \<open>
   What other services read is the truth: if the server held what the publisher remembers and a round
  reports no error, then afterwards every one of the nineteen fields shows the report of that round, and
  the connectivity field shows the committed state of the classifier. This does not assume that no
  answer was lost on the way: a lost answer is an error of the round.
\<close>

theorem published_state_is_shown:
  assumes "pub_in_step p" and "publishModemState env now enabled hardFailed cur st p = (True, p')"
  shows "list_all (\<lambda>g. displays (pb_broker p') (ga_hash g) (ga_fields g)) (modem_gates (st, cur))
    \<and> br_hash (pb_broker p') ''internet'' ''connectivity'' = Some (conn_str (Committed (pb_classifier p')))"
  by (rule publish_shows [OF assms(2,1)])

definition shown_by_gates :: "string \<Rightarrow> State \<Rightarrow> string \<Rightarrow> string \<Rightarrow> string option" where
  "shown_by_gates st cur h = map_of (concat (map ga_fields (filter (\<lambda>g. ga_hash g = h) (modem_gates (st, cur)))))"

definition all_stored :: pub_env where
  "all_stored = \<lparr>pe_answer = (\<lambda>_. Stored_ok), pe_now = (\<lambda>_. ''2025-01-01T00:00:00Z'')\<rparr>"

definition sample_publisher :: publisher where
  "sample_publisher = publisher_New \<lparr>br_hash = shown_by_gates ''UNKNOWN'' (NewState\<lparr>stStatus := ''UNKNOWN''\<rparr>), br_writes = []\<rparr>"

definition sample_state :: State where
  "sample_state = NewState\<lparr>stStatus := ''connected'', stPowerState := ''on'', stRegistration := ''home''\<rparr>"

lemma sample_publisher_in_step: "pub_in_step sample_publisher"
  by (simp add: pub_in_step_def sample_publisher_def publisher_New_def in_step_def displays_def report0_def
      shown_by_gates_def modem_gates_def NewState_def plain_def Let_def)

definition sample_round :: "bool \<times> publisher" where
  "sample_round = publishModemState all_stored 0 True False sample_state ''connected'' sample_publisher"

lemma sample_round_ok: "fst sample_round = True"
  by (simp add: sample_round_def publishModemState_def sample_publisher_def publisher_New_def modem_gates_def
      Let_def NewState_def sample_state_def field_gate_def hash_set_def all_stored_def PublishInternetState_def
      split: prod.splits)

theorem published_state_is_shown_witness:
  "br_hash (pb_broker (snd sample_round)) ''modem'' ''power-state'' = Some ''on''"
proof -
  have "publishModemState all_stored 0 True False sample_state ''connected'' sample_publisher = (True, snd sample_round)"
    using sample_round_ok by (metis sample_round_def prod.collapse)
  from published_state_is_shown [OF sample_publisher_in_step this]
  show ?thesis by (simp add: modem_gates_def Let_def displays_def sample_state_def plain_def)
qed



definition flaky :: pub_env where
  "flaky = all_stored\<lparr>pe_answer := (\<lambda>ws. if length ws = 1 then Refused else Stored_ok)\<rparr>"


lemma quiet_run:
  assumes "publishModemState env now enabled hardFailed cur st p = (True, p')"
  shows "run_gates env' (modem_gates (st, cur)) (pb_last p', b) = (True, pb_last p', b)"
proof -
  obtain b' where "run_gates env (modem_gates (st, cur)) (pb_last p, pb_broker p) = (True, pb_last p', b')"
    using assms by (cases rule: publish_cases) auto
  then show ?thesis by (rule modem_pub.rerun_is_silent)
qed

lemma hash_set_writes: "hash_set env h fs b = (ok, b') \<Longrightarrow> br_writes b' = br_writes b @ [(h, fs)]"
  by (auto simp: hash_set_def Let_def)

text \<open>
   Silence: once a round has gone through without error, a round with the same report writes none of
  the nineteen fields again; at most it writes the connectivity, when the debounce has run out.
\<close>

theorem repeated_report_is_silent:
  assumes "publishModemState env now enabled hardFailed cur st p = (True, p')"
    and "publishModemState env' now' enabled' hardFailed' cur st p' = (ok, p'')"
  shows "br_writes (pb_broker p'') = br_writes (pb_broker p') @
    (if fst (Classify now' \<lparr>inModemStatus = stStatus cur, inSIMState = stSIMState cur,
         inRegistration = stRegistration cur, inEnabled = enabled', inHardFailed = hardFailed'\<rparr>
         (pb_classifier p')) = pb_conn p' then []
     else [(''internet'', [(''connectivity'', conn_str (fst (Classify now' \<lparr>inModemStatus = stStatus cur,
         inSIMState = stSIMState cur, inRegistration = stRegistration cur, inEnabled = enabled',
         inHardFailed = hardFailed'\<rparr> (pb_classifier p'))))])])"
  using assms(2) quiet_run [OF assms(1), of env' "pb_broker p'"]
  by (auto simp: publishModemState_def Let_def PublishInternetState_def split: prod.splits if_splits
      dest: hash_set_writes)

lemma sample_round_done: "publishModemState all_stored 0 True False sample_state ''connected'' sample_publisher = (True, snd sample_round)"
  using sample_round_ok by (metis sample_round_def prod.collapse)

lemma sample_round_class: "pb_classifier (snd sample_round) = \<lparr>cl_committed = Connected, cl_pending = Connected, cl_pendingSince = 0\<rparr>
  \<and> pb_conn (snd sample_round) = Connected"
  by (simp add: sample_round_def publishModemState_def sample_publisher_def publisher_New_def modem_gates_def
      Let_def NewState_def sample_state_def field_gate_def hash_set_def all_stored_def PublishInternetState_def
      Classify_def rawState_def classifier_New_def conn_string_defs sim_state_defs split: prod.splits)

theorem repeated_report_is_silent_witness:
  "br_writes (pb_broker (snd (publishModemState all_stored 5 True False sample_state ''connected'' (snd sample_round))))
     = br_writes (pb_broker (snd sample_round))"
proof -
  obtain ok p'' where again: "publishModemState all_stored 5 True False sample_state ''connected'' (snd sample_round) = (ok, p'')"
    by fastforce
  show ?thesis
    using repeated_report_is_silent [OF sample_round_done again] again sample_round_class
    by (simp add: Classify_def rawState_def sample_state_def NewState_def conn_string_defs sim_state_defs)
qed


lemma gate_not_written:
  assumes "run_gates env gs (s, b) = (ok, s', b')" "g0 \<in> set gs" "ga_same g0 s"
    and "\<forall>g \<in> set gs. simple_gate g" "distinct (map gate_key gs)" "gate_key g0 = (h, [f])"
    and other: "\<And>g t. g \<in> set gs \<Longrightarrow> g \<noteq> g0 \<Longrightarrow> ga_same g0 (ga_save g t) = ga_same g0 t"
  shows "br_hash b' h f = br_hash b h f"
  using assms(1-6) other
proof (induction gs arbitrary: s b)
  case (Cons g gs)
  show ?case
  proof (cases "g = g0")
    case True
    have "\<forall>g \<in> set gs. simple_gate g \<and> gate_key g \<noteq> (h, [f])"
      using Cons.prems(4-6) True by (auto simp: image_iff)
    then show ?thesis using run_gates_other [of env gs s b ok s' b' h f] Cons.prems(1,3) True by simp
  next
    case False
    obtain k c where send: "ga_send g env b = (k, c)" by fastforce
    have "simple_gate g" and "gate_key g \<noteq> (h, [f])"
      using Cons.prems(2,4-6) False by (auto simp: image_iff)
    then have c: "br_hash c h f = br_hash b h f"
      using send by (auto simp: simple_gate_def gate_key_def intro: hash_set_other)
    have g0: "g0 \<in> set gs" using Cons.prems(2) False by simp
    have save: "ga_same g0 (ga_save g s)" using Cons.prems(3) Cons.prems(7) [of g s] False by simp
    note ih = Cons.IH [OF _ g0]
    show ?thesis
    proof (cases "ga_same g s")
      case True
      then show ?thesis using ih [of s b] Cons.prems by auto
    next
      case unlike: False
      show ?thesis
      proof (cases k)
        case True
        then show ?thesis using ih [of "ga_save g s" c] Cons.prems unlike send save c by auto
      qed (use Cons.prems unlike send c in auto)
    qed
  qed
qed simp

lemma roaming_not_written:
  assumes "stIsRoaming (pb_last p) = stIsRoaming cur"
  shows "br_hash (pb_broker (snd (publishModemState env now enabled hardFailed cur st p))) ''modem'' ''is-roaming''
    = br_hash (pb_broker p) ''modem'' ''is-roaming''"
proof -
  define g0 :: "State gate" where "g0 = field_gate ''modem'' ''is-roaming'' stIsRoaming stIsRoaming_update bool_str (stIsRoaming cur)"
  have g0: "g0 \<in> set (modem_gates (st, cur))" by (simp add: g0_def modem_gates_def Let_def)
  have key: "gate_key g0 = (''modem'', [''is-roaming''])" by (simp add: g0_def)
  have other: "ga_same g0 (ga_save g t) = ga_same g0 t" if "g \<in> set (modem_gates (st, cur))" "g \<noteq> g0" for g t
    using modem_gates_other [OF that(1) g0] modem_pub.key_inj [OF that(1) g0] that(2) by blast
  have kept: "br_hash b ''modem'' ''is-roaming'' = br_hash (pb_broker p) ''modem'' ''is-roaming''"
    if "run_gates env (modem_gates (st, cur)) (pb_last p, pb_broker p) = (ok, lst, b)" for ok lst b
    by (rule gate_not_written [OF that g0 _ modem_gates_simple modem_gates_distinct key other])
      (use assms in \<open>simp_all add: g0_def\<close>)
  obtain ok p' where round: "publishModemState env now enabled hardFailed cur st p = (ok, p')" by fastforce
  then show ?thesis
  proof (cases rule: publish_cases)
    case (wrote lst b cl conn b')
    have "br_hash b' ''modem'' ''is-roaming'' = br_hash b ''modem'' ''is-roaming''"
      by (rule hash_set_other [OF wrote(2) [unfolded PublishInternetState_def]]) simp
    then show ?thesis using kept [OF wrote(1)] wrote(5) round by simp
  next
    case (stopped lst b)
    then show ?thesis using kept [OF stopped(1)] round by simp
  next
    case (same lst b cl)
    then show ?thesis using kept [OF same(1)] round by simp
  qed
qed

text \<open>
   A restart leaves stale values behind: the service starts with the state of \<open>NewState\<close> as what it last
  published, whatever the server holds from its previous life. So a modem that is not roaming leaves
  \<open>is-roaming\<close> on the server as it was, and the round reports success.
\<close>

theorem restart_leaves_stale_roaming:
  assumes "\<not> stIsRoaming cur"
  shows "br_hash (pb_broker (snd (publishModemState env now enabled hardFailed cur st (publisher_New b))))
      ''modem'' ''is-roaming'' = br_hash b ''modem'' ''is-roaming''"
  using roaming_not_written [of "publisher_New b" cur env now enabled hardFailed st] assms
  by (simp add: publisher_New_def NewState_def)

definition previous_life :: broker where
  "previous_life = \<lparr>br_hash = (\<lambda>h. if h = ''modem'' then [''is-roaming'' \<mapsto> ''true''] else Map.empty), br_writes = []\<rparr>"

theorem restart_leaves_stale_roaming_witness:
  "\<not> stIsRoaming sample_state \<and>
   br_hash (pb_broker (snd (publishModemState all_stored 0 True False sample_state ''connected''
     (publisher_New previous_life)))) ''modem'' ''is-roaming'' = Some ''true''"
  using restart_leaves_stale_roaming [of sample_state all_stored 0 True False "''connected''" previous_life]
  by (simp add: sample_state_def NewState_def previous_life_def)

text \<open>
   Powering off forgets a refused write: with the status shown as connected and the server refusing the
  first write of \<open>disableModem\<close>, the status stays connected on the server, what is remembered says
  disconnected, and so a later round in which the status is disconnected reports success and leaves it.
\<close>

theorem power_off_forgets_refused_status:
  assumes "pe_answer env (br_writes (pb_broker p)) = Refused"
    and "br_hash (pb_broker p) ''internet'' ''status'' = Some ''connected''"
  shows "br_hash (pb_broker (publish_off env now p)) ''internet'' ''status'' = Some ''connected''
    \<and> stStatus (pb_last (publish_off env now p)) = ''disconnected''"
proof -
  let ?b0 = "pb_broker p"
  let ?b1 = "snd (PublishInternetState env ''status'' ''disconnected'' ?b0)"
  have kept: "br_hash (snd (hash_set env h [(f, v)] b)) ''internet'' ''status'' = br_hash b ''internet'' ''status''"
    if "h \<noteq> ''internet'' \<or> f \<noteq> ''status''" for h f v b
    using hash_set_other [of env h "[(f, v)]" b _ _ "''internet''" "''status''", OF prod.collapse [symmetric]] that
    by auto
  have "br_hash ?b1 = br_hash ?b0" using assms(1) by (simp add: PublishInternetState_def hash_set_def)
  then show ?thesis using assms(2)
    by (simp add: publish_off_def Let_def kept PublishInternetState_def PublishModemState_def)
qed

theorem power_off_forgets_refused_status_witness:
  "stStatus (pb_last (publish_off (flaky\<lparr>pe_answer := (\<lambda>ws. if ws = [] then Refused else Stored_ok)\<rparr>) 0
     (publisher_New \<lparr>br_hash = (\<lambda>_. [''status'' \<mapsto> ''connected'']), br_writes = []\<rparr>))) = ''disconnected''"
  using power_off_forgets_refused_status [of "flaky\<lparr>pe_answer := (\<lambda>ws. if ws = [] then Refused else Stored_ok)\<rparr>"
      "publisher_New \<lparr>br_hash = (\<lambda>_. [''status'' \<mapsto> ''connected'']), br_writes = []\<rparr>" 0]
  by (simp add: publisher_New_def)

end
