(* ===== verification/Modem_Enable.thy ===== *)
theory Modem_Enable
  imports Recovery
begin

text \<open>
  Bringing the modem up: \<open>ensureModemEnabled\<close> of \<open>internal/service/service.go\<close>, written in the monad of the
  recovery ladder, whose calls and health record it shares.
\<close>

datatype ensure_result = ModemReady | NoSIMLeftOn | EnsureCancelled | EnsureFailed

definition start_wait :: "nat \<Rightarrow> duration" where
  "start_wait attempt = min (60 * (int attempt + 1) * second_ns) (300 * second_ns)"

definition already_up :: "rec_env \<Rightarrow> ensure_result option rec_m" where
  "already_up env = do {
     present \<leftarrow> perform env CPresent;
     if \<not> present then State_Monad.return None else do {
       ready \<leftarrow> perform env CReady;
       if ready then State_Monad.return (Some ModemReady) else do {
         missing \<leftarrow> hasMissingSIM env;
         State_Monad.return (if missing then Some NoSIMLeftOn else None)
       }
     }
   }"

definition await_registration :: "rec_env \<Rightarrow> ensure_result option rec_m" where
  "await_registration env = do {
     interfacePresent \<leftarrow> ask (rv_iface env);
     present \<leftarrow> (if interfacePresent then State_Monad.return True else perform env CPresent);
     if \<not> present then State_Monad.return None else do {
       up \<leftarrow> perform env (CWait (30 * second_ns));
       State_Monad.return (if up then Some ModemReady else None)
     }
   }"

fun start_attempts :: "rec_env \<Rightarrow> nat list \<Rightarrow> ensure_result option rec_m" where
  "start_attempts env [] = State_Monad.return None"
| "start_attempts env (attempt # rest) = do {
     started \<leftarrow> perform env CStart;
     if \<not> started then start_attempts env rest else do {
       up \<leftarrow> perform env (CWait (start_wait attempt));
       if up then State_Monad.return (Some ModemReady) else do {
         missing \<leftarrow> hasMissingSIM env;
         if missing then State_Monad.return (Some NoSIMLeftOn) else do {
           cancelled \<leftarrow> ask (rv_cancelled env);
           if cancelled then State_Monad.return (Some EnsureCancelled) else start_attempts env rest
         }
       }
     }
   }"

definition ensureModemEnabled :: "rec_env \<Rightarrow> ensure_result rec_m" where
  "ensureModemEnabled env = do {
     r \<leftarrow> orelse (already_up env) (orelse (await_registration env)
       (start_attempts env [0..<MaxRecoveryAttempts]));
     case r of
       Some x \<Rightarrow> State_Monad.return x
     | None \<Rightarrow> do {
         _ \<leftarrow> on_health (\<lambda>h. h\<lparr>hl_State := StatePermanentFailure\<rparr>);
         _ \<leftarrow> publishHealthState env;
         _ \<leftarrow> notify env (CRaise ModemRecoveryFailed);
         State_Monad.return EnsureFailed
       }
   }"

section \<open>What is called\<close>

text \<open>The operations that leave the health record alone and whose calls satisfy a predicate.\<close>

definition calling :: "(rec_call list \<Rightarrow> 'a \<Rightarrow> bool) \<Rightarrow> 'a rec_m \<Rightarrow> bool" where
  "calling R m \<longleftrightarrow> (\<forall>s. \<exists>x t l. run_state m s = (x, t) \<and> rc_log t = rc_log s @ l \<and> rc_health t = rc_health s \<and> R l x)"

lemma callingD: "calling R m \<Longrightarrow> run_state m s = (x, t)
    \<Longrightarrow> \<exists>l. rc_log t = rc_log s @ l \<and> rc_health t = rc_health s \<and> R l x"
  unfolding calling_def by (metis prod.inject)

named_theorems called \<open>the calls of the basic operations\<close>

lemma calling_return: "R [] x \<Longrightarrow> calling R (State_Monad.return x)"
  by (simp add: calling_def)

lemma calling_ask [called]: "calling (\<lambda>l x. l = []) (ask f)"
  by (simp add: calling_def ask_def)

lemma calling_perform [called]: "calling (\<lambda>l x. l = [c]) (perform env c)"
  by (simp add: calling_def perform_def)

lemma calling_missing [called]: "calling (\<lambda>l x. l = [CInfo]) (hasMissingSIM env)"
  by (auto simp: calling_def hasMissingSIM_def ask_def perform_def State_Monad.update_def State_Monad.get_def
      State_Monad.set_def split: option.splits)

lemma calling_bind:
  assumes "calling R m" and "\<And>x l. R l x \<Longrightarrow> calling (\<lambda>k y. Q (l @ k) y) (f x)"
  shows "calling Q (m \<bind> f)"
  unfolding calling_def
proof
  fix s
  obtain x t l where m: "run_state m s = (x, t)" "rc_log t = rc_log s @ l" "rc_health t = rc_health s" "R l x"
    using assms(1) unfolding calling_def by blast
  obtain y u k where f: "run_state (f x) t = (y, u)" "rc_log u = rc_log t @ k" "rc_health u = rc_health t" "Q (l @ k) y"
    using assms(2) [OF m(4)] unfolding calling_def by blast
  from m f show "\<exists>y u l. run_state (m \<bind> f) s = (y, u) \<and> rc_log u = rc_log s @ l \<and> rc_health u = rc_health s \<and> Q l y"
    by auto
qed

lemma calling_if: "(b \<Longrightarrow> calling R m) \<Longrightarrow> (\<not> b \<Longrightarrow> calling R n) \<Longrightarrow> calling R (if b then m else n)"
  by simp

lemma calling_more: "calling R m \<Longrightarrow> (\<And>l x. R l x \<Longrightarrow> Q l x) \<Longrightarrow> calling Q m"
  unfolding calling_def by blast

lemma calling_orelse:
  assumes "calling R m" and "\<And>l x. R l (Some x) \<Longrightarrow> Q l (Some x)"
    and "\<And>l. R l None \<Longrightarrow> calling (\<lambda>k y. Q (l @ k) y) n"
  shows "calling Q (orelse m n)"
  unfolding orelse_def
proof (rule calling_bind [OF assms(1)])
  fix r l
  assume "R l r"
  then show "calling (\<lambda>k y. Q (l @ k) y) (case r of Some x \<Rightarrow> State_Monad.return (Some x) | None \<Rightarrow> n)"
    using assms(2,3) by (cases r) (auto intro: calling_return)
qed

definition starts :: "rec_call list \<Rightarrow> nat" where "starts l = length (filter ((=) CStart) l)"

fun wait_of :: "rec_call \<Rightarrow> duration" where
  "wait_of (CWait d) = d"
| "wait_of _ = 0"

definition waited :: "rec_call list \<Rightarrow> duration" where "waited l = sum_list (map wait_of l)"

lemma starts_waited [simp]:
  "starts [] = 0" "starts (c # l) = (if c = CStart then 1 else 0) + starts l" "starts (l @ k) = starts l + starts k"
  "waited [] = 0" "waited (c # l) = wait_of c + waited l" "waited (l @ k) = waited l + waited k"
  by (simp_all add: starts_def waited_def)

lemma start_wait_pos: "0 \<le> start_wait a"
  by (simp add: start_wait_def second_ns_def)

lemma calling_attempts:
  "calling (\<lambda>l r. starts l \<le> length as \<and> (r = None \<longrightarrow> starts l = length as)
      \<and> waited l \<le> sum_list (map start_wait as) \<and> r \<noteq> Some EnsureFailed) (start_attempts env as)"
proof (induction as)
  case (Cons a as)
  note rest = calling_more [OF Cons.IH]
  have pos: "0 \<le> sum_list (map start_wait as)" by (rule sum_list_nonneg) (auto simp: start_wait_pos)
  have more: "w \<le> sum_list (map start_wait as) \<Longrightarrow> w \<le> start_wait a + sum_list (map start_wait as)" for w
    using start_wait_pos [of a] by linarith
  show ?case
    unfolding start_attempts.simps
    by (intro calling_bind [OF calling_perform] calling_bind [OF calling_missing] calling_bind [OF calling_ask]
        calling_if calling_return rest)
      (use start_wait_pos [of a] pos in \<open>auto intro: more\<close>)
qed (simp add: calling_return)

lemma calling_up: "calling (\<lambda>l r. starts l = 0 \<and> waited l = 0 \<and> r \<noteq> Some EnsureFailed) (already_up env)"
  unfolding already_up_def
  by (intro calling_bind [OF calling_perform] calling_bind [OF calling_missing] calling_if calling_return) auto

lemma calling_await:
  "calling (\<lambda>l r. starts l = 0 \<and> waited l \<le> 30 * second_ns \<and> r \<noteq> Some EnsureFailed) (await_registration env)"
  unfolding await_registration_def
  by (intro calling_bind [OF calling_ask] calling_bind [where R = "\<lambda>l x. l = [] \<or> l = [CPresent]"]
      calling_bind [OF calling_perform] calling_if calling_return calling_more [OF calling_perform])
    (auto simp: second_ns_def)

definition search :: "rec_env \<Rightarrow> ensure_result option rec_m" where
  "search env = orelse (already_up env) (orelse (await_registration env)
     (start_attempts env [0..<MaxRecoveryAttempts]))"

lemma total_wait: "sum_list (map start_wait [0..<MaxRecoveryAttempts]) = 900 * second_ns"
  by (simp add: MaxRecoveryAttempts_def upt_rec start_wait_def second_ns_def)

lemma calling_search:
  "calling (\<lambda>l r. starts l \<le> MaxRecoveryAttempts \<and> (r = None \<longrightarrow> starts l = MaxRecoveryAttempts)
      \<and> waited l \<le> 930 * second_ns \<and> r \<noteq> Some EnsureFailed) (search env)"
proof -
  have pos: "0 \<le> second_ns" by (simp add: second_ns_def)
  note attempts = calling_attempts [of "[0..<MaxRecoveryAttempts]" env, unfolded total_wait length_upt diff_zero]
  show ?thesis
    unfolding search_def
    by (rule calling_orelse [OF calling_up], use pos in simp, rule calling_orelse [OF calling_await], use pos in simp,
        rule calling_more [OF attempts], use pos in simp)
qed

lemma ensure_search:
  "run_state (ensureModemEnabled env) s = (case run_state (search env) s of
     (Some x, t) \<Rightarrow> (x, t)
   | (None, t) \<Rightarrow> (EnsureFailed, t\<lparr>rc_health := (rc_health t)\<lparr>hl_State := StatePermanentFailure\<rparr>,
       rc_log := rc_log t @ [CPublishHealth StatePermanentFailure, CRaise ModemRecoveryFailed]\<rparr>))"
  unfolding ensureModemEnabled_def search_def [symmetric]
  by (auto simp: on_health_def publishHealthState_def get_health_def notify_def perform_def State_Monad.update_def
      State_Monad.get_def State_Monad.set_def split: prod.splits option.splits)


section \<open>Properties\<close>

text \<open>
   Bringing the modem up is bounded: whatever answers come, the power key is pressed at most five times
  and the waits add up to at most fifteen and a half minutes.
\<close>

theorem enabling_is_bounded:
  "\<exists>l. rc_log (snd (run_state (ensureModemEnabled env) s)) = rc_log s @ l
    \<and> starts l \<le> MaxRecoveryAttempts \<and> waited l \<le> 930 * second_ns"
proof -
  obtain r t where run: "run_state (search env) s = (r, t)" by fastforce
  from callingD [OF calling_search run] obtain l where
    "rc_log t = rc_log s @ l" "starts l \<le> MaxRecoveryAttempts" "waited l \<le> 930 * second_ns" by blast
  with run show ?thesis by (cases r) (simp_all add: ensure_search)
qed

text \<open>
   The modem is declared defective for one reason only: the health record is changed exactly when the
  operation fails, it fails only after five presses of the power key, and the last thing done then is to
  publish the permanent failure and to raise the fault.
\<close>

theorem defective_after_five_starts:
  assumes "run_state (ensureModemEnabled env) s = (r, t)"
  shows "if r = EnsureFailed
    then hl_State (rc_health t) = StatePermanentFailure \<and> (\<exists>l. rc_log t = rc_log s @ l
      @ [CPublishHealth StatePermanentFailure, CRaise ModemRecoveryFailed] \<and> starts l = MaxRecoveryAttempts)
    else rc_health t = rc_health s"
proof -
  obtain x u where run: "run_state (search env) s = (x, u)" by fastforce
  from callingD [OF calling_search run] obtain l where
    "rc_log u = rc_log s @ l" "rc_health u = rc_health s" "x = None \<longrightarrow> starts l = MaxRecoveryAttempts"
    "x \<noteq> Some EnsureFailed" by blast
  with run assms show ?thesis by (cases x) (auto simp: ensure_search)
qed

definition dead_world :: rec_env where
  "dead_world = \<lparr>rv_ok = (\<lambda>_ _. False), rv_info = (\<lambda>_. None), rv_iface = (\<lambda>_. False),
     rv_usb_absent = (\<lambda>_. False), rv_cancelled = (\<lambda>_. True), rv_stopped = (\<lambda>_. False),
     rv_enabled = (\<lambda>_. False), rv_busy = (\<lambda>_. False), rv_now = (\<lambda>_. 0)\<rparr>"

lemma dead_world_fails: "fst (run_state (ensureModemEnabled dead_world) recovery_init) = EnsureFailed"
  by (simp add: ensure_search search_def orelse_def already_up_def await_registration_def dead_world_def
      perform_def ask_def MaxRecoveryAttempts_def upt_rec)

lemma defective_after_five_starts_witness:
  "hl_State (rc_health (snd (run_state (ensureModemEnabled dead_world) recovery_init))) = StatePermanentFailure"
  using defective_after_five_starts [of dead_world recovery_init, OF prod.collapse [symmetric]] dead_world_fails
  by simp

lemma attempts_ignore_cancel:
  assumes "\<And>l. \<not> rv_ok env l CStart"
  shows "fst (run_state (start_attempts env as) s) = None"
  using assms by (induction as arbitrary: s) (simp_all add: perform_def split: prod.splits)

text \<open>
   A disable command does not stop it from pressing the power key, and can end in a false verdict. With
  the modem not on the bus and the network interface absent, a key press that fails is followed by the
  next one without a look at the context: although the operation is cancelled all along, the modem ends as a
  permanent failure.
\<close>

theorem cancelled_enable_declares_defect:
  assumes "\<And>l. rv_cancelled env l" and "\<And>l. \<not> rv_iface env l"
    and "\<And>l c. c \<in> {CPresent, CStart} \<Longrightarrow> \<not> rv_ok env l c"
  shows "hl_State (rc_health (snd (run_state (ensureModemEnabled env) s))) = StatePermanentFailure"
proof -
  have "fst (run_state (search env) s) = None"
    using assms(2,3) attempts_ignore_cancel [of env]
    by (simp add: search_def orelse_def already_up_def await_registration_def perform_def ask_def split: prod.splits)
  then show ?thesis by (cases "run_state (search env) s") (simp add: ensure_search)
qed

lemma cancelled_enable_declares_defect_witness:
  "rv_cancelled dead_world [] \<and> \<not> rv_enabled dead_world [] \<and>
   hl_State (rc_health (snd (run_state (ensureModemEnabled dead_world) recovery_init))) = StatePermanentFailure"
  using cancelled_enable_declares_defect [of dead_world recovery_init] by (simp add: dead_world_def)

end
