(* ===== verification/Modem_Target.thy ===== *)
theory Modem_Target
  imports Prelude
begin

text \<open>
  Who decides whether the modem is on: from \<open>internal/service/service.go\<close> the command and vehicle handlers, the
  registration and cancellation of a modem operation, \<open>reconcileModemTarget\<close> and the calls of
  \<open>disableModem\<close>, with the power inhibitor of \<open>internal/redis/redis.go\<close>.

  The handlers run in goroutines of their own, the monitor in another. Each is a list of steps that are
  atomic in the code (an atomic load or store, a section under \<open>modemOpCancelMu\<close>, a send on the buffered
  channel, a call), and a move is one step of one of them. The answers of calls are part of the move.
\<close>

section \<open>The shared state\<close>

datatype hstep = HStore bool | HSwapOn | HCancel | HInhibit | HSignal

datatype dstep = DPresence | DCloseGPS | DPublish | DPowerOff | DFlush | DRelease

text \<open>
  Where the monitor is: waiting for an event; in \<open>disableModem\<close>; in \<open>reconcileModemTarget\<close> with the decision to
  enable taken; in \<open>ensureModemEnabled\<close>; in an operation of \<open>reconcileAPN\<close> or \<open>applyRemedy\<close>, before and after its
  check.
\<close>

datatype monitor = MIdle | MDisabling "dstep list" | MReady | MEnabling nat | MChecking nat | MWorking nat

text \<open>
  \<open>tg_cancel\<close> is \<open>modemOpCancel\<close>, as the generation it cancels, and \<open>tg_cancelled\<close> the contexts cancelled so far.
  \<open>tg_inhibitor\<close> is the field in the hash of the power manager. The last four record what was done and are
  read by no step.
\<close>

record target =
  tg_enabled :: bool
  tg_signal :: bool
  tg_generation :: nat
  tg_cancel :: "nat option"
  tg_cancelled :: "nat list"
  tg_inhibitor :: bool
  tg_applied :: bool
  tg_monitor :: monitor
  tg_handlers :: "hstep list list"
  tg_powered :: bool
  tg_down :: bool
  tg_failed :: bool
  tg_log :: "dstep list"

section \<open>Operations on it\<close>

text \<open>The first argument is the answer of the hash write, the second that of the notification.\<close>

definition AddModemInhibitor :: "bool \<Rightarrow> bool \<Rightarrow> bool \<Rightarrow> bool \<times> bool" where
  "AddModemInhibitor set_ok pub_ok present = (if \<not> set_ok then (False, present) else (pub_ok, True))"

definition RemoveModemInhibitor :: "bool \<Rightarrow> bool \<Rightarrow> bool \<Rightarrow> bool \<times> bool" where
  "RemoveModemInhibitor del_ok pub_ok present = (if \<not> del_ok then (False, present) else (pub_ok, False))"

definition signalModemStateChange :: "target \<Rightarrow> target" where
  "signalModemStateChange s = s\<lparr>tg_signal := True\<rparr>"

definition cancelModemOperation :: "target \<Rightarrow> target" where
  "cancelModemOperation s =
     (case tg_cancel s of None \<Rightarrow> s | Some g \<Rightarrow> s\<lparr>tg_cancelled := g # tg_cancelled s\<rparr>)"

definition startModemOperation :: "target \<Rightarrow> nat \<times> target" where
  "startModemOperation s =
     (let g = tg_generation s + 1 in (g, s\<lparr>tg_generation := g, tg_cancel := Some g\<rparr>))"

definition finishModemOperation :: "nat \<Rightarrow> target \<Rightarrow> target" where
  "finishModemOperation g s =
     s\<lparr>tg_cancelled := g # tg_cancelled s, tg_cancel := (if tg_generation s = g then None else tg_cancel s)\<rparr>"

definition handleModemCommand :: "string \<Rightarrow> hstep list" where
  "handleModemCommand command =
     (if command = ''enable'' then [HStore True, HInhibit, HSignal]
      else if command = ''disable'' then [HStore False, HCancel, HSignal]
      else [])"

definition modemOnlineStates :: "string set" where "modemOnlineStates = {''parked'', ''ready-to-drive''}"

definition handleVehicleState :: "string \<Rightarrow> hstep list" where
  "handleVehicleState state = (if state \<in> modemOnlineStates then [HSwapOn] else [])"

text \<open>The state after a step of a handler, and the steps it has yet to do before the rest.\<close>

fun handler_step :: "bool \<Rightarrow> bool \<Rightarrow> hstep \<Rightarrow> target \<Rightarrow> target \<times> hstep list" where
  "handler_step ok1 ok2 (HStore b) s = (s\<lparr>tg_enabled := b\<rparr>, [])"
| "handler_step ok1 ok2 HSwapOn s =
     (if tg_enabled s then (s, []) else (s\<lparr>tg_enabled := True\<rparr>, [HInhibit, HSignal]))"
| "handler_step ok1 ok2 HCancel s = (cancelModemOperation s, [])"
| "handler_step ok1 ok2 HInhibit s =
     (s\<lparr>tg_inhibitor := snd (AddModemInhibitor ok1 ok2 (tg_inhibitor s))\<rparr>, [])"
| "handler_step ok1 ok2 HSignal s = (signalModemStateChange s, [])"

definition disableModem :: "dstep list" where
  "disableModem = [DPresence, DCloseGPS, DPublish, DPowerOff, DFlush, DRelease]"

fun disable_step :: "bool \<Rightarrow> bool \<Rightarrow> dstep \<Rightarrow> target \<Rightarrow> target" where
  "disable_step ok1 ok2 DPowerOff s =
     s\<lparr>tg_powered := (\<not> ok1 \<and> tg_powered s), tg_down := True, tg_log := tg_log s @ [DPowerOff]\<rparr>"
| "disable_step ok1 ok2 DRelease s =
     s\<lparr>tg_inhibitor := snd (RemoveModemInhibitor ok1 ok2 (tg_inhibitor s)), tg_log := tg_log s @ [DRelease]\<rparr>"
| "disable_step ok1 ok2 d s = s\<lparr>tg_log := tg_log s @ [d]\<rparr>"

text \<open>\<open>reconcileModemTarget\<close> on the event it is called for, up to the operation it starts.\<close>

definition reconcileModemTarget :: "target \<Rightarrow> target" where
  "reconcileModemTarget s =
     (if \<not> tg_enabled s then s\<lparr>tg_applied := False, tg_failed := False, tg_monitor := MDisabling disableModem\<rparr>
      else if tg_applied s then s
      else s\<lparr>tg_monitor := MReady\<rparr>)"

text \<open>
  A step of the monitor. When it waits, \<open>ok1\<close> chooses between the signal and an event that makes it start an
  operation on the modem.
\<close>

definition monitor_step :: "bool \<Rightarrow> bool \<Rightarrow> target \<Rightarrow> target option" where
  "monitor_step ok1 ok2 s =
     (case tg_monitor s of
        MIdle \<Rightarrow>
          if ok1 then (if tg_signal s then Some (reconcileModemTarget (s\<lparr>tg_signal := False\<rparr>)) else None)
          else (case startModemOperation s of (g, t) \<Rightarrow> Some (t\<lparr>tg_monitor := MChecking g\<rparr>))
      | MDisabling [] \<Rightarrow> Some (s\<lparr>tg_monitor := MIdle\<rparr>)
      | MDisabling (d # ds) \<Rightarrow> Some ((disable_step ok1 ok2 d s)\<lparr>tg_monitor := MDisabling ds\<rparr>)
      | MReady \<Rightarrow>
          (case startModemOperation s of (g, t) \<Rightarrow> Some (t\<lparr>tg_monitor := MEnabling g, tg_down := False\<rparr>))
      | MEnabling g \<Rightarrow>
          Some ((finishModemOperation g s)\<lparr>tg_monitor := MIdle, tg_applied := ok1, tg_failed := \<not> ok1,
            tg_powered := (ok1 \<or> ok2 \<or> tg_powered s)\<rparr>)
      | MChecking g \<Rightarrow>
          if \<not> tg_enabled s then Some ((finishModemOperation g s)\<lparr>tg_monitor := MIdle\<rparr>)
          else Some (s\<lparr>tg_monitor := MWorking g\<rparr>)
      | MWorking g \<Rightarrow> Some ((finishModemOperation g s)\<lparr>tg_monitor := MIdle\<rparr>))"

section \<open>Moves\<close>

datatype move = Command string | VehicleState string | Handler nat bool bool | Monitor bool bool

fun target_move :: "move \<Rightarrow> target \<Rightarrow> target option" where
  "target_move (Command c) s = Some (s\<lparr>tg_handlers := tg_handlers s @ [handleModemCommand c]\<rparr>)"
| "target_move (VehicleState v) s = Some (s\<lparr>tg_handlers := tg_handlers s @ [handleVehicleState v]\<rparr>)"
| "target_move (Handler n ok1 ok2) s =
     (if n < length (tg_handlers s) then
        (case tg_handlers s ! n of
           [] \<Rightarrow> None
         | h # hs \<Rightarrow> (case handler_step ok1 ok2 h s of
             (t, cont) \<Rightarrow> Some (t\<lparr>tg_handlers := (tg_handlers s)[n := cont @ hs]\<rparr>)))
      else None)"
| "target_move (Monitor ok1 ok2) s = monitor_step ok1 ok2 s"

text \<open>At the start of the monitor the modem is up and applied, or is to be powered off.\<close>

definition target_init :: "bool \<Rightarrow> target" where
  "target_init enabled = \<lparr>tg_enabled = enabled, tg_signal = False, tg_generation = 0, tg_cancel = None,
     tg_cancelled = [], tg_inhibitor = enabled, tg_applied = enabled,
     tg_monitor = (if enabled then MIdle else MDisabling disableModem), tg_handlers = [], tg_powered = True,
     tg_down = False, tg_failed = False, tg_log = []\<rparr>"

inductive target_reach :: "target \<Rightarrow> bool" where
  Start: "target_reach (target_init enabled)"
| Move: "target_reach s \<Longrightarrow> target_move m s = Some t \<Longrightarrow> target_reach t"

fun target_run :: "move list \<Rightarrow> target \<Rightarrow> target option" where
  "target_run [] s = Some s"
| "target_run (m # ms) s = (case target_move m s of None \<Rightarrow> None | Some t \<Rightarrow> target_run ms t)"

lemma target_run_reach: "target_reach s \<Longrightarrow> target_run ms s = Some t \<Longrightarrow> target_reach t"
  by (induction ms arbitrary: s) (auto split: option.splits intro: target_reach.Move)

lemma reach_induct [consumes 1, case_names Start Command Handler Monitor]:
  assumes "target_reach s"
    and "\<And>enabled. P (target_init enabled)"
    and "\<And>s th. target_reach s \<Longrightarrow> P s \<Longrightarrow> th \<in> range handleModemCommand \<union> range handleVehicleState
      \<Longrightarrow> P (s\<lparr>tg_handlers := tg_handlers s @ [th]\<rparr>)"
    and "\<And>s n h hs ok1 ok2 t cont. target_reach s \<Longrightarrow> P s \<Longrightarrow> n < length (tg_handlers s) \<Longrightarrow> tg_handlers s ! n = h # hs
      \<Longrightarrow> handler_step ok1 ok2 h s = (t, cont) \<Longrightarrow> P (t\<lparr>tg_handlers := (tg_handlers s)[n := cont @ hs]\<rparr>)"
    and "\<And>s ok1 ok2 t. target_reach s \<Longrightarrow> P s \<Longrightarrow> monitor_step ok1 ok2 s = Some t \<Longrightarrow> P t"
  shows "P s"
  using assms(1)
proof (induction rule: target_reach.induct)
  case (Start enabled)
  then show ?case by (rule assms(2))
next
  case (Move s m t)
  show ?case
  proof (cases m)
    case (Command c)
    then show ?thesis using Move assms(3) [of s "handleModemCommand c"] by auto
  next
    case (VehicleState v)
    then show ?thesis using Move assms(3) [of s "handleVehicleState v"] by auto
  next
    case (Handler n ok1 ok2)
    then show ?thesis using Move.hyps Move.IH assms(4) [of s n _ _ ok1 ok2]
      by (auto split: if_splits list.splits prod.splits)
  next
    case (Monitor ok1 ok2)
    then show ?thesis using Move assms(5) by auto
  qed
qed


section \<open>No command is lost\<close>

text \<open>Every handler is somewhere in one of the programs, so a change it has made is followed by its signal.\<close>

definition th_ok :: "hstep list \<Rightarrow> bool" where
  "th_ok th \<longleftrightarrow> th \<in> set (suffixes [HStore True, HInhibit, HSignal]) \<union>
     set (suffixes [HStore False, HCancel, HSignal]) \<union> {[HSwapOn]}"

lemma th_ok_iff: "th_ok th \<longleftrightarrow> th \<in> {[], [HSignal], [HInhibit, HSignal], [HStore True, HInhibit, HSignal],
    [HCancel, HSignal], [HStore False, HCancel, HSignal], [HSwapOn]}"
  by (auto simp: th_ok_def)

lemma th_ok_start: "th \<in> range handleModemCommand \<union> range handleVehicleState \<Longrightarrow> th_ok th"
  by (auto simp: th_ok_iff handleModemCommand_def handleVehicleState_def split: if_splits)

lemma th_ok_step: "th_ok (h # hs) \<Longrightarrow> handler_step ok1 ok2 h s = (t, cont) \<Longrightarrow> th_ok (cont @ hs)"
  by (auto simp: th_ok_iff split: if_splits)

definition signal_pending :: "target \<Rightarrow> bool" where
  "signal_pending s \<longleftrightarrow> tg_signal s \<or> (\<exists>th \<in> set (tg_handlers s). HSignal \<in> set th)"

text \<open>What the monitor has done or is about to do fits \<open>modemEnabled\<close>.\<close>

definition fits :: "target \<Rightarrow> bool" where
  "fits s \<longleftrightarrow>
     (case tg_monitor s of
        MDisabling ds \<Rightarrow> \<not> tg_enabled s \<and> \<not> tg_applied s \<and> (DPowerOff \<in> set ds \<or> tg_down s)
      | MReady \<Rightarrow> tg_enabled s
      | MEnabling g \<Rightarrow> tg_enabled s
      | _ \<Rightarrow> if tg_enabled s then tg_applied s \<or> tg_failed s else \<not> tg_applied s \<and> tg_down s)"

lemma fits_handlers [simp]: "fits (s\<lparr>tg_handlers := x\<rparr>) = fits s"
  by (simp add: fits_def split: monitor.split)

definition target_inv :: "target \<Rightarrow> bool" where
  "target_inv s \<longleftrightarrow> (\<forall>th \<in> set (tg_handlers s). th_ok th) \<and> (\<not> signal_pending s \<longrightarrow> fits s)"

lemma handler_keeps_inv:
  assumes "target_inv s" "n < length (tg_handlers s)" "tg_handlers s ! n = h # hs"
    and "handler_step ok1 ok2 h s = (t, cont)"
  shows "target_inv (t\<lparr>tg_handlers := (tg_handlers s)[n := cont @ hs]\<rparr>)"
proof -
  have ok: "th_ok (h # hs)" using assms(1-3) nth_mem unfolding target_inv_def by metis
  let ?u = "t\<lparr>tg_handlers := (tg_handlers s)[n := cont @ hs]\<rparr>"
  have threads: "\<forall>th \<in> set (tg_handlers ?u). th_ok th"
    using assms(1) th_ok_step [OF ok assms(4)] set_update_subset_insert [of "tg_handlers s" n "cont @ hs"]
    by (auto simp: target_inv_def)
  have here: "cont @ hs \<in> set (tg_handlers ?u)" using assms(2) by (simp add: set_update_memI)
  have "fits ?u" if quiet: "\<not> signal_pending ?u"
  proof -
    have no: "HSignal \<notin> set (cont @ hs)" using quiet here by (auto simp: signal_pending_def)
    have h: "h = HSwapOn \<and> tg_enabled s"
      using ok no quiet assms(4) by (auto simp: th_ok_iff signal_pending_def signalModemStateChange_def split: if_splits)
    then have t: "t = s" "cont = []" "hs = []" using assms(4) ok by (auto simp: th_ok_iff)
    have "\<not> signal_pending s"
    proof
      assume "signal_pending s"
      then obtain th where th: "th \<in> set (tg_handlers s)" "HSignal \<in> set th"
        using quiet t by (auto simp: signal_pending_def)
      then obtain k where k: "k < length (tg_handlers s)" "tg_handlers s ! k = th" by (metis in_set_conv_nth)
      then have "k \<noteq> n" using th(2) assms(3) h t by auto
      then have "th \<in> set (tg_handlers ?u)" using k assms(2) by (auto simp: set_conv_nth nth_list_update)
      with th(2) quiet show False by (auto simp: signal_pending_def)
    qed
    with assms(1) t show ?thesis by (simp add: target_inv_def)
  qed
  with threads show ?thesis by (simp add: target_inv_def)
qed

lemma disable_step_keeps [simp]:
  "tg_handlers (disable_step ok1 ok2 d s) = tg_handlers s" "tg_signal (disable_step ok1 ok2 d s) = tg_signal s"
  "tg_enabled (disable_step ok1 ok2 d s) = tg_enabled s" "tg_applied (disable_step ok1 ok2 d s) = tg_applied s"
  "tg_down (disable_step ok1 ok2 d s) = (d = DPowerOff \<or> tg_down s)"
  "tg_monitor (disable_step ok1 ok2 d s) = tg_monitor s"
  "tg_cancel (disable_step ok1 ok2 d s) = tg_cancel s" "tg_generation (disable_step ok1 ok2 d s) = tg_generation s"
  "tg_cancelled (disable_step ok1 ok2 d s) = tg_cancelled s" "tg_log (disable_step ok1 ok2 d s) = tg_log s @ [d]"
  by (cases d; simp)+

lemmas operation_defs = startModemOperation_def finishModemOperation_def Let_def

lemma monitor_keeps_inv:
  assumes "target_inv s" "monitor_step ok1 ok2 s = Some t"
  shows "target_inv t"
proof -
  have handlers: "tg_handlers t = tg_handlers s"
    using assms(2) by (auto simp: monitor_step_def operation_defs reconcileModemTarget_def
        split: monitor.splits list.splits if_splits)
  have "fits t" if "\<not> signal_pending t"
  proof (cases "tg_monitor s = MIdle \<and> ok1")
    case True
    then show ?thesis using assms that handlers
      by (auto simp: monitor_step_def reconcileModemTarget_def fits_def disableModem_def split: if_splits)
  next
    case False
    then have "tg_signal t = tg_signal s"
      using assms(2) by (auto simp: monitor_step_def operation_defs split: monitor.splits list.splits if_splits)
    then have "fits s" using assms(1) that handlers by (auto simp: target_inv_def signal_pending_def)
    with False assms(2) show ?thesis
      by (auto simp: monitor_step_def operation_defs fits_def split: monitor.splits list.splits if_splits)
  qed
  with assms(1) handlers show ?thesis by (simp add: target_inv_def)
qed

lemma target_reach_inv: "target_reach s \<Longrightarrow> target_inv s"
proof (induction rule: reach_induct)
  case (Start enabled)
  then show ?case by (simp add: target_inv_def target_init_def signal_pending_def fits_def disableModem_def)
next
  case (Command s th)
  then show ?case using th_ok_start [of th] by (auto simp: target_inv_def signal_pending_def)
next
  case (Handler s n h hs ok1 ok2 t cont)
  then show ?case using handler_keeps_inv by blast
next
  case (Monitor s ok1 ok2 t)
  then show ?case using monitor_keeps_inv by blast
qed


section \<open>Cancellation\<close>

definition cancel_pending :: "target \<Rightarrow> bool" where
  "cancel_pending s \<longleftrightarrow> (\<exists>th \<in> set (tg_handlers s). HCancel \<in> set th \<and> HStore False \<notin> set th)"

definition running :: "target \<Rightarrow> nat option" where
  "running s = (case tg_monitor s of MEnabling g \<Rightarrow> Some g | MChecking g \<Rightarrow> Some g | MWorking g \<Rightarrow> Some g | _ \<Rightarrow> None)"

definition cancel_inv :: "target \<Rightarrow> bool" where
  "cancel_inv s \<longleftrightarrow> (\<forall>th \<in> set (tg_handlers s). th_ok th)
     \<and> (\<forall>g. running s = Some g \<longrightarrow> tg_cancel s = Some g \<and> tg_generation s = g)
     \<and> (\<forall>g. tg_monitor s = MWorking g \<longrightarrow> tg_enabled s \<or> g \<in> set (tg_cancelled s) \<or> cancel_pending s)"

lemma cancel_pending_update:
  assumes "cancel_pending s" "n < length (tg_handlers s)" "tg_handlers s ! n = h # hs" "th_ok (h # hs)"
  shows "h = HCancel \<or> cancel_pending (t\<lparr>tg_handlers := (tg_handlers s)[n := cont @ hs]\<rparr>)"
proof -
  from assms(1) obtain k where k: "k < length (tg_handlers s)" "HCancel \<in> set (tg_handlers s ! k)"
    "HStore False \<notin> set (tg_handlers s ! k)" unfolding cancel_pending_def by (metis in_set_conv_nth)
  show ?thesis
  proof (cases "k = n")
    case True
    then show ?thesis using assms(3,4) k by (auto simp: th_ok_iff)
  next
    case False
    then have "tg_handlers s ! k \<in> set ((tg_handlers s)[n := cont @ hs])"
      using k(1) by (metis length_list_update nth_list_update_neq nth_mem)
    with k show ?thesis by (auto simp: cancel_pending_def)
  qed
qed

lemma handler_keeps_cancel:
  assumes "cancel_inv s" "n < length (tg_handlers s)" "tg_handlers s ! n = h # hs"
    and "handler_step ok1 ok2 h s = (t, cont)"
  shows "cancel_inv (t\<lparr>tg_handlers := (tg_handlers s)[n := cont @ hs]\<rparr>)"
proof -
  let ?u = "t\<lparr>tg_handlers := (tg_handlers s)[n := cont @ hs]\<rparr>"
  have ok: "th_ok (h # hs)" using assms(1-3) nth_mem unfolding cancel_inv_def by metis
  have threads: "\<forall>th \<in> set (tg_handlers ?u). th_ok th"
    using assms(1) th_ok_step [OF ok assms(4)] set_update_subset_insert [of "tg_handlers s" n "cont @ hs"]
    by (auto simp: cancel_inv_def)
  have monitor: "tg_monitor t = tg_monitor s" "tg_cancel t = tg_cancel s" "tg_generation t = tg_generation s"
    using assms(4) by (cases h; auto simp: cancelModemOperation_def signalModemStateChange_def split: if_splits option.splits)+
  have here: "cont @ hs \<in> set (tg_handlers ?u)" using assms(2) by (simp add: set_update_memI)
  have "tg_enabled t \<or> g \<in> set (tg_cancelled t) \<or> cancel_pending ?u" if "tg_monitor s = MWorking g" for g
  proof -
    have g: "tg_cancel s = Some g" using assms(1) that by (simp add: cancel_inv_def running_def)
    have old: "tg_enabled s \<or> g \<in> set (tg_cancelled s) \<or> cancel_pending s" using assms(1) that by (simp add: cancel_inv_def)
    consider "h = HCancel" | "h = HStore False" | "h \<noteq> HCancel" "h \<noteq> HStore False" by blast
    then show ?thesis
    proof cases
      case 1
      then show ?thesis using g assms(4) by (auto simp: cancelModemOperation_def)
    next
      case 2
      then have "hs = [HCancel, HSignal]" "cont = []" using ok assms(4) by (auto simp: th_ok_iff)
      then have "cancel_pending ?u" unfolding cancel_pending_def by (intro bexI [OF _ here]) simp
      then show ?thesis by simp
    next
      case 3
      then have "tg_enabled s \<longrightarrow> tg_enabled t" "tg_cancelled t = tg_cancelled s"
        using assms(4) by (cases h; auto simp: signalModemStateChange_def split: if_splits)+
      then show ?thesis using old 3 cancel_pending_update [OF _ assms(2,3) ok] by auto
    qed
  qed
  with assms(1) threads monitor show ?thesis by (auto simp: cancel_inv_def running_def)
qed

lemma monitor_keeps_cancel:
  assumes "cancel_inv s" "monitor_step ok1 ok2 s = Some t"
  shows "cancel_inv t"
  using assms
  by (auto simp: monitor_step_def operation_defs reconcileModemTarget_def cancel_inv_def running_def cancel_pending_def
      split: monitor.splits list.splits if_splits)

lemma target_reach_cancel: "target_reach s \<Longrightarrow> cancel_inv s"
proof (induction rule: reach_induct)
  case (Start enabled)
  then show ?case by (simp add: cancel_inv_def target_init_def running_def)
next
  case (Command s th)
  then show ?case using th_ok_start [of th] by (auto simp: cancel_inv_def running_def cancel_pending_def)
next
  case (Handler s n h hs ok1 ok2 t cont)
  then show ?case using handler_keeps_cancel by blast
next
  case (Monitor s ok1 ok2 t)
  then show ?case using monitor_keeps_cancel by blast
qed


section \<open>Powering off\<close>

text \<open>The log is made of whole runs of \<open>disableModem\<close>, the last one perhaps unfinished.\<close>

definition whole_runs :: "target \<Rightarrow> bool" where
  "whole_runs s \<longleftrightarrow> (\<exists>n k. tg_log s = concat (replicate n disableModem) @ take k disableModem \<and>
     (case tg_monitor s of MDisabling ds \<Rightarrow> ds = drop k disableModem \<and> k \<le> length disableModem | _ \<Rightarrow> k = 0))"

lemma concat_replicate_Suc: "concat (replicate n xs) @ xs = concat (replicate (Suc n) xs)"
  by (induction n) simp_all

lemma handler_keeps_log:
  "handler_step ok1 ok2 h s = (t, cont) \<Longrightarrow> tg_log t = tg_log s \<and> tg_monitor t = tg_monitor s"
  by (cases h) (auto simp: cancelModemOperation_def signalModemStateChange_def split: if_splits option.splits)

lemma monitor_keeps_log:
  assumes "whole_runs s" "monitor_step ok1 ok2 s = Some t"
  shows "whole_runs t"
proof -
  obtain n k where log: "tg_log s = concat (replicate n disableModem) @ take k disableModem"
    "case tg_monitor s of MDisabling ds \<Rightarrow> ds = drop k disableModem \<and> k \<le> length disableModem | _ \<Rightarrow> k = 0"
    using assms(1) by (auto simp: whole_runs_def)
  show ?thesis
  proof (cases "\<exists>ds. tg_monitor s = MDisabling ds")
    case False
    then have "tg_log t = tg_log s" "\<forall>ds. tg_monitor t = MDisabling ds \<longrightarrow> ds = disableModem"
      using assms(2) by (auto simp: monitor_step_def operation_defs reconcileModemTarget_def
          split: monitor.splits list.splits if_splits)
    moreover have "k = 0" using log(2) False by (simp split: monitor.splits)
    ultimately show ?thesis using log(1) unfolding whole_runs_def
      by (intro exI [of _ n] exI [of _ 0]) (simp split: monitor.splits)
  next
    case True
    then obtain ds where ds: "tg_monitor s = MDisabling ds" "ds = drop k disableModem" "k \<le> length disableModem"
      using log(2) by auto
    show ?thesis
    proof (cases ds)
      case Nil
      then have "k = length disableModem" using ds by simp
      then have "tg_log t = concat (replicate (Suc n) disableModem)" "tg_monitor t = MIdle"
        using assms(2) ds Nil log(1) concat_replicate_Suc [of n disableModem] by (auto simp: monitor_step_def simp del: replicate_Suc)
      then show ?thesis unfolding whole_runs_def by (intro exI [of _ "Suc n"] exI [of _ 0]) simp
    next
      case (Cons d ds')
      then have k: "k < length disableModem" "d = disableModem ! k" "ds' = drop (Suc k) disableModem"
        using ds nth_via_drop [of k disableModem d ds'] tl_drop [of k disableModem]
        by (cases "k < length disableModem"; auto simp: drop_Suc drop_tl [symmetric])+
      have "tg_log t = tg_log s @ [d]" "tg_monitor t = MDisabling ds'"
        using assms(2) ds(1) Cons by (auto simp: monitor_step_def)
      with k log(1) have "tg_log t = concat (replicate n disableModem) @ take (Suc k) disableModem
          \<and> (case tg_monitor t of MDisabling ds \<Rightarrow> ds = drop (Suc k) disableModem \<and> Suc k \<le> length disableModem
               | _ \<Rightarrow> Suc k = 0)"
        by (simp add: take_Suc_conv_app_nth)
      then show ?thesis unfolding whole_runs_def by blast
    qed
  qed
qed

lemma target_reach_log: "target_reach s \<Longrightarrow> whole_runs s"
proof (induction rule: reach_induct)
  case (Start enabled)
  then show ?case unfolding whole_runs_def by (intro exI [of _ 0] exI [of _ 0]) (simp add: target_init_def)
next
  case (Command s th)
  then show ?case by (simp add: whole_runs_def)
next
  case (Handler s n h hs ok1 ok2 t cont)
  then show ?case using handler_keeps_log [of ok1 ok2 h s t cont] by (simp add: whole_runs_def)
next
  case (Monitor s ok1 ok2 t)
  then show ?case using monitor_keeps_log by blast
qed

section \<open>Properties\<close>


text \<open>
   A disable command cancels what is running: while an operation of \<open>reconcileAPN\<close> or \<open>applyRemedy\<close> is past its
  check and the modem is not enabled, its context is cancelled, unless the handler that is to cancel it
  has stored the new value and not yet got to \<open>cancelModemOperation\<close>.
\<close>

theorem disable_cancels_operation:
  assumes "target_reach s" and "tg_monitor s = MWorking g" and "\<not> tg_enabled s"
    and "\<not> cancel_pending s"
  shows "g \<in> set (tg_cancelled s)"
  using target_reach_cancel [OF assms(1)] assms(2-4) by (auto simp: cancel_inv_def)

text \<open>
   The inhibitor is released last: in every run the calls that power the modem off come in whole sequences, so
  each release of the inhibitor directly follows the flush of the usage counter, and that the power-off.
\<close>

theorem release_follows_power_off:
  assumes "target_reach s"
  shows "\<exists>n k. tg_log s = concat (replicate n [DPresence, DCloseGPS, DPublish, DPowerOff, DFlush, DRelease])
    @ take k [DPresence, DCloseGPS, DPublish, DPowerOff, DFlush, DRelease]"
  using target_reach_log [OF assms] by (auto simp: whole_runs_def disableModem_def)


text \<open>Schedules. A disable command carried out, with an enable command after it or in between.\<close>

definition handle :: "nat \<Rightarrow> nat \<Rightarrow> move list" where "handle n steps = replicate steps (Handler n True True)"
definition monitor_moves :: "nat \<Rightarrow> move list" where "monitor_moves k = replicate k (Monitor True True)"

definition off_and_on :: "move list" where
  "off_and_on = Command ''disable'' # handle 0 3 @ monitor_moves 8 @ Command ''enable'' # handle 1 3 @ monitor_moves 3"

definition off_while_working :: "move list" where
  "off_while_working = [Monitor False True, Monitor True True, Command ''disable''] @ handle 0 3"

definition enable_during_off :: "move list" where
  "enable_during_off = Command ''disable'' # handle 0 3 @ monitor_moves 6 @ Command ''enable'' # handle 1 3 @ monitor_moves 5"

definition disable_before_start :: "move list" where
  "disable_before_start = Command ''disable'' # handle 0 3 @ monitor_moves 8 @ Command ''enable'' # handle 1 3
     @ monitor_moves 1 @ Command ''disable'' # handle 2 3 @ monitor_moves 1"


definition run_to :: "move list \<Rightarrow> (target \<Rightarrow> bool) \<Rightarrow> bool" where
  "run_to ms P = (case target_run ms (target_init True) of None \<Rightarrow> False | Some s \<Rightarrow> P s)"

lemma run_toE:
  assumes "run_to ms P"
  obtains s where "target_run ms (target_init True) = Some s" "target_reach s" "P s"
  using assms target_run_reach [OF target_reach.Start] by (auto simp: run_to_def split: option.splits)


lemma disable_cancels_operation_witness:
  "\<exists>s g. target_reach s \<and> tg_monitor s = MWorking g \<and> g \<in> set (tg_cancelled s)"
proof -
  have "run_to off_while_working (\<lambda>s. tg_monitor s = MWorking 1 \<and> \<not> tg_enabled s \<and> \<not> cancel_pending s)"
    unfolding cancel_pending_def by code_simp
  then obtain s where s: "target_reach s" "tg_monitor s = MWorking 1" "\<not> tg_enabled s" "\<not> cancel_pending s"
    unfolding cancel_pending_def by (rule run_toE) simp
  from disable_cancels_operation [OF s] s show ?thesis by blast
qed

lemma release_follows_power_off_witness:
  "\<exists>s n k. target_reach s \<and> tg_log s = concat (replicate n [DPresence, DCloseGPS, DPublish, DPowerOff, DFlush, DRelease])
    @ take k [DPresence, DCloseGPS, DPublish, DPowerOff, DFlush, DRelease]"
  using release_follows_power_off [OF target_reach.Start [of False]] target_reach.Start by blast


text \<open>
   A disable command can miss the operation it is to cancel: \<open>reconcileModemTarget\<close> reads \<open>modemEnabled\<close> before it
  registers the operation, unlike the other operations, and does not read it again. With a disable command in
  between, the handlers have run to their end, the modem is disabled, and \<open>ensureModemEnabled\<close> runs with a
  context that nobody has cancelled.
\<close>

theorem disable_misses_enabling:
  "\<exists>s. target_reach s \<and> tg_monitor s = MEnabling 1 \<and> \<not> tg_enabled s \<and> concat (tg_handlers s) = []
    \<and> 1 \<notin> set (tg_cancelled s)"
proof -
  have "run_to disable_before_start (\<lambda>s. tg_monitor s = MEnabling 1 \<and> \<not> tg_enabled s \<and> concat (tg_handlers s) = []
    \<and> 1 \<notin> set (tg_cancelled s))"
    by code_simp
  then show ?thesis by (rule run_toE) blast
qed

end
