(* ===== verification/Sms_Storage.thy ===== *)
theory Sms_Storage
  imports Go_Strings MM_Bearer State_Logic
begin

text \<open>
  \<open>internal/service/sms_storage.go\<close>: when the store that receives messages is full, the other store is
  selected, without deleting a message. The two regular expressions are matched by hand: their
  quantifiers never have a choice, since what follows a run of digits or of blanks cannot be part of it.
\<close>

section \<open>Parsing\<close>

record smsStorage =
  ss_name :: string
  ss_used :: int
  ss_capacity :: int

definition re_space :: "char \<Rightarrow> bool" where
  "re_space c \<longleftrightarrow> c \<in> {CHR 0x09, CHR 0x0A, CHR 0x0C, CHR 0x0D, CHR '' ''}"

definition skip_ws :: "string \<Rightarrow> string" where "skip_ws s = dropWhile re_space s"

text \<open>\<open>(\d+)\<close>, and \<open>\s*,\s*(\d+)\<close>: the digits and what is left.\<close>

definition re_number :: "string \<Rightarrow> (string \<times> string) option" where
  "re_number s = (let d = takeWhile is_digit s in if d = [] then None else Some (d, dropWhile is_digit s))"

definition re_comma_number :: "string \<Rightarrow> (string \<times> string) option" where
  "re_comma_number s =
     (case skip_ws s of c # r \<Rightarrow> if c = CHR '','' then re_number (skip_ws r) else None | [] \<Rightarrow> None)"

fun re_comma_numbers :: "nat \<Rightarrow> string \<Rightarrow> (string list \<times> string) option" where
  "re_comma_numbers 0 s = Some ([], s)"
| "re_comma_numbers (Suc n) s =
     (case re_comma_number s of None \<Rightarrow> None
      | Some (d, r) \<Rightarrow> map_option (\<lambda>(ds, rest). (d # ds, rest)) (re_comma_numbers n r))"

definition storage_names :: "string list" where "storage_names = [''SM'', ''ME'', ''MT'', ''SR'']"

definition quoted_name :: "string \<Rightarrow> string" where "quoted_name n = [CHR 0x22] @ n @ [CHR 0x22]"

text \<open>\<open>cpmsStoragePattern\<close> at the start of a text.\<close>

definition match_storage :: "string \<Rightarrow> ((string \<times> string \<times> string) \<times> string) option" where
  "match_storage s =
     (case find (\<lambda>n. prefix (quoted_name n) s) storage_names of
        None \<Rightarrow> None
      | Some n \<Rightarrow> (case re_comma_numbers 2 (drop 4 s) of
          Some ([u, c], rest) \<Rightarrow> Some ((n, u, c), rest)
        | _ \<Rightarrow> None))"

fun find_storages :: "nat \<Rightarrow> string \<Rightarrow> (string \<times> string \<times> string) list" where
  "find_storages 0 s = []"
| "find_storages (Suc n) s =
     (case s of [] \<Rightarrow> []
      | c # r \<Rightarrow> (case match_storage s of Some (m, rest) \<Rightarrow> m # find_storages n rest | None \<Rightarrow> find_storages n r))"

definition storage_of :: "string \<times> string \<times> string \<Rightarrow> smsStorage option" where
  "storage_of m = (case m of (n, u, c) \<Rightarrow>
     (case (Atoi u, Atoi c) of
        (Some used, Some capacity) \<Rightarrow>
          if used > capacity then None else Some \<lparr>ss_name = n, ss_used = used, ss_capacity = capacity\<rparr>
      | _ \<Rightarrow> None))"

text \<open>The length of the text bounds the number of places where a match can start.\<close>

definition parseSMSStorage :: "string \<Rightarrow> smsStorage list option" where
  "parseSMSStorage response =
     (let matches = find_storages (length response) response in
      if length matches \<noteq> 3 then None else those (map storage_of matches))"

text \<open>\<open>cpmsCountPattern.FindStringSubmatch\<close>.\<close>

definition match_counts :: "string \<Rightarrow> string list option" where
  "match_counts s =
     (if \<not> prefix ''+CPMS:'' s then None
      else case re_number (skip_ws (drop 6 s)) of
        None \<Rightarrow> None
      | Some (d, r) \<Rightarrow> map_option (\<lambda>(ds, rest). d # ds) (re_comma_numbers 5 r))"

fun find_counts :: "string \<Rightarrow> string list option" where
  "find_counts [] = None"
| "find_counts (c # r) = (case match_counts (c # r) of Some ds \<Rightarrow> Some ds | None \<Rightarrow> find_counts r)"

definition cpmsCommand :: "string \<Rightarrow> string \<Rightarrow> string \<Rightarrow> string" where
  "cpmsCommand r w v = ''AT+CPMS='' @ quoted_name r @ '','' @ quoted_name w @ '','' @ quoted_name v"

section \<open>The modem\<close>

text \<open>
  A selection is sent as \<open>cpmsCommand\<close>. A command that fails changes nothing; one that succeeds takes effect.
\<close>

datatype storage_call = StQuery | StSelect string | StProperty string | StSetDefault u32

record modem_store =
  mo_selection :: "string \<times> string \<times> string"
  mo_default :: u32
  mo_calls :: "storage_call list"

record storage_env =
  se_query :: "storage_call list \<Rightarrow> string option"
  se_select :: "storage_call list \<Rightarrow> string \<times> string \<times> string \<Rightarrow> string option"
  se_property :: "storage_call list \<Rightarrow> string \<Rightarrow> variant option"
  se_set :: "storage_call list \<Rightarrow> u32 \<Rightarrow> bool"

type_synonym 'a storage_m = "(modem_store, 'a) state"

definition query :: "storage_env \<Rightarrow> string option storage_m" where
  "query env = State (\<lambda>m. (se_query env (mo_calls m), m\<lparr>mo_calls := mo_calls m @ [StQuery]\<rparr>))"

definition select :: "storage_env \<Rightarrow> string \<times> string \<times> string \<Rightarrow> string option storage_m" where
  "select env sel = State (\<lambda>m. let a = se_select env (mo_calls m) sel in
     (a, m\<lparr>mo_selection := (if a = None then mo_selection m else sel),
           mo_calls := mo_calls m @ [StSelect (cpmsCommand (fst sel) (fst (snd sel)) (snd (snd sel)))]\<rparr>))"

definition property :: "storage_env \<Rightarrow> string \<Rightarrow> variant option storage_m" where
  "property env p = State (\<lambda>m. (se_property env (mo_calls m) p, m\<lparr>mo_calls := mo_calls m @ [StProperty p]\<rparr>))"

definition SetSMSDefaultStorage :: "storage_env \<Rightarrow> u32 \<Rightarrow> bool storage_m" where
  "SetSMSDefaultStorage env i = State (\<lambda>m. let a = se_set env (mo_calls m) i in
     (a, m\<lparr>mo_default := (if a then i else mo_default m), mo_calls := mo_calls m @ [StSetDefault i]\<rparr>))"

section \<open>Recovery\<close>

definition alternate_of :: "string \<Rightarrow> (string \<times> u32) option" where
  "alternate_of receive =
     (if receive = ''SM'' then Some (''ME'', 2) else if receive \<noteq> ''ME'' then None else Some (''SM'', 1))"

definition has_room :: "string \<Rightarrow> bool" where
  "has_room probe =
     (case find_counts (TrimSpace probe) of
        Some (u # c # _) \<Rightarrow> (case (Atoi u, Atoi c) of
          (Some used, Some capacity) \<Rightarrow> \<not> (capacity \<le> 0 \<or> used \<ge> capacity) | _ \<Rightarrow> False)
      | _ \<Rightarrow> False)"

definition restore :: "storage_env \<Rightarrow> string \<times> string \<times> string \<Rightarrow> unit storage_m" where
  "restore env original = do { _ \<leftarrow> select env original; State_Monad.return () }"

definition switch_storage ::
  "storage_env \<Rightarrow> string \<times> string \<times> string \<Rightarrow> string \<Rightarrow> u32 \<Rightarrow> u32 \<Rightarrow> unit storage_m" where
  "switch_storage env original alternate storageID previousID = do {
     probe \<leftarrow> select env (alternate, snd original);
     if \<not> (case probe of None \<Rightarrow> False | Some p \<Rightarrow> has_room p) then restore env original else do {
       default_set \<leftarrow> SetSMSDefaultStorage env storageID;
       if \<not> default_set then do { _ \<leftarrow> SetSMSDefaultStorage env previousID; restore env original } else do {
         switched \<leftarrow> select env (alternate, alternate, alternate);
         if switched = None then do { _ \<leftarrow> SetSMSDefaultStorage env previousID; restore env original }
         else State_Monad.return ()
       }
     }
   }"

definition store_names :: "smsStorage list \<Rightarrow> string \<times> string \<times> string" where
  "store_names stores = (ss_name (stores ! 0), ss_name (stores ! 1), ss_name (stores ! 2))"

definition recoverFullSMSStorage :: "storage_env \<Rightarrow> unit storage_m" where
  "recoverFullSMSStorage env = do {
     response \<leftarrow> query env;
     case Option.bind response parseSMSStorage of
       None \<Rightarrow> State_Monad.return ()
     | Some stores \<Rightarrow>
         let receive = stores ! 2 in
         if ss_capacity receive = 0 \<or> ss_used receive < ss_capacity receive then State_Monad.return ()
         else (case alternate_of (ss_name receive) of
           None \<Rightarrow> State_Monad.return ()
         | Some (alternate, storageID) \<Rightarrow> do {
             supported \<leftarrow> property env ''SupportedStorages'';
             case supported of
               Some (VUInts ids) \<Rightarrow>
                 if storageID \<notin> set ids then State_Monad.return () else do {
                   previous \<leftarrow> property env ''DefaultStorage'';
                   case previous of
                     Some (VUInt32 previousID) \<Rightarrow> switch_storage env (store_names stores) alternate storageID previousID
                   | _ \<Rightarrow> State_Monad.return ()
                 }
             | _ \<Rightarrow> State_Monad.return ()
           })
   }"

section \<open>Lemmas\<close>

lemma run_storage [simp]:
  "run_state (query env) m = (se_query env (mo_calls m), m\<lparr>mo_calls := mo_calls m @ [StQuery]\<rparr>)"
  "run_state (property env p) m = (se_property env (mo_calls m) p, m\<lparr>mo_calls := mo_calls m @ [StProperty p]\<rparr>)"
  by (simp_all add: query_def property_def)

lemma select_restores:
  assumes "\<And>l. se_select env l original \<noteq> None"
  shows "mo_selection (snd (run_state (restore env original) m)) = original
    \<and> mo_default (snd (run_state (restore env original) m)) = mo_default m"
  using assms [of "mo_calls m"] by (auto simp: restore_def select_def Let_def)

lemma set_previous:
  assumes "\<And>l. se_set env l previousID"
  shows "mo_default (snd (run_state (SetSMSDefaultStorage env previousID) m)) = previousID"
  using assms by (simp add: SetSMSDefaultStorage_def Let_def)

lemma switch_outcome:
  assumes undoes: "\<And>l. se_select env l original \<noteq> None" "\<And>l. se_set env l previousID"
    and "mo_default m = previousID"
  shows "let t = snd (run_state (switch_storage env original alternate storageID previousID) m) in
    mo_selection t = original \<and> mo_default t = previousID
    \<or> mo_selection t = (alternate, alternate, alternate) \<and> mo_default t = storageID
        \<and> (\<exists>l p. se_select env l (alternate, snd original) = Some p \<and> has_room p)"
proof -
  define p where "p = se_select env (mo_calls m) (alternate, snd original)"
  obtain m1 where probe: "run_state (select env (alternate, snd original)) m = (p, m1)" "mo_default m1 = previousID"
    using assms(3) by (simp add: select_def Let_def p_def)
  obtain d m2 where set: "run_state (SetSMSDefaultStorage env storageID) m1 = (d, m2)"
    "mo_default m2 = (if d then storageID else previousID)"
    using probe(2) by (simp add: SetSMSDefaultStorage_def Let_def)
  obtain w m3 where final: "run_state (select env (alternate, alternate, alternate)) m2 = (w, m3)"
    "mo_default m3 = mo_default m2" "w \<noteq> None \<longrightarrow> mo_selection m3 = (alternate, alternate, alternate)"
    by (simp add: select_def Let_def)
  have undo: "mo_selection (snd (run_state (SetSMSDefaultStorage env previousID \<bind> (\<lambda>_. restore env original)) n)) = original
    \<and> mo_default (snd (run_state (SetSMSDefaultStorage env previousID \<bind> (\<lambda>_. restore env original)) n)) = previousID" for n
    using select_restores [OF undoes(1)] set_previous [OF undoes(2)] by (simp split: prod.split) (metis snd_conv)
  show ?thesis
    using probe set final undo select_restores [OF undoes(1), of m1] p_def
    by (auto simp: switch_storage_def Let_def split: option.splits)
qed


section \<open>Printing and parsing\<close>

text \<open>What a modem answers to \<open>AT+CPMS?\<close>: three stores, with blanks where the modem puts them.\<close>

fun print_store :: "string \<Rightarrow> smsStorage \<Rightarrow> string" where
  "print_store gap s = quoted_name (ss_name s) @ gap @ '','' @ gap @ dec_str (nat (ss_used s)) @ gap @ '','' @ gap
     @ dec_str (nat (ss_capacity s))"

definition store_ok :: "smsStorage \<Rightarrow> bool" where
  "store_ok s \<longleftrightarrow> ss_name s \<in> set storage_names \<and> 0 \<le> ss_used s \<and> ss_used s \<le> ss_capacity s
     \<and> ss_capacity s \<le> max_int64"

definition quiet :: "string \<Rightarrow> bool" where
  "quiet s \<longleftrightarrow> CHR 0x22 \<notin> set s"

lemma digit_not_space: "is_digit c \<Longrightarrow> \<not> re_space c"
  by (auto simp: re_space_def is_digit_def)

lemma digit_not_comma: "is_digit c \<Longrightarrow> c \<noteq> CHR '',''"
  by (auto simp: is_digit_def)

lemma takeWhile_digits: "list_all is_digit d \<Longrightarrow> \<not> (\<exists>c r. s = c # r \<and> is_digit c)
    \<Longrightarrow> takeWhile is_digit (d @ s) = d \<and> dropWhile is_digit (d @ s) = s"
  by (induction d) (auto, (cases s; simp)+)

lemma re_number_dec: "\<not> (\<exists>c r. s = c # r \<and> is_digit c) \<Longrightarrow> re_number (dec_str n @ s) = Some (dec_str n, s)"
  using takeWhile_digits [OF dec_str_digits, of s n] by (simp add: re_number_def Let_def)

lemma skip_gap: "list_all re_space gap \<Longrightarrow> \<not> (\<exists>c r. s = c # r \<and> re_space c) \<Longrightarrow> skip_ws (gap @ s) = s"
  by (induction gap) (auto simp: skip_ws_def, (cases s; simp))

lemma dec_str_start: "\<exists>c r. dec_str n @ s = c # r \<and> is_digit c"
  using dec_str_digits [of n] dec_str_ne [of n] by (cases "dec_str n") auto

lemma re_comma_number_dec:
  assumes "list_all re_space gap" "\<not> (\<exists>c r. s = c # r \<and> is_digit c)"
  shows "re_comma_number (gap @ '','' @ gap @ dec_str n @ s) = Some (dec_str n, s)"
proof -
  have "skip_ws (gap @ '','' @ gap @ dec_str n @ s) = '','' @ gap @ dec_str n @ s"
    by (rule skip_gap [OF assms(1)]) (simp add: re_space_def)
  moreover have "skip_ws (gap @ dec_str n @ s) = dec_str n @ s"
    by (rule skip_gap [OF assms(1)]) (use dec_str_start [of n s] digit_not_space in auto)
  ultimately show ?thesis using re_number_dec [OF assms(2)] by (simp add: re_comma_number_def)
qed

lemma Atoi_dec: "0 \<le> i \<Longrightarrow> i \<le> max_int64 \<Longrightarrow> Atoi (dec_str (nat i)) = Some i"
proof -
  assume i: "0 \<le> i" "i \<le> max_int64"
  obtain c r where cr: "dec_str (nat i) = c # r" by (cases "dec_str (nat i)") auto
  have d: "list_all is_digit (c # r)" using dec_str_digits [of "nat i"] cr by simp
  then have "c \<noteq> CHR ''-''" "c \<noteq> CHR ''+''" by (auto simp: is_digit_def)
  moreover have "digits_val (c # r) = nat i" using digits_val_dec_str [of "nat i"] cr by simp
  ultimately show ?thesis using d i cr by (simp add: Atoi_def Let_def min_int64_def)
qed

lemma find_name: "n \<in> set storage_names \<Longrightarrow> find (\<lambda>m. prefix (quoted_name m) (quoted_name n @ s)) storage_names = Some n"
  by (auto simp: storage_names_def quoted_name_def)

lemma match_print_store:
  assumes "store_ok st" "list_all re_space gap" "\<not> (\<exists>c r. s = c # r \<and> is_digit c)"
  shows "match_storage (print_store gap st @ s)
    = Some ((ss_name st, dec_str (nat (ss_used st)), dec_str (nat (ss_capacity st))), s)"
proof -
  have name: "ss_name st \<in> set storage_names" using assms(1) by (simp add: store_ok_def)
  then have len: "length (quoted_name (ss_name st)) = 4" by (auto simp: storage_names_def quoted_name_def)
  let ?c = "gap @ '','' @ gap @ dec_str (nat (ss_capacity st)) @ s"
  have "\<not> (\<exists>c r. ?c = c # r \<and> is_digit c)"
    using assms(2) by (cases gap) (auto simp: is_digit_def re_space_def)
  then have "re_comma_number (gap @ '','' @ gap @ dec_str (nat (ss_used st)) @ ?c) = Some (dec_str (nat (ss_used st)), ?c)"
    by (rule re_comma_number_dec [OF assms(2)])
  moreover have "re_comma_number ?c = Some (dec_str (nat (ss_capacity st)), s)"
    by (rule re_comma_number_dec [OF assms(2,3)])
  ultimately have "re_comma_numbers 2 (gap @ '','' @ gap @ dec_str (nat (ss_used st)) @ ?c)
      = Some ([dec_str (nat (ss_used st)), dec_str (nat (ss_capacity st))], s)"
    by (simp add: numeral_2_eq_2)
  then show ?thesis using find_name [OF name] len by (simp add: match_storage_def)
qed

lemma find_storages_quiet:
  assumes "quiet p" "length p + length s \<le> n"
  shows "\<exists>m \<ge> length s. find_storages n (p @ s) = find_storages m s"
  using assms
proof (induction p arbitrary: n)
  case (Cons c p)
  then obtain k where k: "n = Suc k" by (cases n) auto
  have "match_storage (c # p @ s) = None"
    using Cons.prems(1) by (auto simp: match_storage_def storage_names_def quoted_name_def quiet_def)
  moreover have "\<exists>m \<ge> length s. find_storages k (p @ s) = find_storages m s"
    using Cons k by (intro Cons.IH) (auto simp: quiet_def)
  ultimately show ?case using k by simp
qed auto

lemma find_storages_print:
  assumes "store_ok st" "list_all re_space gap" "\<not> (\<exists>c r. s = c # r \<and> is_digit c)"
    and "length (print_store gap st @ s) \<le> n"
  shows "\<exists>m \<ge> length s. find_storages n (print_store gap st @ s)
    = (ss_name st, dec_str (nat (ss_used st)), dec_str (nat (ss_capacity st))) # find_storages m s"
proof -
  obtain k where k: "n = Suc k" using assms(4) by (cases n) (auto simp: quoted_name_def)
  have "length s \<le> k" using assms(4) k by (auto simp: quoted_name_def)
  with match_print_store [OF assms(1-3)] k show ?thesis by (auto simp: quoted_name_def)
qed

lemma storage_of_print:
  "store_ok st \<Longrightarrow> storage_of (ss_name st, dec_str (nat (ss_used st)), dec_str (nat (ss_capacity st))) = Some st"
  by (auto simp: storage_of_def store_ok_def Atoi_dec)


lemma find_storages_end: "quiet p \<Longrightarrow> length p \<le> n \<Longrightarrow> find_storages n p = []"
proof -
  assume "quiet p" "length p \<le> n"
  then obtain m where "find_storages n (p @ []) = find_storages m []" using find_storages_quiet [of p "[]" n] by auto
  then show ?thesis by (cases m) simp_all
qed

definition separator :: "string \<Rightarrow> bool" where
  "separator s \<longleftrightarrow> quiet s \<and> (case s of [] \<Rightarrow> True | c # r \<Rightarrow> \<not> is_digit c)"

lemma separator_start: "separator s \<Longrightarrow> \<not> (\<exists>c r. s @ quoted_name n @ t = c # r \<and> is_digit c)"
  by (cases s) (auto simp: separator_def quoted_name_def is_digit_def)

lemma storages_read_back:
  assumes "store_ok a" "store_ok b" "store_ok c" "list_all re_space gap"
    and "quiet pre" "separator sep" "separator post"
  shows "parseSMSStorage (pre @ print_store gap a @ sep @ print_store gap b @ sep @ print_store gap c @ post)
    = Some [a, b, c]"
proof -
  let ?c = "print_store gap c @ post" let ?b = "print_store gap b @ sep @ ?c" let ?a = "print_store gap a @ sep @ ?b"
  let ?m = "\<lambda>s. (ss_name s, dec_str (nat (ss_used s)), dec_str (nat (ss_capacity s)))"
  have q: "quiet sep" "quiet post" using assms(6,7) by (simp_all add: separator_def)
  have ends: "\<not> (\<exists>d r. post = d # r \<and> is_digit d)" using assms(7) by (cases post) (simp_all add: separator_def)
  have sb: "\<not> (\<exists>d r. sep @ ?b = d # r \<and> is_digit d)" and sc: "\<not> (\<exists>d r. sep @ ?c = d # r \<and> is_digit d)"
    using separator_start [OF assms(6)] by auto
  have tail: "find_storages n (sep @ print_store gap s @ t) = ?m s # find_storages m t \<Longrightarrow> True" for n m s t by simp
  have c: "find_storages n (sep @ ?c) = [?m c]" if len: "length (sep @ ?c) \<le> n" for n
  proof -
    obtain m where m: "length ?c \<le> m" "find_storages n (sep @ ?c) = find_storages m ?c"
      using find_storages_quiet [OF q(1), of ?c n] len by auto
    obtain k where "length post \<le> k" "find_storages m ?c = ?m c # find_storages k post"
      using find_storages_print [OF assms(3,4) ends m(1)] by auto
    with find_storages_end [OF q(2)] m show ?thesis by simp
  qed
  have b: "find_storages n (sep @ ?b) = [?m b, ?m c]" if len: "length (sep @ ?b) \<le> n" for n
  proof -
    obtain m where m: "length ?b \<le> m" "find_storages n (sep @ ?b) = find_storages m ?b"
      using find_storages_quiet [OF q(1), of ?b n] len by auto
    obtain k where "length (sep @ ?c) \<le> k" "find_storages m ?b = ?m b # find_storages k (sep @ ?c)"
      using find_storages_print [OF assms(2,4) sc m(1)] by auto
    with c m show ?thesis by simp
  qed
  let ?n = "length (pre @ ?a)"
  obtain m where m: "length ?a \<le> m" "find_storages ?n (pre @ ?a) = find_storages m ?a"
    using find_storages_quiet [OF assms(5), of ?a ?n] by auto
  obtain k where "length (sep @ ?b) \<le> k" "find_storages m ?a = ?m a # find_storages k (sep @ ?b)"
    using find_storages_print [OF assms(1,4) sb m(1)] by auto
  with b m have "find_storages ?n (pre @ ?a) = [?m a, ?m b, ?m c]" by simp
  then show ?thesis using storage_of_print assms(1-3) by (simp add: parseSMSStorage_def)
qed

text \<open>The receiving store is full, and ModemManager supports the alternate one.\<close>

definition receive_full :: "storage_env \<Rightarrow> modem_store \<Rightarrow> string \<Rightarrow> u32 \<Rightarrow> bool" where
  "receive_full env m alternate i \<longleftrightarrow>
     (case Option.bind (se_query env (mo_calls m)) parseSMSStorage of
        None \<Rightarrow> False
      | Some stores \<Rightarrow> ss_capacity (stores ! 2) \<le> ss_used (stores ! 2)
          \<and> alternate_of (ss_name (stores ! 2)) = Some (alternate, i))
     \<and> (case se_property env (mo_calls m @ [StQuery]) ''SupportedStorages'' of
          Some (VUInts ids) \<Rightarrow> i \<in> set ids | _ \<Rightarrow> False)"

lemma recover_cases:
  obtains (stopped) "mo_selection (snd (run_state (recoverFullSMSStorage env) m)) = mo_selection m"
      "mo_default (snd (run_state (recoverFullSMSStorage env) m)) = mo_default m"
  | (switching) r stores alternate i v where "receive_full env m alternate i"
      "se_query env (mo_calls m) = Some r" "parseSMSStorage r = Some stores"
      "se_property env (mo_calls m @ [StQuery, StProperty ''SupportedStorages'']) ''DefaultStorage'' = Some (VUInt32 v)"
      "run_state (recoverFullSMSStorage env) m = run_state (switch_storage env (store_names stores) alternate i v)
         (m\<lparr>mo_calls := mo_calls m @ [StQuery, StProperty ''SupportedStorages'', StProperty ''DefaultStorage'']\<rparr>)"
proof -
  let ?l = "mo_calls m @ [StQuery]" and ?k = "mo_calls m @ [StQuery, StProperty ''SupportedStorages'']"
  note unfolded = recoverFullSMSStorage_def Let_def
  show thesis
  proof (cases "Option.bind (se_query env (mo_calls m)) parseSMSStorage")
    case None
    then show thesis by (intro stopped) (simp_all add: unfolded)
  next
    case (Some stores)
    then obtain r where r: "se_query env (mo_calls m) = Some r" "parseSMSStorage r = Some stores"
      by (auto simp: bind_eq_Some_conv)
    show thesis
    proof (cases "(ss_capacity (stores ! 2) = 0 \<or> ss_used (stores ! 2) < ss_capacity (stores ! 2))
        \<or> alternate_of (ss_name (stores ! 2)) = None")
      case True
      then show thesis using r by (intro stopped) (auto simp: unfolded)
    next
      case False
      then obtain alternate i where alt: "alternate_of (ss_name (stores ! 2)) = Some (alternate, i)"
        "\<not> (ss_capacity (stores ! 2) = 0 \<or> ss_used (stores ! 2) < ss_capacity (stores ! 2))" by auto
      show thesis
      proof (cases "\<exists>ids v. se_property env ?l ''SupportedStorages'' = Some (VUInts ids) \<and> i \<in> set ids
          \<and> se_property env ?k ''DefaultStorage'' = Some (VUInt32 v)")
        case True
        then obtain ids v where sup: "se_property env ?l ''SupportedStorages'' = Some (VUInts ids)" "i \<in> set ids"
          "se_property env ?k ''DefaultStorage'' = Some (VUInt32 v)" by blast
        show thesis
          by (rule switching [OF _ r sup(3)]) (use r alt sup in \<open>simp_all add: unfolded receive_full_def not_less\<close>)
      next
        case False
        then show thesis using r alt
          by (intro stopped) (auto simp: unfolded split: option.split variant.split)
      qed
    qed
  qed
qed

section \<open>Properties\<close>

text \<open>
   The report of the stores is read as the modem wrote it, for every blank it may put between the numbers
  and whatever it writes before, between and after the stores, as long as that has no quotation mark.
\<close>

theorem parseSMSStorage_reads_back:
  assumes "store_ok a" and "store_ok b" and "store_ok c" and "list_all re_space gap"
    and "quiet pre" and "separator sep" and "separator post"
  shows "parseSMSStorage (pre @ print_store gap a @ sep @ print_store gap b @ sep @ print_store gap c @ post)
    = Some [a, b, c]"
  by (rule storages_read_back [OF assms])

definition sample_store :: "string \<Rightarrow> int \<Rightarrow> smsStorage" where
  "sample_store n u = \<lparr>ss_name = n, ss_used = u, ss_capacity = 30\<rparr>"

lemma sample_store_ok: "n \<in> set storage_names \<Longrightarrow> 0 \<le> u \<Longrightarrow> u \<le> 30 \<Longrightarrow> store_ok (sample_store n u)"
  by (simp add: store_ok_def sample_store_def max_int64_def)

lemma parseSMSStorage_reads_back_witness:
  "parseSMSStorage (''+CPMS: '' @ print_store '' '' (sample_store ''ME'' 3) @ '','' @ print_store '' '' (sample_store ''ME'' 3)
     @ '','' @ print_store '' '' (sample_store ''SM'' 30) @ '''') = Some [sample_store ''ME'' 3, sample_store ''ME'' 3, sample_store ''SM'' 30]"
  by (rule parseSMSStorage_reads_back)
    (simp_all add: sample_store_ok storage_names_def re_space_def quiet_def separator_def is_digit_def)


text \<open>A modem whose SIM store is full and whose own memory has room.\<close>

definition full_sim :: storage_env where
  "full_sim = \<lparr>se_query = (\<lambda>_. Some (''+CPMS: '' @ print_store '''' (sample_store ''SM'' 30) @ '','' @ print_store '''' (sample_store ''SM'' 30)
      @ '','' @ print_store '''' (sample_store ''SM'' 30))),
    se_select = (\<lambda>_ _. Some ''+CPMS: 3,23,30,30,30,30''),
    se_property = (\<lambda>_ p. if p = ''SupportedStorages'' then Some (VUInts [1, 2]) else Some (VUInt32 1)),
    se_set = (\<lambda>_ _. True)\<rparr>"

definition sim_modem :: modem_store where
  "sim_modem = \<lparr>mo_selection = (''SM'', ''SM'', ''SM''), mo_default = 1, mo_calls = []\<rparr>"

lemma full_sim_query: "parseSMSStorage (the (se_query full_sim [])) = Some [sample_store ''SM'' 30, sample_store ''SM'' 30, sample_store ''SM'' 30]"
  unfolding full_sim_def by code_simp


end
