(* ===== verification/Sms_Service.thy ===== *)
theory Sms_Service
  imports Sms_Manager
begin

text \<open>
  The SMS side of the service: from \<open>internal/service/service.go\<close> the outbound queue and the delivery of incoming
  messages, \<open>internal/service/sms_inbox.go\<close>, \<open>internal/service/sms_forward.go\<close>, and the SMS writes of
  \<open>internal/redis/redis.go\<close>. They tie the manager to the durable store and project both to the server. Whether
  a call to the server succeeds may depend on all the calls before it. What \<open>json.Unmarshal\<close> makes of a payload is
  an argument.
\<close>

section \<open>The server\<close>

record IncomingSMS =
  im_ID :: string
  im_From :: string
  im_Text :: string
  im_Timestamp :: string

record SMSSendResult =
  rs_ID :: string
  rs_RequestID :: string
  rs_To :: string
  rs_Text :: string
  rs_Outcome :: string
  rs_Error :: string
  rs_Timestamp :: string

record inboxSnapshot =
  is_Version :: nat
  is_Unread :: nat
  is_Messages :: "StoredMessage list"
  is_ForwardTo :: string

datatype redis_call =
    RAddReceived IncomingSMS | RPublishReceived IncomingSMS
  | RAddSent SMSSendResult | RPublishSent SMSSendResult
  | RSetSms "(string \<times> string) list"
  | RInbox inboxSnapshot

record redis_env =
  rd_ok :: "redis_call list \<Rightarrow> redis_call \<Rightarrow> bool"
  rd_id :: "redis_call list \<Rightarrow> string"

text \<open>\<open>sv_hash\<close> is the \<open>sms\<close> hash, \<open>sv_activity\<close> counts \<open>touchCSActivity\<close>, \<open>sv_actions\<close> are the manager's bus calls.\<close>

record sms_service =
  sv_db :: store
  sv_hash :: "string \<Rightarrow> string option"
  sv_calls :: "redis_call list"
  sv_unread :: nat
  sv_activity :: nat
  sv_actions :: "sms_action list"

fun hash_fields :: "redis_call \<Rightarrow> (string \<times> string) list" where
  "hash_fields (RSetSms fs) = fs"
| "hash_fields _ = []"

definition redis :: "redis_env \<Rightarrow> redis_call \<Rightarrow> sms_service \<Rightarrow> bool \<times> sms_service" where
  "redis env c s =
     (let ok = rd_ok env (sv_calls s) c in
      (ok, s\<lparr>sv_calls := sv_calls s @ [c],
             sv_hash := (if ok then sv_hash s ++ map_of (hash_fields c) else sv_hash s)\<rparr>))"

text \<open>The convenience fields of a received message.\<close>

definition received_fields :: "IncomingSMS \<Rightarrow> nat \<Rightarrow> (string \<times> string) list" where
  "received_fields msg unread =
     [(''last-received-from'', im_From msg), (''last-received-text'', im_Text msg),
      (''last-received-at'', im_Timestamp msg), (''unread-count'', dec_str unread)]"

definition PublishIncomingSMS :: "redis_env \<Rightarrow> IncomingSMS \<Rightarrow> nat \<Rightarrow> sms_service \<Rightarrow> bool \<times> sms_service" where
  "PublishIncomingSMS env msg unread s =
     (let (ok, s1) = redis env (RAddReceived msg) s in
      if \<not> ok then (False, s1)
      else
        let s2 = snd (redis env (RPublishReceived (msg\<lparr>im_ID := rd_id env (sv_calls s)\<rparr>)) s1);
            s3 = snd (redis env (RSetSms (received_fields msg unread)) s2)
        in (True, s3))"

definition result_fields :: "SMSSendResult \<Rightarrow> (string \<times> string) list" where
  "result_fields res =
     (if rs_Outcome res = ''sent'' then [(''state'', ''idle''), (''last-sent-to'', rs_To res), (''last-sent-at'', rs_Timestamp res)]
      else [(''state'', ''error'')])"

definition PublishSMSSendResult :: "redis_env \<Rightarrow> SMSSendResult \<Rightarrow> sms_service \<Rightarrow> bool \<times> sms_service" where
  "PublishSMSSendResult env res s =
     (let (stream_ok, s1) = redis env (RAddSent res) s;
          s2 = (if stream_ok then snd (redis env (RPublishSent (res\<lparr>rs_ID := rd_id env (sv_calls s)\<rparr>)) s1) else s1);
          (hash_ok, s3) = redis env (RSetSms (result_fields res)) s2
      in (hash_ok \<and> stream_ok, s3))"

definition PublishSMSState :: "redis_env \<Rightarrow> string \<Rightarrow> string \<Rightarrow> sms_service \<Rightarrow> bool \<times> sms_service" where
  "PublishSMSState env field v = redis env (RSetSms [(field, v)])"

definition PublishSMSInbox :: "redis_env \<Rightarrow> inboxSnapshot \<Rightarrow> sms_service \<Rightarrow> bool \<times> sms_service" where
  "PublishSMSInbox env snapshot = redis env (RInbox snapshot)"

definition touchCSActivity :: "sms_service \<Rightarrow> sms_service" where
  "touchCSActivity s = s\<lparr>sv_activity := sv_activity s + 1\<rparr>"

section \<open>Sending\<close>

definition recordSendResult :: "redis_env \<Rightarrow> string \<Rightarrow> SendRequest \<Rightarrow> string \<Rightarrow> sms_service \<Rightarrow> sms_service" where
  "recordSendResult env now req errStr s =
     snd (PublishSMSSendResult env
       \<lparr>rs_ID = '''', rs_RequestID = sr_ID req, rs_To = sr_To req, rs_Text = sr_Text req,
        rs_Outcome = (if errStr \<noteq> '''' then ''error'' else ''sent''), rs_Error = errStr, rs_Timestamp = now\<rparr> s)"

text \<open>
  What the bus answers to one send: the modem or the text of the error, the path of the created message, whether
  it was sent, and the text of the error that the manager returns.
\<close>

record send_answers =
  sa_modem :: "string + object_path"
  sa_created :: "object_path option"
  sa_sent :: bool
  sa_error :: string

definition handleSMSCommand ::
  "redis_env \<Rightarrow> string \<Rightarrow> send_answers \<Rightarrow> SendRequest option \<Rightarrow> sms_service \<Rightarrow> bool \<times> sms_service" where
  "handleSMSCommand env now an parsed s =
     (case parsed of
        None \<Rightarrow> (False, snd (PublishSMSState env ''state'' ''error'' s))
      | Some req \<Rightarrow>
          if sr_To req = '''' then (False, recordSendResult env now req ''missing recipient'' s)
          else (case sa_modem an of
            Inl err \<Rightarrow> (False, recordSendResult env now req (''no modem available: '' @ err) s)
          | Inr modemPath \<Rightarrow>
              let s1 = snd (PublishSMSState env ''state'' ''sending'' s);
                  (outcome, actions) = Send (sa_created an) (sa_sent an) modemPath req;
                  s2 = s1\<lparr>sv_actions := sv_actions s1 @ actions\<rparr>
              in if outcome \<noteq> SendOK then (False, recordSendResult env now req (sa_error an) s2)
                 else (True, recordSendResult env now req '''' (touchCSActivity s2))))"

section \<open>The inbox\<close>

text \<open>The first boolean says whether \<open>List\<close> and the two writes succeeded.\<close>

definition publishInboxLocked ::
  "redis_env \<Rightarrow> (nat \<Rightarrow> bool) \<Rightarrow> gotime \<Rightarrow> string \<Rightarrow> sms_service \<Rightarrow> bool \<times> sms_service" where
  "publishInboxLocked env ok now forward s =
     (case List_inbox ok now (sv_db s) of
        (None, db) \<Rightarrow> (False, s\<lparr>sv_db := db\<rparr>)
      | (Some messages, db) \<Rightarrow>
          let unread = length (filter (\<lambda>m. \<not> sd_Read m) messages);
              s1 = s\<lparr>sv_db := db, sv_unread := unread\<rparr>;
              (ok1, s2) = PublishSMSInbox env \<lparr>is_Version = 1, is_Unread = unread, is_Messages = messages,
                is_ForwardTo = (if forward = '''' then ''off'' else forward)\<rparr> s1
          in if \<not> ok1 then (False, s2) else PublishSMSState env ''unread-count'' (dec_str unread) s2)"

record inboxCommand =
  ic_Action :: string
  ic_ID :: string

definition is_hex :: "char \<Rightarrow> bool" where
  "is_hex c \<longleftrightarrow> CHR ''0'' \<le> c \<and> c \<le> CHR ''9'' \<or> CHR ''a'' \<le> c \<and> c \<le> CHR ''f'' \<or> CHR ''A'' \<le> c \<and> c \<le> CHR ''F''"

text \<open>\<open>hex.DecodeString\<close> of a text of even length succeeds when all its characters are hexadecimal digits.\<close>

definition valid_message_id :: "string \<Rightarrow> bool" where
  "valid_message_id i \<longleftrightarrow> length i = 32 \<and> list_all is_hex i"

definition handleInboxCommand ::
  "redis_env \<Rightarrow> (string \<Rightarrow> inboxCommand option) \<Rightarrow> (nat \<Rightarrow> bool) \<Rightarrow> (nat \<Rightarrow> bool) \<Rightarrow> gotime \<Rightarrow> string
     \<Rightarrow> string \<Rightarrow> sms_service \<Rightarrow> bool \<times> sms_service" where
  "handleInboxCommand env unmarshal ok ok_list now forward payload s =
     (if length payload > 256 then (False, s)
      else case unmarshal payload of
        None \<Rightarrow> (False, s)
      | Some command \<Rightarrow>
          if \<not> valid_message_id (ic_ID command) then (False, s)
          else
            let change = (if ic_Action command = ''read'' then Some (MarkRead (ok 0) (ic_ID command) (sv_db s))
                          else if ic_Action command = ''delete'' then Some (Delete_inbox ok (ic_ID command) (sv_db s))
                          else None)
            in case change of
                 None \<Rightarrow> (False, s)
               | Some (None, db) \<Rightarrow> (False, s\<lparr>sv_db := db\<rparr>)
               | Some (Some found, db) \<Rightarrow> publishInboxLocked env ok_list now forward (s\<lparr>sv_db := db\<rparr>))"

section \<open>Delivery\<close>

record delivery_answers =
  da_ok :: "nat \<Rightarrow> bool"
  da_newid :: string
  da_now :: gotime
  da_list_ok :: "nat \<Rightarrow> bool"

definition deliverIncomingSMS ::
  "redis_env \<Rightarrow> (string list \<Rightarrow> string) \<Rightarrow> (string \<Rightarrow> number_type option) \<Rightarrow> delivery_answers
     \<Rightarrow> string \<Rightarrow> int \<Rightarrow> Message \<Rightarrow> sms_service \<Rightarrow> bool \<times> sms_service" where
  "deliverIncomingSMS env fingerprint number_type an destination activatedAt msg s0 =
     (let s = touchCSActivity s0 in
      case RecordWithForwardSince fingerprint number_type (da_ok an) (da_newid an) msg (da_now an)
             destination activatedAt (sv_db s) of
        (None, db) \<Rightarrow> (False, s\<lparr>sv_db := db\<rparr>)
      | (Some (entry, created), db) \<Rightarrow>
          let s1 = snd (publishInboxLocked env (da_list_ok an) (da_now an) destination (s\<lparr>sv_db := db\<rparr>));
              s2 = (if created then snd (PublishIncomingSMS env
                      \<lparr>im_ID = '''', im_From = ms_Number msg, im_Text = ms_Text msg,
                       im_Timestamp = rfc3339_zoned (ms_Timestamp msg)\<rparr> (sv_unread s1) s1) else s1)
          in (True, s2))"

section \<open>Forwarding\<close>

text \<open>
  What one pass of the forwarding loop meets: the flags and the destination when it starts, the registration
  state, the database's statements, the bus, and whether the context ends before the send.
\<close>

record forward_answers =
  fa_ready :: bool
  fa_destination :: string
  fa_modem :: "object_path option"
  fa_registration :: "variant option"
  fa_now :: gotime
  fa_stamp :: string
  fa_own :: string
  fa_reserve_ok :: "nat \<Rightarrow> bool"
  fa_list_ok :: "nat \<Rightarrow> bool"
  fa_cancelled :: bool
  fa_created :: "object_path option"
  fa_sent :: bool
  fa_finish_ok :: bool

definition forwardOne ::
  "redis_env \<Rightarrow> (string \<Rightarrow> number_type option) \<Rightarrow> forward_answers \<Rightarrow> sms_service \<Rightarrow> sms_service" where
  "forwardOne env number_type an s =
     (if \<not> fa_ready an \<or> fa_destination an = '''' \<or> fa_destination an = ''off'' then s
      else case fa_modem an of None \<Rightarrow> s
      | Some path \<Rightarrow>
          if fa_registration an \<noteq> Some (VUInt32 RegistrationStateHome) then s
          else (case ReserveForward number_type (fa_reserve_ok an) (fa_now an) (fa_destination an) (fa_own an) (sv_db s) of
            (Inl _, db) \<Rightarrow> s\<lparr>sv_db := db\<rparr>
          | (Inr None, db) \<Rightarrow> s\<lparr>sv_db := db\<rparr>
          | (Inr (Some job), db) \<Rightarrow>
              let s1 = snd (publishInboxLocked env (fa_list_ok an) (fa_now an) (fa_destination an) (s\<lparr>sv_db := db\<rparr>)) in
              if fa_cancelled an then s1\<lparr>sv_db := snd (FinishForward (fa_finish_ok an) (fj_id job) False (sv_db s1))\<rparr>
              else
                let req = \<lparr>sr_ID = ''forward-'' @ fj_id job, sr_To = fj_destination job, sr_Text = fj_body job\<rparr>;
                    (outcome, actions) = Send (fa_created an) (fa_sent an) path req;
                    s2 = s1\<lparr>sv_actions := sv_actions s1 @ actions\<rparr>;
                    s3 = s2\<lparr>sv_db := snd (FinishForward (fa_finish_ok an) (fj_id job) (outcome = SendOK) (sv_db s2))\<rparr>;
                    s4 = snd (publishInboxLocked env (fa_list_ok an) (fa_now an) (fa_destination an) s3)
                in if outcome \<noteq> SendOK then recordSendResult env (fa_stamp an) req ''forward outcome unknown'' s4
                   else recordSendResult env (fa_stamp an) req '''' (touchCSActivity s4)))"


section \<open>Lemmas\<close>

lemma redis_simps [simp]:
  "fst (redis env c s) = rd_ok env (sv_calls s) c"
  "sv_db (snd (redis env c s)) = sv_db s" "sv_calls (snd (redis env c s)) = sv_calls s @ [c]"
  "sv_unread (snd (redis env c s)) = sv_unread s" "sv_activity (snd (redis env c s)) = sv_activity s"
  "sv_actions (snd (redis env c s)) = sv_actions s"
  "sv_hash (snd (redis env c s)) = (if rd_ok env (sv_calls s) c then sv_hash s ++ map_of (hash_fields c) else sv_hash s)"
  by (simp_all add: redis_def Let_def)

fun sent_results :: "redis_call list \<Rightarrow> SMSSendResult list" where
  "sent_results [] = []"
| "sent_results (RAddSent r # cs) = r # sent_results cs"
| "sent_results (c # cs) = sent_results cs"

fun received_events :: "redis_call list \<Rightarrow> IncomingSMS list" where
  "received_events [] = []"
| "received_events (RAddReceived r # cs) = r # received_events cs"
| "received_events (c # cs) = received_events cs"

lemma sent_results_append [simp]: "sent_results (a @ b) = sent_results a @ sent_results b"
  by (induction a rule: sent_results.induct) simp_all

lemma received_events_append [simp]: "received_events (a @ b) = received_events a @ received_events b"
  by (induction a rule: received_events.induct) simp_all

text \<open>What the operations leave alone.\<close>

lemma publish_inbox_effect:
  "sv_db (snd (publishInboxLocked env ok now fwd s)) = snd (List_inbox ok now (sv_db s))"
  "sv_actions (snd (publishInboxLocked env ok now fwd s)) = sv_actions s"
  "sent_results (sv_calls (snd (publishInboxLocked env ok now fwd s))) = sent_results (sv_calls s)"
  "received_events (sv_calls (snd (publishInboxLocked env ok now fwd s))) = received_events (sv_calls s)"
  by (simp_all add: publishInboxLocked_def PublishSMSInbox_def PublishSMSState_def Let_def case_prod_beta
      split: option.split)

lemma publish_incoming_effect:
  "sv_db (snd (PublishIncomingSMS env msg unread s)) = sv_db s"
  "sv_actions (snd (PublishIncomingSMS env msg unread s)) = sv_actions s"
  "sent_results (sv_calls (snd (PublishIncomingSMS env msg unread s))) = sent_results (sv_calls s)"
  "received_events (sv_calls (snd (PublishIncomingSMS env msg unread s))) = received_events (sv_calls s) @ [msg]"
  "fst (PublishIncomingSMS env msg unread s) = rd_ok env (sv_calls s) (RAddReceived msg)"
  by (simp_all add: PublishIncomingSMS_def Let_def case_prod_beta)

lemma record_result_effect:
  "sv_db (recordSendResult env now req e s) = sv_db s"
  "sv_actions (recordSendResult env now req e s) = sv_actions s"
  "map rs_RequestID (sent_results (sv_calls (recordSendResult env now req e s)))
     = map rs_RequestID (sent_results (sv_calls s)) @ [sr_ID req]"
  "received_events (sv_calls (recordSendResult env now req e s)) = received_events (sv_calls s)"
  by (simp_all add: recordSendResult_def PublishSMSSendResult_def Let_def case_prod_beta)

lemma touch_effect [simp]:
  "sv_db (touchCSActivity s) = sv_db s" "sv_actions (touchCSActivity s) = sv_actions s"
  "sv_calls (touchCSActivity s) = sv_calls s" "sv_hash (touchCSActivity s) = sv_hash s"
  by (simp_all add: touchCSActivity_def)

lemma record_result_state:
  assumes "\<And>l fs. rd_ok env l (RSetSms fs)"
  shows "sv_hash (recordSendResult env now req e s) ''state'' = Some (if e = '''' then ''idle'' else ''error'')"
  using assms by (simp add: recordSendResult_def PublishSMSSendResult_def Let_def case_prod_beta result_fields_def)

section \<open>Composition with the store\<close>

text \<open>
  The life of the service as far as messages are concerned: a delivery by the manager, the release of a path
  after a deletion, an inbox command, a pass of the forwarding loop, a restart, a change of the setting.
\<close>

datatype svc_event =
    DeliverEv delivery_answers string int Message
  | ReleaseEv bool string
  | InboxEv "string \<Rightarrow> inboxCommand option" "nat \<Rightarrow> bool" "nat \<Rightarrow> bool" gotime string string
  | ForwardEv forward_answers
  | RestartEv bool
  | SettingEv "nat \<Rightarrow> bool" string gotime

fun svc_step ::
  "redis_env \<Rightarrow> (string list \<Rightarrow> string) \<Rightarrow> (string \<Rightarrow> number_type option) \<Rightarrow> svc_event \<Rightarrow> sms_service \<Rightarrow> sms_service" where
  "svc_step env fp nt (DeliverEv an dest act msg) s = snd (deliverIncomingSMS env fp nt an dest act msg s)"
| "svc_step env fp nt (ReleaseEv ok path) s = s\<lparr>sv_db := snd (ForgetModem ok path (sv_db s))\<rparr>"
| "svc_step env fp nt (InboxEv unmarshal ok okl now fwd payload) s =
     snd (handleInboxCommand env unmarshal ok okl now fwd payload s)"
| "svc_step env fp nt (ForwardEv an) s = forwardOne env nt an s"
| "svc_step env fp nt (RestartEv ok) s = s\<lparr>sv_db := snd (RecoverForward ok (sv_db s))\<rparr>"
| "svc_step env fp nt (SettingEv ok dest now) s = s\<lparr>sv_db := snd (ConfigureForward ok dest now (sv_db s))\<rparr>"

definition svc_run ::
  "redis_env \<Rightarrow> (string list \<Rightarrow> string) \<Rightarrow> (string \<Rightarrow> number_type option) \<Rightarrow> svc_event list \<Rightarrow> sms_service \<Rightarrow> sms_service" where
  "svc_run env fp nt evs = fold (svc_step env fp nt) evs"

fun drawn_ids :: "svc_event list \<Rightarrow> string list" where
  "drawn_ids [] = []"
| "drawn_ids (DeliverEv an dest act msg # es) = da_newid an # drawn_ids es"
| "drawn_ids (_ # es) = drawn_ids es"

lemma drawn_ids_Cons: "drawn_ids (e # es) = drawn_ids [e] @ drawn_ids es"
  by (cases e) simp_all

definition creates :: "sms_action list \<Rightarrow> nat" where
  "creates as = length (filter (\<lambda>a. case a of SmsCreate x y \<Rightarrow> True | _ \<Rightarrow> False) as)"

definition sent_ids :: "sms_service \<Rightarrow> string list" where
  "sent_ids s = map rs_RequestID (sent_results (sv_calls s))"

text \<open>
  A step does to the database what some of the store's operations do, sends at most the jobs they hand out, and
  reports one outcome for each.
\<close>

definition simulated ::
  "(string list \<Rightarrow> string) \<Rightarrow> (string \<Rightarrow> number_type option) \<Rightarrow> string list \<Rightarrow> store_event list \<Rightarrow> sms_service \<Rightarrow> sms_service \<Rightarrow> bool" where
  "simulated fp nt ids es s t \<longleftrightarrow> event_ids es = ids \<and> snd (store_run fp nt es (sv_db s)) = sv_db t
     \<and> (\<exists>ks. subseq ks (handed_ids (fst (store_run fp nt es (sv_db s))))
          \<and> sent_ids t = sent_ids s @ map ((@) ''forward-'') ks
          \<and> creates (sv_actions t) \<le> creates (sv_actions s) + length ks)"

lemma simulated_quiet:
  assumes "event_ids es = ids" "snd (store_run fp nt es (sv_db s)) = sv_db t" "sent_ids t = sent_ids s"
    and "sv_actions t = sv_actions s"
  shows "simulated fp nt ids es s t"
  using assms unfolding simulated_def by (intro conjI exI [of _ "[]"]) simp_all

lemma deliver_simulated:
  "\<exists>es. simulated fp nt [da_newid an] es s (snd (deliverIncomingSMS env fp nt an dest act msg s))"
proof (cases "RecordWithForwardSince fp nt (da_ok an) (da_newid an) msg (da_now an) dest act (sv_db s)")
  case (Pair r db)
  let ?rec = "RecordEv (da_ok an) (da_newid an) msg (da_now an) dest act"
  show ?thesis
  proof (cases r)
    case None
    with Pair show ?thesis
      by (intro exI [of _ "[?rec]"] simulated_quiet) (simp_all add: deliverIncomingSMS_def Let_def sent_ids_def)
  next
    case (Some ec)
    with Pair show ?thesis
      by (intro exI [of _ "[?rec, ListEv (da_list_ok an) (da_now an)]"] simulated_quiet)
        (simp_all add: deliverIncomingSMS_def Let_def sent_ids_def publish_inbox_effect publish_incoming_effect
          split: prod.split)
  qed
qed


lemma inbox_simulated:
  "\<exists>es. simulated fp nt [] es s (snd (handleInboxCommand env unmarshal ok okl now fwd payload s))"
proof -
  have quiet: "\<exists>es. simulated fp nt [] es s s"
    by (intro exI [of _ "[]"] simulated_quiet) simp_all
  have publish: "\<exists>es. simulated fp nt [] es s (snd (publishInboxLocked env okl now fwd (s\<lparr>sv_db := db\<rparr>)))"
    if "db = snd (store_step fp nt ev (sv_db s))" "event_ids [ev] = []" "fst (store_step fp nt ev (sv_db s)) = []" for ev db
    using that by (intro exI [of _ "[ev, ListEv okl now]"] simulated_quiet)
      (auto simp: publish_inbox_effect sent_ids_def event_ids_Cons [of ev "[_]"] case_prod_beta)
  have failed: "\<exists>es. simulated fp nt [] es s (s\<lparr>sv_db := db\<rparr>)"
    if "db = snd (store_step fp nt ev (sv_db s))" "event_ids [ev] = []" "fst (store_step fp nt ev (sv_db s)) = []" for ev db
    using that by (intro exI [of _ "[ev]"] simulated_quiet) (auto simp: sent_ids_def case_prod_beta)
  show ?thesis
  proof (cases "\<exists>c. length payload \<le> 256 \<and> unmarshal payload = Some c \<and> valid_message_id (ic_ID c)
      \<and> ic_Action c \<in> {''read'', ''delete''}")
    case False
    then have "snd (handleInboxCommand env unmarshal ok okl now fwd payload s) = s"
      by (auto simp: handleInboxCommand_def Let_def not_less split: option.split)
    with quiet show ?thesis by simp
  next
    case True
    then obtain c where c: "length payload \<le> 256" "unmarshal payload = Some c" "valid_message_id (ic_ID c)"
      "ic_Action c \<in> {''read'', ''delete''}" by blast
    define ev where "ev = (if ic_Action c = ''read'' then MarkReadEv (ok 0) (ic_ID c) else DeleteEv ok (ic_ID c))"
    obtain f db where change: "(if ic_Action c = ''read'' then MarkRead (ok 0) (ic_ID c) (sv_db s)
        else Delete_inbox ok (ic_ID c) (sv_db s)) = (f, db)" by fastforce
    have ev: "db = snd (store_step fp nt ev (sv_db s))" "event_ids [ev] = []" "fst (store_step fp nt ev (sv_db s)) = []"
      using change by (auto simp: ev_def split: if_splits)
    have "snd (handleInboxCommand env unmarshal ok okl now fwd payload s) = (case f of None \<Rightarrow> s\<lparr>sv_db := db\<rparr>
        | Some x \<Rightarrow> snd (publishInboxLocked env okl now fwd (s\<lparr>sv_db := db\<rparr>)))"
      using c change by (auto simp: handleInboxCommand_def Let_def not_less split: option.split if_splits)
    then show ?thesis using publish [OF ev] failed [OF ev] by (simp split: option.split)
  qed
qed

lemma Send_creates: "creates (snd (Send created sent path req)) \<le> 1"
  by (simp add: Send_def creates_def split: option.split)

lemma creates_append [simp]: "creates (a @ b) = creates a + creates b"
  by (simp add: creates_def)

lemma forward_simulated: "\<exists>es. simulated fp nt [] es s (forwardOne env nt an s)"
proof -
  have quiet: "\<exists>es. simulated fp nt [] es s s"
    by (intro exI [of _ "[]"] simulated_quiet) simp_all
  show ?thesis
  proof (cases "fa_ready an \<and> fa_destination an \<noteq> '''' \<and> fa_destination an \<noteq> ''off'' \<and> fa_modem an \<noteq> None
      \<and> fa_registration an = Some (VUInt32 RegistrationStateHome)")
    case False
    then have "forwardOne env nt an s = s" by (auto simp: forwardOne_def split: option.split)
    with quiet show ?thesis by simp
  next
    case True
    then obtain path where go: "fa_ready an" "fa_destination an \<noteq> ''''" "fa_destination an \<noteq> ''off''"
      "fa_modem an = Some path" "fa_registration an = Some (VUInt32 RegistrationStateHome)" by auto
    let ?res = "ReserveEv (fa_reserve_ok an) (fa_now an) (fa_destination an) (fa_own an)"
    obtain r db where reserve: "ReserveForward nt (fa_reserve_ok an) (fa_now an) (fa_destination an) (fa_own an) (sv_db s) = (r, db)"
      by fastforce
    show ?thesis
    proof (cases "\<exists>job. r = Inr (Some job)")
      case False
      then have "forwardOne env nt an s = s\<lparr>sv_db := db\<rparr>" "store_step fp nt ?res (sv_db s) = ([], db)"
        using go reserve by (auto simp: forwardOne_def split: sum.splits option.splits)
      then show ?thesis by (intro exI [of _ "[?res]"] simulated_quiet) (simp_all add: sent_ids_def)
    next
      case job: True
      then obtain job where job: "r = Inr (Some job)" by blast
      then have step: "store_step fp nt ?res (sv_db s) = ([(date_str (fa_now an), job)], db)" using reserve by simp
      let ?list = "ListEv (fa_list_ok an) (fa_now an)"
      let ?s1 = "snd (publishInboxLocked env (fa_list_ok an) (fa_now an) (fa_destination an) (s\<lparr>sv_db := db\<rparr>))"
      show ?thesis
      proof (cases "fa_cancelled an")
        case True
        let ?es = "[?res, ?list, FinishEv (fa_finish_ok an) (fj_id job) False]"
        have "forwardOne env nt an s = ?s1\<lparr>sv_db := snd (FinishForward (fa_finish_ok an) (fj_id job) False (sv_db ?s1))\<rparr>"
          using go reserve job True by (simp add: forwardOne_def Let_def)
        then have "simulated fp nt [] ?es s (forwardOne env nt an s)"
          using step unfolding simulated_def
          by (intro conjI exI [of _ "[]"]) (simp_all add: publish_inbox_effect sent_ids_def)
        then show ?thesis by blast
      next
        case False
        define req where "req = \<lparr>sr_ID = ''forward-'' @ fj_id job, sr_To = fj_destination job, sr_Text = fj_body job\<rparr>"
        obtain outcome actions where send: "Send (fa_created an) (fa_sent an) path req = (outcome, actions)" by fastforce
        let ?es = "[?res, ?list, FinishEv (fa_finish_ok an) (fj_id job) (outcome = SendOK), ?list]"
        have "creates actions \<le> 1" using Send_creates [of "fa_created an" "fa_sent an" path req] send by simp
        define s3 where "s3 = ?s1\<lparr>sv_actions := sv_actions ?s1 @ actions,
          sv_db := snd (FinishForward (fa_finish_ok an) (fj_id job) (outcome = SendOK) (sv_db ?s1))\<rparr>"
        define s4 where "s4 = snd (publishInboxLocked env (fa_list_ok an) (fa_now an) (fa_destination an) s3)"
        have t: "forwardOne env nt an s = (if outcome \<noteq> SendOK
            then recordSendResult env (fa_stamp an) req ''forward outcome unknown'' s4
            else recordSendResult env (fa_stamp an) req '''' (touchCSActivity s4))"
          using go reserve job False send by (simp add: forwardOne_def Let_def req_def s4_def s3_def)
        have s4: "sv_db s4 = snd (store_run fp nt ?es (sv_db s))" "sv_actions s4 = sv_actions s @ actions" "sent_ids s4 = sent_ids s"
          using step by (simp_all add: s4_def s3_def publish_inbox_effect sent_ids_def)
        have "sv_db (forwardOne env nt an s) = sv_db s4" "sv_actions (forwardOne env nt an s) = sv_actions s4"
          "sent_ids (forwardOne env nt an s) = sent_ids s4 @ [''forward-'' @ fj_id job]"
          unfolding t by (simp_all add: record_result_effect sent_ids_def req_def)
        with s4 \<open>creates actions \<le> 1\<close> step have "simulated fp nt [] ?es s (forwardOne env nt an s)"
          unfolding simulated_def by (intro conjI exI [of _ "[fj_id job]"]) (simp_all add: handed_ids_def)
        then show ?thesis by blast
      qed
    qed
  qed
qed

lemma svc_step_simulated: "\<exists>es. simulated fp nt (drawn_ids [ev]) es s (svc_step env fp nt ev s)"
proof (cases ev)
  case (DeliverEv an dest act msg)
  then show ?thesis using deliver_simulated [of fp nt an s env dest act msg] by simp
next
  case (InboxEv unmarshal ok okl now fwd payload)
  then show ?thesis using inbox_simulated by simp
next
  case (ForwardEv an)
  then show ?thesis using forward_simulated by simp
next
  case (ReleaseEv ok path)
  then show ?thesis by (intro exI [of _ "[ForgetEv ok path]"] simulated_quiet) (simp_all add: sent_ids_def)
next
  case (RestartEv ok)
  then show ?thesis by (intro exI [of _ "[RecoverEv ok]"] simulated_quiet) (simp_all add: sent_ids_def)
next
  case (SettingEv ok dest now)
  then show ?thesis by (intro exI [of _ "[ConfigureEv ok dest now]"] simulated_quiet) (simp_all add: sent_ids_def)
qed

lemma event_ids_append: "event_ids (es @ fs) = event_ids es @ event_ids fs"
  by (induction es) (simp, metis append_Cons append_assoc event_ids_Cons)

lemma store_run_append:
  "store_run fp nt (es @ fs) db = (let (js, db1) = store_run fp nt es db; (ks, db2) = store_run fp nt fs db1 in (js @ ks, db2))"
  by (induction es arbitrary: db) (auto simp: Let_def split: prod.splits)

lemma simulated_trans:
  assumes "simulated fp nt i1 es s t" "simulated fp nt i2 fs t u"
  shows "simulated fp nt (i1 @ i2) (es @ fs) s u"
proof -
  obtain ks where a: "event_ids es = i1" "snd (store_run fp nt es (sv_db s)) = sv_db t"
    "subseq ks (handed_ids (fst (store_run fp nt es (sv_db s))))" "sent_ids t = sent_ids s @ map ((@) ''forward-'') ks"
    "creates (sv_actions t) \<le> creates (sv_actions s) + length ks" using assms(1) by (auto simp: simulated_def)
  obtain ls where b: "event_ids fs = i2" "snd (store_run fp nt fs (sv_db t)) = sv_db u"
    "subseq ls (handed_ids (fst (store_run fp nt fs (sv_db t))))" "sent_ids u = sent_ids t @ map ((@) ''forward-'') ls"
    "creates (sv_actions u) \<le> creates (sv_actions t) + length ls" using assms(2) by (auto simp: simulated_def)
  have run: "store_run fp nt (es @ fs) (sv_db s)
      = (fst (store_run fp nt es (sv_db s)) @ fst (store_run fp nt fs (sv_db t)), sv_db u)"
    using a(2) b(2) by (auto simp: store_run_append Let_def split: prod.split)
  have "subseq (ks @ ls) (handed_ids (fst (store_run fp nt (es @ fs) (sv_db s))))"
    using a(3) b(3) run by (simp add: handed_ids_def list_emb_append_mono)
  with a b run show ?thesis unfolding simulated_def
    by (intro conjI exI [of _ "ks @ ls"]) (simp_all add: event_ids_append)
qed

lemma svc_run_simulated: "\<exists>es. simulated fp nt (drawn_ids evs) es s (svc_run env fp nt evs s)"
proof (induction evs arbitrary: s)
  case Nil
  then show ?case by (intro exI [of _ "[]"]) (simp add: svc_run_def simulated_quiet)
next
  case (Cons ev evs)
  obtain es where "simulated fp nt (drawn_ids [ev]) es s (svc_step env fp nt ev s)" using svc_step_simulated by blast
  moreover obtain fs where "simulated fp nt (drawn_ids evs) fs (svc_step env fp nt ev s) (svc_run env fp nt evs (svc_step env fp nt ev s))"
    using Cons by blast
  ultimately show ?case using simulated_trans drawn_ids_Cons [of ev evs] by (fastforce simp: svc_run_def)
qed


lemma distinct_subseq: "subseq xs ys \<Longrightarrow> distinct ys \<Longrightarrow> distinct xs"
  by (induction rule: list_emb.induct) (auto dest: list_emb_set)

section \<open>Properties\<close>

definition svc_init :: sms_service where
  "svc_init = \<lparr>sv_db = OpenStore, sv_hash = Map.empty, sv_calls = [], sv_unread = 0, sv_activity = 0, sv_actions = []\<rparr>"

text \<open>
  C3. The service as a whole forwards a message at most once. Over any sequence of deliveries, releases, inbox
  commands, passes of the forwarding loop, restarts and changes of the setting, with any call to the
  database, to the bus and to the server failing: the outcomes reported for forwarded messages are for
  different entries, and no more messages are created for sending than outcomes are reported. The proof is a
  simulation: each step does to the database what some of the store's operations do.
\<close>

theorem service_forwards_once:
  assumes "distinct (drawn_ids evs)"
  shows "distinct (sent_ids (svc_run env fp nt evs svc_init))
    \<and> creates (sv_actions (svc_run env fp nt evs svc_init)) \<le> length (sent_ids (svc_run env fp nt evs svc_init))"
proof -
  obtain es where sim: "simulated fp nt (drawn_ids evs) es svc_init (svc_run env fp nt evs svc_init)"
    using svc_run_simulated by blast
  then obtain ks where ks: "subseq ks (handed_ids (fst (store_run fp nt es OpenStore)))"
    "sent_ids (svc_run env fp nt evs svc_init) = map ((@) ''forward-'') ks"
    "creates (sv_actions (svc_run env fp nt evs svc_init)) \<le> length ks"
    by (auto simp: simulated_def svc_init_def sent_ids_def creates_def)
  have "distinct (event_ids es)" using sim assms by (simp add: simulated_def)
  then have "distinct (handed_ids (fst (store_run fp nt es OpenStore)))"
    using store_run_distinct [of es OpenStore fp nt] by (simp add: queued_ids_def OpenStore_def)
  then have "distinct ks" using ks(1) distinct_subseq by blast
  then have "distinct (map ((@) ''forward-'') ks)" by (simp add: distinct_map inj_on_def)
  with ks show ?thesis by simp
qed

definition all_ok :: redis_env where "all_ok = \<lparr>rd_ok = (\<lambda>_ _. True), rd_id = (\<lambda>_. ''1-0'')\<rparr>"

definition one_delivery :: "string \<Rightarrow> delivery_answers" where
  "one_delivery i = \<lparr>da_ok = (\<lambda>_. True), da_newid = i, da_now = 0, da_list_ok = (\<lambda>_. True)\<rparr>"

definition one_forward :: forward_answers where
  "one_forward = \<lparr>fa_ready = True, fa_destination = ''+4915198765432'', fa_modem = Some ''/Modem/0'',
     fa_registration = Some (VUInt32 RegistrationStateHome), fa_now = 5, fa_stamp = '''', fa_own = '''',
     fa_reserve_ok = (\<lambda>_. True), fa_list_ok = (\<lambda>_. True), fa_cancelled = False, fa_created = Some ''/SMS/9'',
     fa_sent = True, fa_finish_ok = True\<rparr>"

lemma service_forwards_once_witness:
  "distinct (sent_ids (svc_run all_ok concat (\<lambda>n. Some MOBILE)
     [DeliverEv (one_delivery ''a'') ''+4915198765432'' 0 sample_message, ForwardEv one_forward, RestartEv True,
      ForwardEv one_forward] svc_init))"
  using service_forwards_once [of "[DeliverEv (one_delivery ''a'') ''+4915198765432'' 0 sample_message,
      ForwardEv one_forward, RestartEv True, ForwardEv one_forward]" all_ok concat "\<lambda>n. Some MOBILE"]
  by simp

text \<open>
   A send request always ends. Whatever the payload, the bus and the streams do, after the handler the \<open>state\<close>
  field is \<open>idle\<close> when the message was sent and \<open>error\<close> when it was not, and never the \<open>sending\<close> in between, as
  long as the server takes the writes to the hash and the manager's error has a text.
\<close>

theorem send_request_settles:
  assumes "\<And>l fs. rd_ok env l (RSetSms fs)" and "sa_error an \<noteq> ''''"
    and "handleSMSCommand env now an parsed s = (ok, s')"
  shows "sv_hash s' ''state'' = Some (if ok then ''idle'' else ''error'')"
proof -
  have recorded: "sv_hash (recordSendResult env now req e t) ''state'' = Some (if e = '''' then ''idle'' else ''error'')" for req e t
    by (rule record_result_state [OF assms(1)])
  show ?thesis
  proof (cases parsed)
    case None
    then show ?thesis using assms(1,3) by (auto simp: handleSMSCommand_def PublishSMSState_def)
  next
    case (Some req)
    then show ?thesis using assms(2,3)
      by (auto simp: handleSMSCommand_def Let_def recorded split: if_splits sum.splits prod.splits)
  qed
qed

definition streams_down :: redis_env where
  "streams_down = \<lparr>rd_ok = (\<lambda>_ c. case c of RSetSms fs \<Rightarrow> True | _ \<Rightarrow> False), rd_id = (\<lambda>_. '''')\<rparr>"

definition sample_request :: SendRequest where
  "sample_request = \<lparr>sr_ID = ''r1'', sr_To = ''+491'', sr_Text = ''hi''\<rparr>"

lemma send_request_settles_witness:
  "sv_hash (snd (handleSMSCommand streams_down '''' \<lparr>sa_modem = Inr ''/Modem/0'', sa_created = None, sa_sent = False,
     sa_error = ''create failed''\<rparr> (Some sample_request) svc_init)) ''state'' = Some ''error''"
proof -
  let ?an = "\<lparr>sa_modem = Inr ''/Modem/0'', sa_created = None, sa_sent = False, sa_error = ''create failed''\<rparr>"
  have "fst (handleSMSCommand streams_down '''' ?an (Some sample_request) svc_init) = False"
    by (simp add: handleSMSCommand_def sample_request_def Send_def Let_def)
  then show ?thesis
    using send_request_settles [of streams_down ?an "''''" "Some sample_request" svc_init, OF _ _ prod.collapse [symmetric]]
    by (simp add: streams_down_def)
qed

text \<open>
   Delivery is decided by the database alone. Whatever the server does, the manager is told success exactly when
  the record was committed, so a message is never deleted from the modem because of an answer of the
  server and never kept because of one; and the server is told of a message exactly when it is a new entry.
\<close>

theorem delivery_is_decided_by_store:
  assumes "RecordWithForwardSince fp nt (da_ok an) (da_newid an) msg (da_now an) dest act (sv_db s) = (r, db)"
    and "deliverIncomingSMS env fp nt an dest act msg s = (ok, s')"
  shows "ok = (r \<noteq> None) \<and> map im_Text (received_events (sv_calls s')) = map im_Text (received_events (sv_calls s))
    @ (case r of Some (e, True) \<Rightarrow> [ms_Text msg] | _ \<Rightarrow> [])"
  using assms
  by (auto simp: deliverIncomingSMS_def Let_def publish_inbox_effect publish_incoming_effect split: option.splits if_splits)

lemma delivery_is_decided_by_store_witness:
  "fst (deliverIncomingSMS (all_ok\<lparr>rd_ok := \<lambda>_ _. False\<rparr>) concat (\<lambda>n. Some MOBILE) (one_delivery ''a'') ''off'' 0 sample_message svc_init)"
proof -
  obtain r db where r: "RecordWithForwardSince concat (\<lambda>n. Some MOBILE) (da_ok (one_delivery ''a'')) (da_newid (one_delivery ''a''))
      sample_message (da_now (one_delivery ''a'')) ''off'' 0 (sv_db svc_init) = (r, db)" by fastforce
  have "r \<noteq> None"
    using r by (auto simp: RecordWithForwardSince_def one_delivery_def svc_init_def OpenStore_def Let_def split: if_splits option.splits)
  then show ?thesis using delivery_is_decided_by_store [OF r prod.collapse [symmetric], of "all_ok\<lparr>rd_ok := \<lambda>_ _. False\<rparr>"] by simp
qed

text \<open>
   A reserved job is always settled: after a pass of the forwarding loop in which the last statement on the
  job succeeds, no job of that id is left in the state \<open>sending\<close>, which nothing but a restart would end.
\<close>

theorem reserved_job_is_settled:
  assumes "fa_finish_ok an" and "ReserveForward nt (fa_reserve_ok an) (fa_now an) (fa_destination an) (fa_own an) (sv_db s) = (Inr (Some job), db)"
    and "forwardOne env nt an s \<noteq> s"
  shows "\<forall>j \<in> set (db_jobs (sv_db (forwardOne env nt an s))). fj_id j = fj_id job \<longrightarrow> fj_state j \<noteq> JSending"
proof -
  define settled :: "store \<Rightarrow> bool" where "settled d = (\<forall>j \<in> set (db_jobs d). fj_id j = fj_id job \<longrightarrow> fj_state j \<noteq> JSending)" for d
  have finished: "settled (snd (FinishForward (fa_finish_ok an) (fj_id job) b d))" for b d
    using assms(1) by (auto simp: settled_def FinishForward_def dest!: set_state_set)
  have listed: "settled d \<Longrightarrow> settled (snd (List_inbox ok now d))" for ok now d
    by (auto simp: settled_def List_inbox_def Let_def drop_orphans_def)
  have "settled (sv_db (forwardOne env nt an s))"
    using assms(2,3)
    by (auto simp: forwardOne_def Let_def publish_inbox_effect record_result_effect finished listed
        split: option.splits prod.splits if_splits)
  then show ?thesis by (simp add: settled_def)
qed

end
