(* ===== verification/Gps_Monitor.thy ===== *)
theory Gps_Monitor
  imports Gps_Receiver Gps_Reports
begin

text \<open>
  From \<open>internal/location/location.go\<close>: the goroutine that \<open>EnableGPS\<close> starts, as one function per pass of its
  loop, with the probe for reuse at start-up (\<open>probeStartupReuse\<close>), \<open>connectToGPSD\<close>, \<open>Close\<close>, and the switch
  of the mode. The receiver is that of \<open>Gps_Receiver\<close>, the position state that of \<open>Gps_Reports\<close>. Dialling
  gpsd and the reports that arrive are part of the environment of a pass.
\<close>

section \<open>State\<close>

text \<open>
  \<open>gm_conn\<close> says whether \<open>GpsdConn\<close> is set, \<open>gm_active\<close> is \<open>monitoringActive\<close>, which is set as long as
  \<open>monitorCancel\<close> is, since only \<open>Close\<close> cancels. \<open>gm_attempt\<close> is the local variable of the goroutine.
\<close>

record gps_monitor =
  gm_gps :: gps_state
  gm_receiver :: receiver
  gm_conn :: bool
  gm_active :: bool
  gm_attempt :: nat

section \<open>Reports\<close>

text \<open>A TPV report carries the number of its session; its handling always returns (\<open>tpv_returns\<close>).\<close>

datatype report = Sky gotime SKYReport | Tpv receipt nat TPVReport

fun handle_report :: "(float64 \<Rightarrow> int) \<Rightarrow> report \<Rightarrow> gps_state \<Rightarrow> gps_state" where
  "handle_report conv (Sky now r) g = sky_filter now r g"
| "handle_report conv (Tpv rc session r) g =
     (case tpv_filter conv rc session r g of Some h \<Rightarrow> h | None \<Rightarrow> g)"

definition handle_reports :: "(float64 \<Rightarrow> int) \<Rightarrow> report list \<Rightarrow> gps_state \<Rightarrow> gps_state" where
  "handle_reports conv rs g = fold (handle_report conv) rs g"

section \<open>The environment of a pass\<close>

text \<open>
  One pass: whether the context is done at its top, the answers of the modem, whether gpsd accepts the connection
  of the probe and the second one, the readings of the clock, and the reports that are handled before each
  look at \<open>LastDataReceived\<close> (\<open>me_arrive\<close>) and before the check for a stale fix (\<open>me_arrived\<close>).
\<close>

record monitor_env =
  me_done :: bool
  me_gps :: gps_env
  me_cfg :: gps_config
  me_client :: bool
  me_probe_dial :: bool
  me_dial :: bool
  me_started :: gotime
  me_poll :: "nat \<Rightarrow> gotime"
  me_probe_done :: "nat \<Rightarrow> bool"
  me_conv :: "float64 \<Rightarrow> int"
  me_arrive :: "nat \<Rightarrow> report list"
  me_connected :: gotime
  me_arrived :: "report list"
  me_checked :: gotime

section \<open>Connecting\<close>

definition connectToGPSD :: "bool \<Rightarrow> gps_monitor \<Rightarrow> bool \<times> gps_monitor" where
  "connectToGPSD dial s =
     (if \<not> dial then (False, s\<lparr>gm_conn := False\<rparr>)
      else (True, s\<lparr>gm_conn := True, gm_gps := connected_gpsd (gm_gps s)\<rparr>))"

definition configureGPS :: "monitor_env \<Rightarrow> gps_monitor \<Rightarrow> bool \<times> gps_monitor" where
  "configureGPS env s =
     (if \<not> me_client env then (False, s)
      else case run_state (configureGPSWithRetries (me_cfg env) (me_gps env)) (gm_receiver s) of
        (e, r) \<Rightarrow> (e = None, s\<lparr>gm_receiver := r\<rparr>))"

section \<open>Reuse of a running receiver\<close>

text \<open>\<open>None\<close> is a poll that does not end within the fuel.\<close>

fun await_data :: "nat \<Rightarrow> monitor_env \<Rightarrow> nat \<Rightarrow> gps_state \<Rightarrow> bool option \<times> gps_state" where
  "await_data 0 env k g = (None, g)"
| "await_data (Suc n) env k g =
     (let g1 = handle_reports (me_conv env) (me_arrive env k) g in
      if time_After (gs_lastData g1) (me_started env) then (Some True, g1)
      else if time_Sub (time_Add (me_started env) startupReuseProbeTimeout) (me_poll env k) \<le> 0 then (Some False, g1)
      else if me_probe_done env k then (Some False, g1)
      else await_data n env (k + 1) g1)"

definition probe_fuel :: nat where "probe_fuel = 52"

definition probeStartupReuse :: "monitor_env \<Rightarrow> gps_monitor \<Rightarrow> bool option \<times> gps_monitor" where
  "probeStartupReuse env s =
     (case connectToGPSD (me_probe_dial env) s of
        (False, s1) \<Rightarrow> (Some False, s1)
      | (True, s1) \<Rightarrow>
          (case run_state (queryGPSChipState (me_gps env)) (gm_receiver s1) of (chip, r1) \<Rightarrow>
           (case chip of
              None \<Rightarrow> (Some False, s1\<lparr>gm_receiver := r1\<rparr>)
            | Some c \<Rightarrow>
                if \<not> reuseEligibility c then (Some False, s1\<lparr>gm_receiver := r1\<rparr>)
                else (case run_state (sendATCommand (me_gps env) ''AT+CVAUXS=1'') r1 of (a, r2) \<Rightarrow>
                  (case a of
                     Inl _ \<Rightarrow> (Some False, s1\<lparr>gm_receiver := r2\<rparr>)
                   | Inr _ \<Rightarrow>
                       (case await_data probe_fuel env 0 (gm_gps s1) of (fresh, g) \<Rightarrow>
                         (fresh, s1\<lparr>gm_receiver := r2, gm_gps := g\<rparr>)))))))"

section \<open>A pass of the loop\<close>

datatype pass = Ended | Continue | Wait duration

text \<open>The probe is made once, on the first pass of the first goroutine; the result says whether it was accepted.\<close>

definition startup :: "monitor_env \<Rightarrow> gps_monitor \<Rightarrow> bool \<times> gps_monitor" where
  "startup env s =
     (if gm_attempt s = 0 \<and> gs_gpsFreshInit (gm_gps s) then
        (case probeStartupReuse env s of (reuse, s1) \<Rightarrow>
          if reuse = Some True then
            (True, s1\<lparr>gm_receiver := (gm_receiver s1)\<lparr>gr_mode := ModeStandalone, gr_ready := True\<rparr>,
                      gm_gps := (gm_gps s1)\<lparr>gs_gpsFreshInit := False\<rparr>, gm_attempt := 0\<rparr>)
          else
            (False, s1\<lparr>gm_conn := False,
                       gm_gps := (gm_gps s1)\<lparr>gs_gpsFreshInit := False,
                         gs_connected := (if gm_conn s1 then False else gs_connected (gm_gps s1))\<rparr>\<rparr>))
      else (False, s))"

definition retry_later :: "gps_monitor \<Rightarrow> pass \<times> gps_monitor" where
  "retry_later s = (Wait (configRetryDelay (gm_attempt s)), s\<lparr>gm_attempt := gm_attempt s + 1\<rparr>)"

definition check_stale :: "monitor_env \<Rightarrow> gps_monitor \<Rightarrow> pass \<times> gps_monitor" where
  "check_stale env s0 =
     (let s = s0\<lparr>gm_gps := handle_reports (me_conv env) (me_arrived env) (gm_gps s0)\<rparr> in
      if gs_hasValidFix (gm_gps s) \<and> time_Sub (me_checked env) (gs_lastFix (gm_gps s)) > GPSTimeout
      then (Continue, s\<lparr>gm_receiver := (gm_receiver s)\<lparr>gr_ready := False\<rparr>, gm_conn := False\<rparr>)
      else (Wait GPSRetryInterval, s))"

definition reconnect :: "monitor_env \<Rightarrow> gps_monitor \<Rightarrow> pass \<times> gps_monitor" where
  "reconnect env s =
     (case startup env s of
        (True, s1) \<Rightarrow> (Continue, s1)
      | (False, s1) \<Rightarrow>
          (case configureGPS env s1 of
             (False, s2) \<Rightarrow> retry_later s2
           | (True, s2) \<Rightarrow>
               (case connectToGPSD (me_dial env) s2 of
                  (False, s3) \<Rightarrow> retry_later s3
                | (True, s3) \<Rightarrow> check_stale env
                    (s3\<lparr>gm_gps := (gm_gps s3)\<lparr>gs_lastData := me_connected env\<rparr>,
                        gm_receiver := (gm_receiver s3)\<lparr>gr_ready := True\<rparr>, gm_attempt := 0\<rparr>))))"

definition monitor_pass :: "monitor_env \<Rightarrow> gps_monitor \<Rightarrow> pass \<times> gps_monitor" where
  "monitor_pass env s =
     (if me_done env then
        (Ended, s\<lparr>gm_receiver := (gm_receiver s)\<lparr>gr_ready := False\<rparr>, gm_active := False\<rparr>)
      else if \<not> gm_conn s then reconnect env s
      else check_stale env s)"

section \<open>Operations of the service\<close>

definition EnableGPS :: "object_path \<Rightarrow> gps_monitor \<Rightarrow> gps_monitor" where
  "EnableGPS path s =
     (if gm_active s then s
      else s\<lparr>gm_receiver := (gm_receiver s)\<lparr>gr_path := path, gr_ready := False\<rparr>, gm_active := True, gm_attempt := 0\<rparr>)"

definition monitor_Close :: "gps_monitor \<Rightarrow> gps_monitor" where
  "monitor_Close s = s\<lparr>gm_receiver := (gm_receiver s)\<lparr>gr_ready := False\<rparr>, gm_active := False, gm_conn := False,
     gm_gps := gps_Close (gm_gps s)\<rparr>"

text \<open>The switch of the mode shares \<open>lastDataReceived\<close> with the filters.\<close>

definition switch_mode_of :: "gps_config \<Rightarrow> gps_env \<Rightarrow> GPSMode \<Rightarrow> gps_monitor \<Rightarrow> gps_err option \<times> gps_monitor" where
  "switch_mode_of cfg env mode s =
     (case run_state (SetGPSMode cfg env mode) ((gm_receiver s)\<lparr>gr_lastData := gs_lastData (gm_gps s)\<rparr>) of
        (e, r) \<Rightarrow> (e, s\<lparr>gm_receiver := r, gm_gps := (gm_gps s)\<lparr>gs_lastData := gr_lastData r\<rparr>\<rparr>))"

definition NewService_monitor :: gps_monitor where
  "NewService_monitor = \<lparr>gm_gps = NewService_state,
     gm_receiver = \<lparr>gr_path = '''', gr_mode = ModeStandalone, gr_ready = False, gr_lastData = zero_time, gr_log = []\<rparr>,
     gm_conn = False, gm_active = False, gm_attempt = 0\<rparr>"

section \<open>Histories\<close>

text \<open>
  What happens to the monitor: passes of the goroutine while it runs, reports, the operations of the service,
  which also owns \<open>GPSLostTime\<close> and clears \<open>gpsFreshInit\<close>.
\<close>

inductive monitor_move :: "gps_monitor \<Rightarrow> gps_monitor \<Rightarrow> bool" where
  Pass: "gm_active s \<Longrightarrow> monitor_pass env s = (p, t) \<Longrightarrow> monitor_move s t"
| Report: "monitor_move s (s\<lparr>gm_gps := handle_report conv r (gm_gps s)\<rparr>)"
| Enable: "monitor_move s (EnableGPS path s)"
| Close: "monitor_move s (monitor_Close s)"
| Switch: "switch_mode_of cfg env mode s = (e, t) \<Longrightarrow> monitor_move s t"
| Lost: "monitor_move s (s\<lparr>gm_gps := (gm_gps s)\<lparr>gs_GPSLostTime := now\<rparr>\<rparr>)"
| Seen: "monitor_move s (s\<lparr>gm_gps := (gm_gps s)\<lparr>gs_gpsFreshInit := False\<rparr>\<rparr>)"

inductive monitor_moves :: "gps_monitor \<Rightarrow> gps_monitor \<Rightarrow> bool" for s where
  Stay: "monitor_moves s s"
| Step: "monitor_moves s t \<Longrightarrow> monitor_move t u \<Longrightarrow> monitor_moves s u"

section \<open>Lemmas\<close>

subsection \<open>Reports leave the life cycle alone\<close>

lemma handle_report_keeps [simp]:
  "gs_gpsFreshInit (handle_report conv r g) = gs_gpsFreshInit g"
  "gs_GPSLostTime (handle_report conv r g) = gs_GPSLostTime g"
  "gs_connected (handle_report conv r g) = gs_connected g"
  by (cases r; auto simp: sky_filter_def tpv_filter_def tpv_mode_def Let_def split: option.splits prod.splits)+

lemma handle_reports_keeps [simp]:
  "gs_gpsFreshInit (handle_reports conv rs g) = gs_gpsFreshInit g"
  "gs_GPSLostTime (handle_reports conv rs g) = gs_GPSLostTime g"
  "gs_connected (handle_reports conv rs g) = gs_connected g"
  by (induction rs arbitrary: g) (simp_all add: handle_reports_def)

lemma handle_reports_Nil [simp]: "handle_reports conv [] g = g"
  by (simp add: handle_reports_def)

lemma await_data_keeps: "await_data n env k g = (r, h) \<Longrightarrow> gs_gpsFreshInit h = gs_gpsFreshInit g"
  by (induction n arbitrary: k g) (auto simp: Let_def split: if_splits)

subsection \<open>Readiness\<close>

text \<open>What depends on neither the path, the mode nor the calls made is kept by every operation on the receiver.\<close>

definition bare :: "(receiver \<Rightarrow> bool) \<Rightarrow> bool" where
  "bare I \<longleftrightarrow> (\<forall>s p m t l. I (s\<lparr>gr_path := p\<rparr>) = I s \<and> I (s\<lparr>gr_log := l\<rparr>) = I s \<and> I (s\<lparr>gr_mode := m\<rparr>) = I s
     \<and> I (s\<lparr>gr_lastData := t\<rparr>) = I s)"

lemma bareD: "bare I \<Longrightarrow> I (s\<lparr>gr_path := p\<rparr>) = I s" "bare I \<Longrightarrow> I (s\<lparr>gr_log := l\<rparr>) = I s"
  "bare I \<Longrightarrow> I (s\<lparr>gr_mode := m\<rparr>) = I s" "bare I \<Longrightarrow> I (s\<lparr>gr_lastData := t\<rparr>) = I s"
  by (simp_all add: bare_def)

lemma bare_ready: "bare (\<lambda>s. gr_ready s = b)"
  by (simp add: bare_def)

lemma bare_send:
  assumes "bare I" shows "keeps I (sendATCommand env c)"
proof -
  have e: "keeps I (ensureModemPath env)"
    by (rule tripleI) (auto simp: ensureModemPath_def bareD [OF assms] split: if_splits option.splits)
  have r: "keeps I (refreshModemPathIfStale env msg)" for msg
    by (rule tripleI) (auto simp: refreshModemPathIfStale_def bareD [OF assms] split: if_splits option.splits)
  have s: "keeps I (send env c)" by (rule tripleI) (auto simp: send_def bareD [OF assms])
  have a: "keeps I (send_again env c msg)" for msg
    unfolding send_again_def by (intro triples r s)
  have f: "keeps I (send_first env c)"
    unfolding send_first_def by (intro triples s) (auto intro: triples a split: sum.split)
  show ?thesis unfolding sendATCommand_def by (intro triples e f)
qed

lemma bare_basic:
  assumes "bare I"
  shows "keeps I (observe f)" "keeps I (note_call c)" "keeps I cur_path" "keeps I finish"
    "keeps I (refreshModemPathIfStale env msg)"
    "keeps I (State_Monad.update (\<lambda>s. s\<lparr>gr_mode := m\<rparr>))" "keeps I (State_Monad.update (\<lambda>s. s\<lparr>gr_mode := m, gr_lastData := t\<rparr>))"
  by (auto simp: observe_def note_call_def cur_path_def finish_def refreshModemPathIfStale_def triple_def
      State_Monad.update_def State_Monad.get_def State_Monad.set_def bareD [OF assms] split: option.splits)

lemma bare_stages:
  assumes "bare I"
  shows "keeps I (require_at env c)" "keeps I (try_at env c)" "keeps I (check_at env c ok)" "keeps I (wait_for env d)"
    "keeps I (waitUntil env t)" "keeps I (bus env b)" "keeps I (bus_retry env b)"
proof -
  note rules = triples bare_send [OF assms] bare_basic [OF assms]
  show "keeps I (require_at env c)" "keeps I (try_at env c)" "keeps I (check_at env c ok)"
    unfolding require_at_def try_at_def check_at_def by (intro rules)+
  show w: "keeps I (wait_for env d)" for d unfolding wait_for_def by (intro rules)
  show "keeps I (waitUntil env t)" unfolding waitUntil_def Let_def by (intro rules w)
  show b: "keeps I (bus env b)" unfolding bus_def by (intro rules)
  show "keeps I (bus_retry env b)" unfolding bus_retry_def by (intro rules b)
qed

lemma bare_stopped: "bare I \<Longrightarrow> keeps I (waitForReceiverStopped n env deadline)"
proof (induction n)
  case 0
  then show ?case by (auto intro: triples)
next
  case (Suc n)
  note rules = triples bare_send [OF Suc.prems] bare_basic [OF Suc.prems] bare_stages [OF Suc.prems] Suc.IH [OF Suc.prems]
  have "keeps I (stop_poll env deadline (waitForReceiverStopped n env deadline) now)" for now
    unfolding stop_poll_def Let_def by (intro rules)
  then have "keeps I (stop_answer env deadline (waitForReceiverStopped n env deadline) r)" for r
    unfolding stop_answer_def by (cases r) (auto intro!: rules split: prod.split)
  then show ?case by (auto intro!: rules)
qed

lemma bare_attempts: "bare I \<Longrightarrow> keeps I (setup_attempts n env sources)"
  by (induction n) (auto intro!: triples bare_basic bare_stages)

lemma bare_doGPSConfiguration:
  assumes "bare I" shows "keeps I (doGPSConfiguration cfg env)"
proof -
  note rules = triples bare_send [OF assms] bare_basic [OF assms] bare_stages [OF assms] bare_stopped [OF assms]
    bare_attempts [OF assms]
  have "keeps I (startStandaloneReceiver env t)" for t
    unfolding startStandaloneReceiver_def by (intro rules)
  then have a: "keeps I (configureAntennaPower cfg env t)" for t
    unfolding configureAntennaPower_def syncGPSClock_def by (intro rules)
  have "keeps I (configureGPSViaATCommands cfg env)"
    unfolding configureGPSViaATCommands_def configureGPSPowerMode_def syncGPSClock_def by (intro rules)
  then have r: "keeps I (configureReceiver cfg env)"
    unfolding configureReceiver_def by (auto intro!: rules a split: prod.split)
  have e: "keeps I (enableLocationSources env s)" for s
    unfolding enableLocationSources_def setupLocationSources_def by (intro rules)
  have l: "keeps I (getLocationStatus env)" unfolding getLocationStatus_def by (intro rules)
  show ?thesis
    unfolding doGPSConfiguration_def Let_def disableConflictingSources_def setGPSRefreshRate_def
    by (intro rules r e l)
qed

lemma bare_configure:
  assumes "bare I" shows "keeps I (configureGPSWithRetries cfg env)"
proof -
  have "keeps I (config_attempts n cfg env)" for n
    by (induction n) (auto intro!: triples bare_basic [OF assms] bare_stages [OF assms] bare_doGPSConfiguration [OF assms])
  then show ?thesis by (simp add: configureGPSWithRetries_def)
qed

lemma bare_query:
  assumes "bare I" shows "keeps I (queryGPSChipState env)"
  unfolding queryGPSChipState_def
  by (intro triples bare_send [OF assms]) (auto intro!: triples bare_send [OF assms] split: sum.split)

lemma bare_switch:
  assumes "bare I" shows "keeps I (SetGPSMode cfg env mode)"
proof -
  note rules = triples bare_send [OF assms] bare_basic [OF assms] bare_stages [OF assms]
  show ?thesis unfolding SetGPSMode_def Let_def by (intro rules)
qed

lemma configure_ready:
  "configureGPS env s = (ok, t) \<Longrightarrow> gr_ready (gm_receiver t) = gr_ready (gm_receiver s)
     \<and> gm_conn t = gm_conn s \<and> gm_active t = gm_active s \<and> gm_gps t = gm_gps s \<and> gm_attempt t = gm_attempt s"
  using tripleD [OF bare_configure [OF bare_ready [of "gr_ready (gm_receiver s)"]], of "gm_receiver s"]
  by (auto simp: configureGPS_def split: if_splits prod.splits)

lemma probe_ready:
  assumes "probeStartupReuse env s = (r, t)"
  shows "gr_ready (gm_receiver t) = gr_ready (gm_receiver s) \<and> gm_active t = gm_active s
    \<and> (r = Some True \<longrightarrow> gm_conn t)"
proof -
  have q: "gr_ready r1 = gr_ready r0" if "run_state (queryGPSChipState e) r0 = (c, r1)" for e r0 c r1
    using tripleD [OF bare_query [OF bare_ready [of "gr_ready r0"]] _ that] by simp
  have a: "gr_ready r1 = gr_ready r0" if "run_state (sendATCommand e m) r0 = (c, r1)" for e m r0 c r1
    using tripleD [OF bare_send [OF bare_ready [of "gr_ready r0"]] _ that] by simp
  show ?thesis using assms
    by (auto simp: probeStartupReuse_def connectToGPSD_def dest!: q a split: if_splits prod.splits option.splits sum.splits)
qed

lemma startup_cases:
  assumes "startup env s = (reused, t)"
  shows "gm_active t = gm_active s"
    and "reused \<Longrightarrow> gm_conn t \<and> \<not> gs_gpsFreshInit (gm_gps t)"
    and "\<not> reused \<Longrightarrow> gr_ready (gm_receiver t) = gr_ready (gm_receiver s)"
    and "\<not> reused \<Longrightarrow> \<not> gm_conn s \<Longrightarrow> \<not> gm_conn t"
    and "gm_attempt s = 0 \<Longrightarrow> \<not> gs_gpsFreshInit (gm_gps t)"
    and "\<not> gs_gpsFreshInit (gm_gps s) \<Longrightarrow> (reused, t) = (False, s)"
  using assms by (auto simp: startup_def dest!: probe_ready split: if_splits prod.splits)

text \<open>What a pass does to the connection, to readiness and to the flag of the first fix.\<close>

lemma pass_sound:
  assumes "monitor_pass env s = (p, t)" and "gm_active s" and "gr_ready (gm_receiver s) \<longrightarrow> gm_conn s"
  shows "gr_ready (gm_receiver t) \<longrightarrow> gm_conn t \<and> gm_active t"
  using assms
  by (auto simp: monitor_pass_def reconnect_def retry_later_def check_stale_def Let_def connectToGPSD_def
      dest!: configure_ready dest: startup_cases split: if_splits prod.splits bool.splits)

lemma pass_fresh:
  assumes "monitor_pass env s = (p, t)" and "\<not> gs_gpsFreshInit (gm_gps s)"
  shows "\<not> gs_gpsFreshInit (gm_gps t)"
  using assms
  by (auto simp: monitor_pass_def reconnect_def retry_later_def check_stale_def Let_def connectToGPSD_def connected_gpsd_def
      dest!: configure_ready startup_cases(6) split: if_splits prod.splits bool.splits)

lemma first_pass_fresh:
  assumes "monitor_pass env s = (p, t)" and "p \<noteq> Ended" and "\<not> gm_conn s" and "gm_attempt s = 0"
  shows "\<not> gs_gpsFreshInit (gm_gps t)"
  using assms
  by (auto simp: monitor_pass_def reconnect_def retry_later_def check_stale_def Let_def connectToGPSD_def connected_gpsd_def
      dest!: configure_ready startup_cases(5) split: if_splits prod.splits bool.splits)

lemma switch_keeps:
  assumes "switch_mode_of cfg env mode s = (e, t)"
  shows "gr_ready (gm_receiver t) = gr_ready (gm_receiver s) \<and> gm_conn t = gm_conn s \<and> gm_active t = gm_active s
    \<and> gs_gpsFreshInit (gm_gps t) = gs_gpsFreshInit (gm_gps s)"
  using assms tripleD [OF bare_switch [OF bare_ready [of "gr_ready (gm_receiver s)"]],
      of "(gm_receiver s)\<lparr>gr_lastData := gs_lastData (gm_gps s)\<rparr>"]
  by (auto simp: switch_mode_of_def split: prod.splits)

lemma move_ready:
  assumes "monitor_move s t" and "gr_ready (gm_receiver s) \<longrightarrow> gm_conn s \<and> gm_active s"
  shows "gr_ready (gm_receiver t) \<longrightarrow> gm_conn t \<and> gm_active t"
  using assms
proof cases
  case (Pass env p)
  then show ?thesis using pass_sound assms(2) by blast
next
  case (Switch cfg env mode e)
  then show ?thesis using switch_keeps assms(2) by auto
qed (use assms(2) in \<open>auto simp: EnableGPS_def monitor_Close_def\<close>)

lemma move_fresh:
  assumes "monitor_move s t" and "\<not> gs_gpsFreshInit (gm_gps s)"
  shows "\<not> gs_gpsFreshInit (gm_gps t)"
  using assms
proof cases
  case (Pass env p)
  then show ?thesis using pass_fresh assms(2) by blast
next
  case (Switch cfg env mode e)
  then show ?thesis using switch_keeps assms(2) by auto
qed (use assms(2) in \<open>auto simp: EnableGPS_def monitor_Close_def gps_Close_def\<close>)

subsection \<open>The probe\<close>

text \<open>Each poll waits for 100 ms or until the deadline, so that 51 polls reach it.\<close>

lemma await_data_ends:
  assumes "\<And>k. me_poll env k + min (100 * millisecond_ns) (me_started env + startupReuseProbeTimeout - me_poll env k) \<le> me_poll env (k + 1)"
  shows "me_started env + startupReuseProbeTimeout - me_poll env k \<le> int n * (100 * millisecond_ns)
    \<Longrightarrow> fst (await_data (Suc n) env k g) \<noteq> None"
proof (induction n arbitrary: k g)
  case 0
  then show ?case by (auto simp: Let_def time_Sub_def time_Add_def min_int64_def max_int64_def)
next
  case (Suc n)
  have "me_started env + startupReuseProbeTimeout - me_poll env (k + 1) \<le> int n * (100 * millisecond_ns)"
    using Suc.prems assms [of k] by (auto simp: min_def algebra_simps split: if_splits) (simp_all add: go_time)
  from Suc.IH [OF this] show ?case
    unfolding await_data.simps(2) [of "Suc n"] Let_def by (auto simp del: await_data.simps)
qed

lemma probe_within_fuel:
  assumes "\<And>k. me_poll env k + min (100 * millisecond_ns) (me_started env + startupReuseProbeTimeout - me_poll env k) \<le> me_poll env (k + 1)"
    and "me_started env \<le> me_poll env 0"
  shows "fst (await_data probe_fuel env 0 g) \<noteq> None"
proof -
  have fuel: "probe_fuel = Suc 51" by (simp add: probe_fuel_def)
  show ?thesis unfolding fuel
    by (rule await_data_ends [OF assms(1)]) (use assms(2) in \<open>simp add: startupReuseProbeTimeout_def go_time\<close>)
qed

text \<open>Taking over a running receiver sends three questions and the command for the antenna, and nothing else.\<close>

definition reuse_commands :: "string set" where
  "reuse_commands = {''AT+CGPS?'', ''AT+CVAUXV?'', ''AT+CGPSPMD?'', ''AT+CVAUXS=1''}"

definition only_sent :: "gps_call list \<Rightarrow> string set \<Rightarrow> receiver \<Rightarrow> bool" where
  "only_sent l C r \<longleftrightarrow> (\<exists>cs. gr_log r = l @ cs \<and> set cs \<subseteq> {AT p c |p c. c \<in> C})"

lemma only_sent_more: "only_sent l C r \<Longrightarrow> c \<in> C \<Longrightarrow> only_sent l C (r\<lparr>gr_log := gr_log r @ [AT p c]\<rparr>)"
  unfolding only_sent_def by auto

lemma only_sent_send:
  assumes "c \<in> C" shows "keeps (only_sent l C) (sendATCommand env c)"
proof -
  have e: "keeps (only_sent l C) (ensureModemPath env)"
    by (rule tripleI) (auto simp: ensureModemPath_def only_sent_def split: if_splits option.splits)
  have r: "keeps (only_sent l C) (refreshModemPathIfStale env msg)" for msg
    by (rule tripleI) (auto simp: refreshModemPathIfStale_def only_sent_def split: if_splits option.splits)
  have s: "keeps (only_sent l C) (send env c)"
    by (rule tripleI) (auto simp: send_def intro: only_sent_more assms)
  have a: "keeps (only_sent l C) (send_again env c msg)" for msg
    unfolding send_again_def by (intro triples r s)
  have f: "keeps (only_sent l C) (send_first env c)"
    unfolding send_first_def by (intro triples s) (auto intro: triples a split: sum.split)
  show ?thesis unfolding sendATCommand_def by (intro triples e f)
qed

lemma reuse_only_asks:
  assumes "startup env s = (reused, t)"
  shows "only_sent (gr_log (gm_receiver s)) reuse_commands (gm_receiver t)"
proof -
  let ?I = "only_sent (gr_log (gm_receiver s)) reuse_commands"
  have start: "?I (gm_receiver s)" by (simp add: only_sent_def)
  have q: "keeps ?I (queryGPSChipState e)" for e
    unfolding queryGPSChipState_def
    by (intro triples only_sent_send) (auto intro!: triples only_sent_send simp: reuse_commands_def split: sum.split)
  have c: "keeps ?I (sendATCommand e ''AT+CVAUXS=1'')" for e by (rule only_sent_send) (simp add: reuse_commands_def)
  have qe: "?I r1" if "run_state (queryGPSChipState e) (gm_receiver s) = (x, r1)" for e x r1
    using tripleD [OF q start that] .
  have ce: "?I r1" if "run_state (sendATCommand e ''AT+CVAUXS=1'') r0 = (x, r1)" "?I r0" for e x r0 r1
    using tripleD [OF c that(2,1)] .
  have upd: "?I (r\<lparr>gr_mode := m, gr_ready := b\<rparr>) = ?I r" for r m b by (simp add: only_sent_def)
  have "?I (gm_receiver u)" if "probeStartupReuse env s = (x, u)" for x u
    using that start
    by (auto simp: probeStartupReuse_def connectToGPSD_def dest!: qe ce split: if_splits prod.splits option.splits sum.splits)
  then show ?thesis using assms start
    by (auto simp: startup_def upd split: if_splits prod.splits)
qed

section \<open>Properties\<close>

text \<open>
   The mode can be switched only over a live connection: in every history of the service, while
  \<open>ReadyForModeSwitch\<close> answers true the goroutine runs and holds a connection to gpsd, whatever the modem
  and gpsd do and whenever the GPS is closed or enabled.
\<close>

theorem ready_means_connected:
  assumes "monitor_moves NewService_monitor s" and "gr_ready (gm_receiver s)"
  shows "gm_conn s \<and> gm_active s"
proof -
  have "gr_ready (gm_receiver s) \<longrightarrow> gm_conn s \<and> gm_active s" using assms(1)
  proof induction
    case Stay
    show ?case by (simp add: NewService_monitor_def)
  next
    case (Step t u)
    show ?case by (rule move_ready [OF Step.hyps(2) Step.IH])
  qed
  with assms(2) show ?thesis by blast
qed

text \<open>
   The first fix is not announced. \<open>ShouldPublishRecovery\<close> is to report a first fix, by the flag
  \<open>gpsFreshInit\<close>, but the first pass of the goroutine clears the flag before it is connected for good; from
  then on a first fix is announced only like any other, when the search has taken more than five minutes.
\<close>

theorem first_fix_not_announced:
  assumes "monitor_pass env s = (p, t)" and "p \<noteq> Ended" and "\<not> gm_conn s" and "gm_attempt s = 0"
    and "monitor_moves t u" and "gs_GPSLostTime (gm_gps u) = zero_time \<or> time_Sub now (gs_GPSLostTime (gm_gps u)) \<le> 5 * minute_ns"
  shows "\<not> ShouldPublishRecovery now hasInternet (gm_gps u)"
proof -
  have "\<not> gs_gpsFreshInit (gm_gps u)" using assms(5)
    by induction (use first_pass_fresh [OF assms(1-4)] move_fresh in blast)+
  with assms(6) show ?thesis by (auto simp: ShouldPublishRecovery_def go_time)
qed

definition run_passes :: "monitor_env list \<Rightarrow> gps_monitor \<Rightarrow> gps_monitor" where
  "run_passes envs s = fold (\<lambda>env s. snd (monitor_pass env s)) envs s"

lemma stale_pass:
  assumes "gs_hasValidFix (gm_gps s)" and "gs_lastFix (gm_gps s) = lf" and "\<not> gs_gpsFreshInit (gm_gps s)"
    and "\<not> me_done env" and "me_arrived env = []" and "time_Sub (me_checked env) lf > GPSTimeout"
    and "\<not> gr_ready (gm_receiver s) \<or> gm_conn s"
    and "monitor_pass env s = (p, t)"
  shows "\<not> gm_conn t \<and> \<not> gr_ready (gm_receiver t) \<and> gs_hasValidFix (gm_gps t) \<and> gs_lastFix (gm_gps t) = lf
    \<and> \<not> gs_gpsFreshInit (gm_gps t)"
  using assms
  by (auto simp: monitor_pass_def reconnect_def retry_later_def check_stale_def Let_def connectToGPSD_def connected_gpsd_def
      dest!: configure_ready startup_cases(6) split: if_splits prod.splits bool.splits)


section \<open>The hypotheses can hold\<close>

definition working :: monitor_env where
  "working = \<lparr>me_done = False, me_gps = good_modem, me_cfg = default_config '''', me_client = True,
     me_probe_dial = False, me_dial = True, me_started = 0, me_poll = (\<lambda>_. 0), me_probe_done = (\<lambda>_. False),
     me_conv = (\<lambda>_. 0), me_arrive = (\<lambda>_. []), me_connected = hour_ns, me_arrived = [], me_checked = hour_ns\<rparr>"

definition silent :: gps_monitor where
  "silent = \<lparr>gm_gps = NewService_state\<lparr>gs_hasValidFix := True, gs_gpsFreshInit := False, gs_lastFix := 0\<rparr>,
     gm_receiver = idle_receiver\<lparr>gr_ready := False\<rparr>, gm_conn = False, gm_active = True, gm_attempt = 0\<rparr>"

lemma good_retries:
  assumes "gr_log r = []" and "gr_path r \<noteq> ''''"
  shows "\<exists>t. run_state (configureGPSWithRetries cfg good_modem) r = (None, t) \<and> gr_path t \<noteq> ''''"
proof -
  have fuel: "stop_fuel = Suc 101" "MaxConfigRetries = Suc 2" by (simp_all add: stop_fuel_def MaxConfigRetries_def)
  have stop: "waitForReceiverStopped stop_fuel env d = do {
      r \<leftarrow> sendATCommand env ''AT+CGPS?''; stop_answer env d (waitForReceiverStopped 101 env d) r }" for env d
    unfolding fuel waitForReceiverStopped.simps ..
  have env: "ge_now good_modem h = sum_list (map (\<lambda>x. case x of Sleep d \<Rightarrow> max 0 d | _ \<Rightarrow> 0) h)"
    "ge_done good_modem h = False" "ge_woken good_modem h = True" "ge_sources good_modem h = 0" "ge_bus good_modem h c = None" for h c
    by (simp_all add: good_modem_def)
  have receiver: "\<exists>t. run_state (configureReceiver cfg good_modem) r = (None, t) \<and> gr_path t \<noteq> ''''"
    using assms by (simp add: configureReceiver_def configureGPSViaATCommands_def configureAntennaPower_def
        startStandaloneReceiver_def configureGPSPowerMode_def check_at_def stop stop_answer_def
        good_send good_stages good_answers run_orelse_stage run_waitUntil finish_def observe_def
        requiredGPSPowerMode_def gpsRestartMinimumInterval_def time_Sub_def min_int64_def max_int64_def go_time env
        State_Monad.update_def State_Monad.get_def State_Monad.set_def)
  have rest: "\<exists>u. run_state (do {
       status \<leftarrow> getLocationStatus good_modem;
       let enabledSources = (case status of Some v \<Rightarrow> v | None \<Rightarrow> 0);
       _ \<leftarrow> disableConflictingSources good_modem enabledSources;
       orelse (enableLocationSources good_modem enabledSources)
         (do { _ \<leftarrow> setGPSRefreshRate cfg good_modem; finish })
     }) t = (None, u) \<and> gr_path u = gr_path t" for t
    by (simp add: getLocationStatus_def bus_retry_def bus_def cur_path_def note_call_def observe_def env
        disableConflictingSources_def enableLocationSources_def setupLocationSources_def numeral_3_eq_3
        wait_for_def run_orelse_stage finish_def setGPSRefreshRate_def
        State_Monad.update_def State_Monad.get_def State_Monad.set_def)
  obtain t where t: "run_state (configureReceiver cfg good_modem) r = (None, t)" "gr_path t \<noteq> ''''" using receiver by blast
  obtain u where u: "run_state (doGPSConfiguration cfg good_modem) r = (None, u)" "gr_path u = gr_path t"
    using rest [of t] t unfolding doGPSConfiguration_def run_orelse_stage by auto
  then have "run_state (configureGPSWithRetries cfg good_modem) r = (None, u)"
    unfolding configureGPSWithRetries_def fuel config_attempts.simps by (simp add: finish_def)
  with t u show ?thesis by simp
qed

lemma working_configures:
  "gr_log (gm_receiver s) = [] \<Longrightarrow> gr_path (gm_receiver s) \<noteq> '''' \<Longrightarrow> fst (configureGPS working s)"
  using good_retries [of "gm_receiver s" "default_config ''''"] by (auto simp: configureGPS_def working_def)

lemma first_fix_not_announced_witness:
  "\<not> ShouldPublishRecovery hour_ns True (gm_gps (snd (monitor_pass working (EnableGPS ''/m'' NewService_monitor))))"
proof -
  let ?s = "EnableGPS ''/m'' NewService_monitor"
  obtain p t where t: "monitor_pass working ?s = (p, t)" by fastforce
  have fields: "\<not> gm_conn ?s" "gm_attempt ?s = 0" "gr_log (gm_receiver ?s) = []" "gr_path (gm_receiver ?s) = ''/m''"
    by (simp_all add: EnableGPS_def NewService_monitor_def)
  have "p \<noteq> Ended \<and> gs_GPSLostTime (gm_gps t) = zero_time" using t fields
    by (auto simp: monitor_pass_def reconnect_def retry_later_def check_stale_def startup_def probeStartupReuse_def Let_def
        working_def connectToGPSD_def connected_gpsd_def EnableGPS_def NewService_monitor_def NewService_state_def
        dest!: configure_ready split: if_splits prod.splits bool.splits)
  with first_fix_not_announced [OF t _ fields(1,2) Stay, of hour_ns True] t show ?thesis by simp
qed


lemma ready_means_connected_witness:
  "gm_conn (snd (monitor_pass working (EnableGPS ''/m'' NewService_monitor)))"
proof -
  let ?s = "EnableGPS ''/m'' NewService_monitor"
  note defs = startup_def probeStartupReuse_def connectToGPSD_def working_def EnableGPS_def NewService_monitor_def NewService_state_def
  obtain s1 where start: "startup working ?s = (False, s1)"
    by (simp add: defs)
  then have s1: "gr_log (gm_receiver s1) = []" "gr_path (gm_receiver s1) \<noteq> ''''" "\<not> gs_hasValidFix (gm_gps s1)"
    by (auto simp: defs)
  have "fst (configureGPS working s1)" by (rule working_configures [OF s1(1,2)])
  then obtain t where t: "configureGPS working s1 = (True, t)" by (cases "configureGPS working s1") auto
  have nofix: "\<not> gs_hasValidFix (gm_gps t)" using configure_ready [OF t] s1 by simp
  obtain p u where u: "monitor_pass working ?s = (p, u)" by fastforce
  have "\<not> gm_conn ?s" "gm_active ?s" "\<not> me_done working" "me_dial working" "me_arrived working = []"
    by (simp_all add: EnableGPS_def NewService_monitor_def working_def)
  then have "gr_ready (gm_receiver u)" using u nofix
    by (simp add: monitor_pass_def reconnect_def start t check_stale_def connectToGPSD_def connected_gpsd_def Let_def)
      (auto split: if_splits)
  moreover have "monitor_moves NewService_monitor u"
    by (rule Step [OF Step [OF Stay Enable] Pass [OF \<open>gm_active ?s\<close> u]])
  ultimately show ?thesis using ready_means_connected [of u] u by simp
qed

end
