(* ===== verification/Gps_Publish.thy ===== *)
theory Gps_Publish
  imports Gps_Reports Go_Time
begin

text \<open>
  How positions reach the server: \<open>publishLocationState\<close> of \<open>internal/service/service.go\<close> with
  \<open>PublishLocationState\<close>, \<open>PublishGPSSnapshot\<close> and \<open>PublishClockSync\<close> of \<open>internal/redis/redis.go\<close>. A Go map is an
  association list with distinct keys; whether the server takes a write is an argument. Times are formatted in UTC.
\<close>

section \<open>Decimal text of a number\<close>

definition round_half_even :: "real \<Rightarrow> int" where
  "round_half_even x =
     (let f = \<lfloor>x\<rfloor>; d = x - of_int f in if d < 1 / 2 \<or> d = 1 / 2 \<and> even f then f else f + 1)"

text \<open>\<open>Sprintf\<close> with the verb \<open>%.<digits>f\<close>; the sign of zero is not modelled.\<close>

fun format_fixed :: "nat \<Rightarrow> float64 \<Rightarrow> string" where
  "format_fixed digits (Num r) =
     (let n = nat (round_half_even (\<bar>r\<bar> * 10 ^ digits)) in
      (if r < 0 then ''-'' else '''') @ dec_str (n div 10 ^ digits)
        @ (if digits = 0 then '''' else ''.'' @ pad_left digits (CHR ''0'') (dec_str (n mod 10 ^ digits))))"
| "format_fixed digits (Inf p) = (if p then ''+Inf'' else ''-Inf'')"
| "format_fixed digits NaN = ''NaN''"

abbreviation format_f6 :: "float64 \<Rightarrow> string" where "format_f6 \<equiv> format_fixed 6"

text \<open>Metres per second to kilometres per hour.\<close>

fun f_kmh :: "float64 \<Rightarrow> float64" where
  "f_kmh (Num r) = Num (r * (36 / 10))"
| "f_kmh x = x"

section \<open>The server\<close>

type_synonym gps_fields = "(string \<times> status_value) list"

text \<open>The hash \<open>gps\<close>, the timestamps announced, the snapshots sent on the channel, and the hash \<open>clock\<close>.\<close>

record gps_server =
  gh_hash :: "string \<Rightarrow> status_value option"
  gh_announced :: "status_value list"
  gh_snapshots :: "gps_fields list"
  gh_clock :: "string \<Rightarrow> string option"

text \<open>The fields gain the time of the update also for the caller; the boolean is the result.\<close>

definition PublishLocationState ::
  "bool \<Rightarrow> gotime \<Rightarrow> gps_fields \<Rightarrow> bool \<Rightarrow> gps_server \<Rightarrow> bool \<times> gps_fields \<times> gps_server" where
  "PublishLocationState ok now data0 publishRecovery h =
     (let fs = data0 @ [(''updated'', SText (rfc3339 now))] in
      if \<not> ok then (False, fs, h)
      else (True, fs, h\<lparr>gh_hash := gh_hash h ++ map_of fs,
        gh_announced := gh_announced h @ (if publishRecovery
          then (case map_of fs ''timestamp'' of Some t \<Rightarrow> [t] | None \<Rightarrow> []) else [])\<rparr>))"

text \<open>JSON has no text for the numbers that are not finite.\<close>

fun json_value :: "status_value \<Rightarrow> bool" where
  "json_value (SFloat (Num r)) \<longleftrightarrow> True"
| "json_value (SFloat x) \<longleftrightarrow> False"
| "json_value _ \<longleftrightarrow> True"

definition PublishGPSSnapshot :: "bool \<Rightarrow> gps_fields \<Rightarrow> gps_server \<Rightarrow> bool \<times> gps_server" where
  "PublishGPSSnapshot ok fs h =
     (if \<not> list_all (json_value \<circ> snd) fs then (False, h)
      else if \<not> ok then (False, h)
      else (True, h\<lparr>gh_snapshots := gh_snapshots h @ [fs]\<rparr>))"

definition PublishClockSync :: "bool \<Rightarrow> string \<Rightarrow> gotime \<Rightarrow> gotime \<Rightarrow> gps_server \<Rightarrow> bool \<times> gps_server" where
  "PublishClockSync ok source synced now h =
     (if \<not> ok then (False, h)
      else (True, h\<lparr>gh_clock := (gh_clock h)(''source'' \<mapsto> source, ''synced-at'' \<mapsto> rfc3339 synced, ''updated'' \<mapsto> rfc3339 now)\<rparr>))"

section \<open>A position with a fix\<close>

definition position_fields :: "Location \<Rightarrow> gps_fields" where
  "position_fields loc =
     [(''latitude'', SText (format_f6 (lo_Latitude loc))), (''longitude'', SText (format_f6 (lo_Longitude loc))),
      (''altitude'', SText (format_f6 (lo_Altitude loc))), (''speed'', SText (format_f6 (f_kmh (lo_Speed loc)))),
      (''course'', SText (format_f6 (lo_Course loc))), (''timestamp'', SText (rfc3339 (lo_Timestamp loc)))]"

text \<open>The first argument says which of the two calls the server takes.\<close>

definition publishLocationState ::
  "bool \<times> bool \<Rightarrow> gotime \<Rightarrow> gps_state \<Rightarrow> Location \<Rightarrow> bool \<Rightarrow> gps_server \<Rightarrow> bool \<times> gps_server" where
  "publishLocationState oks now g loc publishRecovery h =
     (case PublishLocationState (fst oks) now (position_fields loc @ GetGPSStatus g) publishRecovery h of
        (False, fs, h1) \<Rightarrow> (False, h1)
      | (True, fs, h1) \<Rightarrow> (True, snd (PublishGPSSnapshot (snd oks) fs h1)))"

section \<open>The status without a fix\<close>

definition search_fields :: "gps_state \<Rightarrow> gps_fields" where
  "search_fields g =
     [(''fix'', SText (gs_fixMode g)), (''snr'', SFloat (gs_snr g)), (''active'', SBool (gs_hasValidFix g)),
      (''connected'', SBool (gs_connected g)), (''state'', SText (gs_state g)), (''hdop'', SFloat (gs_hdop g)),
      (''vdop'', SFloat (gs_vdop g)), (''pdop'', SFloat (gs_pdop g)), (''eph'', SFloat f_zero), (''eps'', SFloat f_zero),
      (''ept'', SFloat f_zero), (''satellites-used'', SCount (gs_satsUsed g)),
      (''satellites-visible'', SCount (gs_satsVisible g))]"

definition publish_search ::
  "bool \<times> bool \<Rightarrow> gotime \<Rightarrow> gps_state \<Rightarrow> gps_server \<Rightarrow> gps_server" where
  "publish_search oks now g h =
     (case PublishLocationState (fst oks) now (search_fields g) False h of
        (_, fs, h1) \<Rightarrow> snd (PublishGPSSnapshot (snd oks) (position_fields (gs_loc g) @ fs) h1))"

section \<open>Lemmas\<close>

lemma snapshot_keeps_hash [simp]: "gh_hash (snd (PublishGPSSnapshot ok fs h)) = gh_hash h"
  by (simp add: PublishGPSSnapshot_def)

text \<open>What the server shows once it has taken the writes.\<close>

lemma position_shown:
  assumes "publishLocationState oks now g loc publishRecovery h = (True, h')"
  shows "gh_hash h' ''latitude'' = Some (SText (format_f6 (lo_Latitude loc)))"
    "gh_hash h' ''longitude'' = Some (SText (format_f6 (lo_Longitude loc)))"
    "gh_hash h' ''active'' = Some (SBool (gs_hasValidFix g))" "gh_hash h' ''state'' = Some (SText (gs_state g))"
    "gh_hash h' ''eph'' = Some (SFloat (gs_eph g))"
  using assms
  by (auto simp: publishLocationState_def PublishLocationState_def position_fields_def GetGPSStatus_def Let_def
      split: prod.splits if_splits)

lemma active_shown:
  "fst oks \<Longrightarrow> gh_hash (snd (publishLocationState oks now g loc publishRecovery h)) ''active'' = Some (SBool (gs_hasValidFix g))"
  by (simp add: publishLocationState_def PublishLocationState_def position_fields_def GetGPSStatus_def Let_def)

lemma search_shown:
  assumes "fst oks"
  shows "gh_hash (publish_search oks now g h) ''active'' = Some (SBool (gs_hasValidFix g))"
    "gh_hash (publish_search oks now g h) ''state'' = Some (SText (gs_state g))"
    "gh_hash (publish_search oks now g h) ''eph'' = Some (SFloat f_zero)"
    "gh_hash (publish_search oks now g h) ''latitude'' = gh_hash h ''latitude''"
  using assms
  by (simp_all add: publish_search_def PublishLocationState_def search_fields_def Let_def)

end
