(* ===== verification/Gps_Recovery.thy ===== *)
theory Gps_Recovery
  imports Gps_Monitor Gps_Publish Gps_Clock Recovery Classifier
begin

text \<open>
  From \<open>internal/service/service.go\<close>: the tick of the monitor that supervises the GPS (\<open>monitorStatus\<close>), the
  health check of the GPS, its recovery with the fall-back to a recovery of the modem, and the fault that is
  shown meanwhile. It joins the goroutine of \<open>Gps_Monitor\<close> with the recovery of the modem in \<open>Recovery\<close>,
  whose field \<open>rc_gpsCount\<close> is \<open>GPSRecoveryCount\<close>. Reports of gpsd are handled between ticks.
\<close>

section \<open>State\<close>

text \<open>
  \<open>gu_until\<close> is \<open>gpsRecoveryUntil\<close>, \<open>gu_busy\<close> is \<open>gpsRecoveryInProgress\<close>, \<open>gu_clock\<close> is \<open>gpsClockPrevious\<close>,
  \<open>gu_fault\<close> is \<open>gpsFaultActive\<close>. \<open>gu_log\<close> records what is done to gpsd and to the fault.
\<close>

datatype gps_event = StopGPSD | CloseGPS | EnabledGPS object_path | RaiseGPSFault | ClearGPSFault | ClockAct clock_action

record gps_super =
  gu_modem :: recovery
  gu_monitor :: gps_monitor
  gu_server :: gps_server
  gu_enabledAt :: gotime
  gu_waiting :: bool
  gu_ttff :: gotime
  gu_fault :: bool
  gu_busy :: bool
  gu_until :: gotime
  gu_clock :: Location
  gu_log :: "gps_event list"

text \<open>
  What a tick finds: the settings, the modem, whether the configuration lock is held, the clock at each of its
  readings, and which calls to the server succeed.
\<close>

record tick_env =
  tk_modemEnabled :: bool
  tk_gpsEnabled :: bool
  tk_find :: "object_path option"
  tk_configuring :: bool
  tk_rec :: rec_env
  tk_stillEnabled :: bool
  tk_reEnabled :: bool
  tk_refind :: "object_path option"
  tk_clock :: clock_env
  tk_internet :: bool
  tk_gate :: gotime
  tk_enabling :: gotime
  tk_health :: gotime
  tk_gated :: gotime
  tk_done :: gotime
  tk_raise :: bool
  tk_clear :: bool
  tk_publish :: "bool \<times> bool"
  tk_ttff_ok :: bool

definition log_gps :: "gps_event list \<Rightarrow> gps_super \<Rightarrow> gps_super" where
  "log_gps es s = s\<lparr>gu_log := gu_log s @ es\<rparr>"

definition gps_of :: "gps_super \<Rightarrow> gps_state" where "gps_of s = gm_gps (gu_monitor s)"

definition on_gps :: "(gps_state \<Rightarrow> gps_state) \<Rightarrow> gps_super \<Rightarrow> gps_super" where
  "on_gps f s = s\<lparr>gu_monitor := (gu_monitor s)\<lparr>gm_gps := f (gm_gps (gu_monitor s))\<rparr>\<rparr>"

section \<open>The fault and the health check\<close>

definition clearGPSFault :: "bool \<Rightarrow> gps_super \<Rightarrow> gps_super" where
  "clearGPSFault ok s =
     (if \<not> gu_fault s then s else log_gps [ClearGPSFault] (s\<lparr>gu_fault := \<not> ok\<rparr>))"

definition gpsNoDataTimeout :: duration where "gpsNoDataTimeout = 15 * second_ns"

definition checkGPSHealth :: "bool \<Rightarrow> gotime \<Rightarrow> gps_super \<Rightarrow> bool" where
  "checkGPSHealth configuring now s =
     (if configuring then True
      else
        let lastData = gs_lastData (gps_of s) in
        if \<not> time_IsZero lastData \<and> time_Sub now lastData > gpsNoDataTimeout then False
        else if time_IsZero lastData \<and> \<not> time_IsZero (gu_enabledAt s) \<and> time_Sub now (gu_enabledAt s) > gpsNoDataTimeout then False
        else True)"

section \<open>Recovery\<close>

definition forget_gps :: "gps_super \<Rightarrow> gps_super" where
  "forget_gps s = on_gps (\<lambda>g. g\<lparr>gs_lastData := zero_time\<rparr>) (s\<lparr>gu_enabledAt := zero_time, gu_waiting := False\<rparr>)"

definition close_gps :: "gps_super \<Rightarrow> gps_super" where
  "close_gps s = log_gps [CloseGPS] (s\<lparr>gu_monitor := monitor_Close (gu_monitor s)\<rparr>)"

definition resetGPSAfterModemRecovery :: "gps_super \<Rightarrow> gps_super" where
  "resetGPSAfterModemRecovery s = forget_gps (close_gps s)"

text \<open>An operation on the modem; a recovery that succeeds resets the GPS on its way (\<open>CResetGPS\<close>).\<close>

definition on_modem :: "'a rec_m \<Rightarrow> gps_super \<Rightarrow> 'a \<times> gps_super" where
  "on_modem m s =
     (case run_state m (gu_modem s) of (x, r) \<Rightarrow>
        (x, if CResetGPS \<in> set (drop (length (rc_log (gu_modem s))) (rc_log r))
            then resetGPSAfterModemRecovery (s\<lparr>gu_modem := r\<rparr>) else s\<lparr>gu_modem := r\<rparr>))"

definition enable_gps :: "object_path \<Rightarrow> gps_super \<Rightarrow> gps_super" where
  "enable_gps path s = log_gps [EnabledGPS path] (s\<lparr>gu_monitor := EnableGPS path (gu_monitor s)\<rparr>)"

definition set_count :: "int \<Rightarrow> gps_super \<Rightarrow> gps_super" where
  "set_count n s = s\<lparr>gu_modem := (gu_modem s)\<lparr>rc_gpsCount := n\<rparr>\<rparr>"

text \<open>The body between setting \<open>gpsRecoveryInProgress\<close> and the deferred reset; the value says whether it succeeded.\<close>

definition gps_full_reset :: "tick_env \<Rightarrow> gps_super \<Rightarrow> gps_super" where
  "gps_full_reset env s =
     (let s1 = forget_gps (close_gps (log_gps [StopGPSD] (set_count 0 s))) in
      s1\<lparr>gu_until := time_Add (tk_gated env) (30 * second_ns)\<rparr>)"

definition gps_restart :: "tick_env \<Rightarrow> gps_super \<Rightarrow> bool \<times> gps_super" where
  "gps_restart env s =
     (let s1 = close_gps (log_gps [StopGPSD] s);
          s2 = forget_gps (s1\<lparr>gu_until := time_Add (tk_gated env) (2 * second_ns)\<rparr>)
      in if \<not> tk_reEnabled env then (True, s2)
         else case tk_refind env of
           None \<Rightarrow> (False, s2)
         | Some path \<Rightarrow> (True, (enable_gps path s2)\<lparr>gu_enabledAt := tk_done env\<rparr>))"

definition attemptGPSRecovery :: "tick_env \<Rightarrow> gps_super \<Rightarrow> bool \<times> gps_super" where
  "attemptGPSRecovery env s =
     (if \<not> tk_stillEnabled env then (True, s)
      else if gu_busy s then (True, s)
      else
        let s1 = set_count (rc_gpsCount (gu_modem s) + 1) (s\<lparr>gu_busy := True\<rparr>);
            (ok, s2) = (if rc_gpsCount (gu_modem s1) > 3 then (True, gps_full_reset env s1) else gps_restart env s1)
        in (ok, s2\<lparr>gu_busy := False\<rparr>))"

definition handleGPSFailure :: "tick_env \<Rightarrow> gps_super \<Rightarrow> gps_super" where
  "handleGPSFailure env s =
     (case on_modem (probeHealth (tk_rec env)) s of
        (False, s1) \<Rightarrow> snd (on_modem (handleModemFailure (tk_rec env)) s1)
      | (True, s1) \<Rightarrow>
          let s2 = log_gps [RaiseGPSFault] (if tk_raise env then s1\<lparr>gu_fault := True\<rparr> else s1) in
          (case attemptGPSRecovery env s2 of
             (True, s3) \<Rightarrow> s3
           | (False, s3) \<Rightarrow> snd (on_modem (handleModemFailure (tk_rec env)) s3)))"

section \<open>The tick\<close>

definition gps_fix_tick :: "tick_env \<Rightarrow> gps_super \<Rightarrow> gps_super" where
  "gps_fix_tick env s =
     (let loc = gs_loc (gps_of s);
          (previous, acts) = validateClock (tk_clock env) loc (gu_clock s);
          s1 = log_gps (map ClockAct acts) (s\<lparr>gu_clock := previous\<rparr>);
          publishRecovery = ShouldPublishRecovery (tk_health env) (tk_internet env) (gps_of s1);
          s2 = (if publishRecovery then on_gps (\<lambda>g. g\<lparr>gs_gpsFreshInit := False\<rparr>) s1 else s1);
          s3 = on_gps (\<lambda>g. g\<lparr>gs_GPSLostTime := zero_time\<rparr>) s2;
          s4 = (if gu_waiting s3 then set_count 0 (s3\<lparr>gu_waiting := False, gu_enabledAt := zero_time\<rparr>) else s3);
          s5 = (if time_IsZero (gu_ttff s4) then s4
                else s4\<lparr>gu_ttff := zero_time,
                  gu_server := snd (snd (PublishLocationState (tk_ttff_ok env) (tk_health env)
                    [(''last_ttff_seconds'', SText (format_fixed 1 (Num (of_int (time_Sub (tk_health env) (gu_ttff s4)) / 1000000000)))),
                     (''last_ttff_mode'', SText (GPSMode_String (gr_mode (gm_receiver (gu_monitor s4)))))] False (gu_server s4)))\<rparr>)
      in s5\<lparr>gu_server := snd (publishLocationState (tk_publish env) (tk_health env) (gps_of s5) (gs_loc (gps_of s5))
                publishRecovery (gu_server s5))\<rparr>)"

definition gps_search_tick :: "tick_env \<Rightarrow> gps_super \<Rightarrow> gps_super" where
  "gps_search_tick env s =
     (let s1 = (if time_IsZero (gs_GPSLostTime (gps_of s))
                then on_gps (\<lambda>g. g\<lparr>gs_GPSLostTime := tk_health env\<rparr>) s else s);
          s2 = (if gu_waiting s1 then s1 else s1\<lparr>gu_waiting := True, gu_ttff := tk_health env\<rparr>)
      in s2\<lparr>gu_server := publish_search (tk_publish env) (tk_health env) (gps_of s2) (gu_server s2)\<rparr>)"

definition gps_tick :: "tick_env \<Rightarrow> gps_super \<Rightarrow> gps_super" where
  "gps_tick env s =
     (if \<not> tk_modemEnabled env \<or> \<not> tk_gpsEnabled env then s
      else if hl_State (rc_health (gu_modem s)) \<noteq> StateNormal then s
      else case tk_find env of None \<Rightarrow> s | Some path \<Rightarrow>
        if gu_busy s \<or> time_Before (tk_gate env) (gu_until s) then s
        else
          let s1 = (if gm_active (gu_monitor s) then s else (enable_gps path s)\<lparr>gu_enabledAt := tk_enabling env\<rparr>) in
          if \<not> checkGPSHealth (tk_configuring env) (tk_health env) s1 then handleGPSFailure env s1
          else
            let s2 = (if \<not> time_IsZero (gs_lastData (gps_of s1)) then clearGPSFault (tk_clear env) s1 else s1) in
            if gs_hasValidFix (gps_of s2) then gps_fix_tick env s2 else gps_search_tick env s2)"

section \<open>The mode for the connectivity\<close>

definition enableUEBasedMode :: bool where "enableUEBasedMode = False"

text \<open>The mode that is then published, if the switch was made.\<close>

definition requestGPSModeForConnectivity ::
  "bool \<Rightarrow> gps_config \<Rightarrow> gps_env \<Rightarrow> conn_state \<Rightarrow> gps_monitor \<Rightarrow> GPSMode option \<times> gps_monitor" where
  "requestGPSModeForConnectivity cancelled cfg env conn s =
     (if cancelled \<or> \<not> gr_ready (gm_receiver s) then (None, s)
      else
        let desired = (if enableUEBasedMode \<and> conn = Connected then ModeUEBased else ModeStandalone) in
        (case switch_mode_of cfg env desired s of
           (Some _, t) \<Rightarrow> (None, t)
         | (None, t) \<Rightarrow> (Some (gr_mode (gm_receiver t)), t)))"

section \<open>Histories\<close>

definition super_init :: gps_super where
  "super_init = \<lparr>gu_modem = recovery_init, gu_monitor = NewService_monitor,
     gu_server = \<lparr>gh_hash = Map.empty, gh_announced = [], gh_snapshots = [], gh_clock = Map.empty\<rparr>,
     gu_enabledAt = zero_time, gu_waiting = False, gu_ttff = zero_time, gu_fault = False, gu_busy = False,
     gu_until = zero_time, gu_clock = zero_Location, gu_log = []\<rparr>"

inductive super_move :: "gps_super \<Rightarrow> gps_super \<Rightarrow> bool" where
  Tick: "super_move s (gps_tick env s)"
| Monitor: "monitor_move (gu_monitor s) m \<Longrightarrow> super_move s (s\<lparr>gu_monitor := m\<rparr>)"
| Modem: "on_modem (checkHealth env) s = (r, t) \<Longrightarrow> super_move s t"

inductive super_reach :: "gps_super \<Rightarrow> bool" where
  Start: "super_reach super_init"
| Move: "super_reach s \<Longrightarrow> super_move s t \<Longrightarrow> super_reach t"

section \<open>Lemmas\<close>

lemma helper_fields [simp]:
  "gu_modem (log_gps es s) = gu_modem s" "gu_monitor (log_gps es s) = gu_monitor s" "gu_until (log_gps es s) = gu_until s"
  "gu_busy (log_gps es s) = gu_busy s" "gu_fault (log_gps es s) = gu_fault s" "gu_server (log_gps es s) = gu_server s"
  "gu_modem (on_gps f s) = gu_modem s" "gu_until (on_gps f s) = gu_until s" "gu_busy (on_gps f s) = gu_busy s"
  "gu_server (on_gps f s) = gu_server s" "gu_fault (on_gps f s) = gu_fault s"
  "gm_gps (gu_monitor (on_gps f s)) = f (gm_gps (gu_monitor s))" "gm_active (gu_monitor (on_gps f s)) = gm_active (gu_monitor s)"
  "gu_modem (forget_gps s) = gu_modem s" "gu_until (forget_gps s) = gu_until s" "gu_busy (forget_gps s) = gu_busy s"
  "gm_active (gu_monitor (forget_gps s)) = gm_active (gu_monitor s)"
  "gu_modem (close_gps s) = gu_modem s" "gu_until (close_gps s) = gu_until s" "gu_busy (close_gps s) = gu_busy s"
  "\<not> gm_active (gu_monitor (close_gps s))"
  "gu_modem (enable_gps path s) = gu_modem s" "gu_until (enable_gps path s) = gu_until s" "gu_busy (enable_gps path s) = gu_busy s"
  "gu_modem (set_count n s) = (gu_modem s)\<lparr>rc_gpsCount := n\<rparr>" "gu_until (set_count n s) = gu_until s"
  "gu_busy (set_count n s) = gu_busy s" "gu_monitor (set_count n s) = gu_monitor s" "gu_server (set_count n s) = gu_server s"
  by (simp_all add: log_gps_def on_gps_def forget_gps_def close_gps_def monitor_Close_def enable_gps_def set_count_def)

lemma clear_fields [simp]:
  "gu_modem (clearGPSFault ok s) = gu_modem s" "gu_monitor (clearGPSFault ok s) = gu_monitor s"
  "gu_busy (clearGPSFault ok s) = gu_busy s" "gu_until (clearGPSFault ok s) = gu_until s" "gu_server (clearGPSFault ok s) = gu_server s"
  by (simp_all add: clearGPSFault_def)

lemma search_fields_kept:
  "gu_modem (gps_search_tick env s) = gu_modem s" "gu_busy (gps_search_tick env s) = gu_busy s"
  by (simp_all add: gps_search_tick_def Let_def)

lemma waiting_fields [simp]: "gu_waiting (log_gps es s) = gu_waiting s" "gu_waiting (on_gps f s) = gu_waiting s"
  by (simp_all add: log_gps_def on_gps_def)


lemma fix_fields:
  "gu_modem (gps_fix_tick env s) = (gu_modem s)\<lparr>rc_gpsCount := (if gu_waiting s then 0 else rc_gpsCount (gu_modem s))\<rparr>"
  "gu_busy (gps_fix_tick env s) = gu_busy s"
  by (auto simp: gps_fix_tick_def Let_def split: prod.split)

text \<open>What an attempt does to the modem's record, and that it ends what it began.\<close>

lemma attempt_fields:
  assumes "attemptGPSRecovery env s = (ok, t)"
  shows "\<exists>n. gu_modem t = (gu_modem s)\<lparr>rc_gpsCount := n\<rparr>
      \<and> (0 \<le> rc_gpsCount (gu_modem s) \<and> rc_gpsCount (gu_modem s) \<le> 3 \<longrightarrow> 0 \<le> n \<and> n \<le> 3)"
    and "\<not> gu_busy s \<Longrightarrow> \<not> gu_busy t"
    and "\<not> ok \<Longrightarrow> tk_refind env = None"
proof -
  show "\<exists>n. gu_modem t = (gu_modem s)\<lparr>rc_gpsCount := n\<rparr>
      \<and> (0 \<le> rc_gpsCount (gu_modem s) \<and> rc_gpsCount (gu_modem s) \<le> 3 \<longrightarrow> 0 \<le> n \<and> n \<le> 3)"
  proof (cases "tk_stillEnabled env \<and> \<not> gu_busy s")
    case True
    then show ?thesis using assms
      by (intro exI [of _ "if rc_gpsCount (gu_modem s) + 1 > 3 then 0 else rc_gpsCount (gu_modem s) + 1"])
        (auto simp: attemptGPSRecovery_def gps_full_reset_def gps_restart_def Let_def split: if_splits option.splits prod.splits)
  next
    case False
    then show ?thesis using assms
      by (intro exI [of _ "rc_gpsCount (gu_modem s)"]) (auto simp: attemptGPSRecovery_def split: if_splits)
  qed
  show "\<not> gu_busy s \<Longrightarrow> \<not> gu_busy t" using assms
    by (auto simp: attemptGPSRecovery_def Let_def split: if_splits prod.splits)
  show "\<not> ok \<Longrightarrow> tk_refind env = None" using assms
    by (auto simp: attemptGPSRecovery_def gps_restart_def Let_def split: if_splits option.splits prod.splits)
qed

text \<open>A probe of a modem that answers.\<close>

definition modem_answers :: "rec_env \<Rightarrow> bool" where
  "modem_answers env \<longleftrightarrow> (\<forall>h. rv_ok env h CFind \<and> rv_ok env h CPort \<and> rv_ok env h CPower \<and> rv_ok env h CReady)"

lemma probe_answers:
  "modem_answers env \<Longrightarrow> on_modem (probeHealth env) s
     = (True, s\<lparr>gu_modem := (gu_modem s)\<lparr>rc_log := rc_log (gu_modem s) @ [CFind, CPort, CPower, CReady]\<rparr>\<rparr>)"
  by (simp add: modem_answers_def on_modem_def probeHealth_def perform_def)

lemma failure_spares:
  assumes "modem_answers (tk_rec env)" and "tk_refind env \<noteq> None"
  shows "filter is_action (rc_log (gu_modem (handleGPSFailure env s))) = filter is_action (rc_log (gu_modem s))"
    and "hl_State (rc_health (gu_modem (handleGPSFailure env s))) = hl_State (rc_health (gu_modem s))"
proof -
  define s1 where "s1 = s\<lparr>gu_modem := (gu_modem s)\<lparr>rc_log := rc_log (gu_modem s) @ [CFind, CPort, CPower, CReady]\<rparr>\<rparr>"
  define s2 where "s2 = log_gps [RaiseGPSFault] (if tk_raise env then s1\<lparr>gu_fault := True\<rparr> else s1)"
  obtain ok t where t: "attemptGPSRecovery env s2 = (ok, t)" by fastforce
  have "ok" using attempt_fields(3) [OF t] assms(2) by blast
  then have "handleGPSFailure env s = t"
    using t by (simp add: handleGPSFailure_def probe_answers [OF assms(1)] s1_def [symmetric] s2_def [symmetric] Let_def)
  moreover obtain n where "gu_modem t = (gu_modem s2)\<lparr>rc_gpsCount := n\<rparr>" using attempt_fields(1) [OF t] by blast
  ultimately show "filter is_action (rc_log (gu_modem (handleGPSFailure env s))) = filter is_action (rc_log (gu_modem s))"
    "hl_State (rc_health (gu_modem (handleGPSFailure env s))) = hl_State (rc_health (gu_modem s))"
    by (simp_all add: s2_def s1_def)
qed

lemma tick_spares:
  assumes "modem_answers (tk_rec env)" and "tk_refind env \<noteq> None"
  shows "filter is_action (rc_log (gu_modem (gps_tick env s))) = filter is_action (rc_log (gu_modem s))
    \<and> hl_State (rc_health (gu_modem (gps_tick env s))) = hl_State (rc_health (gu_modem s))"
proof -
  show ?thesis
    by (simp add: gps_tick_def Let_def fix_fields search_fields_kept failure_spares [OF assms] split: option.split)
qed

subsection \<open>The number of recoveries\<close>

definition count_ok :: "recovery \<Rightarrow> bool" where
  "count_ok r \<longleftrightarrow> 0 \<le> rc_gpsCount r \<and> rc_gpsCount r \<le> 3"

lemma count_basic:
  "keeps count_ok (ask f)" "keeps count_ok (perform env c)" "keeps count_ok (notify env c)" "keeps count_ok (on_health g)"
  "keeps count_ok get_health" "keeps count_ok (State_Monad.update (\<lambda>s. s\<lparr>rc_simMissing := b\<rparr>))"
  "keeps count_ok (State_Monad.update (\<lambda>s. s\<lparr>rc_gpsCount := 0\<rparr>))"
  by (auto simp: triple_def ask_def perform_def notify_def on_health_def get_health_def count_ok_def
      State_Monad.update_def State_Monad.get_def State_Monad.set_def)

lemma count_probe: "keeps count_ok (hasMissingSIM env)" "keeps count_ok (probeHealth env)"
proof -
  note rules = triples count_basic
  show s: "keeps count_ok (hasMissingSIM env)" unfolding hasMissingSIM_def by (intro rules)
  show "keeps count_ok (probeHealth env)" unfolding probeHealth_def by (intro rules s)
qed

lemma count_stages:
  "keeps count_ok (publishHealthState env)" "keeps count_ok (recoverySucceeded env)" "keeps count_ok (check_context env)"
  "keeps count_ok (confirm env w n)" "keeps count_ok (finish_attempt env)"
proof -
  note rules = triples count_basic count_probe
  show p: "keeps count_ok (publishHealthState env)" unfolding publishHealthState_def by (intro rules)
  show r: "keeps count_ok (recoverySucceeded env)" unfolding recoverySucceeded_def by (intro rules p)
  show "keeps count_ok (check_context env)" unfolding check_context_def by (intro rules)
  show "keeps count_ok (confirm env w n)" unfolding confirm_def by (intro rules r)
  show "keeps count_ok (finish_attempt env)" unfolding finish_attempt_def by (intro rules p)
qed

lemma count_ladder: "keeps count_ok (ladder env)"
proof -
  note rules = triples count_basic count_probe count_stages
  have s: "keeps count_ok (stabilize env)" unfolding stabilize_def by (intro rules)
  have d: "keeps count_ok (dbus_reset env)" unfolding dbus_reset_def by (intro rules)
  have u: "keeps count_ok (usb_recovery env w)" for w unfolding usb_recovery_def by (intro rules)
  have g: "keeps count_ok (gpio_restart env)" unfolding gpio_restart_def by (intro rules)
  have e: "keeps count_ok (extended_wait env)" unfolding extended_wait_def by (intro rules)
  show ?thesis unfolding ladder_def by (intro rules s d u g e)
qed

lemma count_rounds: "keeps count_ok (handleModemFailure env)" "keeps count_ok (checkHealth env)"
proof -
  note rules = triples count_basic count_probe count_stages count_ladder
  have a: "keeps count_ok (attemptRecovery env)" unfolding attemptRecovery_def by (intro rules)
  have b: "keeps count_ok (completeRecoveryBackoff env)" unfolding completeRecoveryBackoff_def by (intro rules)
  show h: "keeps count_ok (handleModemFailure env)" unfolding handleModemFailure_def by (intro rules a b)
  show "keeps count_ok (checkHealth env)" unfolding checkHealth_def by (intro rules h)
qed

definition super_ok :: "gps_super \<Rightarrow> bool" where
  "super_ok s \<longleftrightarrow> count_ok (gu_modem s) \<and> \<not> gu_busy s"

lemma on_modem_ok:
  assumes "on_modem m s = (x, t)" and "keeps count_ok m" and "super_ok s"
  shows "super_ok t"
  using assms by (auto simp: on_modem_def super_ok_def resetGPSAfterModemRecovery_def dest: tripleD split: prod.splits if_splits)

lemma failure_ok: "super_ok s \<Longrightarrow> super_ok (handleGPSFailure env s)"
proof -
  assume s: "super_ok s"
  obtain b s1 where p: "on_modem (probeHealth (tk_rec env)) s = (b, s1)" by fastforce
  have s1: "super_ok s1" by (rule on_modem_ok [OF p count_probe(2) s])
  have failed: "super_ok (snd (on_modem (handleModemFailure (tk_rec env)) u))" if "super_ok u" for u
    by (rule on_modem_ok [OF prod.collapse [symmetric] count_rounds(1) that])
  define s2 where "s2 = log_gps [RaiseGPSFault] (if tk_raise env then s1\<lparr>gu_fault := True\<rparr> else s1)"
  have s2: "super_ok s2" using s1 by (simp add: s2_def super_ok_def)
  obtain ok t where t: "attemptGPSRecovery env s2 = (ok, t)" by fastforce
  have "super_ok t" using attempt_fields(1,2) [OF t] s2 by (auto simp: super_ok_def count_ok_def)
  moreover have "handleGPSFailure env s = (if \<not> b then snd (on_modem (handleModemFailure (tk_rec env)) s1)
      else if ok then t else snd (on_modem (handleModemFailure (tk_rec env)) t))"
    by (simp add: handleGPSFailure_def p s2_def [symmetric] t Let_def split: bool.split)
  ultimately show ?thesis using failed s1 by simp
qed

lemma tick_ok: "super_ok s \<Longrightarrow> super_ok (gps_tick env s)"
proof -
  assume s: "super_ok s"
  have e: "super_ok ((enable_gps path s)\<lparr>gu_enabledAt := t\<rparr>)" for path t using s by (simp add: super_ok_def)
  have f: "super_ok (gps_fix_tick env u)" if "super_ok u" for u
    using that by (simp add: super_ok_def fix_fields count_ok_def)
  have h: "super_ok (gps_search_tick env u)" if "super_ok u" for u
    using that by (simp add: super_ok_def search_fields_kept)
  have c: "super_ok (clearGPSFault ok u)" if "super_ok u" for u ok using that by (simp add: super_ok_def)
  show ?thesis using s by (simp add: gps_tick_def Let_def e f h c failure_ok split: option.split)
qed

lemma super_reach_ok: "super_reach s \<Longrightarrow> super_ok s"
proof (induction rule: super_reach.induct)
  case Start
  show ?case by (simp add: super_ok_def super_init_def recovery_init_def count_ok_def)
next
  case (Move s t)
  from Move.hyps(2) show ?case
  proof cases
    case (Tick env)
    then show ?thesis using tick_ok Move.IH by simp
  next
    case (Monitor m)
    then show ?thesis using Move.IH by (simp add: super_ok_def)
  next
    case (Modem env r)
    then show ?thesis by (intro on_modem_ok [OF _ count_rounds(2) Move.IH])
  qed
qed

section \<open>Properties\<close>

text \<open>
   A GPS that stays silent does not cost the modem anything. Over any sequence of ticks in which the modem itself
  answers the health probe and is found again, the recovery of the GPS never resets, unbinds or power-cycles the
  modem and leaves the state of its health alone, however often the recovery of the GPS fails to bring a report.
  In particular the fall-back that the service announces for a GPS that is stuck after its own recovery is
  never taken.
\<close>

theorem gps_failures_spare_the_modem:
  assumes "\<And>env. env \<in> set envs \<Longrightarrow> modem_answers (tk_rec env) \<and> tk_refind env \<noteq> None"
  shows "filter is_action (rc_log (gu_modem (fold gps_tick envs s))) = filter is_action (rc_log (gu_modem s))
    \<and> hl_State (rc_health (gu_modem (fold gps_tick envs s))) = hl_State (rc_health (gu_modem s))"
  using assms
proof (induction envs arbitrary: s)
  case Nil
  then show ?case by simp
next
  case (Cons env envs)
  have "filter is_action (rc_log (gu_modem (gps_tick env s))) = filter is_action (rc_log (gu_modem s))
    \<and> hl_State (rc_health (gu_modem (gps_tick env s))) = hl_State (rc_health (gu_modem s))"
    by (rule tick_spares) (use Cons.prems in auto)
  moreover have "\<And>e. e \<in> set envs \<Longrightarrow> modem_answers (tk_rec e) \<and> tk_refind e \<noteq> None" using Cons.prems by simp
  ultimately show ?case using Cons.IH [of "gps_tick env s"] by simp
qed

text \<open>
   After three recoveries the GPS is given a rest. In every state the service can reach, at most three recoveries
  are counted; the recovery that follows the third closes the GPS, counts from zero again, and no tick does
  anything to the GPS in the thirty seconds after.
\<close>

theorem fourth_recovery_rests:
  assumes "super_reach s" and "attemptGPSRecovery env s = (ok, t)" and "tk_stillEnabled env"
    and "rc_gpsCount (gu_modem s) = 3"
    and "\<And>e. e \<in> set later \<Longrightarrow> tk_gate e < tk_gated env + 30 * second_ns"
  shows "ok \<and> \<not> gm_active (gu_monitor t) \<and> rc_gpsCount (gu_modem t) = 0 \<and> fold gps_tick later t = t"
proof -
  have "\<not> gu_busy s" using super_reach_ok [OF assms(1)] by (simp add: super_ok_def)
  then have t: "ok" "\<not> gm_active (gu_monitor t)" "rc_gpsCount (gu_modem t) = 0" "gu_until t = tk_gated env + 30 * second_ns"
    using assms(2-4) by (auto simp: attemptGPSRecovery_def gps_full_reset_def Let_def time_Add_def)
  have "gps_tick e t = t" if "e \<in> set later" for e
    using assms(5) [OF that] t(4) by (simp add: gps_tick_def time_Before_def split: option.split)
  then have "fold gps_tick later t = t" by (induction later) simp_all
  with t show ?thesis by blast
qed

text \<open>At most three recoveries are counted in every reachable state.\<close>

theorem recoveries_counted:
  assumes "super_reach s" shows "0 \<le> rc_gpsCount (gu_modem s) \<and> rc_gpsCount (gu_modem s) \<le> 3"
  using super_reach_ok [OF assms] by (simp add: super_ok_def count_ok_def)


section \<open>The hypotheses can hold\<close>

text \<open>A modem that answers, a GPS without a report, and a server that takes every write.\<close>

definition healthy_modem :: rec_env where
  "healthy_modem = \<lparr>rv_ok = (\<lambda>_ _. True), rv_info = (\<lambda>_. None), rv_iface = (\<lambda>_. True), rv_usb_absent = (\<lambda>_. False),
     rv_cancelled = (\<lambda>_. False), rv_stopped = (\<lambda>_. False), rv_enabled = (\<lambda>_. True), rv_busy = (\<lambda>_. False), rv_now = (\<lambda>_. 0)\<rparr>"

definition tick_at :: "gotime \<Rightarrow> tick_env" where
  "tick_at t = \<lparr>tk_modemEnabled = True, tk_gpsEnabled = True, tk_find = Some ''/m'', tk_configuring = False,
     tk_rec = healthy_modem, tk_stillEnabled = True, tk_reEnabled = True, tk_refind = Some ''/m'',
     tk_clock = sample_clock_env 0, tk_internet = True, tk_gate = t, tk_enabling = t, tk_health = t, tk_gated = t,
     tk_done = t, tk_raise = True, tk_clear = True, tk_publish = (True, True), tk_ttff_ok = True\<rparr>"

text \<open>Ticks at 0 s, 20 s, 40 s and 60 s: the GPS is enabled, and recovered three times.\<close>

definition silent_ticks :: "tick_env list" where
  "silent_ticks = map (\<lambda>k. tick_at (k * second_ns)) [0, 20, 40, 60]"

lemma healthy_answers: "modem_answers healthy_modem"
  by (simp add: modem_answers_def healthy_modem_def)

lemma gps_failures_spare_the_modem_witness:
  "filter is_action (rc_log (gu_modem (fold gps_tick silent_ticks super_init))) = []"
proof -
  have "modem_answers (tk_rec env) \<and> tk_refind env \<noteq> None" if "env \<in> set silent_ticks" for env
    using that by (auto simp: silent_ticks_def tick_at_def healthy_answers)
  from gps_failures_spare_the_modem [OF this, where s = super_init] show ?thesis
    by (simp add: super_init_def recovery_init_def)
qed

lemma restart_tick:
  assumes "gu_until s \<le> t" "\<not> gu_busy s" "gm_active (gu_monitor s)" "gs_lastData (gps_of s) = zero_time"
    and "gu_enabledAt s \<noteq> zero_time" "15 * second_ns < time_Sub t (gu_enabledAt s)"
    and "hl_State (rc_health (gu_modem s)) = StateNormal" "rc_gpsCount (gu_modem s) < 3" "t \<noteq> zero_time"
  shows "gu_until (gps_tick (tick_at t) s) = t + 2 * second_ns \<and> \<not> gu_busy (gps_tick (tick_at t) s)
    \<and> gm_active (gu_monitor (gps_tick (tick_at t) s)) \<and> gs_lastData (gps_of (gps_tick (tick_at t) s)) = zero_time
    \<and> gu_enabledAt (gps_tick (tick_at t) s) = t \<and> hl_State (rc_health (gu_modem (gps_tick (tick_at t) s))) = StateNormal
    \<and> rc_gpsCount (gu_modem (gps_tick (tick_at t) s)) = rc_gpsCount (gu_modem s) + 1"
proof -
  have "gps_tick (tick_at t) s = handleGPSFailure (tick_at t) s"
    using assms by (simp add: gps_tick_def tick_at_def checkGPSHealth_def gpsNoDataTimeout_def time_Before_def Let_def time_IsZero_def)
  also have "\<dots> = snd (attemptGPSRecovery (tick_at t)
      (log_gps [RaiseGPSFault] (s\<lparr>gu_modem := (gu_modem s)\<lparr>rc_log := rc_log (gu_modem s) @ [CFind, CPort, CPower, CReady]\<rparr>, gu_fault := True\<rparr>)))"
    by (auto simp: handleGPSFailure_def tick_at_def probe_answers [OF healthy_answers] Let_def attemptGPSRecovery_def
        gps_restart_def split: prod.splits option.splits bool.splits)
  finally show ?thesis using assms
    by (simp add: attemptGPSRecovery_def gps_restart_def tick_at_def Let_def time_Add_def gps_of_def)
      (simp add: enable_gps_def EnableGPS_def forget_gps_def on_gps_def log_gps_def close_gps_def monitor_Close_def)
qed

definition silent_at :: "gotime \<Rightarrow> int \<Rightarrow> gotime \<Rightarrow> gps_super \<Rightarrow> bool" where
  "silent_at t n t0 s \<longleftrightarrow> gu_until s \<le> t0 \<and> \<not> gu_busy s \<and> gm_active (gu_monitor s) \<and> gs_lastData (gps_of s) = zero_time
     \<and> gu_enabledAt s = t \<and> hl_State (rc_health (gu_modem s)) = StateNormal \<and> rc_gpsCount (gu_modem s) = n"

lemma first_tick: "silent_at 0 0 0 (gps_tick (tick_at 0) super_init)"
  by (simp add: silent_at_def gps_tick_def tick_at_def checkGPSHealth_def gpsNoDataTimeout_def time_Before_def Let_def
      time_IsZero_def super_init_def recovery_init_def Health_New_def enable_gps_def EnableGPS_def log_gps_def
      gps_of_def NewService_monitor_def NewService_state_def zero_time_def gps_search_tick_def on_gps_def go_time)

lemma next_tick:
  assumes "silent_at t n t0 s" "t0 \<le> u" "t + 15 * second_ns < u" "n < 3" "0 \<le> t" "u < t + hour_ns"
  shows "silent_at u (n + 1) (u + 2 * second_ns) (gps_tick (tick_at u) s)"
proof -
  have "15 * second_ns < time_Sub u t"
    using assms(3,5,6) by (simp add: time_Sub_def min_int64_def max_int64_def go_time)
  moreover have "zero_time < 0" by (simp add: zero_time_def)
  ultimately show ?thesis using restart_tick [of s u] assms
    by (auto simp: silent_at_def go_time)
qed

lemma silent_run: "silent_at (60 * second_ns) 3 (62 * second_ns) (fold gps_tick silent_ticks super_init)"
proof -
  have a: "silent_at (20 * second_ns) (0 + 1) (20 * second_ns + 2 * second_ns) (gps_tick (tick_at (20 * second_ns)) (gps_tick (tick_at 0) super_init))"
    by (rule next_tick [OF first_tick]) (simp_all add: go_time)
  have b: "silent_at (40 * second_ns) (0 + 1 + 1) (40 * second_ns + 2 * second_ns)
      (gps_tick (tick_at (40 * second_ns)) (gps_tick (tick_at (20 * second_ns)) (gps_tick (tick_at 0) super_init)))"
    by (rule next_tick [OF a]) (simp_all add: go_time)
  have "silent_at (60 * second_ns) (0 + 1 + 1 + 1) (60 * second_ns + 2 * second_ns) (gps_tick (tick_at (60 * second_ns))
      (gps_tick (tick_at (40 * second_ns)) (gps_tick (tick_at (20 * second_ns)) (gps_tick (tick_at 0) super_init))))"
    by (rule next_tick [OF b]) (simp_all add: go_time)
  then show ?thesis by (simp add: silent_ticks_def)
qed

lemma fourth_recovery_rests_witness:
  "rc_gpsCount (gu_modem (snd (attemptGPSRecovery (tick_at (80 * second_ns)) (fold gps_tick silent_ticks super_init)))) = 0
   \<and> fold gps_tick [tick_at (100 * second_ns)] (snd (attemptGPSRecovery (tick_at (80 * second_ns)) (fold gps_tick silent_ticks super_init)))
       = snd (attemptGPSRecovery (tick_at (80 * second_ns)) (fold gps_tick silent_ticks super_init))"
proof -
  have reach: "super_reach s \<Longrightarrow> super_reach (fold gps_tick es s)" for es s
    by (induction es arbitrary: s) (auto intro: Move Tick)
  have "rc_gpsCount (gu_modem (fold gps_tick silent_ticks super_init)) = 3" using silent_run by (simp add: silent_at_def)
  from fourth_recovery_rests [OF reach [OF Start] prod.collapse [symmetric] _ this, of "tick_at (80 * second_ns)" "[tick_at (100 * second_ns)]"]
  show ?thesis by (simp add: tick_at_def go_time)
qed


end
