(* ===== verification/Sms_Watch.thy ===== *)
theory Sms_Watch
  imports Apn_Data Sms_Storage
begin

text \<open>
  From \<open>internal/service/service.go\<close>: the subscription to new messages, which follows the presence of a SIM card
  (\<open>reconcileSMSPresence\<close>, \<open>startSMSWatch\<close>, \<open>stopSMSWatch\<close>), the set-up of the modem for messages, and the
  question for the own number (\<open>queryOwnMSISDN\<close>). The operations hold \<open>smsWatchMu\<close>, so each is one step.
\<close>

section \<open>The own number\<close>

text \<open>\<open>strings.SplitN\<close> on a one-byte separator.\<close>

fun split_n :: "nat \<Rightarrow> char \<Rightarrow> string \<Rightarrow> string list" where
  "split_n 0 d s = []"
| "split_n (Suc 0) d s = [s]"
| "split_n (Suc (Suc n)) d s = (case Cut s [d] of None \<Rightarrow> [s] | Some (a, b) \<Rightarrow> a # split_n (Suc n) d b)"

fun own_number_of_lines :: "string list \<Rightarrow> string" where
  "own_number_of_lines [] = ''''"
| "own_number_of_lines (l # ls) =
     (let line = TrimSpace l in
      if \<not> HasPrefix line ''+CNUM:'' then own_number_of_lines ls
      else
        let parts = split_n 3 (CHR '','') (drop 6 line) in
        if length parts < 2 then own_number_of_lines ls
        else
          let num = trim_char (CHR 0x22) (TrimSpace (parts ! 1)) in
          if num = '''' then own_number_of_lines ls
          else if length parts \<ge> 3 \<and> TrimSpace (parts ! 2) = ''145'' \<and> \<not> HasPrefix num ''+'' then ''+'' @ num
          else num)"

definition queryOwnMSISDN :: "string option \<Rightarrow> string" where
  "queryOwnMSISDN resp = (case resp of None \<Rightarrow> '''' | Some r \<Rightarrow> own_number_of_lines (split_char (CHR 0x0A) r))"

section \<open>State\<close>

datatype watch_event = WatchFailed object_path | Drained object_path | Sent object_path string | Added object_path

text \<open>
  \<open>sw_cancel\<close> is \<open>smsWatchCancel\<close>, as the number of the watch it cancels; \<open>sw_live\<close> are the watches whose context is
  not cancelled, with the modem they watch. \<open>sw_activity\<close> counts \<open>touchCSActivity\<close>.
\<close>

record sms_watch =
  sw_present :: bool
  sw_cancel :: "nat option"
  sw_next :: nat
  sw_live :: "(nat \<times> object_path) list"
  sw_number :: string
  sw_activity :: nat
  sw_store :: modem_store
  sw_log :: "watch_event list"

record watch_env =
  we_find :: "object_path option"
  we_cnum :: "string option"
  we_watch :: bool
  we_storage :: storage_env
  we_debug :: bool
  we_cmgf :: bool

definition log_watch :: "watch_event list \<Rightarrow> sms_watch \<Rightarrow> sms_watch" where
  "log_watch es s = s\<lparr>sw_log := sw_log s @ es\<rparr>"

section \<open>Operations\<close>

definition smsPresenceTransition :: "bool \<Rightarrow> object_path \<Rightarrow> bool \<times> bool \<times> bool" where
  "smsPresenceTransition previous simPath =
     (let present = (simPath \<noteq> '''' \<and> simPath \<noteq> ''/'') in (present, present \<and> \<not> previous, \<not> present \<and> previous))"

definition cancel_watch :: "sms_watch \<Rightarrow> sms_watch" where
  "cancel_watch s =
     (case sw_cancel s of
        None \<Rightarrow> s
      | Some i \<Rightarrow> s\<lparr>sw_cancel := None, sw_live := filter (\<lambda>w. fst w \<noteq> i) (sw_live s)\<rparr>)"

definition stopSMSWatch :: "sms_watch \<Rightarrow> sms_watch" where
  "stopSMSWatch s = (if sw_present s then s else cancel_watch s)"

definition installSMSWatchContext :: "sms_watch \<Rightarrow> nat \<times> sms_watch" where
  "installSMSWatchContext s = (sw_next s, s\<lparr>sw_next := sw_next s + 1, sw_cancel := Some (sw_next s)\<rparr>)"

definition armSMSAddedWatch :: "bool \<Rightarrow> object_path \<Rightarrow> sms_watch \<Rightarrow> bool \<times> sms_watch" where
  "armSMSAddedWatch ok path s =
     (case installSMSWatchContext s of (i, s1) \<Rightarrow>
        if \<not> ok then (False, s1\<lparr>sw_cancel := None\<rparr>)
        else (True, s1\<lparr>sw_live := (i, path) # sw_live s1\<rparr>))"

definition smsAddedHandler :: "object_path \<Rightarrow> bool \<Rightarrow> sms_watch \<Rightarrow> sms_watch" where
  "smsAddedHandler smsPath received s = (if \<not> received then s else log_watch [Added smsPath] s)"

definition diagnose_commands :: "bool \<Rightarrow> bool \<Rightarrow> string list" where
  "diagnose_commands debug cmgf =
     [''AT+CNMI=2,1,0,0,0'', ''AT+CPMS?'', ''AT+CNMI?'']
       @ (if \<not> debug then [] else ''AT+CMGF=0'' # (if cmgf then [''AT+CMGL=4''] else []))"

definition configureAndDiagnoseSMS :: "watch_env \<Rightarrow> object_path \<Rightarrow> sms_watch \<Rightarrow> sms_watch" where
  "configureAndDiagnoseSMS env path s =
     log_watch (map (Sent path) (diagnose_commands (we_debug env) (we_cmgf env)))
       (s\<lparr>sw_store := snd (run_state (recoverFullSMSStorage (we_storage env)) (sw_store s))\<rparr>)"

definition startSMSWatch :: "watch_env \<Rightarrow> sms_watch \<Rightarrow> sms_watch" where
  "startSMSWatch env s =
     (let s0 = cancel_watch s in
      if \<not> sw_present s0 then s0
      else
        let s1 = s0\<lparr>sw_activity := sw_activity s0 + 1\<rparr> in
        case we_find env of
          None \<Rightarrow> s1
        | Some path \<Rightarrow>
            let n = queryOwnMSISDN (we_cnum env);
                s2 = (if sw_number s1 = '''' \<and> n \<noteq> '''' then s1\<lparr>sw_number := n\<rparr> else s1)
            in case armSMSAddedWatch (we_watch env) path s2 of
                 (False, s3) \<Rightarrow> log_watch [WatchFailed path, Drained path] s3
               | (True, s3) \<Rightarrow> log_watch [Drained path] (configureAndDiagnoseSMS env path s3))"

definition reconcileSMSPresence :: "watch_env \<Rightarrow> object_path \<Rightarrow> sms_watch \<Rightarrow> sms_watch" where
  "reconcileSMSPresence env simPath s =
     (case smsPresenceTransition (sw_present s) simPath of (present, arm, stop) \<Rightarrow>
        let s1 = s\<lparr>sw_present := present\<rparr> in
        if stop then stopSMSWatch s1 else if arm then startSMSWatch env s1 else s1)"

section \<open>Histories\<close>

definition watch_init :: "modem_store \<Rightarrow> sms_watch" where
  "watch_init m = \<lparr>sw_present = False, sw_cancel = None, sw_next = 0, sw_live = [], sw_number = '''', sw_activity = 0,
     sw_store = m, sw_log = []\<rparr>"

inductive watch_reach :: "sms_watch \<Rightarrow> bool" where
  Start: "watch_reach (watch_init m)"
| Reconcile: "watch_reach s \<Longrightarrow> watch_reach (reconcileSMSPresence env simPath s)"
| Rearm: "watch_reach s \<Longrightarrow> watch_reach (startSMSWatch env s)"
| Signal: "watch_reach s \<Longrightarrow> watch_reach (smsAddedHandler path received s)"
| Shutdown: "watch_reach s \<Longrightarrow> watch_reach (stopSMSWatch (s\<lparr>sw_present := False\<rparr>))"

section \<open>Lemmas\<close>

definition watch_inv :: "sms_watch \<Rightarrow> bool" where
  "watch_inv s \<longleftrightarrow> (case sw_cancel s of None \<Rightarrow> sw_live s = []
       | Some i \<Rightarrow> (\<exists>path. sw_live s = [(i, path)]) \<and> sw_present s)"

lemma watch_inv_cancel: "watch_inv s \<Longrightarrow> sw_live (cancel_watch s) = [] \<and> sw_cancel (cancel_watch s) = None \<and> sw_present (cancel_watch s) = sw_present s"
  by (auto simp: watch_inv_def cancel_watch_def split: option.splits)

lemma watch_inv_log [simp]: "watch_inv (log_watch es s) = watch_inv s"
  by (simp add: watch_inv_def log_watch_def split: option.split)

lemma watch_inv_arm:
  assumes "armSMSAddedWatch ok path s = (b, t)" and "sw_live s = []" and "sw_present s"
  shows "watch_inv t"
  using assms by (auto simp: armSMSAddedWatch_def installSMSWatchContext_def watch_inv_def split: if_splits)

lemma watch_inv_start: 
  assumes "sw_cancel s = None \<Longrightarrow> sw_live s = []" and "\<And>i. sw_cancel s = Some i \<Longrightarrow> \<exists>path. sw_live s = [(i, path)]"
  shows "watch_inv (startSMSWatch env s)"
proof -
  have c: "sw_live (cancel_watch s) = []" "sw_cancel (cancel_watch s) = None"
    using assms by (auto simp: cancel_watch_def split: option.split)
  have conf: "watch_inv (configureAndDiagnoseSMS env path t) = watch_inv t" for path t
    by (simp add: configureAndDiagnoseSMS_def watch_inv_def log_watch_def split: option.split)
  show ?thesis using c
    by (auto simp: startSMSWatch_def Let_def conf intro: watch_inv_arm split: option.split prod.split bool.split)
      (simp_all add: watch_inv_def)
qed

lemma watch_reach_inv: "watch_reach s \<Longrightarrow> watch_inv s"
proof (induction rule: watch_reach.induct)
  case (Start m)
  show ?case by (simp add: watch_inv_def watch_init_def)
next
  case (Reconcile s env simPath)
  have arm: "watch_inv (startSMSWatch env (s\<lparr>sw_present := True\<rparr>))"
    using Reconcile.IH by (intro watch_inv_start) (auto simp: watch_inv_def)
  have stop: "watch_inv (stopSMSWatch (s\<lparr>sw_present := False\<rparr>))"
    using Reconcile.IH by (auto simp: stopSMSWatch_def watch_inv_def cancel_watch_def split: option.splits)
  have stay: "watch_inv (s\<lparr>sw_present := sw_present s\<rparr>)" "sw_present s \<Longrightarrow> watch_inv (s\<lparr>sw_present := True\<rparr>)"
    "\<not> sw_present s \<Longrightarrow> watch_inv (s\<lparr>sw_present := False\<rparr>)"
    using Reconcile.IH by (auto simp: watch_inv_def split: option.splits)
  show ?case by (auto simp: reconcileSMSPresence_def smsPresenceTransition_def Let_def arm stop stay)
next
  case (Rearm s env)
  then show ?case by (intro watch_inv_start) (auto simp: watch_inv_def)
next
  case (Signal s path received)
  then show ?case by (simp add: smsAddedHandler_def)
next
  case (Shutdown s)
  then show ?case by (auto simp: stopSMSWatch_def watch_inv_def cancel_watch_def split: option.splits)
qed

subsection \<open>The own number\<close>

lemma Cut_char: "d \<notin> set a \<Longrightarrow> Cut (a @ d # b) [d] = Some (a, b)"
  by (induction a) auto

lemma Cut_char_None: "d \<notin> set a \<Longrightarrow> Cut a [d] = None"
  by (induction a) auto

lemma trim_quotes:
  assumes "x \<noteq> []" "CHR 0x22 \<notin> set x"
  shows "trim_char (CHR 0x22) (CHR 0x22 # x @ [CHR 0x22]) = x"
proof -
  have drop: "dropWhile (\<lambda>c. c = CHR 0x22) (y @ z) = y @ z" if "y \<noteq> []" "CHR 0x22 \<notin> set y" for y z
    using that by (cases y) auto
  have "trim_char (CHR 0x22) (CHR 0x22 # x @ [CHR 0x22]) = rev (dropWhile (\<lambda>c. c = CHR 0x22) (CHR 0x22 # rev x))"
    unfolding trim_char_def using drop [OF assms, of "[CHR 0x22]"] by simp
  also have "\<dots> = x" using drop [of "rev x" "[]"] assms by simp
  finally show ?thesis .
qed

text \<open>The answer of a modem: the name, the number and the type of its numbering plan.\<close>

definition cnum_line :: "string \<Rightarrow> string \<Rightarrow> string \<Rightarrow> string" where
  "cnum_line alpha num plan =
     ''+CNUM: '' @ quoted_name alpha @ '','' @ quoted_name num @ '','' @ plan"

section \<open>Properties\<close>

text \<open>
   There is at most one subscription. In every history of cards inserted and removed, watches armed anew and failing
  calls, no second subscription is alive, one that is alive is the one the service can cancel, and without
  a card there is none.
\<close>

theorem one_watch_at_a_time:
  assumes "watch_reach s"
  shows "length (sw_live s) \<le> 1 \<and> (sw_cancel s = None \<longleftrightarrow> sw_live s = []) \<and> (\<not> sw_present s \<longrightarrow> sw_live s = [])"
  using watch_reach_inv [OF assms] by (auto simp: watch_inv_def split: option.splits)

text \<open>
   A subscription that could not be made is not made later. The service says it defers the watch when there is no
  modem yet, and does nothing more when the subscription fails; but as long as the card stays in, no further
  round arms it, so that messages the modem does not store are lost until the card is taken out or the modem
  recovered.
\<close>

theorem failed_watch_is_not_retried:
  assumes "watch_reach s" and "\<not> sw_present s" and "sim \<noteq> ''''" "sim \<noteq> ''/''"
    and "we_find env = None \<or> \<not> we_watch env"
    and "\<And>p e. (e, p) \<in> set rounds \<Longrightarrow> p \<noteq> '''' \<and> p \<noteq> ''/''"
  shows "sw_live (fold (\<lambda>(e, p). reconcileSMSPresence e p) rounds (reconcileSMSPresence env sim s)) = []"
proof -
  have inv: "watch_inv s" using watch_reach_inv [OF assms(1)] .
  then have none: "sw_cancel s = None" "sw_live s = []" using assms(2) by (auto simp: watch_inv_def split: option.splits)
  let ?s = "reconcileSMSPresence env sim s"
  have first: "sw_live ?s = [] \<and> sw_present ?s"
    using assms(2-5) none
    by (auto simp: reconcileSMSPresence_def smsPresenceTransition_def startSMSWatch_def Let_def cancel_watch_def
        armSMSAddedWatch_def installSMSWatchContext_def log_watch_def split: option.splits)
  have "sw_live (fold (\<lambda>(e, p). reconcileSMSPresence e p) rounds t) = []" if "sw_live t = [] \<and> sw_present t" for t
    using that assms(6)
  proof (induction rounds arbitrary: t)
    case Nil
    then show ?case by simp
  next
    case (Cons r rounds)
    obtain e p where r: "r = (e, p)" by (cases r)
    then have "p \<noteq> '''' \<and> p \<noteq> ''/''" using Cons.prems(2) [of e p] by simp
    then have "sw_live (reconcileSMSPresence e p t) = [] \<and> sw_present (reconcileSMSPresence e p t)"
      using Cons.prems(1) by (simp add: reconcileSMSPresence_def smsPresenceTransition_def Let_def)
    moreover have "\<And>e' p'. (e', p') \<in> set rounds \<Longrightarrow> p' \<noteq> '''' \<and> p' \<noteq> ''/''" using Cons.prems(2) by auto
    ultimately show ?case using Cons.IH [of "reconcileSMSPresence e p t"] r by auto
  qed
  then show ?thesis using first by blast
qed

text \<open>
   The own number is read as it is stored: for a name without comma, the answer gives the number, with a plus only for
  an international number that lacks one, so that a national number stays as it must be dialled.
\<close>

theorem own_number_reads_back:
  assumes "CHR '','' \<notin> set alpha" "CHR 0x0A \<notin> set alpha" and "num \<noteq> ''''" "list_all is_digit num"
    and "international \<longleftrightarrow> plan = ''145''" "plan = ''145'' \<or> plan = ''129''"
  shows "queryOwnMSISDN (Some (cnum_line alpha num plan)) = (if international then ''+'' @ num else num)"
proof -
  have digits: "CHR 0x22 \<notin> set num" "CHR '','' \<notin> set num" "CHR 0x0A \<notin> set num" "\<not> prefix ''+'' num"
    using assms(3,4) by (cases num; force simp: list_all_iff is_digit_def)+
  have plan: "TrimSpace plan = plan" "plan \<noteq> ''''" "CHR 0x0A \<notin> set plan" "plan = [hd plan] @ butlast (tl plan) @ [last plan]"
    using assms(6) TrimSpace_graph [of "CHR ''1''" "CHR ''5''" "''4''"] TrimSpace_graph [of "CHR ''1''" "CHR ''9''" "''2''"]
    by (auto simp: ascii_graph_def)
  have line: "cnum_line alpha num plan = CHR ''+'' # (''CNUM: '' @ quoted_name alpha @ '','' @ quoted_name num @ '','' @ butlast plan) @ [last plan]"
    using plan(2) by (simp add: cnum_line_def)
  have trim: "TrimSpace (cnum_line alpha num plan) = cnum_line alpha num plan"
    unfolding line by (rule TrimSpace_graph) (use assms(6) in \<open>auto simp: ascii_graph_def\<close>)
  have nl: "split_char (CHR 0x0A) (cnum_line alpha num plan) = [cnum_line alpha num plan]"
    by (rule split_char_single) (use assms(2) digits plan in \<open>simp add: cnum_line_def quoted_name_def\<close>)
  have drop: "drop 6 (cnum_line alpha num plan) = ('' '' @ quoted_name alpha) @ CHR '','' # quoted_name num @ CHR '','' # plan"
    by (simp add: cnum_line_def)
  have parts: "split_n 3 (CHR '','') (drop 6 (cnum_line alpha num plan)) = ['' '' @ quoted_name alpha, quoted_name num, plan]"
  proof -
    have "CHR '','' \<notin> set ('' '' @ quoted_name alpha)" "CHR '','' \<notin> set (quoted_name num)"
      using assms(1) digits by (simp_all add: quoted_name_def)
    from Cut_char [OF this(1)] Cut_char [OF this(2)] show ?thesis
      unfolding drop by (simp add: numeral_3_eq_3)
  qed
  have "TrimSpace (quoted_name num) = quoted_name num"
    unfolding quoted_name_def append_Cons append_Nil by (rule TrimSpace_graph) (simp_all add: ascii_graph_def)
  then have num: "trim_char (CHR 0x22) (TrimSpace (quoted_name num)) = num"
    using trim_quotes [OF assms(3) digits(1)] by (simp add: quoted_name_def)
  have head: "HasPrefix (cnum_line alpha num plan) ''+CNUM:''" "\<not> HasPrefix num ''+''"
    using digits(4) by (simp_all add: HasPrefix_def cnum_line_def)
  show ?thesis
    using assms(3,5) plan(1) by (simp add: queryOwnMSISDN_def nl trim head parts num Let_def)
qed

text \<open>
   A name with a comma is taken for the number: the answer is cut at the commas without regard to the quotes.
  The service then dials a piece of the name, and does not know its own number among the destinations.
\<close>

theorem own_number_of_name_with_comma:
  "queryOwnMSISDN (Some (cnum_line ''Doe, John'' ''+4915112345678'' ''145'')) = ''John''"
  by code_simp

section \<open>The hypotheses can hold\<close>

definition no_modem :: watch_env where
  "no_modem = \<lparr>we_find = None, we_cnum = None, we_watch = True, we_storage = full_sim, we_debug = False, we_cmgf = False\<rparr>"

definition one_modem :: watch_env where
  "one_modem = no_modem\<lparr>we_find := Some ''/Modem/0''\<rparr>"

lemma one_watch_at_a_time_witness:
  "length (sw_live (startSMSWatch one_modem (reconcileSMSPresence one_modem ''/SIM/0'' (watch_init sim_modem)))) \<le> 1"
  using one_watch_at_a_time [OF Rearm [OF Reconcile [OF Start]]] by blast

lemma failed_watch_is_not_retried_witness:
  "sw_live (fold (\<lambda>(e, p). reconcileSMSPresence e p) [(one_modem, ''/SIM/0''), (one_modem, ''/SIM/0'')]
     (reconcileSMSPresence no_modem ''/SIM/0'' (watch_init sim_modem))) = []"
  by (rule failed_watch_is_not_retried [OF Start]) (auto simp: watch_init_def no_modem_def)

lemma own_number_reads_back_witness:
  "queryOwnMSISDN (Some (cnum_line ''own'' ''4915112345678'' ''145'')) = ''+4915112345678''"
  using own_number_reads_back [of "''own''" "''4915112345678''" True "''145''"] by (simp add: is_digit_def)

end
