(* ===== verification/Sgs_Refresh.thy ===== *)
theory Sgs_Refresh
  imports Sms_Watch Recovery
begin

text \<open>
  From \<open>internal/service/service.go\<close>: keeping the registration for messages alive (\<open>startSMSRegistrationWatchdog\<close>,
  \<open>refreshSMSRegistration\<close> and its three ways: a call to the own number, the flight mode, and switching the radio
  off and on). The modem, the clock and the context of the operation answer as an environment; the subscription
  is that of \<open>Sms_Watch\<close>, a failure is handed to the recovery of \<open>Recovery\<close>.
\<close>

section \<open>The world\<close>

datatype sgs_call =
    LookUp | CreateCall | StartCall | HangupCall | DeleteCall
  | Cfun nat | MMEnable bool | Hold duration | GetState | HandOver | Rearm

text \<open>
  The calls with their answers. A \<open>Hold\<close> is answered by whether it ran to its end, so its failure is the
  cancellation of the context; \<open>GetState\<close> by whether the modem reports to be connected.
\<close>

type_synonym sgs_log = "(sgs_call \<times> bool) list"

record sgs_env =
  sx_ok :: "sgs_log \<Rightarrow> sgs_call \<Rightarrow> bool"
  sx_now :: "sgs_log \<Rightarrow> gotime"
  sx_watch :: "sgs_log \<Rightarrow> watch_env"
  sx_rec :: "sgs_log \<Rightarrow> rec_env"

record sgs =
  sg_watch :: sms_watch
  sg_modem :: recovery
  sg_log :: sgs_log

type_synonym 'a sgs_m = "(sgs, 'a) state"

definition act :: "sgs_env \<Rightarrow> sgs_call \<Rightarrow> bool sgs_m" where
  "act env c = State (\<lambda>s. let ok = sx_ok env (sg_log s) c in (ok, s\<lparr>sg_log := sg_log s @ [(c, ok)]\<rparr>))"

definition clock_now :: "sgs_env \<Rightarrow> gotime sgs_m" where
  "clock_now env = State (\<lambda>s. (sx_now env (sg_log s), s))"

definition touch_activity :: "unit sgs_m" where
  "touch_activity = State_Monad.update (\<lambda>s. s\<lparr>sg_watch := (sg_watch s)\<lparr>sw_activity := sw_activity (sg_watch s) + 1\<rparr>\<rparr>)"

definition rearm_watch :: "sgs_env \<Rightarrow> unit sgs_m" where
  "rearm_watch env = State_Monad.update (\<lambda>s. s\<lparr>sg_watch := startSMSWatch (sx_watch env (sg_log s)) (sg_watch s),
     sg_log := sg_log s @ [(Rearm, True)]\<rparr>)"

definition hand_over :: "sgs_env \<Rightarrow> unit sgs_m" where
  "hand_over env = State_Monad.update (\<lambda>s. s\<lparr>sg_modem := snd (run_state (handleModemFailure (sx_rec env (sg_log s))) (sg_modem s)),
     sg_log := sg_log s @ [(HandOver, True)]\<rparr>)"

section \<open>The three ways\<close>

definition voice_body :: "sgs_env \<Rightarrow> bool sgs_m" where
  "voice_body env = do {
     started \<leftarrow> act env StartCall;
     if \<not> started then State_Monad.return False else do {
       held \<leftarrow> act env (Hold (2 * second_ns));
       _ \<leftarrow> act env HangupCall;
       if \<not> held then State_Monad.return False
       else do { _ \<leftarrow> touch_activity; State_Monad.return True }
     }
   }"

definition refreshSGsViaVoiceCall :: "sgs_env \<Rightarrow> bool sgs_m" where
  "refreshSGsViaVoiceCall env = do {
     s \<leftarrow> State_Monad.get;
     if sw_number (sg_watch s) = '''' then State_Monad.return False else do {
       found \<leftarrow> act env LookUp;
       if \<not> found then State_Monad.return False else do {
         created \<leftarrow> act env CreateCall;
         if \<not> created then State_Monad.return False
         else do { r \<leftarrow> voice_body env; _ \<leftarrow> act env DeleteCall; State_Monad.return r }
       }
     }
   }"

text \<open>
  The polls of 1 s until the modem is connected or 20 s are over; 21 of them are enough (\<open>polls_within_fuel\<close>). The
  value says whether the loop came to its end, \<open>None\<close> is a loop that does not within the fuel.
\<close>

fun poll_connected :: "nat \<Rightarrow> sgs_env \<Rightarrow> gotime \<Rightarrow> bool option sgs_m" where
  "poll_connected 0 env deadline = State_Monad.return None"
| "poll_connected (Suc n) env deadline = do {
     now \<leftarrow> clock_now env;
     if \<not> time_Before now deadline then State_Monad.return (Some True) else do {
       held \<leftarrow> act env (Hold second_ns);
       if \<not> held then State_Monad.return (Some False) else do {
         connected \<leftarrow> act env GetState;
         if connected then State_Monad.return (Some True) else poll_connected n env deadline
       }
     }
   }"

definition poll_fuel :: nat where "poll_fuel = 21"

definition await_connected :: "sgs_env \<Rightarrow> bool sgs_m" where
  "await_connected env = do {
     now \<leftarrow> clock_now env;
     r \<leftarrow> poll_connected poll_fuel env (time_Add now (20 * second_ns));
     if r \<noteq> Some True then State_Monad.return False else do {
       found \<leftarrow> act env LookUp;
       if \<not> found then State_Monad.return False
       else do { _ \<leftarrow> rearm_watch env; State_Monad.return True }
     }
   }"

definition refreshSGsViaCFUN4 :: "sgs_env \<Rightarrow> bool sgs_m" where
  "refreshSGsViaCFUN4 env = do {
     found \<leftarrow> act env LookUp;
     if \<not> found then State_Monad.return False else do {
       off \<leftarrow> act env (Cfun 4);
       if \<not> off then State_Monad.return False else do {
         held \<leftarrow> act env (Hold (500 * millisecond_ns));
         if \<not> held then do { _ \<leftarrow> act env (Cfun 1); State_Monad.return False } else do {
           back \<leftarrow> act env (Cfun 1);
           enabled \<leftarrow> (if back then State_Monad.return True else act env (MMEnable True));
           if \<not> enabled then State_Monad.return False else await_connected env
         }
       }
     }
   }"

definition refreshSGsViaRadioCycle :: "sgs_env \<Rightarrow> unit sgs_m" where
  "refreshSGsViaRadioCycle env = do {
     found \<leftarrow> act env LookUp;
     if \<not> found then State_Monad.return () else do {
       off \<leftarrow> act env (MMEnable False);
       if \<not> off then hand_over env else do {
         held \<leftarrow> act env (Hold (3 * second_ns));
         if \<not> held then State_Monad.return () else do {
           back \<leftarrow> act env (MMEnable True);
           if \<not> back then hand_over env else do {
             settled \<leftarrow> act env (Hold (30 * second_ns));
             if \<not> settled then State_Monad.return () else rearm_watch env
           }
         }
       }
     }
   }"

definition refreshSMSRegistration :: "sgs_env \<Rightarrow> unit sgs_m" where
  "refreshSMSRegistration env = do {
     called \<leftarrow> refreshSGsViaVoiceCall env;
     if called then State_Monad.return () else do {
       cycled \<leftarrow> refreshSGsViaCFUN4 env;
       if cycled then State_Monad.return () else refreshSGsViaRadioCycle env
     }
   }"

section \<open>The watchdog\<close>

text \<open>Whether a tick of the watchdog asks for a refresh, and what the monitor does when asked.\<close>

definition refresh_due :: "bool \<Rightarrow> gotime \<Rightarrow> gotime \<Rightarrow> string \<Rightarrow> bool" where
  "refresh_due enabled now lastActivity number \<longleftrightarrow>
     enabled \<and> \<not> time_Sub now lastActivity < 13 * minute_ns \<and> number \<noteq> ''''"

definition on_refresh_request :: "sgs_env \<Rightarrow> bool \<Rightarrow> unit sgs_m" where
  "on_refresh_request env enabled = (if enabled then refreshSMSRegistration env else State_Monad.return ())"

section \<open>The radio\<close>

text \<open>
  Whether the radio is on after the calls, when it was before: a command that fails leaves it, and a failure handed to
  the recovery ends with a modem that is reset or reported.
\<close>

fun radio_after :: "bool \<Rightarrow> sgs_call \<times> bool \<Rightarrow> bool" where
  "radio_after on (Cfun n, True) = (n = 1)"
| "radio_after on (MMEnable b, True) = b"
| "radio_after on (HandOver, _) = True"
| "radio_after on _ = on"

definition radio_on :: "sgs \<Rightarrow> bool" where
  "radio_on s = foldl radio_after True (sg_log s)"

section \<open>Lemmas\<close>

lemma run_act [simp]:
  "run_state (act env c) s = (sx_ok env (sg_log s) c, s\<lparr>sg_log := sg_log s @ [(c, sx_ok env (sg_log s) c)]\<rparr>)"
  by (simp add: act_def Let_def)

lemma run_clock [simp]: "run_state (clock_now env) s = (sx_now env (sg_log s), s)"
  by (simp add: clock_now_def)

lemma run_updates [simp]:
  "run_state touch_activity s = ((), s\<lparr>sg_watch := (sg_watch s)\<lparr>sw_activity := sw_activity (sg_watch s) + 1\<rparr>\<rparr>)"
  "run_state (rearm_watch env) s = ((), s\<lparr>sg_watch := startSMSWatch (sx_watch env (sg_log s)) (sg_watch s), sg_log := sg_log s @ [(Rearm, True)]\<rparr>)"
  "run_state (hand_over env) s = ((), s\<lparr>sg_modem := snd (run_state (handleModemFailure (sx_rec env (sg_log s))) (sg_modem s)),
     sg_log := sg_log s @ [(HandOver, True)]\<rparr>)"
  by (simp_all add: touch_activity_def rearm_watch_def hand_over_def State_Monad.update_def State_Monad.get_def State_Monad.set_def)

lemma radio_on_append: "radio_on (s\<lparr>sg_log := sg_log s @ l\<rparr>) = foldl radio_after (radio_on s) l"
  by (simp add: radio_on_def)

lemma radio_on_updates [simp]:
  "radio_on (s\<lparr>sg_watch := w\<rparr>) = radio_on s" "radio_on (s\<lparr>sg_modem := r\<rparr>) = radio_on s"
  "radio_on (s\<lparr>sg_watch := w, sg_log := sg_log s @ l\<rparr>) = foldl radio_after (radio_on s) l"
  "radio_on (s\<lparr>sg_modem := r, sg_log := sg_log s @ l\<rparr>) = foldl radio_after (radio_on s) l"
  by (simp_all add: radio_on_def)

text \<open>Calls that leave the radio alone, and what is kept by them.\<close>

definition spares_radio :: "sgs_call \<Rightarrow> bool" where
  "spares_radio c \<longleftrightarrow> (\<forall>on ok. radio_after on (c, ok) = on)"

lemma spares [simp]:
  "spares_radio LookUp" "spares_radio CreateCall" "spares_radio StartCall" "spares_radio HangupCall"
  "spares_radio DeleteCall" "spares_radio (Hold d)" "spares_radio GetState"
  by (simp_all add: spares_radio_def)

lemma act_keeps_radio: "spares_radio c \<Longrightarrow> keeps (\<lambda>s. radio_on s = b) (act env c)"
  by (rule tripleI) (auto simp: radio_on_append spares_radio_def)

lemma poll_keeps_radio: "keeps (\<lambda>s. radio_on s = b) (poll_connected n env deadline)"
proof (induction n)
  case 0
  show ?case by (simp add: keeps_return)
next
  case (Suc n)
  have c: "keeps (\<lambda>s. radio_on s = b) (clock_now env)" by (simp add: triple_def)
  show ?case unfolding poll_connected.simps by (intro triples act_keeps_radio Suc.IH c spares)
qed

lemma rearm_keeps_radio: "keeps (\<lambda>s. radio_on s = b) (rearm_watch env)" "keeps (\<lambda>s. radio_on s = b) touch_activity"
  by (simp_all add: triple_def)

lemma await_keeps_radio: "keeps (\<lambda>s. radio_on s = b) (await_connected env)"
proof -
  have c: "keeps (\<lambda>s. radio_on s = b) (clock_now env)" by (simp add: triple_def)
  show ?thesis unfolding await_connected_def
    by (intro triples act_keeps_radio poll_keeps_radio rearm_keeps_radio c spares)
qed

lemma voice_keeps_radio: "keeps (\<lambda>s. radio_on s = b) (refreshSGsViaVoiceCall env)"
proof -
  have v: "keeps (\<lambda>s. radio_on s = b) (voice_body env)"
    unfolding voice_body_def by (intro triples act_keeps_radio rearm_keeps_radio spares)
  show ?thesis unfolding refreshSGsViaVoiceCall_def by (intro triples act_keeps_radio v spares)
qed

lemma cfun_success: "triple radio_on (refreshSGsViaCFUN4 env) (\<lambda>r s. r \<longrightarrow> radio_on s)"
proof (rule tripleI)
  fix s r t assume s: "radio_on s" "run_state (refreshSGsViaCFUN4 env) s = (r, t)"
  have on: "radio_on v" if "run_state (await_connected env) u = (x, v)" "radio_on u" for u x v
    using tripleD [OF await_keeps_radio [of True] _ that(1)] that(2) by simp
  show "r \<longrightarrow> radio_on t" using s
    by (auto simp: refreshSGsViaCFUN4_def radio_on_append Let_def dest!: on split: if_splits)
qed

text \<open>The polls come at least a second apart, so that the window of 20 s ends within the fuel.\<close>

definition clock_runs :: "sgs_env \<Rightarrow> bool" where
  "clock_runs env \<longleftrightarrow> (\<forall>l c ok. sx_now env l + (case c of Hold d \<Rightarrow> if ok then d else 0 | _ \<Rightarrow> 0) \<le> sx_now env (l @ [(c, ok)]))"

lemma clock_runsD:
  "clock_runs env \<Longrightarrow> sx_now env l + (case c of Hold d \<Rightarrow> if ok then d else 0 | _ \<Rightarrow> 0) \<le> sx_now env (l @ [(c, ok)])"
  unfolding clock_runs_def by blast

lemma poll_ends:
  assumes "clock_runs env"
  shows "triple (\<lambda>s. deadline - sx_now env (sg_log s) \<le> int n * second_ns) (poll_connected (Suc n) env deadline) (\<lambda>r _. r \<noteq> None)"
proof (induction n)
  case 0
  show ?case by (rule tripleI) (auto simp: time_Before_def)
next
  case (Suc n)
  show ?case
  proof (rule tripleI)
    fix s r t
    assume s: "deadline - sx_now env (sg_log s) \<le> int (Suc n) * second_ns" "run_state (poll_connected (Suc (Suc n)) env deadline) s = (r, t)"
    define l where "l = sg_log s @ [(Hold second_ns, True)]"
    have "sx_now env (sg_log s) + second_ns \<le> sx_now env l" using clock_runsD [OF assms, where l = "sg_log s" and c = "Hold second_ns" and ok = True] by (simp add: l_def)
    have "sx_now env l \<le> sx_now env (l @ [(GetState, ok)])" for ok
      using clock_runsD [OF assms, where l = l and c = GetState and ok = ok] by simp
    then have "deadline - sx_now env (l @ [(GetState, ok)]) \<le> int n * second_ns" for ok
    proof -
      have "int (Suc n) * second_ns = int n * second_ns + second_ns" by (simp add: algebra_simps)
      with s(1) \<open>sx_now env (sg_log s) + second_ns \<le> sx_now env l\<close> \<open>sx_now env l \<le> sx_now env (l @ [(GetState, ok)])\<close>
      show ?thesis by linarith
    qed
    then have again: "x \<noteq> None" if "run_state (poll_connected (Suc n) env deadline) (s\<lparr>sg_log := l @ [(GetState, ok)]\<rparr>) = (x, u)" for x u ok
      using tripleD [OF Suc.IH _ that] by simp
    show "r \<noteq> None" using s(2) again
      by (subst (asm) poll_connected.simps(2))
        (auto simp: l_def simp del: poll_connected.simps split: if_splits)
  qed
qed

section \<open>Properties\<close>

text \<open>
   A refresh that is not cancelled leaves the radio on. As long as the modem is found, whatever else fails, after the
  refresh the last command to the radio that took effect switched it on, or the failure was handed to the
  recovery of the modem.
\<close>

theorem refresh_leaves_radio_on:
  assumes "\<And>l d. sx_ok env l (Hold d)" and "\<And>l. sx_ok env l LookUp" and "radio_on s"
  shows "radio_on (snd (run_state (refreshSMSRegistration env) s))"
proof -
  obtain called s1 where v: "run_state (refreshSGsViaVoiceCall env) s = (called, s1)" by fastforce
  have s1: "radio_on s1" using tripleD [OF voice_keeps_radio [of True] _ v] assms(3) by simp
  obtain cycled s2 where c: "run_state (refreshSGsViaCFUN4 env) s1 = (cycled, s2)" by fastforce
  have s2: "cycled \<Longrightarrow> radio_on s2" using tripleD [OF cfun_success s1 c] by simp
  have s3: "radio_on (snd (run_state (refreshSGsViaRadioCycle env) s2))" if "\<not> cycled"
    by (simp add: refreshSGsViaRadioCycle_def assms(1,2) radio_on_append)
  show ?thesis using s1 s2 s3 by (simp add: refreshSMSRegistration_def v c)
qed


text \<open>The window for the modem to connect ends within the fuel, given a clock that follows the waits.\<close>

theorem polls_within_fuel:
  assumes "clock_runs env"
  shows "fst (run_state (poll_connected poll_fuel env (time_Add (sx_now env (sg_log s)) (20 * second_ns))) s) \<noteq> None"
proof -
  have fuel: "poll_fuel = Suc 20" by (simp add: poll_fuel_def)
  have "deadline - sx_now env (sg_log s) \<le> int 20 * second_ns"
    if "deadline = time_Add (sx_now env (sg_log s)) (20 * second_ns)" for deadline
    using that by (simp add: time_Add_def)
  from tripleD [OF poll_ends [OF assms] this [OF refl] prod.collapse [symmetric]] show ?thesis unfolding fuel .
qed

section \<open>The hypotheses can hold\<close>

definition sgs_world :: "bool \<Rightarrow> sgs_env" where
  "sgs_world held = \<lparr>sx_ok = (\<lambda>l c. case c of Hold d \<Rightarrow> held | _ \<Rightarrow> True), sx_now = (\<lambda>l. 0),
     sx_watch = (\<lambda>l. one_modem), sx_rec = (\<lambda>l. \<lparr>rv_ok = (\<lambda>_ _. True), rv_info = (\<lambda>_. None), rv_iface = (\<lambda>_. True),
       rv_usb_absent = (\<lambda>_. False), rv_cancelled = (\<lambda>_. False), rv_stopped = (\<lambda>_. False), rv_enabled = (\<lambda>_. True),
       rv_busy = (\<lambda>_. False), rv_now = (\<lambda>_. 0)\<rparr>)\<rparr>"

definition quiet_line :: sgs where
  "quiet_line = \<lparr>sg_watch = (watch_init sim_modem)\<lparr>sw_number := ''+4915112345678''\<rparr>, sg_modem = recovery_init, sg_log = []\<rparr>"

lemma refresh_leaves_radio_on_witness: "radio_on (snd (run_state (refreshSMSRegistration (sgs_world True)) quiet_line))"
  by (rule refresh_leaves_radio_on) (simp_all add: sgs_world_def quiet_line_def radio_on_def)


end
