(* ===== verification/Cell.thy ===== *)
theory Cell
  imports Go_Time MM_Types MM_Bearer Gps_Publish
begin

text \<open>
  Positions by cell tower: \<open>internal/cell/celltower.go\<close>, \<open>internal/cell/beacondb.go\<close>, \<open>queryCellLocation\<close> of
  \<open>internal/service/service.go\<close> and \<open>PublishCellLocationState\<close> of \<open>internal/redis/redis.go\<close>. The HTTP
  exchange with the location service is an argument; \<open>int\<close> has 64 bits.
\<close>

section \<open>Hexadecimal numbers\<close>

definition hex_digit :: "char \<Rightarrow> nat option" where
  "hex_digit c =
     (if CHR ''0'' \<le> c \<and> c \<le> CHR ''9'' then Some (of_char c - 48)
      else if CHR ''a'' \<le> c \<and> c \<le> CHR ''f'' then Some (of_char c - 87)
      else if CHR ''A'' \<le> c \<and> c \<le> CHR ''F'' then Some (of_char c - 55)
      else None)"

fun hex_val :: "nat \<Rightarrow> string \<Rightarrow> nat option" where
  "hex_val n [] = Some n"
| "hex_val n (c # s) = (case hex_digit c of None \<Rightarrow> None | Some d \<Rightarrow> hex_val (16 * n + d) s)"

text \<open>\<open>strconv.ParseInt(s, 16, 64)\<close>.\<close>

definition parse_hex :: "string \<Rightarrow> int option" where
  "parse_hex s =
     (case s of
        [] \<Rightarrow> None
      | c # r \<Rightarrow>
          let neg = (c = CHR ''-''); ds = (if c = CHR ''-'' \<or> c = CHR ''+'' then r else s) in
          if ds = [] then None
          else (case hex_val 0 ds of
            None \<Rightarrow> None
          | Some n \<Rightarrow>
              let v = (if neg then - int n else int n) in
              if min_int64 \<le> v \<and> v \<le> max_int64 then Some v else None))"

section \<open>The tower\<close>

record CellTower =
  ct_RadioType :: string
  ct_MobileCountryCode :: int
  ct_MobileNetworkCode :: int
  ct_LocationAreaCode :: int
  ct_CellId :: int

definition AccessTechToRadioType :: "string \<Rightarrow> string" where
  "AccessTechToRadioType accessTech =
     (if accessTech = ''5G'' then ''nr''
      else if accessTech = ''4G'' then ''lte''
      else if accessTech \<in> {''UMTS'', ''3G'', ''HSPA'', ''HSPA+''} then ''wcdma''
      else if accessTech \<in> {''GSM'', ''EDGE''} then ''gsm''
      else '''')"

definition area_code :: "string list \<Rightarrow> int \<Rightarrow> int" where
  "area_code parts lac =
     (if length parts \<ge> 5 then
        (case parse_hex (parts ! 4) of Some tac \<Rightarrow> if tac \<noteq> 0 then tac else lac | None \<Rightarrow> lac)
      else lac)"

definition ParseModemManagerLocation :: "(u32 \<Rightarrow> variant option) \<Rightarrow> string \<Rightarrow> CellTower option" where
  "ParseModemManagerLocation locationData radioType =
     (case locationData LocationSource3gppLacCi of
        Some (VString raw) \<Rightarrow>
          let parts = split_char (CHR '','') raw in
          if length parts < 4 then None
          else (case (Atoi (parts ! 0), Atoi (parts ! 1), parse_hex (parts ! 2), parse_hex (parts ! 3)) of
            (Some mcc, Some mnc, Some lac, Some cid) \<Rightarrow>
              if cid = 0 then None
              else
                let radio = AccessTechToRadioType radioType in
                if radio = '''' then None
                else Some \<lparr>ct_RadioType = radio, ct_MobileCountryCode = mcc, ct_MobileNetworkCode = mnc,
                  ct_LocationAreaCode = area_code parts lac, ct_CellId = cid\<rparr>
          | _ \<Rightarrow> None)
      | _ \<Rightarrow> None)"

section \<open>The lookup\<close>

record CellLocation =
  cl_Latitude :: float64
  cl_Longitude :: float64
  cl_Accuracy :: float64

text \<open>The answer of the service: its status and, if it can be decoded, the latitude, longitude and accuracy.\<close>

type_synonym geo_answer = "(nat \<times> (float64 \<times> float64 \<times> float64) option) option"

definition Geolocate :: "(CellTower list \<Rightarrow> geo_answer) \<Rightarrow> CellTower list \<Rightarrow> CellLocation option" where
  "Geolocate web towers =
     (if towers = [] then None
      else case web towers of
        Some (status, Some (lat, lng, accuracy)) \<Rightarrow>
          if status \<noteq> 200 then None
          else if lat = f_zero \<and> lng = f_zero then None
          else Some \<lparr>cl_Latitude = lat, cl_Longitude = lng, cl_Accuracy = accuracy\<rparr>
      | _ \<Rightarrow> None)"

section \<open>The query of the service\<close>

text \<open>\<open>cq_hash\<close> is the hash \<open>cell-location\<close>, \<open>cq_lookups\<close> the towers asked for.\<close>

record cell_query =
  cq_tower :: "CellTower option"
  cq_loc :: "CellLocation option"
  cq_hash :: "string \<Rightarrow> string option"
  cq_lookups :: "CellTower list"

record cell_env =
  cv_found :: bool
  cv_location :: "(u32 \<Rightarrow> variant option) option"
  cv_tech :: string
  cv_web :: "CellTower list \<Rightarrow> geo_answer"
  cv_publish :: bool
  cv_now :: gotime

definition PublishCellLocationState ::
  "bool \<Rightarrow> gotime \<Rightarrow> (string \<times> string) list \<Rightarrow> (string \<Rightarrow> string option) \<Rightarrow> bool \<times> (string \<Rightarrow> string option)" where
  "PublishCellLocationState ok now fs h =
     (if \<not> ok then (False, h) else (True, h ++ map_of (fs @ [(''updated'', rfc3339 now)])))"

definition cell_fields :: "CellLocation \<Rightarrow> (string \<times> string) list" where
  "cell_fields r = [(''latitude'', format_fixed 6 (cl_Latitude r)), (''longitude'', format_fixed 6 (cl_Longitude r)),
     (''accuracy'', format_fixed 0 (cl_Accuracy r)), (''source'', ''cell'')]"

text \<open>The four codes by which the service tells towers apart.\<close>

definition same_cell :: "CellTower \<Rightarrow> CellTower \<Rightarrow> bool" where
  "same_cell a b \<longleftrightarrow> ct_CellId a = ct_CellId b \<and> ct_LocationAreaCode a = ct_LocationAreaCode b
     \<and> ct_MobileNetworkCode a = ct_MobileNetworkCode b \<and> ct_MobileCountryCode a = ct_MobileCountryCode b"

definition queryCellLocation :: "cell_env \<Rightarrow> cell_query \<Rightarrow> cell_query" where
  "queryCellLocation env s =
     (if \<not> cv_found env then s
      else case cv_location env of None \<Rightarrow> s | Some locationData \<Rightarrow>
      case ParseModemManagerLocation locationData (cv_tech env) of None \<Rightarrow> s | Some tower \<Rightarrow>
      if (case (cq_tower s, cq_loc s) of (Some t, Some l) \<Rightarrow> same_cell tower t | _ \<Rightarrow> False) then s
      else
        let s1 = s\<lparr>cq_lookups := cq_lookups s @ [tower]\<rparr> in
        case Geolocate (cv_web env) [tower] of
          None \<Rightarrow> s1
        | Some result \<Rightarrow> s1\<lparr>cq_tower := Some tower, cq_loc := Some result,
            cq_hash := snd (PublishCellLocationState (cv_publish env) (cv_now env) (cell_fields result) (cq_hash s1))\<rparr>)"

section \<open>Lemmas\<close>

definition hex_char :: "nat \<Rightarrow> char" where
  "hex_char d = (if d < 10 then char_of (48 + d) else char_of (55 + d))"

fun hex_str :: "nat \<Rightarrow> string" where
  "hex_str n = (if n < 16 then [hex_char n] else hex_str (n div 16) @ [hex_char (n mod 16)])"

declare hex_str.simps [simp del]

lemma hex_digit_char: "d < 16 \<Longrightarrow> hex_digit (hex_char d) = Some d"
proof -
  have "\<forall>d \<in> set [0 ..< 16]. hex_digit (hex_char d) = Some d" by code_simp
  then show "d < 16 \<Longrightarrow> hex_digit (hex_char d) = Some d" by simp
qed

lemma hex_val_append: "hex_val n (s @ t) = Option.bind (hex_val n s) (\<lambda>m. hex_val m t)"
  by (induction s arbitrary: n) (auto split: option.split)

lemma hex_val_str: "hex_val 0 (hex_str n) = Some n"
proof (induction n rule: hex_str.induct)
  case (1 n)
  show ?case
  proof (cases "n < 16")
    case True
    then show ?thesis by (subst hex_str.simps) (simp add: hex_digit_char)
  next
    case False
    then show ?thesis using 1 by (subst hex_str.simps) (simp add: hex_val_append hex_digit_char)
  qed
qed

lemma hex_char_plain: "d < 16 \<Longrightarrow> hex_char d \<notin> {CHR ''-'', CHR ''+'', CHR '',''}"
proof -
  have "\<forall>d \<in> set [0 ..< 16]. hex_char d \<notin> {CHR ''-'', CHR ''+'', CHR '',''}" by code_simp
  then show "d < 16 \<Longrightarrow> hex_char d \<notin> {CHR ''-'', CHR ''+'', CHR '',''}" by simp
qed

lemma hex_str_ne [simp]: "hex_str n \<noteq> []"
  by (subst hex_str.simps) auto

lemma hex_str_plain: "set (hex_str n) \<inter> {CHR ''-'', CHR ''+'', CHR '',''} = {}"
proof (induction n rule: hex_str.induct)
  case (1 n)
  show ?case using 1 hex_char_plain [of n] hex_char_plain [of "n mod 16"] by (subst hex_str.simps) auto
qed

lemma parse_hex_str: "int n \<le> max_int64 \<Longrightarrow> parse_hex (hex_str n) = Some (int n)"
  using hex_str_plain [of n] hex_val_str [of n]
  by (cases "hex_str n") (auto simp: parse_hex_def Let_def min_int64_def)

lemma Atoi_dec_str: "int n \<le> max_int64 \<Longrightarrow> Atoi (dec_str n) = Some (int n)"
proof -
  have "list_all is_digit (dec_str n)" by (rule dec_str_digits)
  then have "hd (dec_str n) \<noteq> CHR ''-''" "hd (dec_str n) \<noteq> CHR ''+''"
    by (cases "dec_str n"; auto simp: is_digit_def)+
  then show "int n \<le> max_int64 \<Longrightarrow> Atoi (dec_str n) = Some (int n)"
    using dec_str_digits [of n] digits_val_dec_str [of n]
    by (cases "dec_str n") (auto simp: Atoi_def Let_def min_int64_def)
qed

lemma dec_str_no_comma: "CHR '','' \<notin> set (dec_str n)"
  using dec_str_digits [of n] by (auto simp: list_all_iff is_digit_def)

lemma hex_str_no_comma: "CHR '','' \<notin> set (hex_str n)"
  using hex_str_plain [of n] by auto

text \<open>How ModemManager writes the codes of the country, the network, the location area, the cell and the tracking area.\<close>

definition cell_text :: "nat \<Rightarrow> nat \<Rightarrow> nat \<Rightarrow> nat \<Rightarrow> nat \<Rightarrow> string" where
  "cell_text mcc mnc lac cid tac =
     dec_str mcc @ '','' @ dec_str mnc @ '','' @ hex_str lac @ '','' @ hex_str cid @ '','' @ hex_str tac"

lemma split_cell_text:
  "split_char (CHR '','') (cell_text mcc mnc lac cid tac) = [dec_str mcc, dec_str mnc, hex_str lac, hex_str cid, hex_str tac]"
  by (simp add: cell_text_def split_char_append split_char_single dec_str_no_comma hex_str_no_comma)

section \<open>Properties\<close>

text \<open>
   A cell is read as it was written: from the text that ModemManager gives for the five codes, the tower has these
  codes, with the tracking area for the area if there is one, and the radio type of the access technology.
  A cell of number zero and a technology that has no radio type give no tower.
\<close>

theorem cell_reads_back:
  assumes "loc LocationSource3gppLacCi = Some (VString (cell_text mcc mnc lac cid tac))"
    and "int mcc \<le> max_int64" "int mnc \<le> max_int64" "int lac \<le> max_int64" "int cid \<le> max_int64" "int tac \<le> max_int64"
  shows "ParseModemManagerLocation loc tech =
    (if cid = 0 \<or> AccessTechToRadioType tech = '''' then None
     else Some \<lparr>ct_RadioType = AccessTechToRadioType tech, ct_MobileCountryCode = int mcc, ct_MobileNetworkCode = int mnc,
       ct_LocationAreaCode = (if tac \<noteq> 0 then int tac else int lac), ct_CellId = int cid\<rparr>)"
  using assms
  by (simp add: ParseModemManagerLocation_def split_cell_text Atoi_dec_str parse_hex_str area_code_def Let_def)

text \<open>Every technology the modem reports by name has a radio type.\<close>

theorem named_technology_has_radio_type:
  "AccessTechToRadioType (AccessTechnologyToString t) = '''' \<longleftrightarrow> AccessTechnologyToString t = ''UNKNOWN''"
  by (auto simp: AccessTechToRadioType_def AccessTechnologyToString_def)

definition run_queries :: "cell_env list \<Rightarrow> cell_query \<Rightarrow> cell_query" where
  "run_queries envs s = fold queryCellLocation envs s"

definition sees :: "cell_env \<Rightarrow> CellTower \<Rightarrow> bool" where
  "sees env t \<longleftrightarrow> (\<exists>loc. cv_location env = Some loc \<and> ParseModemManagerLocation loc (cv_tech env) = Some t)"

lemma known_cell_quiet:
  assumes "cq_tower s = Some t" "cq_loc s = Some l" "sees env t'" "same_cell t' t"
  shows "queryCellLocation env s = s"
  using assms by (auto simp: queryCellLocation_def sees_def)

text \<open>
   A known cell is neither looked up nor published again. After a lookup that gave a position, every query that sees the
  same cell leaves the service and the server as they are. The service is asked once per cell; but when the
  server refused the position, it is not offered again until the scooter moves to another cell.
\<close>

theorem known_cell_is_left_alone:
  assumes "cv_found env" "sees env t" "Geolocate (cv_web env) [t] \<noteq> None" "cq_tower s = None"
    and "\<And>e. e \<in> set later \<Longrightarrow> (\<exists>t'. sees e t' \<and> same_cell t' t)"
  shows "run_queries later (queryCellLocation env s) = queryCellLocation env s
    \<and> cq_lookups (queryCellLocation env s) = cq_lookups s @ [t]
    \<and> (\<not> cv_publish env \<longrightarrow> cq_hash (run_queries later (queryCellLocation env s)) = cq_hash s)"
proof -
  obtain l where l: "Geolocate (cv_web env) [t] = Some l" using assms(3) by blast
  let ?t = "queryCellLocation env s"
  have t: "cq_tower ?t = Some t" "cq_loc ?t = Some l" "cq_lookups ?t = cq_lookups s @ [t]" "\<not> cv_publish env \<Longrightarrow> cq_hash ?t = cq_hash s"
    using assms(1,2,4) l by (auto simp: queryCellLocation_def sees_def PublishCellLocationState_def Let_def)
  have "queryCellLocation e ?t = ?t" if "e \<in> set later" for e
    using assms(5) [OF that] known_cell_quiet [OF t(1,2)] by blast
  then have "run_queries later ?t = ?t" unfolding run_queries_def by (induction later) simp_all
  with t show ?thesis by simp
qed

section \<open>The hypotheses can hold\<close>

definition sample_cell :: "u32 \<Rightarrow> variant option" where
  "sample_cell = [LocationSource3gppLacCi \<mapsto> VString (cell_text 262 1 0 111111 4660)]"

definition sample_query :: cell_env where
  "sample_query = \<lparr>cv_found = True, cv_location = Some sample_cell, cv_tech = ''4G'',
     cv_web = (\<lambda>_. Some (200, Some (Num 52, Num 13, Num 500))), cv_publish = False, cv_now = 0\<rparr>"

definition no_cell :: cell_query where
  "no_cell = \<lparr>cq_tower = None, cq_loc = None, cq_hash = Map.empty, cq_lookups = []\<rparr>"

lemma cell_reads_back_witness:
  "ParseModemManagerLocation sample_cell ''4G'' = Some \<lparr>ct_RadioType = ''lte'', ct_MobileCountryCode = 262,
     ct_MobileNetworkCode = 1, ct_LocationAreaCode = 4660, ct_CellId = 111111\<rparr>"
  using cell_reads_back [of sample_cell 262 1 0 111111 4660 "''4G''"]
  by (simp add: sample_cell_def AccessTechToRadioType_def max_int64_def)

lemma known_cell_is_left_alone_witness:
  "cq_hash (run_queries [sample_query] (queryCellLocation sample_query no_cell)) = Map.empty"
proof -
  let ?t = "\<lparr>ct_RadioType = ''lte'', ct_MobileCountryCode = 262, ct_MobileNetworkCode = 1, ct_LocationAreaCode = 4660, ct_CellId = 111111\<rparr>"
  have parse: "ParseModemManagerLocation sample_cell ''4G'' = Some ?t"
    by (subst cell_reads_back [of _ 262 1 0 111111 4660]) (simp_all add: sample_cell_def AccessTechToRadioType_def max_int64_def)
  have sees: "sees sample_query ?t" using parse by (simp add: sees_def sample_query_def)
  have same: "same_cell ?t ?t" by (simp add: same_cell_def)
  have geo: "Geolocate (cv_web sample_query) [?t] \<noteq> None" by (simp add: Geolocate_def sample_query_def f_zero_def)
  have "run_queries [sample_query] (queryCellLocation sample_query no_cell) = queryCellLocation sample_query no_cell
    \<and> cq_lookups (queryCellLocation sample_query no_cell) = cq_lookups no_cell @ [?t]
    \<and> (\<not> cv_publish sample_query \<longrightarrow> cq_hash (run_queries [sample_query] (queryCellLocation sample_query no_cell)) = cq_hash no_cell)"
    by (rule known_cell_is_left_alone [OF _ sees geo]) (use sees same in \<open>auto simp: sample_query_def no_cell_def\<close>)
  moreover have "\<not> cv_publish sample_query" "cq_hash no_cell = Map.empty" by (simp_all add: sample_query_def no_cell_def)
  ultimately show ?thesis by metis
qed

end
