(* ===== verification/Status_Round.thy ===== *)
theory Status_Round
  imports Gps_Recovery Remedy Publish Snapshot Sim Apn_Manager Sms_Watch
begin

text \<open>
  From \<open>internal/service/service.go\<close>: one round of the status check (\<open>checkAndPublishModemStatus\<close>), which joins
  the other components: the health check with its recovery, the reading of the modem, the SMS watch, the SIM PIN,
  the APN, the link snapshot with its assessment, the usage counter, the remote probe, the publications and, last,
  the remedy. Each is the definition of its own theory; here is their order, and what an early return leaves out.
\<close>

section \<open>State\<close>

text \<open>
  The parts of \<open>Service\<close> that a round changes. \<open>st_gps\<close> holds the recovery of the modem in \<open>gu_modem\<close>,
  \<open>st_calls\<close> the calls of the APN manager, \<open>st_pub\<close> the copy of the server, \<open>st_log\<close> what the round decided.
\<close>

datatype round_event =
    Reconciled apn_outcome
  | Judged round

  | Probed
  | Shown string
  | Remedied Remedy "remedy_action list"

record status =
  st_gps :: gps_super
  st_sms :: sms_watch
  st_sim :: SimManager
  st_apn :: ApnManager
  st_calls :: history
  st_dog :: Watchdog
  st_counter :: Counter
  st_files :: usage_fs
  st_usage :: "Totals option"
  st_pub :: publisher
  st_diag :: diagnostics
  st_log :: "round_event list"

text \<open>
  What a round meets: the answers of the components, the flags at the moments they are read
  (\<open>sv_busy\<close> and \<open>sv_usable\<close> when the APN is reconciled, \<open>sv_stopped\<close> and \<open>sv_enabled\<close> after it), the clock.
\<close>

record round_env =
  sv_rec :: rec_env
  sv_info :: modem_env
  sv_watch :: watch_env
  sv_pin :: string
  sv_sim :: "sim_call \<Rightarrow> dbus_error option"
  sv_find :: "object_path option"
  sv_busy :: bool
  sv_usable :: bool
  sv_apn :: apn_env
  sv_locked :: bool
  sv_apn_now :: "history \<Rightarrow> gotime"
  sv_desired :: Config
  sv_stopped :: bool
  sv_enabled :: bool
  sv_fresh :: modem_env
  sv_link :: link_env
  sv_iface :: string
  sv_fails :: "nat \<Rightarrow> bool"
  sv_saved :: gotime
  sv_prober :: Prober
  sv_net :: probe_env
  sv_dns :: "string list"
  sv_base :: duration
  sv_max :: duration
  sv_now :: gotime
  sv_later :: gotime
  sv_server :: pub_env
  sv_published :: gotime
  sv_on :: bool
  sv_remedy :: remedy_env

definition note_round :: "round_event list \<Rightarrow> status \<Rightarrow> status" where
  "note_round es s = s\<lparr>st_log := st_log s @ es\<rparr>"

section \<open>The health check\<close>

text \<open>A recovery that succeeds also clears the retry of the APN manager and arms the SMS watch again.\<close>

definition on_recovery :: "round_env \<Rightarrow> 'a rec_m \<Rightarrow> status \<Rightarrow> 'a \<times> status" where
  "on_recovery env m s =
     (case on_modem m (st_gps s) of (x, g) \<Rightarrow>
        let new = drop (length (rc_log (gu_modem (st_gps s)))) (rc_log (gu_modem g));
            s1 = s\<lparr>st_gps := g\<rparr>;
            s2 = (if CResetApnRetry \<in> set new then s1\<lparr>st_apn := ResetRetry (st_apn s1)\<rparr> else s1)
        in (x, if CRearmSMS \<in> set new then s2\<lparr>st_sms := startSMSWatch (sv_watch env) (st_sms s2)\<rparr> else s2))"

text \<open>\<open>checkHealth\<close> returns no error after a recovery or a wait that ends the recovery, and when all is well.\<close>

definition no_error :: "rec_result \<Rightarrow> bool" where
  "no_error r \<longleftrightarrow> (case r of Recovered _ \<Rightarrow> True | BackoffDone \<Rightarrow> True | ModemHealthy \<Rightarrow> True | _ \<Rightarrow> False)"

definition terminal :: "status \<Rightarrow> bool" where
  "terminal s = IsTerminal (rc_health (gu_modem (st_gps s)))"

definition show_state :: "round_env \<Rightarrow> State \<Rightarrow> string \<Rightarrow> status \<Rightarrow> bool \<times> status" where
  "show_state env cur internetStatus s =
     (case publishModemState (sv_server env) (sv_published env) (sv_on env) (terminal s) cur internetStatus (st_pub s) of
        (ok, p) \<Rightarrow> (ok, note_round [Shown internetStatus] (s\<lparr>st_pub := p\<rparr>)))"

definition show_health :: "round_env \<Rightarrow> status \<Rightarrow> bool \<times> status" where
  "show_health env s =
     on_recovery env (do { h \<leftarrow> get_health; perform (sv_rec env) (CPublishHealth (hl_State h)) }) s"

section \<open>The APN\<close>

fun apn_action :: "apn_outcome \<Rightarrow> string" where
  "apn_action ApnNoSIM = ''no-sim''"
| "apn_action ApnUnconfigured = ''unconfigured''"
| "apn_action ApnOK = ''ok''"
| "apn_action ApnApplied = ''applied''"
| "apn_action ApnICCIDChangedClear = ''iccid-changed-cleared''"
| "apn_action ApnError = ''error''"

definition apnSIMReady :: "State \<Rightarrow> bool" where
  "apnSIMReady state \<longleftrightarrow>
     stICCID state \<noteq> '''' \<and> stSIMLockStatusKnown state
     \<and> stSIMLockStatus state \<in> {'''', ''none'', ''sim-pin2'', ''sim-puk2''}"

definition reconcileAPN :: "round_env \<Rightarrow> ApnInput \<Rightarrow> status \<Rightarrow> apn_outcome \<times> status" where
  "reconcileAPN env i s =
     (if sv_busy env then (ApnError, s)
      else if \<not> sv_usable env then (ApnError, s)
      else case Apn_Reconcile (sv_apn env) (sv_locked env) (sv_apn_now env) i (st_apn s) (st_calls s) of
        (out, m, h) \<Rightarrow> (out, s\<lparr>st_apn := m, st_calls := h\<rparr>))"

definition settles :: "apn_outcome \<Rightarrow> bool" where
  "settles out \<longleftrightarrow> out = ApnError \<or> out = ApnApplied \<or> out = ApnICCIDChangedClear"

datatype round_end =
    HealthFailed rec_result | NoModemInfo | RoundStopped | RoundCancelled | NotPublished | HealthNotPublished | RoundDone

text \<open>The state to go on with and whether the APN is settling, or the early return.\<close>

definition apn_stage :: "round_env \<Rightarrow> State \<Rightarrow> status \<Rightarrow> (round_end + State \<times> bool) \<times> status" where
  "apn_stage env cur s =
     (if \<not> apnSIMReady cur then (Inr (cur, False), s)
      else
        let i = \<lparr>ai_ICCID = stICCID cur, ai_ModemPath = (case sv_find env of None \<Rightarrow> '''' | Some p \<Rightarrow> p),
                 ai_Desired = sv_desired env\<rparr> in
        case reconcileAPN env i s of
          (out, s1) \<Rightarrow>
            let s2 = note_round [Reconciled out] s1 in
            if sv_stopped env then (Inl RoundStopped, s2)
            else if \<not> sv_enabled env then (Inl RoundCancelled, s2)
            else if settles out then
              (case GetModemInfo (sv_fresh env) of
                 (fresh, True) \<Rightarrow> (Inl NoModemInfo, s2)
               | (fresh, False) \<Rightarrow>
                   (Inr (fresh\<lparr>stPinAction := stPinAction cur, stApnAction := apn_action out\<rparr>, True), s2))
            else (Inr (cur\<lparr>stApnAction := apn_action out\<rparr>, False), s2))"

definition pin_stage :: "round_env \<Rightarrow> State \<Rightarrow> status \<Rightarrow> State \<times> status" where
  "pin_stage env cur s =
     (case Sim_Reconcile (sv_sim env)
        \<lparr>si_SIMPath = stSIMPath cur, si_LockStatus = stSIMLockStatus cur, si_LockStatusKnown = stSIMLockStatusKnown cur,
         si_SIMPinLockEnabled = stSIMPinLockEnabled cur, si_SIMPinLockKnown = stSIMPinLockKnown cur,
         si_UnlockRetriesPin = stUnlockRetriesPin cur, si_ConfiguredPIN = sv_pin env\<rparr> (st_sim s) of
        (out, m, calls) \<Rightarrow> (cur\<lparr>stPinAction := Outcome_String out\<rparr>, s\<lparr>st_sim := m\<rparr>))"

section \<open>The link, the usage and the probe\<close>

definition usage_stage :: "round_env \<Rightarrow> State \<Rightarrow> BearerUsage \<Rightarrow> status \<Rightarrow> status" where
  "usage_stage env cur usage s =
     (let c = (if bu_Valid usage then
                 Usage_Observe \<lparr>sm_BearerPath = bu_Path usage, sm_RxBytes = bu_RxBytes usage,
                   sm_TxBytes = bu_TxBytes usage, sm_Roaming = stIsRoaming cur\<rparr> (st_counter s)
               else st_counter s);
          (u, b) = publishDataUsage (sv_server env) (cn_totals c) (st_usage s, pb_broker (st_pub s));
          (c, f) = Backstop (sv_fails env) (sv_saved env) c (st_files s)
      in s\<lparr>st_counter := c, st_files := f, st_usage := u, st_pub := (st_pub s)\<lparr>pb_broker := b\<rparr>\<rparr>)"

definition link_stage :: "round_env \<Rightarrow> State \<Rightarrow> status \<Rightarrow> Assessment \<times> string \<times> status" where
  "link_stage env cur s =
     (case take_snapshot (sv_link env) (Some cur) (sv_iface env) (wd_wantATCheck (st_dog s)) of
        (snap, usage) \<Rightarrow>
      case Assess snap (wd_link (st_dog s)) of
        (a, l) \<Rightarrow>
          let w1 = (st_dog s)\<lparr>wd_link := l, wd_wantATCheck := as_WantATCheck a\<rparr>;
              s1 = usage_stage env cur usage s;
              (w2, internetStatus) =
                probe_round (sv_base env) (sv_max env) (sv_now env) (Probe (sv_prober env) (sv_net env) (sv_dns env)) a w1
          in (a, internetStatus,
              note_round (if probes (sv_now env) a w1 then [Probed] else []) (s1\<lparr>st_dog := w2\<rparr>)))"

section \<open>The remedy\<close>

definition run_action :: "round_env \<Rightarrow> remedy_action \<Rightarrow> status \<Rightarrow> status" where
  "run_action env act s =
     (case act of
        ActReattach path \<Rightarrow> s\<lparr>st_calls := snd (Reattach (sv_apn env) (sv_locked env) path (st_calls s))\<rparr>
      | ActReapply \<Rightarrow> s
      | ActModemFailure \<Rightarrow> snd (on_recovery env (handleModemFailure (sv_rec env)) s))"

definition remedy_stage :: "round_env \<Rightarrow> Assessment \<Rightarrow> status \<Rightarrow> status" where
  "remedy_stage env a s =
     (case handleAssessment (sv_later env) (sv_remedy env) a (st_dog s) of
        (None, w) \<Rightarrow> s\<lparr>st_dog := w\<rparr>
      | (Some (r, acts), w) \<Rightarrow> note_round [Remedied r acts] (fold (run_action env) acts (s\<lparr>st_dog := w\<rparr>)))"

section \<open>The round\<close>

text \<open>The publications, and the early returns between them.\<close>

definition publish_stage :: "round_env \<Rightarrow> State \<Rightarrow> string \<Rightarrow> Assessment \<Rightarrow> status \<Rightarrow> round_end \<times> status" where
  "publish_stage env cur internetStatus a s =
     (case show_state env cur internetStatus s of
        (False, s1) \<Rightarrow> (NotPublished, snd (show_health env s1))
      | (True, s1) \<Rightarrow>
          let reachable = pr_Reachable (wd_lastProbe (st_dog s1));
              (d1, b1) = publishIfChanged (sv_server env) (reachability_gates (reachabilityField reachable a))
                           (st_diag s1, pb_broker (st_pub s1));
              (d2, b2) = publishIfChanged (sv_server env) (link_layer_gates (linkLayerField a)) (d1, b1);
              s2 = s1\<lparr>st_diag := d2, st_pub := (st_pub s1)\<lparr>pb_broker := b2\<rparr>\<rparr>
          in case show_health env s2 of
               (ok, s3) \<Rightarrow> (if ok then RoundDone else HealthNotPublished, s3))"

text \<open>What the watchdog is given in this round.\<close>

definition judged :: "round_env \<Rightarrow> State \<Rightarrow> bool \<Rightarrow> status \<Rightarrow> round" where
  "judged env cur settling s =
     \<lparr>rd_snap = fst (take_snapshot (sv_link env) (Some cur) (sv_iface env) (wd_wantATCheck (st_dog s))),
      rd_now = sv_now env, rd_later = sv_later env, rd_settling = settling,
      rd_answer = Probe (sv_prober env) (sv_net env) (sv_dns env), rd_env = sv_remedy env\<rparr>"

text \<open>The deferred call of \<open>handleAssessment\<close> runs after whatever \<open>publish_stage\<close> returns.\<close>

definition judge_stage :: "round_env \<Rightarrow> State \<Rightarrow> bool \<Rightarrow> status \<Rightarrow> round_end \<times> status" where
  "judge_stage env cur settling s =
     (case link_stage env cur (note_round [Judged (judged env cur settling s)] s) of
        (a, internetStatus, s1) \<Rightarrow>
          let s2 = (if settling then s1\<lparr>st_dog := (st_dog s1)\<lparr>wd_pendingRepeat := 0\<rparr>\<rparr> else s1) in
          case publish_stage env cur internetStatus a s2 of
            (r, s3) \<Rightarrow> (r, if settling then s3 else remedy_stage env a s3))"

definition give_up :: "round_env \<Rightarrow> State \<Rightarrow> status \<Rightarrow> status" where
  "give_up env cur s = snd (show_health env (snd (show_state env cur ''disconnected'' s)))"

definition checkAndPublishModemStatus :: "round_env \<Rightarrow> status \<Rightarrow> round_end \<times> status" where
  "checkAndPublishModemStatus env s =
     (case on_recovery env (checkHealth (sv_rec env)) s of
        (h, s1) \<Rightarrow>
          if \<not> no_error h then (HealthFailed h, give_up env NewState s1)
          else case GetModemInfo (sv_info env) of
            (cur, True) \<Rightarrow> (NoModemInfo, give_up env cur s1)
          | (cur, False) \<Rightarrow>
              let s2 = s1\<lparr>st_sms := reconcileSMSPresence (sv_watch env) (stSIMPath cur) (st_sms s1)\<rparr> in
              case pin_stage env cur s2 of
                (cur, s3) \<Rightarrow>
              case apn_stage env cur s3 of
                (Inl r, s4) \<Rightarrow> (r, s4)
              | (Inr (cur, settling), s4) \<Rightarrow> judge_stage env cur settling s4)"

section \<open>What each stage leaves alone\<close>

lemma note_fields [simp]:
  "st_log (note_round es s) = st_log s @ es" "st_gps (note_round es s) = st_gps s" "st_sms (note_round es s) = st_sms s"
  "st_sim (note_round es s) = st_sim s" "st_apn (note_round es s) = st_apn s" "st_calls (note_round es s) = st_calls s"
  "st_dog (note_round es s) = st_dog s" "st_counter (note_round es s) = st_counter s" "st_diag (note_round es s) = st_diag s"
  "st_usage (note_round es s) = st_usage s" "st_files (note_round es s) = st_files s" "st_pub (note_round es s) = st_pub s"
  by (simp_all add: note_round_def)

lemma recovery_fields [simp]:
  "st_log (snd (on_recovery env m s)) = st_log s" "st_sim (snd (on_recovery env m s)) = st_sim s"
  "st_calls (snd (on_recovery env m s)) = st_calls s" "st_dog (snd (on_recovery env m s)) = st_dog s"
  "st_counter (snd (on_recovery env m s)) = st_counter s" "st_diag (snd (on_recovery env m s)) = st_diag s"
  "st_usage (snd (on_recovery env m s)) = st_usage s" "st_files (snd (on_recovery env m s)) = st_files s"
  "st_pub (snd (on_recovery env m s)) = st_pub s"
  by (simp_all add: on_recovery_def Let_def split: prod.split)

lemma show_fields [simp]:
  "st_log (snd (show_state env cur i s)) = st_log s @ [Shown i]" "st_sim (snd (show_state env cur i s)) = st_sim s"
  "st_calls (snd (show_state env cur i s)) = st_calls s" "st_dog (snd (show_state env cur i s)) = st_dog s"
  "st_counter (snd (show_state env cur i s)) = st_counter s" "st_diag (snd (show_state env cur i s)) = st_diag s"
  "st_usage (snd (show_state env cur i s)) = st_usage s" "st_apn (snd (show_state env cur i s)) = st_apn s"
  by (simp_all add: show_state_def split: prod.split)

lemma health_fields [simp]:
  "st_log (snd (show_health env s)) = st_log s" "st_calls (snd (show_health env s)) = st_calls s"
  "st_dog (snd (show_health env s)) = st_dog s" "st_counter (snd (show_health env s)) = st_counter s"
  "st_diag (snd (show_health env s)) = st_diag s" "st_usage (snd (show_health env s)) = st_usage s"
  "st_sim (snd (show_health env s)) = st_sim s"
  by (simp_all add: show_health_def)

lemma give_up_fields [simp]:
  "st_log (give_up env cur s) = st_log s @ [Shown ''disconnected'']" "st_calls (give_up env cur s) = st_calls s"
  "st_dog (give_up env cur s) = st_dog s" "st_counter (give_up env cur s) = st_counter s"
  "st_diag (give_up env cur s) = st_diag s" "st_usage (give_up env cur s) = st_usage s" "st_sim (give_up env cur s) = st_sim s"
  by (simp_all add: give_up_def)

lemma pin_fields [simp]:
  "st_log (snd (pin_stage env cur s)) = st_log s" "st_calls (snd (pin_stage env cur s)) = st_calls s"
  "st_dog (snd (pin_stage env cur s)) = st_dog s" "st_diag (snd (pin_stage env cur s)) = st_diag s"
  by (simp_all add: pin_stage_def split: prod.split)

lemma reconcile_fields [simp]:
  "st_log (snd (reconcileAPN env i s)) = st_log s" "st_dog (snd (reconcileAPN env i s)) = st_dog s"
  "st_diag (snd (reconcileAPN env i s)) = st_diag s"
  by (simp_all add: reconcileAPN_def split: prod.split)

definition apn_request :: "round_env \<Rightarrow> State \<Rightarrow> ApnInput" where
  "apn_request env cur =
     \<lparr>ai_ICCID = stICCID cur, ai_ModemPath = (case sv_find env of None \<Rightarrow> '''' | Some p \<Rightarrow> p), ai_Desired = sv_desired env\<rparr>"

lemma apn_stage_state:
  "snd (apn_stage env cur s) =
     (if \<not> apnSIMReady cur then s
      else note_round [Reconciled (fst (reconcileAPN env (apn_request env cur) s))] (snd (reconcileAPN env (apn_request env cur) s)))"
  by (cases "reconcileAPN env (apn_request env cur) s")
    (simp add: apn_stage_def apn_request_def [symmetric] Let_def split: prod.split bool.split)

lemma apn_stage_settles:
  "fst (apn_stage env cur s) = Inr (cur', settling) \<Longrightarrow>
     settling \<longleftrightarrow> apnSIMReady cur \<and> settles (fst (reconcileAPN env (apn_request env cur) s))"
  by (cases "reconcileAPN env (apn_request env cur) s")
    (auto simp: apn_stage_def apn_request_def [symmetric] Let_def split: prod.splits bool.splits if_splits)

lemma apn_fields [simp]:
  "st_dog (snd (apn_stage env cur s)) = st_dog s" "st_diag (snd (apn_stage env cur s)) = st_diag s"
  by (simp_all add: apn_stage_state)

lemma usage_stage_fields [simp]:
  "st_log (usage_stage env cur u s) = st_log s" "st_dog (usage_stage env cur u s) = st_dog s"
  "st_calls (usage_stage env cur u s) = st_calls s" "st_gps (usage_stage env cur u s) = st_gps s"
  by (simp_all add: usage_stage_def Let_def split: prod.split)

lemma action_fields [simp]:
  "st_log (fold (run_action env) acts s) = st_log s" "st_dog (fold (run_action env) acts s) = st_dog s"
  by (induction acts arbitrary: s) (simp_all add: run_action_def split: remedy_action.split)

lemma publish_fields [simp]:
  "st_log (snd (publish_stage env cur i a s)) = st_log s @ [Shown i]"
  "st_dog (snd (publish_stage env cur i a s)) = st_dog s"
  "st_calls (snd (publish_stage env cur i a s)) = st_calls s"
proof -
  obtain ok s1 where s1: "show_state env cur i s = (ok, s1)" by fastforce
  have s1': "s1 = snd (show_state env cur i s)" using s1 by simp
  obtain d1 b1 where g1: "publishIfChanged (sv_server env) (reachability_gates (reachabilityField (pr_Reachable (wd_lastProbe (st_dog s1))) a))
      (st_diag s1, pb_broker (st_pub s1)) = (d1, b1)" by fastforce
  obtain d2 b2 where g2: "publishIfChanged (sv_server env) (link_layer_gates (linkLayerField a)) (d1, b1) = (d2, b2)" by fastforce
  obtain o3 s3 where s3: "show_health env (s1\<lparr>st_diag := d2, st_pub := (st_pub s1)\<lparr>pb_broker := b2\<rparr>\<rparr>) = (o3, s3)" by fastforce
  have s3': "s3 = snd (show_health env (s1\<lparr>st_diag := d2, st_pub := (st_pub s1)\<lparr>pb_broker := b2\<rparr>\<rparr>))" using s3 by simp
  have e: "snd (publish_stage env cur i a s) = (if ok then s3 else snd (show_health env s1))"
    by (simp add: publish_stage_def s1 g1 g2 s3 Let_def split: bool.split)
  show "st_log (snd (publish_stage env cur i a s)) = st_log s @ [Shown i]"
    "st_dog (snd (publish_stage env cur i a s)) = st_dog s"
    "st_calls (snd (publish_stage env cur i a s)) = st_calls s"
    by (simp_all add: e s3') (simp_all add: s1')
qed

section \<open>The watchdog of a round\<close>

definition the_remedy :: "verdict \<Rightarrow> round_event list" where
  "the_remedy v = (case vd_applied v of None \<Rightarrow> [] | Some (r, acts) \<Rightarrow> [Remedied r acts])"

text \<open>From the snapshot on a round does to the watchdog what \<open>link_round\<close> does, and reports its verdict.\<close>

lemma judge_is_link_round:
  assumes "link_round (sv_base env) (sv_max env) (judged env cur settling s) (st_dog s) = (v, w)"
  shows "st_dog (snd (judge_stage env cur settling s)) = w"
    and "st_log (snd (judge_stage env cur settling s))
       = st_log s @ [Judged (judged env cur settling s)] @ (if vd_probed v then [Probed] else []) @ [Shown (vd_status v)] @ the_remedy v"
proof -
  define s0 where "s0 = note_round [Judged (judged env cur settling s)] s"
  obtain snap usage where snap: "take_snapshot (sv_link env) (Some cur) (sv_iface env) (wd_wantATCheck (st_dog s)) = (snap, usage)"
    by fastforce
  obtain a l where a: "Assess snap (wd_link (st_dog s)) = (a, l)" by fastforce
  define w1 where "w1 = (st_dog s)\<lparr>wd_link := l, wd_wantATCheck := as_WantATCheck a\<rparr>"
  define answer where "answer = Probe (sv_prober env) (sv_net env) (sv_dns env)"
  obtain w2 i where p: "probe_round (sv_base env) (sv_max env) (sv_now env) answer a w1 = (w2, i)" by fastforce
  define s1 where "s1 = note_round (if probes (sv_now env) a w1 then [Probed] else []) ((usage_stage env cur usage s0)\<lparr>st_dog := w2\<rparr>)"
  define s2 where "s2 = (if settling then s1\<lparr>st_dog := (st_dog s1)\<lparr>wd_pendingRepeat := 0\<rparr>\<rparr> else s1)"
  obtain r s3 where s3: "publish_stage env cur i a s2 = (r, s3)" by fastforce
  then have s3': "s3 = snd (publish_stage env cur i a s2)" by simp
  obtain rem w3 where h: "handleAssessment (sv_later env) (sv_remedy env) a w2 = (rem, w3)" by fastforce
  have link: "link_stage env cur s0 = (a, i, s1)"
    by (simp add: link_stage_def s0_def snap a w1_def [symmetric] p answer_def [symmetric] s1_def Let_def)
  have judge: "judge_stage env cur settling s = (r, if settling then s3 else remedy_stage env a s3)"
    by (simp add: judge_stage_def s0_def [symmetric] link s2_def [symmetric] s3 Let_def)
  have s3_fields: "st_dog s3 = (if settling then w2\<lparr>wd_pendingRepeat := 0\<rparr> else w2)"
    "st_log s3 = st_log s @ [Judged (judged env cur settling s)] @ (if probes (sv_now env) a w1 then [Probed] else []) @ [Shown i]"
    by (simp_all add: s3' s2_def s1_def s0_def)
  have v: "v = \<lparr>vd_round = judged env cur settling s, vd_assessment = a, vd_probed = probes (sv_now env) a w1,
      vd_status = i, vd_applied = (if settling then None else rem)\<rparr>"
    and w: "w = (if settling then w2\<lparr>wd_pendingRepeat := 0\<rparr> else w3)"
    using assms by (auto simp: link_round_def judged_def snap a Let_def w1_def [symmetric] answer_def [symmetric] p h)
  show "st_dog (snd (judge_stage env cur settling s)) = w"
    using s3_fields by (auto simp: judge w remedy_stage_def h split: option.split)
  show "st_log (snd (judge_stage env cur settling s))
       = st_log s @ [Judged (judged env cur settling s)] @ (if vd_probed v then [Probed] else []) @ [Shown (vd_status v)] @ the_remedy v"
    using s3_fields by (auto simp: judge v the_remedy_def remedy_stage_def h split: option.split)
qed

section \<open>A whole round\<close>

text \<open>
  The three ways a round goes: it is given up before the snapshot with the modem shown as disconnected, it ends at
  the APN, or it reaches the link layers.
\<close>

lemma round_cases:
  obtains (given_up) cur s1 where
      "snd (checkAndPublishModemStatus env s) = give_up env cur s1" "st_log s1 = st_log s" "st_dog s1 = st_dog s"
      "st_diag s1 = st_diag s" "st_calls s1 = st_calls s"
  | (ended) out s1 where
      "snd (checkAndPublishModemStatus env s) = s1" "st_log s1 = st_log s @ [Reconciled out]" "st_dog s1 = st_dog s"
      "st_diag s1 = st_diag s"
  | (went_on) cur settling s1 apn where
      "checkAndPublishModemStatus env s = judge_stage env cur settling s1" "st_dog s1 = st_dog s"
      "st_log s1 = st_log s @ apn" "apn = [] \<and> \<not> settling \<or> (\<exists>out. apn = [Reconciled out] \<and> (settling \<longleftrightarrow> settles out))"
      "no_error (fst (on_recovery env (checkHealth (sv_rec env)) s))"
proof -
  obtain h s1 where h: "on_recovery env (checkHealth (sv_rec env)) s = (h, s1)" by fastforce
  have s1: "s1 = snd (on_recovery env (checkHealth (sv_rec env)) s)" using h by simp
  obtain cur bad where info: "GetModemInfo (sv_info env) = (cur, bad)" by fastforce
  show ?thesis
  proof (cases "no_error h \<and> \<not> bad")
    case False
    then have "snd (checkAndPublishModemStatus env s) = give_up env (if no_error h then cur else NewState) s1"
      by (cases bad) (auto simp: checkAndPublishModemStatus_def h info)
    then show ?thesis by (rule given_up) (simp_all add: s1)
  next
    case True
    define s2 where "s2 = s1\<lparr>st_sms := reconcileSMSPresence (sv_watch env) (stSIMPath cur) (st_sms s1)\<rparr>"
    obtain cur2 s3 where pin: "pin_stage env cur s2 = (cur2, s3)" by fastforce
    have s3: "s3 = snd (pin_stage env cur s2)" using pin by simp
    obtain r s4 where apn: "apn_stage env cur2 s3 = (r, s4)" by fastforce
    have s4: "s4 = snd (apn_stage env cur2 s3)" using apn by simp
    have base: "st_log s3 = st_log s" "st_dog s3 = st_dog s" "st_diag s3 = st_diag s"
      by (simp_all add: s3 s2_def) (simp_all add: s1)
    define out where "out = fst (reconcileAPN env (apn_request env cur2) s3)"
    define apn_log where "apn_log = (if apnSIMReady cur2 then [Reconciled out] else [])"
    have log4: "st_log s4 = st_log s @ apn_log" by (simp add: s4 apn_stage_state base apn_log_def out_def)
    have other4: "st_dog s4 = st_dog s" "st_diag s4 = st_diag s" by (simp_all add: s4 base)
    have eq: "checkAndPublishModemStatus env s = (case r of Inl e \<Rightarrow> (e, s4) | Inr (c, settling) \<Rightarrow> judge_stage env c settling s4)"
      using True by (simp add: checkAndPublishModemStatus_def h info s2_def [symmetric] pin apn Let_def)
    show ?thesis
    proof (cases r)
      case (Inl e)
      have "apnSIMReady cur2" using apn Inl by (auto simp: apn_stage_def split: if_splits)
      then show ?thesis using ended [of s4 out] by (simp add: eq Inl log4 other4 apn_log_def)
    next
      case (Inr x)
      obtain c settling where x: "x = (c, settling)" by fastforce
      have "settling \<longleftrightarrow> apnSIMReady cur2 \<and> settles out"
        using apn_stage_settles [of env cur2 s3 c settling] apn Inr x by (simp add: out_def)
      then show ?thesis
        using went_on [of c settling s4 apn_log] True h by (auto simp: eq Inr x log4 other4 apn_log_def)
    qed
  qed
qed

section \<open>Histories of rounds\<close>

definition rounds :: "round_env list \<Rightarrow> status \<Rightarrow> status" where
  "rounds envs s = fold (\<lambda>env. snd \<circ> checkAndPublishModemStatus env) envs s"

definition service_run :: "duration \<Rightarrow> duration \<Rightarrow> round_env list \<Rightarrow> status \<Rightarrow> status" where
  "service_run base mx envs s = rounds (map (\<lambda>env. env\<lparr>sv_base := base, sv_max := mx\<rparr>) envs) s"

lemma rounds_simps [simp]:
  "rounds [] s = s" "rounds (env # envs) s = rounds envs (snd (checkAndPublishModemStatus env s))"
  by (simp_all add: rounds_def)

definition judged_in :: "round_event list \<Rightarrow> round list" where
  "judged_in es = List.map_filter (\<lambda>e. case e of Judged rd \<Rightarrow> Some rd | _ \<Rightarrow> None) es"

definition remedies_in :: "round_event list \<Rightarrow> (Remedy \<times> remedy_action list) list" where
  "remedies_in es = List.map_filter (\<lambda>e. case e of Remedied r acts \<Rightarrow> Some (r, acts) | _ \<Rightarrow> None) es"

definition probes_in :: "round_event list \<Rightarrow> nat" where
  "probes_in es = length (filter (\<lambda>e. e = Probed) es)"

lemma in_append [simp]:
  "judged_in (es @ fs) = judged_in es @ judged_in fs" "remedies_in (es @ fs) = remedies_in es @ remedies_in fs"
  "probes_in (es @ fs) = probes_in es + probes_in fs"
  by (simp_all add: judged_in_def remedies_in_def probes_in_def List.map_filter_def)

lemma in_simps [simp]:
  "judged_in [] = []" "remedies_in [] = []" "probes_in [] = 0"
  "judged_in (e # es) = (case e of Judged rd \<Rightarrow> [rd] | _ \<Rightarrow> []) @ judged_in es"
  "remedies_in (e # es) = (case e of Remedied r acts \<Rightarrow> [(r, acts)] | _ \<Rightarrow> []) @ remedies_in es"
  "probes_in (e # es) = (if e = Probed then 1 else 0) + probes_in es"
  by (simp_all add: judged_in_def remedies_in_def probes_in_def List.map_filter_simps split: round_event.split)

definition applied_in :: "verdict list \<Rightarrow> (Remedy \<times> remedy_action list) list" where
  "applied_in vs = List.map_filter vd_applied vs"

lemma applied_simps [simp]:
  "applied_in [] = []" "applied_in (v # vs) = (case vd_applied v of None \<Rightarrow> [] | Some r \<Rightarrow> [r]) @ applied_in vs"
  by (simp_all add: applied_in_def List.map_filter_simps split: option.split)

lemma in_remedy [simp]:
  "judged_in (the_remedy v) = []" "probes_in (the_remedy v) = 0"
  "remedies_in (the_remedy v) = (case vd_applied v of None \<Rightarrow> [] | Some r \<Rightarrow> [r])"
  by (auto simp: the_remedy_def split: option.split)

text \<open>What a round adds is what the watchdog makes of the snapshot it was given, if it got that far.\<close>

definition follows :: "duration \<Rightarrow> duration \<Rightarrow> round_event list \<Rightarrow> Watchdog \<Rightarrow> Watchdog \<Rightarrow> bool" where
  "follows base mx es w w' \<longleftrightarrow>
     snd (watch base mx (judged_in es) w) = w'
     \<and> remedies_in es = applied_in (fst (watch base mx (judged_in es) w))
     \<and> probes_in es = length (filter vd_probed (fst (watch base mx (judged_in es) w)))"

lemma round_follows:
  obtains es where "st_log (snd (checkAndPublishModemStatus env s)) = st_log s @ es"
    and "follows (sv_base env) (sv_max env) es (st_dog s) (st_dog (snd (checkAndPublishModemStatus env s)))"
proof (cases rule: round_cases [of env s])
  case (given_up cur s1)
  then show ?thesis using that [of "[Shown ''disconnected'']"] by (simp add: follows_def)
next
  case (ended out s1)
  then show ?thesis using that [of "[Reconciled out]"] by (simp add: follows_def)
next
  case (went_on cur settling s1 apn)
  obtain v w where vw: "link_round (sv_base env) (sv_max env) (judged env cur settling s1) (st_dog s1) = (v, w)" by fastforce
  note j = judge_is_link_round [OF vw]
  have apn: "judged_in apn = []" "remedies_in apn = []" "probes_in apn = 0" using went_on(4) by auto
  show ?thesis
    by (rule that [of "apn @ [Judged (judged env cur settling s1)] @ (if vd_probed v then [Probed] else []) @ [Shown (vd_status v)] @ the_remedy v"])
      (use vw in \<open>simp_all add: went_on(1-3) j follows_def apn\<close>)
qed

lemma watch_append:
  "watch base mx (xs @ ys) w = (case watch base mx xs w of (vs, w1) \<Rightarrow> case watch base mx ys w1 of (us, w2) \<Rightarrow> (vs @ us, w2))"
  by (induction xs arbitrary: w) (simp_all split: prod.split)

lemma applied_append [simp]: "applied_in (vs @ us) = applied_in vs @ applied_in us"
  by (simp add: applied_in_def List.map_filter_def)

lemma follows_trans: "follows base mx es w w1 \<Longrightarrow> follows base mx fs w1 w2 \<Longrightarrow> follows base mx (es @ fs) w w2"
  by (auto simp: follows_def watch_append split: prod.splits)

text \<open>
  C2. The service as a whole refines the watchdog on which the guarantees about remedies are proved
  (\<open>Remedy\<close>): whatever the health checks, recoveries, SIM, APN and server do, in any history of status rounds the
  remedies that are applied, their order and the number of remote probes are those of \<open>watch\<close> on the snapshots of
  the rounds that got as far as the link layers. No other path to a remedy or a probe exists.
\<close>

theorem service_refines_watchdog:
  "\<exists>es. st_log (service_run base mx envs s) = st_log s @ es
      \<and> st_dog (service_run base mx envs s) = snd (watch base mx (judged_in es) (st_dog s))
      \<and> remedies_in es = applied_in (fst (watch base mx (judged_in es) (st_dog s)))
      \<and> probes_in es = length (filter vd_probed (fst (watch base mx (judged_in es) (st_dog s))))"
proof -
  have "\<exists>es. st_log (service_run base mx envs s) = st_log s @ es \<and> follows base mx es (st_dog s) (st_dog (service_run base mx envs s))"
  proof (induction envs arbitrary: s)
    case Nil
    show ?case by (intro exI [of _ "[]"]) (simp add: service_run_def follows_def)
  next
    case (Cons env envs)
    define t where "t = snd (checkAndPublishModemStatus (env\<lparr>sv_base := base, sv_max := mx\<rparr>) s)"
    obtain es where es: "st_log t = st_log s @ es" "follows base mx es (st_dog s) (st_dog t)"
      using round_follows [of "env\<lparr>sv_base := base, sv_max := mx\<rparr>" s] unfolding t_def by auto
    obtain fs where "st_log (service_run base mx envs t) = st_log t @ fs" "follows base mx fs (st_dog t) (st_dog (service_run base mx envs t))"
      using Cons.IH by blast
    moreover have "service_run base mx (env # envs) s = service_run base mx envs t" by (simp add: service_run_def t_def)
    ultimately show ?case using es follows_trans by (intro exI [of _ "es @ fs"]) auto
  qed
  then show ?thesis by (auto simp: follows_def)
qed

text \<open>The shape of what one round does.\<close>

definition well_ordered :: "round_event list \<Rightarrow> bool" where
  "well_ordered es \<longleftrightarrow>
     es = [Shown ''disconnected''] \<or> (\<exists>out. es = [Reconciled out])
     \<or> (\<exists>apn rd probe status remedy. es = apn @ [Judged rd] @ probe @ [Shown status] @ remedy
          \<and> (apn = [] \<or> (\<exists>out. apn = [Reconciled out] \<and> (settles out \<longrightarrow> remedy = [])))
          \<and> probe \<in> {[], [Probed]} \<and> (remedy = [] \<or> (\<exists>r acts. remedy = [Remedied r acts])))"

text \<open>
  C34. The order of a round. Every round either shows the modem as disconnected and nothing more, or ends at the
  APN, or goes through the APN, the snapshot, at most one probe, the publication and at most one remedy, in that
  order: the remedy, which may block for minutes, comes after the publication, and a round whose APN change failed
  or is settling applies none.
\<close>

theorem remedy_comes_last:
  "\<exists>es. st_log (snd (checkAndPublishModemStatus env s)) = st_log s @ es \<and> well_ordered es"
proof (cases rule: round_cases [of env s])
  case (given_up cur s1)
  then show ?thesis by (auto simp: well_ordered_def)
next
  case (ended out s1)
  then show ?thesis by (auto simp: well_ordered_def)
next
  case (went_on cur settling s1 apn)
  obtain v w where vw: "link_round (sv_base env) (sv_max env) (judged env cur settling s1) (st_dog s1) = (v, w)" by fastforce
  note j = judge_is_link_round [OF vw]
  have settled: "settling \<Longrightarrow> the_remedy v = []"
    using vw by (auto simp: link_round_def judged_def the_remedy_def Let_def split: prod.splits)
  have shape: "the_remedy v = [] \<or> (\<exists>r acts. the_remedy v = [Remedied r acts])"
    by (auto simp: the_remedy_def split: option.split)
  have "well_ordered (apn @ [Judged (judged env cur settling s1)] @ (if vd_probed v then [Probed] else []) @ [Shown (vd_status v)] @ the_remedy v)"
    unfolding well_ordered_def using settled shape went_on(4)
    by (intro disjI2 exI [of _ apn] exI [of _ "judged env cur settling s1"] exI [of _ "if vd_probed v then [Probed] else []"]
        exI [of _ "vd_status v"] exI [of _ "the_remedy v"]) auto
  then show ?thesis by (auto simp: went_on(1-3) j)
qed

section \<open>What an outage of the modem leaves behind\<close>

fun outage :: "round_env list \<Rightarrow> status \<Rightarrow> bool" where
  "outage [] s \<longleftrightarrow> True"
| "outage (env # envs) s \<longleftrightarrow>
     \<not> no_error (fst (on_recovery env (checkHealth (sv_rec env)) s)) \<and> outage envs (snd (checkAndPublishModemStatus env s))"

lemma failed_health_leaves_link:
  assumes "\<not> no_error (fst (on_recovery env (checkHealth (sv_rec env)) s))"
  shows "st_dog (snd (checkAndPublishModemStatus env s)) = st_dog s"
    and "st_diag (snd (checkAndPublishModemStatus env s)) = st_diag s"
    and "st_calls (snd (checkAndPublishModemStatus env s)) = st_calls s"
    and "st_counter (snd (checkAndPublishModemStatus env s)) = st_counter s"
    and "st_sim (snd (checkAndPublishModemStatus env s)) = st_sim s"
proof -
  obtain h s1 where h: "on_recovery env (checkHealth (sv_rec env)) s = (h, s1)" by fastforce
  have s1: "s1 = snd (on_recovery env (checkHealth (sv_rec env)) s)" using h by simp
  have e: "snd (checkAndPublishModemStatus env s) = give_up env NewState s1"
    using assms by (simp add: checkAndPublishModemStatus_def h)
  show "st_dog (snd (checkAndPublishModemStatus env s)) = st_dog s"
    "st_diag (snd (checkAndPublishModemStatus env s)) = st_diag s"
    "st_calls (snd (checkAndPublishModemStatus env s)) = st_calls s"
    "st_counter (snd (checkAndPublishModemStatus env s)) = st_counter s"
    "st_sim (snd (checkAndPublishModemStatus env s)) = st_sim s"
    by (simp_all add: e) (simp_all add: s1)
qed

lemma outage_leaves_link: "outage envs s \<Longrightarrow> st_dog (rounds envs s) = st_dog s \<and> st_diag (rounds envs s) = st_diag s"
  by (induction envs arbitrary: s) (simp_all add: failed_health_leaves_link)

text \<open>
  C15. A success of the probe outlives the modem. However long the modem was unreachable or under recovery, the
  health checks that failed leave the last probe result, its schedule and the published diagnostics as they were
  (\<open>reachability\<close> stays \<open>ok\<close>). The first round afterwards whose link layers look as they did before publishes
  \<open>connected\<close> on the strength of the old probe, and sends none until the old schedule says so. The comment
  at the invalidation says that a prior success cannot remain valid across a known local fault.
\<close>

theorem stale_success_outlives_the_modem:
  assumes down: "outage envs s" and reachable: "pr_Reachable (wd_lastProbe (st_dog s))"
    and adds: "st_log (snd (checkAndPublishModemStatus env (rounds envs s))) = st_log (rounds envs s) @ es"
    and judged: "judged_in es = [rd]"
    and same: "fst (Assess (rd_snap rd) (wd_link (st_dog s))) = wd_lastAssessment (st_dog s)"
    and healthy: "as_Healthy (wd_lastAssessment (st_dog s))" and early: "\<not> time_After (sv_now env) (wd_nextProbeAt (st_dog s))"
  shows "Shown ''connected'' \<in> set es \<and> Probed \<notin> set es \<and> st_diag (rounds envs s) = st_diag s"
proof -
  define t where "t = rounds envs s"
  have dog: "st_dog t = st_dog s" and diag: "st_diag t = st_diag s" using outage_leaves_link [OF down] by (simp_all add: t_def)
  have log: "st_log (snd (checkAndPublishModemStatus env t)) = st_log t @ es" using adds by (simp add: t_def)
  have "Shown ''connected'' \<in> set es \<and> Probed \<notin> set es"
  proof (cases rule: round_cases [of env t])
    case (given_up cur s1)
    then show ?thesis using log judged by auto
  next
    case (ended out s1)
    then show ?thesis using log judged by auto
  next
    case (went_on cur settling s1 apn)
    obtain v w where vw: "link_round (sv_base env) (sv_max env) (judged env cur settling s1) (st_dog s1) = (v, w)" by fastforce
    have es: "es = apn @ [Judged (judged env cur settling s1)] @ (if vd_probed v then [Probed] else []) @ [Shown (vd_status v)] @ the_remedy v"
      using log judge_is_link_round(2) [OF vw] went_on by simp
    have "judged_in apn = []" and apn: "Probed \<notin> set apn" using went_on(4) by auto
    then have rd: "rd = judged env cur settling s1" using judged by (simp add: es)
    then have a: "fst (Assess (rd_snap rd) (wd_link (st_dog s1))) = wd_lastAssessment (st_dog s1)"
      using same went_on dog by simp
    have "\<not> vd_probed v \<and> vd_status v = ''connected''"
      using vw a reachable healthy early
      unfolding rd [symmetric]
      by (auto simp: link_round_def probe_round_def probes_def Let_def went_on(2) dog rd judged_def split: prod.splits)
    then show ?thesis using apn by (auto simp: es the_remedy_def split: option.split)
  qed
  then show ?thesis using diag by (simp add: t_def)
qed

section \<open>Witness\<close>

text \<open>A modem of which only the power state can be read, and a service that has seen a probe succeed.\<close>

definition terse_prop :: prop_reader where
  "terse_prop p i n = (if n = ''PowerState'' then Some (VUInt32 3) else None)"

definition terse_modem :: modem_env where
  "terse_modem = \<lparr>me_modem = Some ''/m/3'', me_prop = terse_prop, me_at = (\<lambda>_. Inl (AtRedacted '''')), me_addrs = None\<rparr>"

definition up_round :: round_env where
  "up_round = \<lparr>sv_rec = healthy_modem, sv_info = terse_modem, sv_watch = no_modem, sv_pin = '''', sv_sim = (\<lambda>_. None),
     sv_find = Some ''/m/3'', sv_busy = False, sv_usable = True, sv_apn = lab_env (\<lambda>_. True), sv_locked = False,
     sv_apn_now = (\<lambda>_. 0), sv_desired = empty_Config, sv_stopped = False, sv_enabled = True, sv_fresh = terse_modem,
     sv_link = sample_link_env terse_prop None, sv_iface = ''wwan0'', sv_fails = (\<lambda>_. False), sv_saved = 0,
     sv_prober = \<lparr>pb_Interface = ''wwan0'', pb_Targets = [], pb_DNSTimeout = 1, pb_DialTimeout = 1,
       pb_VerificationName = '''', pb_VerificationValue = ''''\<rparr>,
     sv_net = \<lparr>pe_done = (\<lambda>_. False), pe_conn = (\<lambda>_ _. \<lparr>cn_dial = Some ''down'', cn_rand = None, cn_deadline = None, cn_write = None, cn_packets = [], cn_end = ''''\<rparr>), pe_tcp = (\<lambda>_ _. None)\<rparr>, sv_dns = [],
     sv_base = 60, sv_max = 600, sv_now = 5, sv_later = 6, sv_server = all_stored, sv_published = 0, sv_on = True,
     sv_remedy = \<lparr>ra_busy = False, ra_enabled = True, ra_modem = Some ''/m/3''\<rparr>\<rparr>"

definition down_round :: round_env where
  "down_round = up_round\<lparr>sv_rec := healthy_modem\<lparr>rv_ok := (\<lambda>_ _. False), rv_busy := (\<lambda>_. True)\<rparr>\<rparr>"

definition terse_state :: State where
  "terse_state = (fst (GetModemInfo terse_modem))\<lparr>stPinAction := ''unconfigured''\<rparr>"

definition quiet_status :: status where
  "quiet_status = \<lparr>st_gps = super_init, st_sms = watch_init sim_modem, st_sim = Sim_New, st_apn = Apn_New, st_calls = [],
     st_dog = (Watchdog_New 60)\<lparr>wd_nextProbeAt := 10, wd_lastProbe := \<lparr>pr_Reachable = True, pr_Detail = ''ok''\<rparr>,
       wd_lastAssessment := fst (Assess (fst (take_snapshot (sample_link_env terse_prop None) (Some terse_state) ''wwan0'' False)) Assessor_New)\<rparr>,
     st_counter = Counter_New ''/u'' 0 Absent, st_files = \<lparr>uf_target = Absent, uf_temp = None\<rparr>, st_usage = None,
     st_pub = publisher_New \<lparr>br_hash = (\<lambda>_. Map.empty), br_writes = []\<rparr>,
     st_diag = \<lparr>dg_reachability = ''ok'', dg_linkLayer = ''ok''\<rparr>, st_log = []\<rparr>"

definition after_outage :: "round_event list" where
  "after_outage = drop (length (st_log (rounds [down_round] quiet_status)))
     (st_log (snd (checkAndPublishModemStatus up_round (rounds [down_round] quiet_status))))"

lemma quiet_facts:
  "outage [down_round] quiet_status \<and> pr_Reachable (wd_lastProbe (st_dog quiet_status))
   \<and> as_Healthy (wd_lastAssessment (st_dog quiet_status)) \<and> \<not> time_After (sv_now up_round) (wd_nextProbeAt (st_dog quiet_status))"
  by code_simp

lemma terse_facts: "snd (GetModemInfo terse_modem) = False \<and> \<not> apnSIMReady terse_state"
  by code_simp

lemma up_round_goes_on:
  obtains s1 where "checkAndPublishModemStatus up_round s = judge_stage up_round terse_state False s1"
    "st_dog s1 = st_dog s" "st_log s1 = st_log s"
proof -
  obtain h s0 where h: "on_recovery up_round (checkHealth (sv_rec up_round)) s = (h, s0)" by fastforce
  have s0: "s0 = snd (on_recovery up_round (checkHealth (sv_rec up_round)) s)" using h by simp
  have "h = ModemHealthy"
    using h by (auto simp: on_recovery_def on_modem_def up_round_def healthy_modem_def checkHealth_def ask_def perform_def
        probeHealth_def get_health_def on_health_def hasMissingSIM_def notify_def State_Monad.update_def
        State_Monad.get_def State_Monad.set_def Let_def split: if_splits prod.splits)
  moreover obtain cur where cur: "GetModemInfo (sv_info up_round) = (cur, False)" "cur = fst (GetModemInfo terse_modem)"
    using terse_facts by (cases "GetModemInfo terse_modem") (simp add: up_round_def)
  moreover define s2 where "s2 = s0\<lparr>st_sms := reconcileSMSPresence (sv_watch up_round) (stSIMPath cur) (st_sms s0)\<rparr>"
  moreover obtain s3 where pin: "pin_stage up_round cur s2 = (terse_state, s3)"
    by (simp add: pin_stage_def Sim_Reconcile_def up_round_def terse_state_def cur(2) Let_def split: prod.split)
  moreover have "apn_stage up_round terse_state s3 = (Inr (terse_state, False), s3)"
    using terse_facts by (simp add: apn_stage_def)
  ultimately have "checkAndPublishModemStatus up_round s = judge_stage up_round terse_state False s3"
    by (simp add: checkAndPublishModemStatus_def h no_error_def Let_def)
  moreover have "s3 = snd (pin_stage up_round cur s2)" using pin by simp
  then have "st_dog s3 = st_dog s" "st_log s3 = st_log s" by (simp_all add: s2_def) (simp_all add: s0)
  ultimately show ?thesis by (rule that)
qed

lemma stale_success_outlives_the_modem_witness:
  "Shown ''connected'' \<in> set after_outage \<and> Probed \<notin> set after_outage \<and> st_diag (rounds [down_round] quiet_status) = st_diag quiet_status"
proof -
  define t where "t = rounds [down_round] quiet_status"
  have dog: "st_dog t = st_dog quiet_status" using outage_leaves_link quiet_facts by (simp only: t_def)
  obtain s1 where s1: "checkAndPublishModemStatus up_round t = judge_stage up_round terse_state False s1"
    "st_dog s1 = st_dog t" "st_log s1 = st_log t" by (rule up_round_goes_on)
  obtain v w where vw: "link_round (sv_base up_round) (sv_max up_round) (judged up_round terse_state False s1) (st_dog s1) = (v, w)"
    by fastforce
  have es: "after_outage = [Judged (judged up_round terse_state False s1)] @ (if vd_probed v then [Probed] else []) @ [Shown (vd_status v)] @ the_remedy v"
    unfolding after_outage_def t_def [symmetric] using judge_is_link_round(2) [OF vw] s1 by simp
  have a: "judged_in after_outage = [judged up_round terse_state False s1]" by (simp add: es)
  have b: "st_log (snd (checkAndPublishModemStatus up_round (rounds [down_round] quiet_status)))
      = st_log (rounds [down_round] quiet_status) @ after_outage"
    unfolding t_def [symmetric] es using judge_is_link_round(2) [OF vw] s1 by simp
  have c: "fst (Assess (rd_snap (judged up_round terse_state False s1)) (wd_link (st_dog quiet_status)))
      = wd_lastAssessment (st_dog quiet_status)"
    by (simp add: judged_def s1 dog quiet_status_def up_round_def Watchdog_New_def)
  show ?thesis
    using stale_success_outlives_the_modem [OF _ _ b a c] quiet_facts by blast
qed

end
