(* ===== verification/Settings.thy ===== *)
theory Settings
  imports Sms_Service Dns_Probe Apn_Data
begin

text \<open>
  From \<open>internal/service/service.go\<close> (\<open>New\<close>, the watchers that \<open>Run\<close> registers) and \<open>internal/config/config.go\<close>:
  the settings of the service, how a change of the \<open>settings\<close> hash reaches them, and the targets of the probe
  that the command line names. When the watcher calls a handler is up to the library.
\<close>

section \<open>The command line\<close>

definition ConnectivityTargets :: "string \<Rightarrow> string list" where
  "ConnectivityTargets raw = filter (\<lambda>t. t \<noteq> '''') (map TrimSpace (split_char (CHR '','') raw))"

definition default_targets_flag :: string where
  "default_targets_flag = ''8.8.8.8:53,1.1.1.1:53,9.9.9.9:53,208.67.222.222:53''"

section \<open>The settings\<close>

record settings =
  se_gpsEnabled :: bool
  se_cellLocationEnabled :: bool
  se_simPin :: string
  se_apn :: Config
  se_forwardDestination :: string
  se_forwardActivatedAt :: int

definition settings_New :: settings where
  "settings_New = \<lparr>se_gpsEnabled = True, se_cellLocationEnabled = False, se_simPin = '''', se_apn = empty_Config,
     se_forwardDestination = ''off'', se_forwardActivatedAt = 0\<rparr>"

section \<open>The handlers\<close>

text \<open>The numbering plan, the statements of the two transactions, and the clock of a delivery.\<close>

record setting_env =
  sn_number :: "string \<Rightarrow> number_type option"
  sn_configure :: "nat \<Rightarrow> bool"
  sn_list :: "nat \<Rightarrow> bool"
  sn_redis :: redis_env
  sn_now :: gotime

definition on_forward_to :: "setting_env \<Rightarrow> string \<Rightarrow> settings \<times> sms_service \<Rightarrow> bool \<times> settings \<times> sms_service" where
  "on_forward_to env value ss =
     (case ss of (s, v) \<Rightarrow>
        let value = (if \<not> ValidForwardDestination (sn_number env) value then ''off'' else value) in
        case ConfigureForward (sn_configure env) value (sn_now env) (sv_db v) of
          (None, db) \<Rightarrow> (False, s\<lparr>se_forwardDestination := ''off''\<rparr>, v\<lparr>sv_db := db\<rparr>)
        | (Some activatedAt, db) \<Rightarrow>
            let s1 = s\<lparr>se_forwardActivatedAt := activatedAt, se_forwardDestination := value\<rparr>;
                (ok, v1) = publishInboxLocked (sn_redis env) (sn_list env) (sn_now env) value (v\<lparr>sv_db := db\<rparr>)
            in (ok, s1, v1))"

text \<open>What a handler does with a new value of a field; a field without a handler is ignored.\<close>

definition on_setting :: "setting_env \<Rightarrow> string \<times> string \<Rightarrow> settings \<times> sms_service \<Rightarrow> bool \<times> settings \<times> sms_service" where
  "on_setting env fv ss =
     (case (fv, ss) of ((field, value), (s, v)) \<Rightarrow>
        if field = ''modem.gps'' then (True, s\<lparr>se_gpsEnabled := (value \<noteq> ''false'')\<rparr>, v)
        else if field = ''modem.cell-location'' then (True, s\<lparr>se_cellLocationEnabled := (value = ''true'')\<rparr>, v)
        else if field = ''cellular.sim-pin'' then (True, s\<lparr>se_simPin := value\<rparr>, v)
        else if field = ''cellular.apn'' then (True, s\<lparr>se_apn := (se_apn s)\<lparr>cf_APN := value\<rparr>\<rparr>, v)
        else if field = ''cellular.username'' then (True, s\<lparr>se_apn := (se_apn s)\<lparr>cf_Username := value\<rparr>\<rparr>, v)
        else if field = ''cellular.password'' then (True, s\<lparr>se_apn := (se_apn s)\<lparr>cf_Password := value\<rparr>\<rparr>, v)
        else if field = ''cellular.auth'' then (True, s\<lparr>se_apn := (se_apn s)\<lparr>cf_Auth := value\<rparr>\<rparr>, v)
        else if field = ''sms.forward-to'' then on_forward_to env value ss
        else (True, s, v))"

definition deliver_settings :: "(setting_env \<times> string \<times> string) list \<Rightarrow> settings \<times> sms_service \<Rightarrow> settings \<times> sms_service" where
  "deliver_settings ds ss = fold (\<lambda>(env, fv). snd \<circ> on_setting env fv) ds ss"

section \<open>Lemmas\<close>

lemma deliver_simps [simp]:
  "deliver_settings [] ss = ss"
  "deliver_settings (ds @ [(env, fv)]) ss = snd (on_setting env fv (deliver_settings ds ss))"
  by (simp_all add: deliver_settings_def)

text \<open>The value of a field that was delivered last, or what the service starts with.\<close>

definition last_value :: "(setting_env \<times> string \<times> string) list \<Rightarrow> string \<Rightarrow> string \<Rightarrow> string" where
  "last_value ds field start =
     fold (\<lambda>(env, f, value) v. if f = field then value else v) ds start"

lemma last_value_simps [simp]:
  "last_value [] field d = d"
  "last_value (ds @ [(env, f, value)]) field d = (if f = field then value else last_value ds field d)"
  by (simp_all add: last_value_def)

lemma forward_keeps:
  "se_gpsEnabled (fst (snd (on_forward_to env value ss))) = se_gpsEnabled (fst ss)"
  "se_cellLocationEnabled (fst (snd (on_forward_to env value ss))) = se_cellLocationEnabled (fst ss)"
  "se_simPin (fst (snd (on_forward_to env value ss))) = se_simPin (fst ss)"
  "se_apn (fst (snd (on_forward_to env value ss))) = se_apn (fst ss)"
  by (cases ss; simp add: on_forward_to_def Let_def split: option.split prod.split)+

text \<open>
   The settings in force are those delivered last: after any deliveries, in any order and with any failures
  of the message store in between, the GPS is on unless the last value was \<open>false\<close>, the cell location off unless
  it was \<open>true\<close>, and the PIN and the four APN settings are the last values, empty by default.
\<close>

theorem last_delivered_setting_wins:
  "se_gpsEnabled (fst (deliver_settings ds (settings_New, v))) = (last_value ds ''modem.gps'' ''true'' \<noteq> ''false'')
   \<and> se_cellLocationEnabled (fst (deliver_settings ds (settings_New, v))) = (last_value ds ''modem.cell-location'' ''false'' = ''true'')
   \<and> se_simPin (fst (deliver_settings ds (settings_New, v))) = last_value ds ''cellular.sim-pin'' ''''
   \<and> se_apn (fst (deliver_settings ds (settings_New, v))) =
       \<lparr>cf_APN = last_value ds ''cellular.apn'' '''', cf_Username = last_value ds ''cellular.username'' '''',
        cf_Password = last_value ds ''cellular.password'' '''', cf_Auth = last_value ds ''cellular.auth'' ''''\<rparr>"
proof (induction ds rule: rev_induct)
  case Nil
  show ?case by (simp add: settings_New_def empty_Config_def)
next
  case (snoc d ds)
  obtain env f x where d: "d = (env, f, x)" by (cases d)
  obtain s w where sw: "deliver_settings ds (settings_New, v) = (s, w)" by fastforce
  show ?case
    using snoc forward_keeps [of env x "(s, w)"]
    by (simp add: d sw on_setting_def)
qed

section \<open>Forwarding\<close>

lemma ConfigureForward_config:
  assumes "ConfigureForward ok destination now db = (r, db')"
  shows "r = None \<and> db' = db
    \<or> (\<exists>at. r = Some at \<and> db_config db' = (destination, at)
         \<and> (\<forall>j \<in> set (db_jobs db'). fj_state j = JQueued \<longrightarrow> fj_destination j = destination))"
  using assms by (cases "db_config db")
    (auto simp: ConfigureForward_def Let_def set_state_def split: if_splits)

lemma redis_db [simp]: "sv_db (snd (redis env c s)) = sv_db s"
  by (simp add: redis_def Let_def)

lemma List_inbox_jobs:
  "db_config (snd (List_inbox ok now db)) = db_config db"
  "set (db_jobs (snd (List_inbox ok now db))) \<subseteq> set (db_jobs db)"
  by (auto simp: List_inbox_def drop_orphans_def Let_def)

lemma publish_inbox_jobs:
  "db_config (sv_db (snd (publishInboxLocked env ok now forward s))) = db_config (sv_db s)"
  "set (db_jobs (sv_db (snd (publishInboxLocked env ok now forward s)))) \<subseteq> set (db_jobs (sv_db s))"
  using List_inbox_jobs [of ok now "sv_db s"]
  by (auto simp: publishInboxLocked_def PublishSMSInbox_def PublishSMSState_def redis_def Let_def
      split: prod.splits option.splits if_splits)

text \<open>What forwarding relies on: a valid destination that is the one committed, with its activation time.\<close>

definition forward_settled :: "(string \<Rightarrow> number_type option) \<Rightarrow> settings \<times> sms_service \<Rightarrow> bool" where
  "forward_settled numbers ss \<longleftrightarrow>
     ValidForwardDestination numbers (se_forwardDestination (fst ss))
     \<and> (se_forwardDestination (fst ss) = ''off''
        \<or> db_config (sv_db (snd ss)) = (se_forwardDestination (fst ss), se_forwardActivatedAt (fst ss))
          \<and> (\<forall>j \<in> set (db_jobs (sv_db (snd ss))). fj_state j = JQueued \<longrightarrow> fj_destination j = se_forwardDestination (fst ss)))"

lemma on_forward_settled:
  assumes "forward_settled (sn_number env) ss"
  shows "forward_settled (sn_number env) (snd (on_forward_to env value ss))"
proof -
  obtain s v where ss: "ss = (s, v)" by fastforce
  define dest where "dest = (if \<not> ValidForwardDestination (sn_number env) value then ''off'' else value)"
  have valid: "ValidForwardDestination (sn_number env) dest" "ValidForwardDestination (sn_number env) ''off''"
    by (auto simp: dest_def ValidForwardDestination_def)
  obtain r db where c: "ConfigureForward (sn_configure env) dest (sn_now env) (sv_db v) = (r, db)" by fastforce
  show ?thesis
  proof (cases r)
    case None
    then show ?thesis using c valid by (simp add: on_forward_to_def ss dest_def [symmetric] Let_def forward_settled_def)
  next
    case (Some at)
    then have cfg: "db_config db = (dest, at)" "\<forall>j \<in> set (db_jobs db). fj_state j = JQueued \<longrightarrow> fj_destination j = dest"
      using ConfigureForward_config [OF c] by auto
    obtain ok v1 where p: "publishInboxLocked (sn_redis env) (sn_list env) (sn_now env) dest (v\<lparr>sv_db := db\<rparr>) = (ok, v1)" by fastforce
    have "db_config (sv_db v1) = (dest, at)" "set (db_jobs (sv_db v1)) \<subseteq> set (db_jobs db)"
      using publish_inbox_jobs [of "sn_redis env" "sn_list env" "sn_now env" dest "v\<lparr>sv_db := db\<rparr>"] p cfg by simp_all
    then show ?thesis using Some c p valid cfg
      by (auto simp: on_forward_to_def ss dest_def [symmetric] Let_def forward_settled_def)
  qed
qed

lemma on_setting_settled:
  assumes "forward_settled (sn_number env) ss"
  shows "forward_settled (sn_number env) (snd (on_setting env fv ss))"
proof (cases "fst fv = ''sms.forward-to''")
  case True
  then show ?thesis using on_forward_settled [OF assms, of "snd fv"]
    by (cases fv; cases ss) (simp add: on_setting_def)
next
  case False
  then have "se_forwardDestination (fst (snd (on_setting env fv ss))) = se_forwardDestination (fst ss)"
    "se_forwardActivatedAt (fst (snd (on_setting env fv ss))) = se_forwardActivatedAt (fst ss)"
    "snd (snd (on_setting env fv ss)) = snd ss"
    by (cases fv; cases ss; simp add: on_setting_def)+
  then show ?thesis using assms by (simp add: forward_settled_def)
qed

text \<open>
  C37. What is forwarded to is what was committed: after any deliveries of settings, whichever statements of the
  store and calls to the server fail, the destination in force is valid; it is \<open>off\<close>, or the store holds it with
  the activation time in force, and then every queued job is for that destination.
\<close>

theorem forwarding_follows_store:
  assumes "\<And>env f value. (env, f, value) \<in> set ds \<Longrightarrow> sn_number env = numbers"
  shows "forward_settled numbers (deliver_settings ds (settings_New, v))"
  using assms
proof (induction ds rule: rev_induct)
  case Nil
  show ?case by (simp add: forward_settled_def settings_New_def ValidForwardDestination_def)
next
  case (snoc d ds)
  obtain env f x where d: "d = (env, f, x)" by (cases d)
  have "sn_number env = numbers" using snoc.prems [of env f x] by (simp add: d)
  moreover have "forward_settled numbers (deliver_settings ds (settings_New, v))"
    by (rule snoc.IH) (rule snoc.prems, auto)
  ultimately show ?case using on_setting_settled [of env] by (simp add: d)
qed

section \<open>The targets\<close>

lemma split_join_plain:
  "ts \<noteq> [] \<Longrightarrow> \<forall>t \<in> set ts. d \<notin> set t \<Longrightarrow> split_char d (join_with [d] ts) = ts"
proof (induction ts)
  case (Cons t ts)
  then show ?case
    by (cases ts) (simp_all add: join_with_def split_char_single split_char_append)
qed simp

text \<open>A target is plain if it holds no comma and neither starts nor ends with space.\<close>

definition plain_target :: "string \<Rightarrow> bool" where
  "plain_target t \<longleftrightarrow> t \<noteq> '''' \<and> CHR '','' \<notin> set t \<and> TrimSpace t = t"

text \<open>
   The targets of the probe read back: a list of plain targets joined by commas is what
  \<open>ConnectivityTargets\<close> returns, and the flag's default is the list that \<open>NewProber\<close> falls back to.
\<close>

theorem targets_read_back:
  assumes "\<forall>t \<in> set ts. plain_target t"
  shows "ConnectivityTargets (join_with '','' ts) = ts \<and> ConnectivityTargets default_targets_flag = DefaultConnectivityTargets"
proof
  show "ConnectivityTargets (join_with '','' ts) = ts"
  proof (cases "ts = []")
    case True
    then show ?thesis unfolding True by code_simp
  next
    case False
    then have "split_char (CHR '','') (join_with '','' ts) = ts"
      using assms by (intro split_join_plain) (auto simp: plain_target_def)
    moreover have "map TrimSpace ts = ts" using assms by (simp add: map_idI plain_target_def)
    moreover have "filter (\<lambda>t. t \<noteq> '''') ts = ts" using assms by (simp add: filter_id_conv plain_target_def)
    ultimately show ?thesis by (simp add: ConnectivityTargets_def)
  qed
  show "ConnectivityTargets default_targets_flag = DefaultConnectivityTargets" by code_simp
qed

section \<open>Witnesses\<close>

definition sample_settings :: setting_env where
  "sample_settings = \<lparr>sn_number = (\<lambda>_. Some MOBILE), sn_configure = (\<lambda>_. True), sn_list = (\<lambda>_. True),
     sn_redis = all_ok, sn_now = 0\<rparr>"

lemma forwarding_follows_store_witness:
  "forward_settled (\<lambda>_. Some MOBILE) (deliver_settings
     [(sample_settings, ''sms.forward-to'', ''+491701234567''), (sample_settings, ''modem.gps'', ''false'')] (settings_New, svc_init))"
  by (rule forwarding_follows_store) (auto simp: sample_settings_def)

lemma targets_read_back_witness:
  "ConnectivityTargets ''10.0.0.1:53,dns.fleet:853'' = [''10.0.0.1:53'', ''dns.fleet:853'']"
proof -
  have plain: "\<forall>t \<in> set [''10.0.0.1:53'', ''dns.fleet:853'']. plain_target t" by code_simp
  have "join_with '','' [''10.0.0.1:53'', ''dns.fleet:853''] = ''10.0.0.1:53,dns.fleet:853''" by code_simp
  then show ?thesis using targets_read_back [OF plain] by simp
qed

end
