(* ===== verification/Monitor_Loop.thy ===== *)
theory Monitor_Loop
  imports Status_Round Modem_Enable Modem_Target Sms_Service Sgs_Refresh Cell
begin

text \<open>
  From \<open>internal/service/service.go\<close>: the goroutine that owns the modem (\<open>monitorStatus\<close>), from the start of the
  service (\<open>Run\<close>) on. Each event of its \<open>select\<close> is one step on the joint state of the components: the status
  round, the refresh of the SMS registration, the enabling and disabling of the modem, the cell location and the
  tick of the GPS. Commands arrive between the steps; what they can do within one is in \<open>Modem_Target\<close>.
\<close>

section \<open>State\<close>

text \<open>
  \<open>lo_applied\<close> is \<open>appliedModemEnabled\<close>, \<open>lo_inhibitor\<close> the field that holds off suspend, \<open>lo_log\<close> what was done to
  the power of the modem. The time of the last clock publication, which only spaces these, is left out.
\<close>

datatype loop_note = PoweredOff bool | Flushed bool | Released | Ensured ensure_result

record loop =
  lo_status :: status
  lo_refresh :: sgs_log
  lo_cell :: cell_query
  lo_inbox :: sms_service
  lo_applied :: bool
  lo_inhibitor :: bool
  lo_log :: "loop_note list"

datatype loop_event = RefreshRequest | StateChange | ModemSeen | Ticker | CellTimer | GpsTimer

text \<open>What an event meets; \<open>lv_enabled\<close> is \<open>modemEnabled\<close> as the step reads it.\<close>

record loop_env =
  lv_enabled :: bool
  lv_round :: round_env
  lv_ensure :: rec_env
  lv_refresh :: sgs_env
  lv_located :: bool
  lv_off :: bool
  lv_flush :: "nat \<Rightarrow> bool"
  lv_release :: "bool \<times> bool"
  lv_inhibit :: "bool \<times> bool"
  lv_now :: gotime
  lv_redis :: redis_env
  lv_list :: "nat \<Rightarrow> bool"
  lv_forward :: string
  lv_cell_on :: bool
  lv_cell :: cell_env
  lv_tick :: tick_env

definition note_loop :: "loop_note list \<Rightarrow> loop \<Rightarrow> loop" where
  "note_loop es s = s\<lparr>lo_log := lo_log s @ es\<rparr>"

definition status_round :: "loop_env \<Rightarrow> loop \<Rightarrow> loop" where
  "status_round env s = s\<lparr>lo_status := snd (checkAndPublishModemStatus (lv_round env) (lo_status s))\<rparr>"

section \<open>Enabling and disabling\<close>

definition off_fields :: gps_fields where
  "off_fields = [(''state'', SText ''off''), (''fix'', SText ''none''), (''active'', SBool False),
     (''connected'', SBool False), (''snr'', SFloat f_zero), (''hdop'', SFloat f_zero), (''vdop'', SFloat f_zero),
     (''pdop'', SFloat f_zero), (''eph'', SFloat f_zero), (''satellites-used'', SCount 0), (''satellites-visible'', SCount 0)]"

definition leave_gps :: "bool \<Rightarrow> gotime \<Rightarrow> gps_super \<Rightarrow> gps_super" where
  "leave_gps ok now g0 =
     (let g = close_gps g0
      in g\<lparr>gu_server := snd (snd (PublishLocationState ok now off_fields False (gu_server g)))\<rparr>)"

definition disable_modem :: "loop_env \<Rightarrow> loop \<Rightarrow> loop" where
  "disable_modem env s =
     (let st = lo_status s;
          st1 = st\<lparr>st_sms := reconcileSMSPresence (sv_watch (lv_round env)) '''' (st_sms st)\<rparr>;
          st2 = st1\<lparr>st_gps := (leave_gps (lv_located env) (lv_now env) (st_gps st1))\<lparr>gu_clock := zero_Location\<rparr>,
                    st_pub := publish_off (sv_server (lv_round env)) (lv_now env) (st_pub st1)\<rparr>;
          (c, f, err) = Usage_Flush (lv_flush env) (lv_now env) (st_counter st2) (st_files st2)
      in note_loop [PoweredOff (lv_off env), Flushed (\<not> err), Released]
           (s\<lparr>lo_status := st2\<lparr>st_counter := c, st_files := f\<rparr>,
              lo_inhibitor := snd (RemoveModemInhibitor (fst (lv_release env)) (snd (lv_release env)) (lo_inhibitor s))\<rparr>))"

definition ensured :: "ensure_result \<Rightarrow> bool" where
  "ensured r \<longleftrightarrow> r = ModemReady \<or> r = NoSIMLeftOn"

definition ensure_modem :: "loop_env \<Rightarrow> loop \<Rightarrow> bool \<times> loop" where
  "ensure_modem env s =
     (case on_recovery (lv_round env) (ensureModemEnabled (lv_ensure env)) (lo_status s) of
        (r, st) \<Rightarrow> (ensured r, note_loop [Ensured r] (s\<lparr>lo_status := st\<rparr>)))"

text \<open>\<open>reconcileModemTarget\<close>; the value says whether a round is to follow.\<close>

definition reconcile_target :: "loop_env \<Rightarrow> loop \<Rightarrow> bool \<times> loop" where
  "reconcile_target env s =
     (if \<not> lv_enabled env then (False, disable_modem env (s\<lparr>lo_applied := False\<rparr>))
      else if lo_applied s then (False, s)
      else case ensure_modem env s of
        (ok, s1) \<Rightarrow> (ok, if ok then s1\<lparr>lo_applied := True\<rparr> else s1))"

section \<open>The loop\<close>

text \<open>
  The refresh runs on the parts it shares with the round; what a recovery within it does to the others follows it.
\<close>

definition refresh_registration :: "loop_env \<Rightarrow> loop \<Rightarrow> loop" where
  "refresh_registration env s =
     (let st = lo_status s;
          g = snd (run_state (on_refresh_request (lv_refresh env) (lv_enabled env))
                \<lparr>sg_watch = st_sms st, sg_modem = gu_modem (st_gps st), sg_log = lo_refresh s\<rparr>)
      in s\<lparr>lo_status := snd (on_recovery (lv_round env) (State_Monad.set (sg_modem g)) (st\<lparr>st_sms := sg_watch g\<rparr>)),
           lo_refresh := sg_log g\<rparr>)"

definition poll_messages :: "loop_env \<Rightarrow> loop \<Rightarrow> loop" where
  "poll_messages env s =
     (if sw_present (st_sms (lo_status s)) then
        (case sv_find (lv_round env) of
           None \<Rightarrow> s
         | Some path \<Rightarrow> s\<lparr>lo_status := (lo_status s)\<lparr>st_sms := log_watch [Drained path] (st_sms (lo_status s))\<rparr>\<rparr>)
      else s)"

definition query_cell :: "loop_env \<Rightarrow> loop \<Rightarrow> loop" where
  "query_cell env s =
     (let cur = pb_last (st_pub (lo_status s)) in
      if lv_cell_on env \<and> \<not> gs_hasValidFix (gps_of (st_gps (lo_status s))) \<and> stStatus cur = ''connected''
      then s\<lparr>lo_cell := queryCellLocation ((lv_cell env)\<lparr>cv_tech := stAccessTech cur\<rparr>) (lo_cell s)\<rparr>
      else s)"

definition on_ticker :: "loop_env \<Rightarrow> loop \<Rightarrow> loop" where
  "on_ticker env s =
     (let s1 = s\<lparr>lo_inbox := snd (publishInboxLocked (lv_redis env) (lv_list env) (lv_now env) (lv_forward env) (lo_inbox s))\<rparr>
      in if \<not> lv_enabled env then s1 else poll_messages env (status_round env s1))"

fun loop_step :: "loop_env \<Rightarrow> loop_event \<Rightarrow> loop \<Rightarrow> loop" where
  "loop_step env RefreshRequest s = refresh_registration env s"
| "loop_step env StateChange s =
     (case reconcile_target env s of (again, s1) \<Rightarrow> if again then status_round env s1 else s1)"
| "loop_step env ModemSeen s = (if \<not> lv_enabled env then s else status_round env s)"
| "loop_step env Ticker s = on_ticker env s"
| "loop_step env CellTimer s = (if \<not> lv_enabled env then s else query_cell env s)"
| "loop_step env GpsTimer s =
     s\<lparr>lo_status := (lo_status s)\<lparr>st_gps := gps_tick ((lv_tick env)\<lparr>tk_modemEnabled := lv_enabled env\<rparr>) (st_gps (lo_status s))\<rparr>\<rparr>"

definition monitor_run :: "(loop_env \<times> loop_event) list \<Rightarrow> loop \<Rightarrow> loop" where
  "monitor_run evs s = fold (\<lambda>(env, e). loop_step env e) evs s"

section \<open>The start\<close>

text \<open>
  \<open>Run\<close> up to the start of the monitor: the flag is read before the modem is ensured, after a failure and for the
  inhibitor (\<open>enabled1\<close> to \<open>enabled3\<close>). It ends the service when there is neither interface nor modem.
\<close>

definition start_service :: "bool \<Rightarrow> bool \<Rightarrow> bool \<Rightarrow> bool \<Rightarrow> bool \<Rightarrow> loop_env \<Rightarrow> loop \<Rightarrow> loop option" where
  "start_service enabled1 enabled2 enabled3 interfacePresent modemPresent env s =
     (case (if enabled1 then ensure_modem env s else (True, s)) of
        (ok, s1) \<Rightarrow>
          if \<not> ok \<and> enabled2 \<and> \<not> interfacePresent \<and> \<not> modemPresent then None
          else Some (if enabled3 then s1\<lparr>lo_inhibitor := snd (AddModemInhibitor (fst (lv_inhibit env)) (snd (lv_inhibit env)) (lo_inhibitor s1))\<rparr>
                     else s1))"

text \<open>\<open>monitorStatus\<close> up to its loop.\<close>

definition monitor_start :: "loop_env \<Rightarrow> loop \<Rightarrow> loop" where
  "monitor_start env s =
     (if lv_enabled env then status_round env (s\<lparr>lo_applied := True\<rparr>) else disable_modem env (s\<lparr>lo_applied := False\<rparr>))"

section \<open>What the steps leave alone\<close>

abbreviation modem_of :: "loop \<Rightarrow> recovery" where "modem_of s \<equiv> gu_modem (st_gps (lo_status s))"

lemma note_loop_fields [simp]:
  "lo_status (note_loop es s) = lo_status s" "lo_log (note_loop es s) = lo_log s @ es" "lo_applied (note_loop es s) = lo_applied s"
  "lo_refresh (note_loop es s) = lo_refresh s" "lo_cell (note_loop es s) = lo_cell s"
  by (simp_all add: note_loop_def)

lemma leave_gps_modem [simp]: "gu_modem (leave_gps ok now g) = gu_modem g"
  by (simp add: leave_gps_def close_gps_def log_gps_def Let_def)

lemma stop_watch_log [simp]: "sw_log (reconcileSMSPresence env '''' w) = sw_log w"
  by (simp add: reconcileSMSPresence_def smsPresenceTransition_def stopSMSWatch_def cancel_watch_def Let_def split: option.split)

lemma disable_fields [simp]:
  "modem_of (disable_modem env s) = modem_of s" "st_calls (lo_status (disable_modem env s)) = st_calls (lo_status s)"
  "st_dog (lo_status (disable_modem env s)) = st_dog (lo_status s)" "st_sim (lo_status (disable_modem env s)) = st_sim (lo_status s)"
  "sw_log (st_sms (lo_status (disable_modem env s))) = sw_log (st_sms (lo_status s))"
  "lo_refresh (disable_modem env s) = lo_refresh s" "lo_cell (disable_modem env s) = lo_cell s"
  "lo_applied (disable_modem env s) = lo_applied s"
  by (simp_all add: disable_modem_def Let_def split: prod.split)

lemma disable_log: "\<exists>b. lo_log (disable_modem env s) = lo_log s @ [PoweredOff (lv_off env), Flushed b, Released]"
  by (simp add: disable_modem_def Let_def split: prod.split)

lemma round_fields [simp]:
  "lo_log (status_round env s) = lo_log s" "lo_applied (status_round env s) = lo_applied s"
  "lo_refresh (status_round env s) = lo_refresh s" "lo_cell (status_round env s) = lo_cell s"
  by (simp_all add: status_round_def)

lemma other_fields [simp]:
  "lo_log (refresh_registration env s) = lo_log s" "lo_applied (refresh_registration env s) = lo_applied s"
  "lo_log (on_ticker env s) = lo_log s" "lo_applied (on_ticker env s) = lo_applied s"
  "lo_log (query_cell env s) = lo_log s" "lo_applied (query_cell env s) = lo_applied s"
  "lo_status (query_cell env s) = lo_status s"
  by (auto simp: refresh_registration_def on_ticker_def poll_messages_def query_cell_def Let_def split: option.split)

text \<open>An operation that changes nothing but the log of calls, and resets nothing, changes nothing else.\<close>

lemma quiet_recovery:
  assumes "run_state m (gu_modem (st_gps s)) = (x, r)"
    and "set (drop (length (rc_log (gu_modem (st_gps s)))) (rc_log r)) \<inter> {CResetApnRetry, CResetGPS, CRearmSMS} = {}"
  shows "on_recovery env m s = (x, s\<lparr>st_gps := (st_gps s)\<lparr>gu_modem := r\<rparr>\<rparr>)"
  using assms by (auto simp: on_recovery_def on_modem_def Let_def)

lemma no_recovery: "snd (on_recovery env (State_Monad.set (gu_modem (st_gps s))) s) = s"
  by (subst quiet_recovery [where x = "()" and r = "gu_modem (st_gps s)"]) (simp_all add: State_Monad.set_def)

section \<open>A disabled modem\<close>

definition untouched :: "loop \<Rightarrow> loop \<Rightarrow> bool" where
  "untouched s t \<longleftrightarrow> modem_of t = modem_of s \<and> st_calls (lo_status t) = st_calls (lo_status s)
     \<and> st_sim (lo_status t) = st_sim (lo_status s) \<and> st_dog (lo_status t) = st_dog (lo_status s)
     \<and> sw_log (st_sms (lo_status t)) = sw_log (st_sms (lo_status s))
     \<and> lo_refresh t = lo_refresh s \<and> lo_cell t = lo_cell s"

lemma refresh_when_off: "\<not> lv_enabled env \<Longrightarrow> refresh_registration env s = s"
  using no_recovery by (simp add: refresh_registration_def on_refresh_request_def Let_def)

lemma tick_when_off: "gps_tick (env\<lparr>tk_modemEnabled := False\<rparr>) s = s"
  by (simp add: gps_tick_def)

lemma step_when_off: "untouched s (loop_step (env\<lparr>lv_enabled := False\<rparr>) e s)"
  by (cases e) (simp_all add: untouched_def refresh_when_off reconcile_target_def on_ticker_def tick_when_off)

definition while_off :: "(loop_env \<times> loop_event) list \<Rightarrow> (loop_env \<times> loop_event) list" where
  "while_off evs = map (\<lambda>(env, e). (env\<lparr>lv_enabled := False\<rparr>, e)) evs"

text \<open>
  C5. A disabled modem is left alone: whatever events reach the monitor while the modem is disabled, ticks, signals
  of the bus, refresh requests and timers, its record of health and recovery stays as it is with nothing started,
  reset or probed, and no AT command, PIN, SMS command, APN change, registration refresh or cell query is sent.
\<close>

theorem disabled_modem_is_left_alone: "untouched s (monitor_run (while_off evs) s)"
proof (induction evs arbitrary: s)
  case Nil
  show ?case by (simp add: monitor_run_def while_off_def untouched_def)
next
  case (Cons ev evs)
  obtain env e where ev: "ev = (env, e)" by fastforce
  show ?case
    using step_when_off [of s env e] Cons [of "loop_step (env\<lparr>lv_enabled := False\<rparr>) e s"]
    by (simp add: monitor_run_def while_off_def ev untouched_def)
qed

section \<open>Enabling\<close>

text \<open>What \<open>appliedModemEnabled\<close> is after the notes of a run; \<open>None\<close> if a modem that is on was enabled again.\<close>

fun applied_after :: "bool \<Rightarrow> loop_note list \<Rightarrow> bool option" where
  "applied_after a [] = Some a"
| "applied_after a (PoweredOff _ # es) = applied_after False es"
| "applied_after a (Ensured r # es) = (if a then None else applied_after (ensured r) es)"
| "applied_after a (_ # es) = applied_after a es"

lemma applied_after_append:
  "applied_after a es = Some b \<Longrightarrow> applied_after a (es @ fs) = applied_after b fs"
  by (induction a es rule: applied_after.induct) (auto split: if_splits)

lemma step_applied:
  "\<exists>es. lo_log (loop_step env e s) = lo_log s @ es \<and> applied_after (lo_applied s) es = Some (lo_applied (loop_step env e s))"
proof (cases e)
  case StateChange
  show ?thesis
  proof (cases "lv_enabled env")
    case False
    obtain b where "lo_log (disable_modem env (s\<lparr>lo_applied := False\<rparr>)) = lo_log s @ [PoweredOff (lv_off env), Flushed b, Released]"
      using disable_log [of env "s\<lparr>lo_applied := False\<rparr>"] by auto
    then show ?thesis using False by (simp add: StateChange reconcile_target_def)
  next
    case True
    obtain r st where r: "on_recovery (lv_round env) (ensureModemEnabled (lv_ensure env)) (lo_status s) = (r, st)" by fastforce
    show ?thesis using True
      by (cases "ensured r"; cases "lo_applied s") (simp_all add: StateChange reconcile_target_def ensure_modem_def r)
  qed
qed simp_all

text \<open>
  C39. The modem is enabled at most once between two power-offs: over any events and changes of the flag, the
  attempts to enable it and the power-offs alternate as \<open>applied_after\<close> says, which is what
  \<open>appliedModemEnabled\<close> remembers; an attempt is made only while no attempt has succeeded since the last power-off.
\<close>

theorem enabled_once_per_power_off:
  "\<exists>es. lo_log (monitor_run evs s) = lo_log s @ es \<and> applied_after (lo_applied s) es = Some (lo_applied (monitor_run evs s))"
proof (induction evs arbitrary: s)
  case Nil
  show ?case by (simp add: monitor_run_def)
next
  case (Cons ev evs)
  obtain env e where ev: "ev = (env, e)" by fastforce
  obtain es where es: "lo_log (loop_step env e s) = lo_log s @ es"
    "applied_after (lo_applied s) es = Some (lo_applied (loop_step env e s))" using step_applied by blast
  obtain fs where "lo_log (monitor_run evs (loop_step env e s)) = lo_log (loop_step env e s) @ fs"
    "applied_after (lo_applied (loop_step env e s)) fs = Some (lo_applied (monitor_run evs (loop_step env e s)))" using Cons by blast
  moreover have "monitor_run (ev # evs) s = monitor_run evs (loop_step env e s)" by (simp add: monitor_run_def ev)
  ultimately show ?case using es applied_after_append [OF es(2)] by (intro exI [of _ "es @ fs"]) simp
qed

section \<open>A start that failed\<close>

definition heavy :: "rec_call \<Rightarrow> bool" where "heavy c \<longleftrightarrow> is_action c \<or> c = CStart"

text \<open>The modem is not found on the bus, whenever it is looked for.\<close>

definition never_found :: "loop_env \<Rightarrow> bool" where
  "never_found env \<longleftrightarrow> (\<forall>h. \<not> rv_ok (sv_rec (lv_round env)) h CFind)"

text \<open>What stays: the final state, the work done on the modem, the attempts to enable it.\<close>

definition at_rest :: "loop \<Rightarrow> loop \<Rightarrow> bool" where
  "at_rest s t \<longleftrightarrow> terminal (lo_status t) \<and> lo_applied t \<and> lo_log t = lo_log s
     \<and> filter heavy (rc_log (modem_of t)) = filter heavy (rc_log (modem_of s))"

lemma terminal_check:
  assumes "terminal st" and "\<And>h. \<not> rv_ok env h CFind"
  shows "\<exists>x l. run_state (checkHealth env) (gu_modem (st_gps st)) = (x, (gu_modem (st_gps st))\<lparr>rc_log := rc_log (gu_modem (st_gps st)) @ l\<rparr>)
    \<and> set l \<subseteq> {CFind} \<and> \<not> no_error x"
proof (cases "rv_stopped env (rc_log (gu_modem (st_gps st)))")
  case True
  then show ?thesis by (intro exI [of _ RecStopped] exI [of _ "[]"]) (simp add: checkHealth_def ask_def no_error_def)
next
  case False
  then show ?thesis using assms
    by (intro exI [of _ RecTerminal] exI [of _ "[CFind]"])
      (simp add: checkHealth_def ask_def probeHealth_def perform_def get_health_def State_Monad.get_def terminal_def no_error_def)
qed

lemma show_health_modem:
  "gu_modem (st_gps (snd (show_health env s)))
     = (gu_modem (st_gps s))\<lparr>rc_log := rc_log (gu_modem (st_gps s)) @ [CPublishHealth (hl_State (rc_health (gu_modem (st_gps s))))]\<rparr>"
  by (simp add: show_health_def on_recovery_def on_modem_def get_health_def perform_def State_Monad.get_def Let_def split: prod.split)

lemma show_state_modem [simp]: "st_gps (snd (show_state env cur i s)) = st_gps s"
  by (simp add: show_state_def split: prod.split)

lemma terminal_round:
  assumes "terminal (lo_status s)" and "never_found env"
  shows "\<exists>l. modem_of (status_round env s) = (modem_of s)\<lparr>rc_log := rc_log (modem_of s) @ l\<rparr> \<and> filter heavy l = []"
proof -
  obtain x l where l: "run_state (checkHealth (sv_rec (lv_round env))) (modem_of s) = (x, (modem_of s)\<lparr>rc_log := rc_log (modem_of s) @ l\<rparr>)"
    "set l \<subseteq> {CFind}" "\<not> no_error x"
    using terminal_check [OF assms(1), of "sv_rec (lv_round env)"] assms(2) by (auto simp: never_found_def)
  define t where "t = (lo_status s)\<lparr>st_gps := (st_gps (lo_status s))\<lparr>gu_modem := (modem_of s)\<lparr>rc_log := rc_log (modem_of s) @ l\<rparr>\<rparr>\<rparr>"
  have "on_recovery (lv_round env) (checkHealth (sv_rec (lv_round env))) (lo_status s) = (x, t)"
    unfolding t_def by (rule quiet_recovery) (use l in auto)
  then have "lo_status (status_round env s) = give_up (lv_round env) NewState t"
    using l(3) by (simp add: status_round_def checkAndPublishModemStatus_def)
  moreover have "filter heavy l = []" using l(2) by (auto simp: filter_empty_conv heavy_def)
  ultimately show ?thesis
    by (intro exI [of _ "l @ [CPublishHealth (hl_State (rc_health (modem_of s)))]"])
      (simp add: give_up_def show_health_modem t_def heavy_def)
qed

lemma terminal_round_rests: "terminal (lo_status s) \<Longrightarrow> lo_applied s \<Longrightarrow> never_found env \<Longrightarrow> at_rest s (status_round env s)"
  using terminal_round [of s env] by (auto simp: at_rest_def terminal_def)

lemma at_rest_trans: "at_rest s t \<Longrightarrow> at_rest t u \<Longrightarrow> at_rest s u"
  by (simp add: at_rest_def)

lemma poll_rests: "at_rest s t \<Longrightarrow> at_rest s (poll_messages env t)"
  by (auto simp: at_rest_def poll_messages_def terminal_def split: option.split)

lemma terminal_step_rests:
  assumes "terminal (lo_status s)" "lo_applied s" "lv_enabled env" "never_found env" "e \<noteq> RefreshRequest"
  shows "at_rest s (loop_step env e s)"
proof -
  note rest = terminal_round_rests [OF assms(1,2,4)]
  have now: "at_rest s s" using assms by (simp add: at_rest_def)
  show ?thesis
  proof (cases e)
    case Ticker
    define s1 where "s1 = s\<lparr>lo_inbox := snd (publishInboxLocked (lv_redis env) (lv_list env) (lv_now env) (lv_forward env) (lo_inbox s))\<rparr>"
    have "at_rest s1 (status_round env s1)" using assms by (intro terminal_round_rests) (simp_all add: s1_def)
    then have "at_rest s (status_round env s1)" by (simp add: at_rest_def s1_def)
    then show ?thesis using assms(3) by (simp add: Ticker on_ticker_def s1_def [symmetric] poll_rests Let_def)
  next
    case CellTimer
    then show ?thesis using assms now by (auto simp: query_cell_def at_rest_def Let_def)
  next
    case GpsTimer
    have "gps_tick env' (st_gps (lo_status s)) = st_gps (lo_status s)" for env'
      using assms(1) by (auto simp: gps_tick_def terminal_def IsTerminal_def)
    then show ?thesis using now by (simp add: GpsTimer)
  qed (use assms now rest in \<open>simp_all add: reconcile_target_def\<close>)
qed

lemma no_early_failure:
  "fst (run_state (already_up env) r) \<noteq> Some EnsureFailed" "fst (run_state (await_registration env) r) \<noteq> Some EnsureFailed"
  "fst (run_state (start_attempts env as) r) \<noteq> Some EnsureFailed"
proof -
  show "fst (run_state (already_up env) r) \<noteq> Some EnsureFailed"
    by (simp add: already_up_def perform_def split: prod.split)
  show "fst (run_state (await_registration env) r) \<noteq> Some EnsureFailed"
    by (simp add: await_registration_def perform_def ask_def split: prod.split)
  show "fst (run_state (start_attempts env as) r) \<noteq> Some EnsureFailed"
    by (induction as arbitrary: r) (simp_all add: perform_def ask_def split: prod.split)
qed

lemma failed_ensure_is_terminal:
  assumes "ensure_modem env s = (ok, t)" and "last (lo_log t) = Ensured EnsureFailed"
  shows "terminal (lo_status t)"
proof -
  obtain r m where m: "run_state (ensureModemEnabled (lv_ensure env)) (modem_of s) = (r, m)" by fastforce
  obtain r' st where st: "on_recovery (lv_round env) (ensureModemEnabled (lv_ensure env)) (lo_status s) = (r', st)" by fastforce
  have "r' = r" and health: "rc_health (gu_modem (st_gps st)) = rc_health m"
    using st m by (auto simp: on_recovery_def on_modem_def resetGPSAfterModemRecovery_def forget_gps_def close_gps_def
        log_gps_def on_gps_def Let_def split: if_splits)
  moreover have "r' = EnsureFailed" "lo_status t = st" using assms st by (auto simp: ensure_modem_def)
  moreover have "hl_State (rc_health m) = StatePermanentFailure" if "r = EnsureFailed"
  proof -
    obtain x a where x: "run_state (orelse (already_up (lv_ensure env)) (orelse (await_registration (lv_ensure env))
        (start_attempts (lv_ensure env) [0..<MaxRecoveryAttempts]))) (modem_of s) = (x, a)" by fastforce
    then have "x \<noteq> Some EnsureFailed"
      using no_early_failure by (auto simp: orelse_def split: prod.splits option.splits) (metis fst_conv)+
    then show ?thesis using m that x
      by (cases x) (auto simp: ensureModemEnabled_def on_health_def publishHealthState_def notify_def perform_def get_health_def
          State_Monad.update_def State_Monad.get_def State_Monad.set_def)
  qed
  ultimately show ?thesis by (simp add: terminal_def IsTerminal_def)
qed


section \<open>Witness\<close>

text \<open>An interface whose modem never answers.\<close>

definition dead_modem :: rec_env where
  "dead_modem = healthy_modem\<lparr>rv_ok := (\<lambda>_ _. False)\<rparr>"

definition dead_loop :: loop_env where
  "dead_loop = \<lparr>lv_enabled = True, lv_round = up_round\<lparr>sv_rec := dead_modem\<rparr>, lv_ensure = dead_modem, lv_refresh = sgs_world True,
     lv_located = True, lv_off = True, lv_flush = (\<lambda>_. False), lv_release = (True, True), lv_inhibit = (True, True), lv_now = 0,
     lv_redis = all_ok, lv_list = (\<lambda>_. True), lv_forward = ''off'', lv_cell_on = True, lv_cell = sample_query, lv_tick = tick_at 0\<rparr>"

definition first_loop :: loop where
  "first_loop = \<lparr>lo_status = quiet_status, lo_refresh = [], lo_cell = no_cell, lo_inbox = svc_init, lo_applied = False,
     lo_inhibitor = False, lo_log = []\<rparr>"


section \<open>The end\<close>

text \<open>\<open>Run\<close> after its context has ended and the goroutines are joined, up to the closing of the clients.\<close>

definition shutdown :: "loop_env \<Rightarrow> loop \<Rightarrow> loop" where
  "shutdown env s =
     (let st = lo_status s;
          st1 = st\<lparr>st_sms := stopSMSWatch ((st_sms st)\<lparr>sw_present := False\<rparr>)\<rparr>;
          st2 = st1\<lparr>st_gps := leave_gps (lv_located env) (lv_now env) (st_gps st1)\<rparr>;
          (c, f, err) = Usage_Flush (lv_flush env) (lv_now env) (st_counter st2) (st_files st2)
      in note_loop [Flushed (\<not> err), Released]
           (s\<lparr>lo_status := st2\<lparr>st_counter := c, st_files := f\<rparr>,
              lo_inhibitor := snd (RemoveModemInhibitor (fst (lv_release env)) (snd (lv_release env)) (lo_inhibitor s))\<rparr>))"

definition gps_hash :: "loop \<Rightarrow> string \<Rightarrow> status_value option" where
  "gps_hash s = gh_hash (gu_server (st_gps (lo_status s)))"

lemma leave_gps_hash:
  "gh_hash (gu_server (leave_gps ok now g)) =
     (if ok then gh_hash (gu_server g) ++ map_of (off_fields @ [(''updated'', SText (rfc3339 now))]) else gh_hash (gu_server g))"
  by (simp add: leave_gps_def close_gps_def log_gps_def PublishLocationState_def Let_def)

lemma off_hash:
  "(h ++ map_of (off_fields @ [(''updated'', SText t)])) ''latitude'' = h ''latitude''"
  "(h ++ map_of (off_fields @ [(''updated'', SText t)])) ''longitude'' = h ''longitude''"
  "(h ++ map_of (off_fields @ [(''updated'', SText t)])) ''active'' = Some (SBool False)"
  "(h ++ map_of (off_fields @ [(''updated'', SText t)])) ''fix'' = Some (SText ''none'')"
  by (simp_all add: off_fields_def map_add_def)

lemma disable_hash: "gps_hash (disable_modem env s) = gh_hash (gu_server (leave_gps (lv_located env) (lv_now env) (st_gps (lo_status s))))"
  by (simp add: gps_hash_def disable_modem_def Let_def split: prod.split)

lemma shutdown_hash: "gps_hash (shutdown env s) = gh_hash (gu_server (leave_gps (lv_located env) (lv_now env) (st_gps (lo_status s))))"
  by (simp add: gps_hash_def shutdown_def Let_def split: prod.split)

text \<open>
   The last position outlives the power: switching the modem off and ending the service keep the latitude and
  longitude that the server shows, and when the server takes the write they show no fix and an inactive receiver
  beside them, so that nobody takes the position for a current one.
\<close>

theorem last_position_kept:
  assumes "t = disable_modem env s \<or> t = shutdown env s"
  shows "gps_hash t ''latitude'' = gps_hash s ''latitude'' \<and> gps_hash t ''longitude'' = gps_hash s ''longitude''
    \<and> (lv_located env \<longrightarrow> gps_hash t ''active'' = Some (SBool False) \<and> gps_hash t ''fix'' = Some (SText ''none''))"
proof -
  have "gps_hash t = gh_hash (gu_server (leave_gps (lv_located env) (lv_now env) (st_gps (lo_status s))))"
    using assms disable_hash shutdown_hash by blast
  then show ?thesis by (simp add: leave_gps_hash off_hash gps_hash_def del: map_of_append)
qed

lemma last_position_kept_witness:
  "gps_hash (shutdown dead_loop first_loop) ''latitude'' = gps_hash first_loop ''latitude''"
  using last_position_kept [of "shutdown dead_loop first_loop" dead_loop first_loop] by simp

end
