(* ===== verification/MM_Calls.thy ===== *)
theory MM_Calls
  imports MM_Client
begin

text \<open>
  From \<open>internal/mm/client.go\<close>: the requests that the client sends to ModemManager, each with the line it leaves in
  the debug log, and the reading of the answers that carry a value.
\<close>

section \<open>Requests\<close>

definition ModemLocationInterface :: string where "ModemLocationInterface = ''org.freedesktop.ModemManager1.Modem.Location''"
definition ModemVoiceInterface :: string where "ModemVoiceInterface = ''org.freedesktop.ModemManager1.Modem.Voice''"
definition CallInterface :: string where "CallInterface = ''org.freedesktop.ModemManager1.Call''"
definition SmsInterface :: string where "SmsInterface = ''org.freedesktop.ModemManager1.Sms''"

lemmas interface_defs = ModemLocationInterface_def ModemVoiceInterface_def CallInterface_def SmsInterface_def iface_defs

text \<open>A request: the object, the method with its interface, the arguments. A line of the log shows arguments or hides them.\<close>

record request =
  rq_path :: object_path
  rq_method :: string
  rq_args :: "variant list"

datatype log_line = ShowsArgs string "variant list" | Redacted string | RedactedPin string bool | Silent

definition method_of :: "string \<Rightarrow> string \<Rightarrow> string" where "method_of iface name = iface @ ''.'' @ name"

definition CallMethod :: "object_path \<Rightarrow> string \<Rightarrow> string \<Rightarrow> variant list \<Rightarrow> request \<times> log_line" where
  "CallMethod path iface name args =
     (let full = method_of iface name in
      (\<lparr>rq_path = path, rq_method = full, rq_args = args\<rparr>,
       if iface = ModemMessagingInterface \<and> name = ''Create'' then Redacted full else ShowsArgs full args))"

section \<open>Modem and SIM\<close>

definition Enable :: "object_path \<Rightarrow> bool \<Rightarrow> request \<times> log_line" where
  "Enable modemPath enable = CallMethod modemPath ModemInterface ''Enable'' [VBool enable]"

definition Reset :: "object_path \<Rightarrow> request \<times> log_line" where
  "Reset modemPath = CallMethod modemPath ModemInterface ''Reset'' []"

definition SendPin :: "object_path \<Rightarrow> string \<Rightarrow> request \<times> log_line" where
  "SendPin simPath pin =
     (\<lparr>rq_path = simPath, rq_method = method_of SimInterface ''SendPin'', rq_args = [VString pin]\<rparr>,
      Redacted (method_of SimInterface ''SendPin''))"

definition EnablePin :: "object_path \<Rightarrow> string \<Rightarrow> bool \<Rightarrow> request \<times> log_line" where
  "EnablePin simPath pin enabled =
     (\<lparr>rq_path = simPath, rq_method = method_of SimInterface ''EnablePin'', rq_args = [VString pin, VBool enabled]\<rparr>,
      RedactedPin (method_of SimInterface ''EnablePin'') enabled)"

definition eps_request :: "object_path \<Rightarrow> dict \<Rightarrow> request \<times> log_line" where
  "eps_request modemPath settings =
     (\<lparr>rq_path = modemPath, rq_method = method_of Modem3gppInterface ''SetInitialEpsBearerSettings'', rq_args = [VDict settings]\<rparr>,
      Redacted (method_of Modem3gppInterface ''SetInitialEpsBearerSettings''))"

definition SetProperty :: "object_path \<Rightarrow> string \<Rightarrow> string \<Rightarrow> variant \<Rightarrow> bool \<Rightarrow> request \<times> log_line" where
  "SetProperty modemPath iface property v ok =
     (\<lparr>rq_path = modemPath, rq_method = method_of DBusPropertiesInterface ''Set'',
       rq_args = [VString iface, VString property, v]\<rparr>,
      if ok then ShowsArgs (method_of iface property) [v] else Silent)"

section \<open>Location\<close>

definition SetupLocation :: "object_path \<Rightarrow> u32 \<Rightarrow> bool \<Rightarrow> request \<times> log_line" where
  "SetupLocation modemPath sources signalLocation =
     CallMethod modemPath ModemLocationInterface ''Setup'' [VUInt32 sources, VBool signalLocation]"

definition SetSuplServer :: "object_path \<Rightarrow> string \<Rightarrow> request \<times> log_line" where
  "SetSuplServer modemPath server = CallMethod modemPath ModemLocationInterface ''SetSuplServer'' [VString server]"

definition GetLocation :: "object_path \<Rightarrow> request \<times> log_line" where
  "GetLocation modemPath = CallMethod modemPath ModemLocationInterface ''GetLocation'' []"

definition SetGPSRefreshRate :: "object_path \<Rightarrow> u32 \<Rightarrow> request \<times> log_line" where
  "SetGPSRefreshRate modemPath seconds = CallMethod modemPath ModemLocationInterface ''SetGpsRefreshRate'' [VUInt32 seconds]"

text \<open>\<open>None\<close> is an error, of the read or of the type.\<close>

definition GetLocationCapabilities :: "prop_reader \<Rightarrow> object_path \<Rightarrow> u32 option" where
  "GetLocationCapabilities prop modemPath = assert_uint32 (prop modemPath ModemLocationInterface ''Capabilities'')"

definition GetEnabledLocationSources :: "prop_reader \<Rightarrow> object_path \<Rightarrow> u32 option" where
  "GetEnabledLocationSources prop modemPath = assert_uint32 (prop modemPath ModemLocationInterface ''Enabled'')"

definition GetSuplServer :: "prop_reader \<Rightarrow> object_path \<Rightarrow> string option" where
  "GetSuplServer prop modemPath =
     (case prop modemPath ModemLocationInterface ''SuplServer'' of Some (VString server) \<Rightarrow> Some server | _ \<Rightarrow> None)"

section \<open>Calls and messages\<close>

definition CreateCall :: "object_path \<Rightarrow> string \<Rightarrow> request \<times> log_line" where
  "CreateCall modemPath number = CallMethod modemPath ModemVoiceInterface ''CreateCall'' [VDict [(''number'', VString number)]]"

text \<open>The calls on a call object go past \<open>CallMethod\<close> and are not logged.\<close>

definition StartCall :: "object_path \<Rightarrow> request \<times> log_line" where
  "StartCall callPath = (\<lparr>rq_path = callPath, rq_method = method_of CallInterface ''Start'', rq_args = []\<rparr>, Silent)"

definition HangupCall :: "object_path \<Rightarrow> request \<times> log_line" where
  "HangupCall callPath = (\<lparr>rq_path = callPath, rq_method = method_of CallInterface ''Hangup'', rq_args = []\<rparr>, Silent)"

definition DeleteCall :: "object_path \<Rightarrow> object_path \<Rightarrow> request \<times> log_line" where
  "DeleteCall modemPath callPath = CallMethod modemPath ModemVoiceInterface ''DeleteCall'' [VPath callPath]"

definition ListSMS :: "object_path \<Rightarrow> request \<times> log_line" where
  "ListSMS modemPath = CallMethod modemPath ModemMessagingInterface ''List'' []"

definition storage_request :: "object_path \<Rightarrow> u32 \<Rightarrow> request \<times> log_line" where
  "storage_request modemPath storage = CallMethod modemPath ModemMessagingInterface ''SetDefaultStorage'' [VUInt32 storage]"

definition CreateSMS :: "object_path \<Rightarrow> string \<Rightarrow> string \<Rightarrow> request \<times> log_line" where
  "CreateSMS modemPath number text' =
     CallMethod modemPath ModemMessagingInterface ''Create'' [VDict [(''number'', VString number), (''text'', VString text')]]"

definition DeleteSMS :: "object_path \<Rightarrow> object_path \<Rightarrow> request \<times> log_line" where
  "DeleteSMS modemPath smsPath = CallMethod modemPath ModemMessagingInterface ''Delete'' [VPath smsPath]"

definition SendSMS :: "object_path \<Rightarrow> request \<times> log_line" where
  "SendSMS smsPath = CallMethod smsPath SmsInterface ''Send'' []"

text \<open>
  The answers with a value: the error of the call, or that of storing an answer of another type. A path that cannot
  be stored leaves the empty path beside its error.
\<close>

definition path_answer :: "dbus_error + variant list \<Rightarrow> object_path \<times> bool" where
  "path_answer reply = (case reply of Inr [VPath p] \<Rightarrow> (p, True) | _ \<Rightarrow> ('''', False))"

definition paths_answer :: "dbus_error + variant list \<Rightarrow> object_path list \<times> bool" where
  "paths_answer reply = (case reply of Inr [VPaths ps] \<Rightarrow> (ps, True) | _ \<Rightarrow> ([], False))"

section \<open>All requests\<close>

datatype mm_op =
    OpEnable object_path bool | OpReset object_path | OpSendPin object_path string | OpEnablePin object_path string bool
  | OpSetEps object_path dict | OpSetup object_path u32 bool | OpSetSupl object_path string | OpGetLocation object_path
  | OpRefreshRate object_path u32 | OpCreateCall object_path string | OpStartCall object_path | OpHangupCall object_path
  | OpDeleteCall object_path object_path | OpListSMS object_path | OpStorage object_path u32
  | OpCreateSMS object_path string string | OpDeleteSMS object_path object_path | OpSendSMS object_path

fun issue :: "mm_op \<Rightarrow> request \<times> log_line" where
  "issue (OpEnable p b) = Enable p b"
| "issue (OpReset p) = Reset p"
| "issue (OpSendPin p pin) = SendPin p pin"
| "issue (OpEnablePin p pin b) = EnablePin p pin b"
| "issue (OpSetEps p d) = eps_request p d"
| "issue (OpSetup p n b) = SetupLocation p n b"
| "issue (OpSetSupl p s) = SetSuplServer p s"
| "issue (OpGetLocation p) = GetLocation p"
| "issue (OpRefreshRate p n) = SetGPSRefreshRate p n"
| "issue (OpCreateCall p n) = CreateCall p n"
| "issue (OpStartCall p) = StartCall p"
| "issue (OpHangupCall p) = HangupCall p"
| "issue (OpDeleteCall p c) = DeleteCall p c"
| "issue (OpListSMS p) = ListSMS p"
| "issue (OpStorage p n) = storage_request p n"
| "issue (OpCreateSMS p n t) = CreateSMS p n t"
| "issue (OpDeleteSMS p s) = DeleteSMS p s"
| "issue (OpSendSMS p) = SendSMS p"

text \<open>A request without its secrets: the PIN, the credentials of the attach settings, the recipient and text of a message.\<close>

fun without_secrets :: "mm_op \<Rightarrow> mm_op" where
  "without_secrets (OpSendPin p pin) = OpSendPin p ''''"
| "without_secrets (OpEnablePin p pin b) = OpEnablePin p '''' b"
| "without_secrets (OpSetEps p d) = OpSetEps p []"
| "without_secrets (OpCreateSMS p n t) = OpCreateSMS p '''' ''''"
| "without_secrets op = op"

lemmas request_defs = Enable_def Reset_def SendPin_def EnablePin_def eps_request_def SetupLocation_def SetSuplServer_def
  GetLocation_def SetGPSRefreshRate_def CreateCall_def StartCall_def HangupCall_def DeleteCall_def ListSMS_def
  storage_request_def CreateSMS_def DeleteSMS_def SendSMS_def CallMethod_def

lemma log_without_secrets: "snd (issue op) = snd (issue (without_secrets op))"
  by (cases op) (simp_all add: request_defs Let_def)

text \<open>The methods are told apart by their names; the interface is a prefix without the rest.\<close>

lemma issue_inj: "fst (issue a) = fst (issue b) \<Longrightarrow> a = b"
  by (cases a; cases b; simp add: request_defs Let_def method_of_def interface_defs)

text \<open>
   Secrets reach the modem and not the log: two different requests of the client are different messages on the
  bus, so every argument is passed on, while the line in the log is that of the request without its PIN, its attach
  credentials, the recipient and the text of its message.
\<close>

theorem secrets_are_sent_not_logged:
  "(fst (issue a) = fst (issue b)) = (a = b) \<and> snd (issue a) = snd (issue (without_secrets a))"
  using issue_inj log_without_secrets by blast

end
