(* ===== verification/Signal_Watch.thy ===== *)
theory Signal_Watch
  imports MM_Client "HOL-Library.Multiset"
begin

text \<open>
  From \<open>internal/mm/watch.go\<close>: a watch on signals of the bus, its registration, its loop and its removal. The match
  rules held by the bus are counted, since two watches may ask for the same rule; a channel that is registered
  receives the signals. That \<open>RemoveMatch\<close> gives back one count of a rule that is held is the bus's documented
  behaviour; its answer is not looked at by the code either.
\<close>

section \<open>The bus\<close>

record bus =
  bs_channels :: "nat multiset"
  bs_rules :: "string multiset"

definition bus_plus :: "bus \<Rightarrow> bus \<Rightarrow> bus" where
  "bus_plus a b = \<lparr>bs_channels = bs_channels a + bs_channels b, bs_rules = bs_rules a + bs_rules b\<rparr>"

definition removeSignalWatch :: "nat \<Rightarrow> string list \<Rightarrow> bus \<Rightarrow> bus" where
  "removeSignalWatch signals rules b =
     \<lparr>bs_channels = bs_channels b - {#signals#}, bs_rules = bs_rules b - mset rules\<rparr>"

text \<open>The calls of \<open>AddMatch\<close>, answered by their position, until one fails.\<close>

fun add_rules :: "(nat \<Rightarrow> bool) \<Rightarrow> string list \<Rightarrow> string list \<Rightarrow> bus \<Rightarrow> bool \<times> string list \<times> bus" where
  "add_rules ok added [] b = (True, added, b)"
| "add_rules ok added (rule # rules) b =
     (if \<not> ok (length added) then (False, added, b)
      else add_rules ok (added @ [rule]) rules (b\<lparr>bs_rules := add_mset rule (bs_rules b)\<rparr>))"

text \<open>The value is the list of rules with which the loop is started, or \<open>None\<close> for an error.\<close>

definition watchSignals :: "bool \<Rightarrow> (nat \<Rightarrow> bool) \<Rightarrow> nat \<Rightarrow> string list \<Rightarrow> bus \<Rightarrow> string list option \<times> bus" where
  "watchSignals cancelled ok signals rules b =
     (if cancelled then (None, b)
      else case add_rules ok [] rules (b\<lparr>bs_channels := add_mset signals (bs_channels b)\<rparr>) of
        (True, added, b1) \<Rightarrow> (Some added, b1)
      | (False, added, b1) \<Rightarrow> (None, removeSignalWatch signals added b1))"

section \<open>The loop\<close>

text \<open>
  What the \<open>select\<close> picks: the end of the context, the closed channel, or a signal, which may be nil, with whether
  the context is cancelled by then. The loop runs until it ends; a list that is used up leaves it waiting.
\<close>

datatype pick = Done | Closed | Arrived "dbus_signal option" bool

fun watchSignalLoop :: "(dbus_signal \<Rightarrow> 'e list) \<Rightarrow> pick list \<Rightarrow> 'e list \<times> bool" where
  "watchSignalLoop handle [] = ([], False)"
| "watchSignalLoop handle (Done # ps) = ([], True)"
| "watchSignalLoop handle (Closed # ps) = ([], True)"
| "watchSignalLoop handle (Arrived s cancelled # ps) =
     (if cancelled then ([], True)
      else case watchSignalLoop handle ps of
        (es, ended) \<Rightarrow> ((case s of None \<Rightarrow> [] | Some sg \<Rightarrow> handle sg) @ es, ended))"

text \<open>A whole watch, during which the rest of the program adds \<open>others\<close> to the bus.\<close>

definition whole_watch ::
  "bool \<Rightarrow> (nat \<Rightarrow> bool) \<Rightarrow> nat \<Rightarrow> string list \<Rightarrow> (dbus_signal \<Rightarrow> 'e list) \<Rightarrow> pick list \<Rightarrow> bus \<Rightarrow> bus \<Rightarrow> 'e list \<times> bool \<times> bus" where
  "whole_watch cancelled ok signals rules handle picks others b =
     (case watchSignals cancelled ok signals rules b of
        (None, b1) \<Rightarrow> ([], True, bus_plus b1 others)
      | (Some added, b1) \<Rightarrow>
          (case watchSignalLoop handle picks of
             (es, ended) \<Rightarrow> (es, ended, if ended then removeSignalWatch signals added (bus_plus b1 others) else bus_plus b1 others)))"

section \<open>Lemmas\<close>

lemma add_rules_bus:
  "add_rules ok added rules b = (r, added', b') \<Longrightarrow>
     \<exists>new. added' = added @ new \<and> b' = b\<lparr>bs_rules := bs_rules b + mset new\<rparr> \<and> prefix new rules \<and> (r \<longrightarrow> new = rules)"
proof (induction ok added rules b rule: add_rules.induct)
  case (1 ok added b)
  then show ?case by (intro exI [of _ "[]"]) simp
next
  case (2 ok added rule rules b)
  show ?case
  proof (cases "ok (length added)")
    case True
    then obtain new where "added' = (added @ [rule]) @ new"
      "b' = b\<lparr>bs_rules := bs_rules b + mset (rule # new)\<rparr>" "prefix new rules" "r \<longrightarrow> new = rules"
      using 2 by auto
    then show ?thesis by (intro exI [of _ "rule # new"]) simp
  next
    case False
    then show ?thesis using 2 by (intro exI [of _ "[]"]) simp
  qed
qed

lemma watchSignals_bus:
  assumes "watchSignals cancelled ok signals rules b = (r, b')"
  shows "case r of None \<Rightarrow> b' = b
    | Some added \<Rightarrow> added = rules \<and> b' = \<lparr>bs_channels = add_mset signals (bs_channels b), bs_rules = bs_rules b + mset rules\<rparr>"
proof (cases cancelled)
  case True
  then show ?thesis using assms by (auto simp: watchSignals_def)
next
  case False
  obtain r0 added b1 where a: "add_rules ok [] rules (b\<lparr>bs_channels := add_mset signals (bs_channels b)\<rparr>) = (r0, added, b1)"
    by (metis prod_cases3)
  show ?thesis
    using add_rules_bus [OF a] assms False a
    by (cases r0) (auto simp: watchSignals_def removeSignalWatch_def)
qed

text \<open>What was handled before the context ended.\<close>

fun live_signals :: "pick list \<Rightarrow> dbus_signal list" where
  "live_signals (Arrived s False # ps) = (case s of None \<Rightarrow> [] | Some sg \<Rightarrow> [sg]) @ live_signals ps"
| "live_signals _ = []"

lemma loop_handles: "fst (watchSignalLoop handle ps) = concat (map handle (live_signals ps))"
  by (induction handle ps rule: watchSignalLoop.induct) (auto split: prod.splits option.splits)

text \<open>
  C40. A watch leaves nothing behind. Whether its registration is refused at any rule or it runs until its context
  ends or the connection closes, the bus then holds the channels and match rules that it held before, and those that
  the rest of the program has added since; while it runs it holds its rules once more. The signals that are handled
  are those that arrived before the context was cancelled, in their order, none after.
\<close>

theorem watch_leaves_bus_clean:
  "case whole_watch cancelled ok signals rules handle picks others b of
     (es, ended, b') \<Rightarrow>
       b' = (if ended then bus_plus b others
             else bus_plus \<lparr>bs_channels = add_mset signals (bs_channels b), bs_rules = bs_rules b + mset rules\<rparr> others)
       \<and> es = (if fst (watchSignals cancelled ok signals rules b) = None then [] else concat (map handle (live_signals picks)))"
proof -
  obtain r b1 where r: "watchSignals cancelled ok signals rules b = (r, b1)" by fastforce
  obtain es ended where l: "watchSignalLoop handle picks = (es, ended)" by fastforce
  have es: "es = concat (map handle (live_signals picks))" using loop_handles [of handle picks] l by simp
  show ?thesis
    using watchSignals_bus [OF r]
    by (cases r) (simp_all add: whole_watch_def r l es bus_plus_def removeSignalWatch_def ac_simps)
qed

end
